(* ===== verification/Prelude.thy ===== *)
theory Prelude
  imports Main "HOL-Library.Word"
begin

text \<open>
  Shared vocabulary of the development: the machine types of the C++ sources, the
  exceptions the program throws, computations that thread an object's state and may throw
  (a C++ member function), the combinators they are composed with, and the generic facts
  about them that the component theories rely on.

  A computation of type \<open>('s, 'a) comp\<close> is a member function on an object of type \<open>'s\<close>
  with result \<open>'a\<close>: it returns \<open>Inr\<close> of its result or \<open>Inl\<close> of the exception it throws,
  and in both cases the object as it leaves it. State changes made before a throw are kept, as
  in C++. \<^const>\<open>Inl\<close> also carries the ends of execution that no handler catches: a
  failed assertion, undefined behaviour, and a loop that used up its fuel.
\<close>

named_theorems comp_defs \<open>the definitions of the computation combinators\<close>
named_theorems keeps_intros \<open>introduction rules for what a computation preserves\<close>
named_theorems raises_intros \<open>introduction rules for what a computation may throw\<close>
named_theorems blind_intros \<open>introduction rules for computations that ignore the scratch pointer\<close>

subsection \<open>Machine types\<close>

type_synonym u8 = "8 word"
type_synonym u16 = "16 word"
type_synonym u32 = "32 word"
type_synonym u64 = "64 word"

text \<open>A raw C pointer or handle of a C library; 0 is the null pointer.\<close>

type_synonym ptr = nat

abbreviation (input) nullptr :: ptr where
  "nullptr \<equiv> 0"

text \<open>The range of a C++ \<open>int\<close> (32 bits on every target of the build files).\<close>

definition INT_MAX :: int where
  "INT_MAX = 2147483647"

definition INT_MIN :: int where
  "INT_MIN = - 2147483648"

definition in_int :: "int \<Rightarrow> bool" where
  "in_int i \<longleftrightarrow> INT_MIN \<le> i \<and> i \<le> INT_MAX"

lemma in_int_iff [simp]: "in_int i \<longleftrightarrow> - 2147483648 \<le> i \<and> i \<le> 2147483647"
  by (simp add: in_int_def INT_MAX_def INT_MIN_def)

subsection \<open>Exceptions\<close>

text \<open>The exception classes of the command line parser \<open>cxxopts\<close>, with what they are about.\<close>

datatype option_error =
    option_exists_error string
  | invalid_option_format_error string
  | option_syntax_exception string
  | option_not_exists_exception string
  | missing_argument_exception string
  | option_requires_argument_exception string
  | option_not_has_argument_exception string string
  | option_not_present_exception string
  | option_has_no_value_exception string
  | argument_incorrect_type string
  | option_required_exception string

text \<open>
  The exception classes of \<open>camera/CameraExceptions.h\<close>, of \<open>cxxopts\<close> and of \<open>restinio\<close> (its
  \<open>exception_t\<close>), the standard ones the program meets, and the three ends of execution no \<open>catch\<close> of the program sees.
\<close>

datatype exn =
    OptionException option_error
  | BadCast
  | CameraConnectionError string
  | WidgetReadOnlyError string
  | GPhotoError int
  | FilesystemError string int
  | InvalidArgument
  | OutOfRange
  | RangeError string
  | RestinioError string
  | BadAlloc
  | AssertionFailed
  | Undefined string
  | Diverged

text \<open>\<open>catch (CameraException& e)\<close> matches the classes derived from \<open>CameraException\<close>.\<close>

fun is_CameraException :: "exn \<Rightarrow> bool" where
  "is_CameraException (CameraConnectionError r) = True"
| "is_CameraException (WidgetReadOnlyError w) = True"
| "is_CameraException (GPhotoError c) = True"
| "is_CameraException _ = False"

fun is_undefined :: "exn \<Rightarrow> bool" where
  "is_undefined (Undefined w) = True"
| "is_undefined _ = False"

subsection \<open>Computations\<close>

type_synonym ('s, 'a) comp = "'s \<Rightarrow> (exn + 'a) \<times> 's"

definition ret :: "'a \<Rightarrow> ('s, 'a) comp" where
  [comp_defs]: "ret x = (\<lambda>s. (Inr x, s))"

definition raise :: "exn \<Rightarrow> ('s, 'a) comp" where
  [comp_defs]: "raise e = (\<lambda>s. (Inl e, s))"

definition bnd :: "('s, 'a) comp \<Rightarrow> ('a \<Rightarrow> ('s, 'b) comp) \<Rightarrow> ('s, 'b) comp" where
  [comp_defs]: "bnd m f = (\<lambda>s. case m s of
     (Inl e, t) \<Rightarrow> (Inl e, t)
   | (Inr x, t) \<Rightarrow> f x t)"

definition sq :: "('s, 'a) comp \<Rightarrow> ('s, 'b) comp \<Rightarrow> ('s, 'b) comp" where
  [comp_defs]: "sq m n = bnd m (\<lambda>_. n)"

text \<open>A field of the object read, and an assignment to it.\<close>

definition reads :: "('s \<Rightarrow> 'a) \<Rightarrow> ('s, 'a) comp" where
  [comp_defs]: "reads f = (\<lambda>s. (Inr (f s), s))"

definition modify :: "('s \<Rightarrow> 's) \<Rightarrow> ('s, unit) comp" where
  [comp_defs]: "modify f = (\<lambda>s. (Inr (), f s))"

text \<open>A pure function that may throw, used as a computation.\<close>

definition of_sum :: "exn + 'a \<Rightarrow> ('s, 'a) comp" where
  [comp_defs]: "of_sum r = (\<lambda>s. (r, s))"

text \<open>
  \<open>try m catch h\<close>: the handler \<open>h\<close> maps the exceptions it catches to the computation
  of its block, the others to \<^const>\<open>None\<close>, and these propagate.
\<close>

definition try_catch :: "('s, 'a) comp \<Rightarrow> (exn \<Rightarrow> ('s, 'a) comp option) \<Rightarrow> ('s, 'a) comp" where
  [comp_defs]: "try_catch m h = (\<lambda>s. case m s of
     (Inl e, t) \<Rightarrow> (case h e of None \<Rightarrow> (Inl e, t) | Some k \<Rightarrow> k t)
   | (Inr x, t) \<Rightarrow> (Inr x, t))"

text \<open>
  A local object with a destructor: the destructor's effect is run when the scope is left,
  normally or by an exception.
\<close>

definition with_destructor :: "('s, 'a) comp \<Rightarrow> ('s \<Rightarrow> 's) \<Rightarrow> ('s, 'a) comp" where
  [comp_defs]: "with_destructor m d = (\<lambda>s. case m s of (r, t) \<Rightarrow> (r, d t))"

text \<open>A member function of a member object, called on the enclosing object.\<close>

definition on_member ::
    "('s \<Rightarrow> 't) \<Rightarrow> (('t \<Rightarrow> 't) \<Rightarrow> 's \<Rightarrow> 's) \<Rightarrow> ('t, 'a) comp \<Rightarrow> ('s, 'a) comp" where
  [comp_defs]: "on_member sel upd m = (\<lambda>s. case m (sel s) of (r, t) \<Rightarrow> (r, upd (\<lambda>_. t) s))"

subsection \<open>Laws of the combinators\<close>

lemma bnd_ret [simp]: "bnd (ret x) f = f x"
  by (simp add: comp_defs)

lemma bnd_ret_right [simp]: "bnd m ret = m"
  by (rule ext) (auto simp: comp_defs split: prod.splits sum.splits)

lemma bnd_raise [simp]: "bnd (raise e) f = raise e"
  by (simp add: comp_defs)

lemma bnd_assoc: "bnd (bnd m f) g = bnd m (\<lambda>x. bnd (f x) g)"
  by (rule ext) (auto simp: comp_defs split: prod.splits sum.splits)

lemma ret_apply: "ret x s = (Inr x, s)"
  by (simp add: ret_def)

lemma raise_apply: "raise e s = (Inl e, s)"
  by (simp add: raise_def)

lemma reads_apply [simp]: "reads f s = (Inr (f s), s)"
  by (simp add: reads_def)

lemma modify_apply [simp]: "modify f s = (Inr (), f s)"
  by (simp add: modify_def)

lemma of_sum_apply: "of_sum r s = (r, s)"
  by (simp add: of_sum_def)

lemmas run_simps = ret_apply raise_apply of_sum_apply

lemma fst_snd_run [simp]:
  "fst (ret x s) = Inr x" "snd (ret x s) = s"
  "fst (raise e s) = Inl e" "snd (raise e s) = s"
  "fst (of_sum r s) = r" "snd (of_sum r s) = s"
  by (simp_all add: run_simps)

lemma of_sum_simps [simp]: "of_sum (Inr x) = ret x" "of_sum (Inl e) = raise e"
  by (rule ext, simp add: run_simps)+

lemma bnd_Inr: "m s = (Inr x, t) \<Longrightarrow> bnd m f s = f x t"
  by (simp add: bnd_def)

lemma bnd_Inl: "m s = (Inl e, t) \<Longrightarrow> bnd m f s = (Inl e, t)"
  by (simp add: bnd_def)

lemma bnd_InrE:
  assumes "bnd m f s = (Inr y, u)"
  obtains x t where "m s = (Inr x, t)" "f x t = (Inr y, u)"
  using assms by (cases "m s"; cases "fst (m s)") (auto simp: bnd_def)

lemma bnd_InlE:
  assumes "bnd m f s = (Inl e, u)"
  obtains "m s = (Inl e, u)" | x t where "m s = (Inr x, t)" "f x t = (Inl e, u)"
  using assms by (cases "m s"; cases "fst (m s)") (auto simp: bnd_def)

lemma sq_Inr: "m s = (Inr x, t) \<Longrightarrow> sq m n s = n t"
  by (simp add: sq_def bnd_def)

lemma sq_Inl: "m s = (Inl e, t) \<Longrightarrow> sq m n s = (Inl e, t)"
  by (simp add: sq_def bnd_def)

lemma bnd_reads [simp]: "bnd (reads g) f s = f (g s) s"
  by (simp add: bnd_def)

lemma bnd_modify [simp]: "bnd (modify g) f s = f () (g s)"
  by (simp add: bnd_def)

lemma sq_modify [simp]: "sq (modify g) n s = n (g s)"
  by (simp add: sq_def)

lemma sq_ret [simp]: "sq (ret x) n = n"
  by (simp add: sq_def)

lemma sq_raise [simp]: "sq (raise e) n = raise e"
  by (simp add: sq_def)

lemma try_catch_Inr: "m s = (Inr x, t) \<Longrightarrow> try_catch m h s = (Inr x, t)"
  by (simp add: try_catch_def)

lemma try_catch_caught: "m s = (Inl e, t) \<Longrightarrow> h e = Some k \<Longrightarrow> try_catch m h s = k t"
  by (simp add: try_catch_def)

lemma try_catch_passed: "m s = (Inl e, t) \<Longrightarrow> h e = None \<Longrightarrow> try_catch m h s = (Inl e, t)"
  by (simp add: try_catch_def)

subsection \<open>What a computation preserves and what it throws\<close>

text \<open>
  \<open>keeps P m\<close>: the object satisfies \<open>P\<close> afterwards if it did before, whether \<open>m\<close> returns or
  throws. \<open>throws X m\<close>: every exception of \<open>m\<close> satisfies \<open>X\<close>. Both are proved for a
  composed computation by its structure, with the rules collected here.
\<close>

definition keeps :: "('s \<Rightarrow> bool) \<Rightarrow> ('s, 'a) comp \<Rightarrow> bool" where
  "keeps P m \<longleftrightarrow> (\<forall>s. P s \<longrightarrow> P (snd (m s)))"

definition throws :: "(exn \<Rightarrow> bool) \<Rightarrow> ('s, 'a) comp \<Rightarrow> bool" where
  "throws X m \<longleftrightarrow> (\<forall>s e. fst (m s) = Inl e \<longrightarrow> X e)"

lemma keepsD: "keeps P m \<Longrightarrow> P s \<Longrightarrow> P (snd (m s))"
  by (simp add: keeps_def)

lemma keepsE: "keeps P m \<Longrightarrow> m s = (r, t) \<Longrightarrow> P s \<Longrightarrow> P t"
  by (metis keepsD snd_conv)

lemma throwsD: "throws X m \<Longrightarrow> m s = (Inl e, t) \<Longrightarrow> X e"
  unfolding throws_def by (metis fst_conv)

lemma throws_weaken: "throws X m \<Longrightarrow> (\<And>e. X e \<Longrightarrow> Y e) \<Longrightarrow> throws Y m"
  by (simp add: throws_def)

lemma keeps_basic [keeps_intros]:
  "keeps P (ret x)" "keeps P (raise e)" "keeps P (reads f)" "keeps P (of_sum r)"
  by (simp_all add: keeps_def)

lemma keeps_modify [keeps_intros]: "(\<And>s. P s \<Longrightarrow> P (f s)) \<Longrightarrow> keeps P (modify f)"
  by (simp add: keeps_def)

lemma keeps_bnd [keeps_intros]:
  assumes "keeps P m" "\<And>x. keeps P (f x)"
  shows "keeps P (bnd m f)"
  using assms unfolding keeps_def bnd_def
  by (fastforce split: prod.splits sum.splits)

lemma keeps_sq [keeps_intros]: "keeps P m \<Longrightarrow> keeps P n \<Longrightarrow> keeps P (sq m n)"
  by (simp add: sq_def keeps_bnd)

lemma keeps_try_catch [keeps_intros]:
  assumes "keeps P m" "\<And>e k. h e = Some k \<Longrightarrow> keeps P k"
  shows "keeps P (try_catch m h)"
  using assms unfolding keeps_def try_catch_def
  by (fastforce split: prod.splits sum.splits option.splits)

lemma keeps_with_destructor:
  assumes "keeps P m" "\<And>s. P s \<Longrightarrow> P (d s)"
  shows "keeps P (with_destructor m d)"
  using assms unfolding keeps_def with_destructor_def by (auto split: prod.splits)

lemma keeps_if [keeps_intros]:
  "(b \<Longrightarrow> keeps P m) \<Longrightarrow> (\<not> b \<Longrightarrow> keeps P n) \<Longrightarrow> keeps P (if b then m else n)"
  by simp

lemma keeps_option [keeps_intros]:
  "keeps P m \<Longrightarrow> (\<And>x. keeps P (f x)) \<Longrightarrow> keeps P (case v of None \<Rightarrow> m | Some x \<Rightarrow> f x)"
  by (simp split: option.split)

lemma keeps_prod [keeps_intros]:
  "(\<And>x y. keeps P (f x y)) \<Longrightarrow> keeps P (case v of (x, y) \<Rightarrow> f x y)"
  by (simp split: prod.split)

lemma throws_basic [raises_intros]:
  "throws X (ret x)" "throws X (reads f)" "throws X (modify g)"
  by (simp_all add: throws_def run_simps)

lemma throws_raise [raises_intros]: "X e \<Longrightarrow> throws X (raise e)"
  by (simp add: throws_def run_simps)

lemma throws_of_sum [raises_intros]: "(\<And>e. r = Inl e \<Longrightarrow> X e) \<Longrightarrow> throws X (of_sum r)"
  by (simp add: throws_def run_simps)

lemma throws_bnd [raises_intros]:
  assumes "throws X m" "\<And>x. throws X (f x)"
  shows "throws X (bnd m f)"
  using assms unfolding throws_def bnd_def
  by (auto split: prod.splits sum.splits) (metis fst_conv)+

lemma throws_sq [raises_intros]: "throws X m \<Longrightarrow> throws X n \<Longrightarrow> throws X (sq m n)"
  by (simp add: sq_def throws_bnd)

lemma throws_try_catch [raises_intros]:
  assumes "throws (\<lambda>e. h e = None \<longrightarrow> X e) m" "\<And>e k. h e = Some k \<Longrightarrow> throws X k"
  shows "throws X (try_catch m h)"
  using assms unfolding throws_def try_catch_def
  by (auto split: prod.splits sum.splits option.splits) (metis fst_conv)+

lemma throws_with_destructor [raises_intros]: "throws X m \<Longrightarrow> throws X (with_destructor m d)"
  unfolding throws_def with_destructor_def by (auto split: prod.splits) (metis fst_conv)

lemma throws_on_member [raises_intros]: "throws X m \<Longrightarrow> throws X (on_member sel upd m)"
  unfolding throws_def on_member_def by (auto split: prod.splits) (metis fst_conv)

lemma throws_if [raises_intros]:
  "(b \<Longrightarrow> throws X m) \<Longrightarrow> (\<not> b \<Longrightarrow> throws X n) \<Longrightarrow> throws X (if b then m else n)"
  by simp

lemma throws_option [raises_intros]:
  "throws X m \<Longrightarrow> (\<And>x. throws X (f x)) \<Longrightarrow> throws X (case v of None \<Rightarrow> m | Some x \<Rightarrow> f x)"
  by (simp split: option.split)

lemma throws_prod [raises_intros]:
  "(\<And>x y. throws X (f x y)) \<Longrightarrow> throws X (case v of (x, y) \<Rightarrow> f x y)"
  by (simp split: prod.split)

text \<open>A loop over a list: \<open>for (x : xs)\<close> collecting one result for each.\<close>

fun for_each :: "('a \<Rightarrow> ('s, 'b) comp) \<Rightarrow> 'a list \<Rightarrow> ('s, 'b list) comp" where
  "for_each f [] = ret []"
| "for_each f (x # xs) = bnd (f x) (\<lambda>y. bnd (for_each f xs) (\<lambda>ys. ret (y # ys)))"

lemma keeps_for_each [keeps_intros]: "(\<And>x. keeps P (f x)) \<Longrightarrow> keeps P (for_each f xs)"
  by (induction xs) (auto intro!: keeps_intros)

lemma throws_for_each [raises_intros]: "(\<And>x. throws X (f x)) \<Longrightarrow> throws X (for_each f xs)"
  by (induction xs) (auto intro!: raises_intros)

subsection \<open>Weakest preconditions\<close>

text \<open>
  \<open>wp X m Q s\<close>: run on the object \<open>s\<close>, \<open>m\<close> returns with a result and an object that satisfy
  \<open>Q\<close> or throws an exception that satisfies \<open>X\<close>. Its equations reduce it along the structure of
  a computation; \<open>wp_mono\<close> uses what was proved of a part.
\<close>

definition wp :: "(exn \<Rightarrow> bool) \<Rightarrow> ('s, 'a) comp \<Rightarrow> ('a \<Rightarrow> 's \<Rightarrow> bool) \<Rightarrow> 's \<Rightarrow> bool" where
  "wp X m Q s \<longleftrightarrow> (case m s of (Inl e, t) \<Rightarrow> X e | (Inr x, t) \<Rightarrow> Q x t)"

named_theorems wp_simps \<open>equations of the weakest precondition\<close>

lemma wp_basic [wp_simps]:
  "wp X (ret x) Q = Q x" "wp X (raise e) Q s = X e"
  "wp X (of_sum r) Q s = (case r of Inl e \<Rightarrow> X e | Inr x \<Rightarrow> Q x s)"
  by (simp_all add: fun_eq_iff wp_def run_simps)

lemma wp_reads [wp_simps]: "wp X (reads f) Q = (\<lambda>s. Q (f s) s)"
  by (simp add: fun_eq_iff wp_def)

lemma wp_modify [wp_simps]: "wp X (modify f) Q = (\<lambda>s. Q () (f s))"
  by (simp add: fun_eq_iff wp_def)

lemma wp_bnd [wp_simps]: "wp X (bnd m f) Q = wp X m (\<lambda>x. wp X (f x) Q)"
  by (simp add: fun_eq_iff wp_def bnd_def split: prod.split sum.split)

lemma wp_sq [wp_simps]: "wp X (sq m n) Q = wp X m (\<lambda>_. wp X n Q)"
  by (simp add: sq_def wp_bnd)

lemma wp_on_member [wp_simps]:
  "wp X (on_member sel upd m) Q = (\<lambda>s. wp X m (\<lambda>x t. Q x (upd (\<lambda>_. t) s)) (sel s))"
  by (simp add: fun_eq_iff wp_def on_member_def split: prod.split sum.split)

lemma wp_mono: "wp X m Q s \<Longrightarrow> (\<And>x t. Q x t \<Longrightarrow> R x t) \<Longrightarrow> wp X m R s"
  by (auto simp: wp_def split: prod.splits sum.splits)

lemma wp_result: "wp X m Q s \<Longrightarrow> m s = (r, t) \<Longrightarrow> (case r of Inl e \<Rightarrow> X e | Inr x \<Rightarrow> Q x t)"
  by (simp add: wp_def split: sum.splits)

text \<open>\<open>while (guard) body\<close>, where the body yields whether it breaks out; at most \<open>n\<close> rounds.\<close>

fun rounds :: "nat \<Rightarrow> ('s \<Rightarrow> bool) \<Rightarrow> ('s, bool) comp \<Rightarrow> ('s, bool) comp" where
  "rounds 0 guard body = raise Diverged"
| "rounds (Suc n) guard body =
     bnd (reads guard) (\<lambda>g. if g then bnd body (\<lambda>b. if b then ret True else rounds n guard body)
                            else ret False)"

text \<open>An invariant and a measure below the number of rounds show that the loop ends.\<close>

lemma wp_rounds:
  assumes "\<And>p. I p \<Longrightarrow> guard p \<Longrightarrow> wp X body (\<lambda>b p'. if b then Q True p' else I p' \<and> \<mu> p' < (\<mu> p :: nat)) p"
    and "\<And>p. I p \<Longrightarrow> \<not> guard p \<Longrightarrow> Q False p"
  shows "I p \<Longrightarrow> \<mu> p < n \<Longrightarrow> wp X (rounds n guard body) Q p"
proof (induction n arbitrary: p)
  case (Suc n)
  show ?case
  proof (cases "guard p")
    case True
    have "wp X body (\<lambda>b. wp X (if b then ret True else rounds n guard body) Q) p"
      by (rule wp_mono [OF assms(1) [OF Suc.prems(1) True]])
        (use Suc in \<open>auto simp: wp_simps split: if_splits\<close>)
    then show ?thesis using True by (simp only: rounds.simps wp_simps if_True)
  qed (use assms(2) Suc.prems in \<open>simp only: rounds.simps wp_simps if_False\<close>)
qed simp

subsection \<open>Lists\<close>

text \<open>The first element with a property, and the elements before it.\<close>

lemma first_with:
  assumes "\<exists>x \<in> set xs. P x"
  defines "l \<equiv> hd (dropWhile (\<lambda>x. \<not> P x) xs)"
  shows "takeWhile (\<lambda>x. x \<noteq> l) xs = takeWhile (\<lambda>x. \<not> P x) xs \<and> l \<in> set xs \<and> P l"
  using assms(1) unfolding l_def by (induction xs) auto

subsection \<open>Index arithmetic of ring buffers\<close>

lemma mod_add_inj:
  fixes N :: nat
  assumes "i < N" "j < N" "(r + i) mod N = (r + j) mod N"
  shows "i = j"
proof -
  have less: "False" if "i < j" "j < N" "(r + i) mod N = (r + j) mod N" for i j
  proof -
    have "N dvd (r + j) - (r + i)"
      using that(1) that(3) by (metis add_left_mono less_imp_le mod_eq_dvd_iff_nat)
    then show False using that(1,2) by (auto dest!: dvd_imp_le)
  qed
  show ?thesis
    using assms less [of i j] less [of j i] by (metis linorder_neqE_nat)
qed

end
