(* ===== verification/Std_Strings.thy ===== *)
theory Std_Strings
  imports Prelude
begin

text \<open>
  The functions of the C++ standard library on strings and integers that the program calls:
  \<open>std::to_string\<close>, \<open>std::stoi\<close> (that is \<open>strtol\<close> in base 10 with the range of an \<open>int\<close>),
  \<open>substr\<close> and the decimal scanner they share with \<open>std::stof\<close>. Strings are character
  lists; a C string ends at its first NUL. The main fact is the round trip of \<open>to_string\<close>
  through \<open>stoi\<close>.
\<close>

subsection \<open>Decimal digits\<close>

definition digit_char :: "int \<Rightarrow> char" where
  "digit_char d = char_of (48 + d)"

definition digit_val :: "char \<Rightarrow> int option" where
  "digit_val c = (let k = of_char c :: int in if 48 \<le> k \<and> k \<le> 57 then Some (k - 48) else None)"

definition is_digit :: "char \<Rightarrow> bool" where
  "is_digit c \<longleftrightarrow> digit_val c \<noteq> None"

lemma digit_val_char [simp]: "0 \<le> d \<Longrightarrow> d < 10 \<Longrightarrow> digit_val (digit_char d) = Some d"
  by (simp add: digit_val_def digit_char_def Let_def)

lemma is_digit_char [simp]: "0 \<le> d \<Longrightarrow> d < 10 \<Longrightarrow> is_digit (digit_char d)"
  by (simp add: is_digit_def)

text \<open>The decimal digits of a number that is not negative.\<close>

function dec_string :: "int \<Rightarrow> string" where
  "dec_string n = (if n < 10 then [digit_char n] else dec_string (n div 10) @ [digit_char (n mod 10)])"
  by pat_completeness auto
termination
  by (relation "measure nat") auto

declare dec_string.simps [simp del]

text \<open>The value of a digit sequence read from the left, given the value read so far.\<close>

fun dec_value :: "int \<Rightarrow> string \<Rightarrow> int" where
  "dec_value acc [] = acc"
| "dec_value acc (c # cs) =
     (case digit_val c of None \<Rightarrow> acc | Some d \<Rightarrow> dec_value (10 * acc + d) cs)"

lemma dec_value_append:
  "list_all is_digit xs \<Longrightarrow> dec_value acc (xs @ ys) = dec_value (dec_value acc xs) ys"
  by (induction xs arbitrary: acc) (auto simp: is_digit_def)

lemma dec_string_digits: "0 \<le> n \<Longrightarrow> list_all is_digit (dec_string n)"
proof (induction n rule: dec_string.induct)
  case (1 n)
  then show ?case by (cases "n < 10") (simp_all add: dec_string.simps [of n])
qed

lemma dec_string_not_Nil [simp]: "dec_string n \<noteq> []"
  by (subst dec_string.simps) simp

lemma dec_value_dec_string: "0 \<le> n \<Longrightarrow> dec_value 0 (dec_string n) = n"
proof (induction n rule: dec_string.induct)
  case (1 n)
  then show ?case
    by (cases "n < 10")
      (simp_all add: dec_string.simps [of n] dec_value_append dec_string_digits)
qed

lemma digits_prefix:
  assumes "list_all is_digit xs" "ys = [] \<or> \<not> is_digit (hd ys)"
  shows "takeWhile is_digit (xs @ ys) = xs" "dropWhile is_digit (xs @ ys) = ys"
  using assms by (induction xs) (auto simp: takeWhile_eq_Nil_iff dropWhile_eq_self_iff)

subsection \<open>\<open>to_string\<close> and \<open>stoi\<close>\<close>

definition to_string :: "int \<Rightarrow> string" where
  "to_string i = (if i < 0 then CHR ''-'' # dec_string (- i) else dec_string i)"

text \<open>What \<open>isspace\<close> accepts in the C locale.\<close>

definition is_space :: "char \<Rightarrow> bool" where
  "is_space c \<longleftrightarrow> (let k = of_char c :: int in k = 32 \<or> 9 \<le> k \<and> k \<le> 13)"

definition c_str :: "string \<Rightarrow> string" where
  "c_str s = takeWhile (\<lambda>c. of_char c \<noteq> (0 :: int)) s"

text \<open>An optional sign: whether it was a minus, and the rest.\<close>

fun scan_sign :: "string \<Rightarrow> bool \<times> string" where
  "scan_sign [] = (False, [])"
| "scan_sign (c # cs) = (if c = CHR ''-'' then (True, cs) else if c = CHR ''+'' then (False, cs)
     else (False, c # cs))"

definition stoi :: "string \<Rightarrow> exn + int" where
  "stoi s =
     (let (neg, t) = scan_sign (dropWhile is_space (c_str s));
          ds = takeWhile is_digit t;
          v = (if neg then - dec_value 0 ds else dec_value 0 ds)
      in if ds = [] then Inl InvalidArgument
         else if in_int v then Inr v else Inl OutOfRange)"

text \<open>
  \<open>substr(pos, n)\<close>, with an unsigned 64-bit count that is cut to what is left; a position
  beyond the end throws \<open>out_of_range\<close>.
\<close>

definition substr :: "nat \<Rightarrow> u64 \<Rightarrow> string \<Rightarrow> exn + string" where
  "substr pos n s =
     (if length s < pos then Inl OutOfRange
      else let t = drop pos s in
        Inr (if of_nat (length t) \<le> n then t else take (unat n) t))"

text \<open>
  \<open>s.size() - k\<close> on the unsigned size: on a shorter string it wraps to a huge count,
  which stands for the whole rest of the string.
\<close>

definition size_minus :: "nat \<Rightarrow> string \<Rightarrow> u64" where
  "size_minus k s = of_nat (length s) - of_nat k"

lemma size_minus_le:
  assumes "k \<le> length s" "length s < 2 ^ 64"
  shows "size_minus k s = of_nat (length s - k)"
  using assms by (simp add: size_minus_def of_nat_diff)

lemma substr_butlast:
  assumes "length s < 2 ^ 64"
  shows "substr 0 (size_minus 1 s) s = Inr (butlast s)"
proof (cases "s = []")
  case False
  then have le: "1 \<le> length s" by (simp add: Suc_le_eq)
  have "unat (of_nat (length s - 1) :: u64) = length s - 1"
    and "unat (of_nat (length s) :: u64) = length s"
    using assms by (simp_all add: unat_of_nat)
  then show ?thesis
    using False le size_minus_le [OF le assms]
    by (simp add: substr_def Let_def word_le_nat_alt butlast_conv_take)
qed (simp add: substr_def)

lemma substr_drop:
  assumes "k \<le> length s" "length s < 2 ^ 64"
  shows "substr k (size_minus k s) s = Inr (drop k s)"
  using assms by (simp add: substr_def size_minus_le)

subsection \<open>The round trip\<close>

lemma digit_not_special:
  assumes "is_digit c"
  shows "c \<noteq> CHR ''-''" "c \<noteq> CHR ''+''" "\<not> is_space c" "of_char c \<noteq> (0 :: int)"
  using assms by (auto simp: is_digit_def digit_val_def is_space_def Let_def split: if_splits)

lemma c_str_append:
  "list_all (\<lambda>c. of_char c \<noteq> (0 :: int)) xs \<Longrightarrow> c_str (xs @ ys) = xs @ c_str ys"
  by (induction xs) (simp_all add: c_str_def)

lemma c_str_hd: "c_str ys = [] \<or> hd (c_str ys) = hd ys"
  by (cases ys) (simp_all add: c_str_def)

lemma dec_string_Cons:
  assumes "0 \<le> n"
  obtains c cs where "dec_string n = c # cs" "is_digit c" "list_all is_digit cs"
  using dec_string_digits [OF assms] by (cases "dec_string n") auto

lemma dec_string_no_NUL: "0 \<le> n \<Longrightarrow> list_all (\<lambda>c. of_char c \<noteq> (0 :: int)) (dec_string n)"
  using dec_string_digits [of n] by (auto simp: list_all_iff dest: digit_not_special(4))

lemma stoi_to_string_append:
  assumes "in_int i" "rest = [] \<or> \<not> is_digit (hd rest)"
  shows "stoi (to_string i @ rest) = Inr i"
proof -
  define n where "n = (if i < 0 then - i else i)"
  then have n: "0 \<le> n" by simp
  obtain c cs where ds: "dec_string n = c # cs" and c: "is_digit c"
    by (rule dec_string_Cons [OF n])
  let ?r = "c_str rest"
  have r: "?r = [] \<or> \<not> is_digit (hd ?r)" using assms(2) c_str_hd [of rest] by (auto simp: c_str_def)
  have scan: "scan_sign (dropWhile is_space (c_str (to_string i @ rest))) = (i < 0, dec_string n @ ?r)"
  proof (cases "i < 0")
    case True
    then have "c_str (to_string i @ rest) = CHR ''-'' # dec_string n @ ?r"
      using c_str_append [of "CHR ''-'' # dec_string n" rest] dec_string_no_NUL [OF n]
      by (simp add: to_string_def n_def)
    then show ?thesis using True by (simp add: is_space_def)
  next
    case False
    then have "c_str (to_string i @ rest) = dec_string n @ ?r"
      using c_str_append [of "dec_string n" rest] dec_string_no_NUL [OF n] by (simp add: to_string_def n_def)
    then show ?thesis using False ds digit_not_special [OF c] by simp
  qed
  have "takeWhile is_digit (dec_string n @ ?r) = dec_string n"
    by (rule digits_prefix(1) [OF dec_string_digits [OF n] r])
  moreover have "(if i < 0 then - n else n) = i" by (simp add: n_def)
  ultimately show ?thesis
    using assms(1) scan by (simp add: stoi_def n_def dec_value_dec_string Let_def split: if_splits)
qed

lemma stoi_to_string: "in_int i \<Longrightarrow> stoi (to_string i) = Inr i"
  using stoi_to_string_append [of i "[]"] by simp

text \<open>\<open>stoi\<close> throws its two exceptions only, and what it returns is an \<open>int\<close>.\<close>

lemma stoi_cases:
  obtains "stoi s = Inl InvalidArgument" | "stoi s = Inl OutOfRange"
  | i where "stoi s = Inr i" "in_int i"
proof -
  have "stoi s = Inl InvalidArgument \<or> stoi s = Inl OutOfRange \<or> (\<exists>i. stoi s = Inr i \<and> in_int i)"
    by (auto simp: stoi_def Let_def simp del: in_int_iff split: prod.splits)
  then show ?thesis using that by blast
qed

end
