(* ===== verification/Circular_Buffer.thy ===== *)
theory Circular_Buffer
  imports Prelude
begin

text \<open>
  The class template \<open>CircularBuffer\<close> of \<open>collections/CircularBuffer.h\<close>: a ring of
  \<open>Size\<close> slots with a write and a read index and a flag that tells an empty ring from a full
  one. A full ring overwrites its oldest element. \<open>Size\<close> is the length of the slot list; the
  slots start with the default value of the element type, an argument of the constructor.

  The refinement: a well-formed ring stands for the list of its elements, oldest first
  (\<open>contents\<close>), and every operation is the corresponding operation on bounded lists,
  with the exceptions of the source. The locale \<open>bounded_queue\<close> is the interface a
  client of a bounded, overwriting queue relies on; the ring is its instance.
\<close>

subsection \<open>The class\<close>

record 'a cbuf =
  buffer :: "'a list"
  write_ptr :: nat
  read_ptr :: nat
  empty :: bool

text \<open>\<open>CircularBuffer()\<close>: \<open>Size\<close> default-initialised elements.\<close>

definition cb_new :: "'a \<Rightarrow> nat \<Rightarrow> 'a cbuf" where
  "cb_new d sz = \<lparr>buffer = replicate sz d, write_ptr = 0, read_ptr = 0, empty = True\<rparr>"

definition getSize :: "'a cbuf \<Rightarrow> nat" where
  "getSize b = length (buffer b)"

definition cb_put :: "'a \<Rightarrow> 'a cbuf \<Rightarrow> 'a cbuf" where
  "cb_put x b =
     (let b1 = b\<lparr>buffer := (buffer b)[write_ptr b := x]\<rparr>;
          b2 = (if \<not> empty b1 \<and> write_ptr b1 = read_ptr b1
                then b1\<lparr>read_ptr := (read_ptr b1 + 1) mod getSize b1\<rparr> else b1);
          b3 = b2\<lparr>write_ptr := (write_ptr b2 + 1) mod getSize b2\<rparr>
      in b3\<lparr>empty := False\<rparr>)"

definition cb_count :: "'a cbuf \<Rightarrow> nat" where
  "cb_count b =
     (if empty b then 0
      else if read_ptr b < write_ptr b then write_ptr b - read_ptr b
      else getSize b - read_ptr b + write_ptr b)"

definition isEmpty :: "'a cbuf \<Rightarrow> bool" where
  "isEmpty b = empty b"

definition isFull :: "'a cbuf \<Rightarrow> bool" where
  "isFull b \<longleftrightarrow> cb_count b = getSize b"

text \<open>
  \<open>T& get(unsigned int i)\<close>: the index is an \<open>unsigned int\<close>, compared with the
  \<open>size_t\<close> count; the slot number is kept in an \<open>int\<close>, so a slot number beyond
  \<open>INT_MAX\<close> would be negative and the read undefined.
\<close>

definition cb_get_at :: "u32 \<Rightarrow> 'a cbuf \<Rightarrow> exn + 'a" where
  "cb_get_at i b =
     (if unat i < cb_count b then
        (let slot = (read_ptr b + unat i) mod getSize b
         in if int slot \<le> INT_MAX then Inr (buffer b ! slot)
            else Inl (Undefined ''CircularBuffer: negative slot''))
      else Inl (RangeError ''Index out of range''))"

text \<open>
  \<open>T& last()\<close> is \<open>get(count() - 1)\<close>: the \<open>size_t\<close> difference, which wraps around on
  an empty buffer, is converted to \<open>unsigned int\<close>.
\<close>

definition cb_last :: "'a cbuf \<Rightarrow> exn + 'a" where
  "cb_last b = cb_get_at (ucast ((of_nat (cb_count b) :: u64) - 1)) b"

definition cb_get :: "'a cbuf \<Rightarrow> exn + 'a" where
  "cb_get b = (if \<not> empty b then Inr (buffer b ! read_ptr b)
               else Inl (RangeError ''CircularBuffer is empty!''))"

definition cb_pop :: "('a cbuf, 'a) comp" where
  "cb_pop = (\<lambda>b.
     if \<not> empty b then
       (let p = read_ptr b;
            r = (read_ptr b + 1) mod getSize b
        in (Inr (buffer b ! p), b\<lparr>read_ptr := r, empty := (r = write_ptr b)\<rparr>))
     else (Inl (RangeError ''CircularBuffer is empty!''), b))"

subsection \<open>Well-formed rings and their contents\<close>

text \<open>
  What the constructor establishes for a positive \<open>Size\<close> (the \<open>static_assert\<close>) and every
  operation keeps: both indices are slots, and the empty flag is only set when they agree.
\<close>

definition cb_inv :: "'a cbuf \<Rightarrow> bool" where
  "cb_inv b \<longleftrightarrow> 0 < getSize b \<and> write_ptr b < getSize b \<and> read_ptr b < getSize b
     \<and> (empty b \<longrightarrow> write_ptr b = read_ptr b)"

definition contents :: "'a cbuf \<Rightarrow> 'a list" where
  "contents b = map (\<lambda>i. buffer b ! ((read_ptr b + i) mod getSize b)) [0..<cb_count b]"

text \<open>A bounded list that drops its oldest elements.\<close>

definition last_n :: "nat \<Rightarrow> 'a list \<Rightarrow> 'a list" where
  "last_n n xs = drop (length xs - n) xs"

lemma last_n_last_n:
  "last_n n (last_n n xs @ ys) = last_n n (xs @ ys)"
proof (cases "length xs \<le> n")
  case True
  then show ?thesis by (simp add: last_n_def)
next
  case False
  then have "length ys + (length xs - n) = length xs + length ys - n" by simp
  with False show ?thesis by (simp add: last_n_def)
qed

lemma length_contents [simp]: "length (contents b) = cb_count b"
  by (simp add: contents_def)

lemma cb_count_le: "cb_inv b \<Longrightarrow> cb_count b \<le> getSize b"
  by (auto simp: cb_inv_def cb_count_def)

lemma cb_count_0: "cb_inv b \<Longrightarrow> cb_count b = 0 \<longleftrightarrow> empty b"
  by (auto simp: cb_inv_def cb_count_def)

lemma nth_contents:
  "i < cb_count b \<Longrightarrow> contents b ! i = buffer b ! ((read_ptr b + i) mod getSize b)"
  by (simp add: contents_def)

lemma isEmpty_contents: "cb_inv b \<Longrightarrow> isEmpty b \<longleftrightarrow> contents b = []"
  using cb_count_0 [of b] by (auto simp: isEmpty_def simp flip: length_0_conv)

text \<open>The slot the next element goes to is the one after the newest.\<close>

lemma write_ptr_mod:
  assumes "cb_inv b"
  shows "(read_ptr b + cb_count b) mod getSize b = write_ptr b"
  using assms by (auto simp: cb_inv_def cb_count_def le_mod_geq)

lemma cb_new_inv: "0 < sz \<Longrightarrow> cb_inv (cb_new d sz)"
  by (simp add: cb_new_def cb_inv_def getSize_def)

lemma cb_new_contents: "contents (cb_new d sz) = []"
  by (simp add: cb_new_def contents_def cb_count_def)

lemma getSize_put [simp]: "getSize (cb_put x b) = getSize b"
  by (simp add: cb_put_def getSize_def Let_def)

lemma cb_put_inv: "cb_inv b \<Longrightarrow> cb_inv (cb_put x b)"
  by (auto simp: cb_inv_def cb_put_def getSize_def Let_def)

subsection \<open>Every operation is the bounded-list operation\<close>

lemma cb_count_put:
  assumes "cb_inv b"
  shows "cb_count (cb_put x b) = min (getSize b) (Suc (cb_count b))"
  using assms
  by (auto simp: cb_inv_def cb_put_def cb_count_def getSize_def Let_def mod_Suc)

lemma put_not_full:
  assumes inv: "cb_inv b" and "cb_count b < getSize b"
  shows "contents (cb_put x b) = contents b @ [x]"
proof (rule nth_equalityI)
  show len: "length (contents (cb_put x b)) = length (contents b @ [x])"
    using assms by (simp add: cb_count_put)
  fix i assume "i < length (contents (cb_put x b))"
  then have i: "i < Suc (cb_count b)" using len by simp
  have rd: "read_ptr (cb_put x b) = read_ptr b"
    using assms by (auto simp: cb_put_def cb_inv_def cb_count_def getSize_def Let_def)
  have buf: "buffer (cb_put x b) = (buffer b)[write_ptr b := x]"
    by (simp add: cb_put_def Let_def)
  have at: "contents (cb_put x b) ! i = (buffer b)[write_ptr b := x] ! ((read_ptr b + i) mod getSize b)"
    using i assms by (subst nth_contents) (simp_all add: cb_count_put rd buf)
  show "contents (cb_put x b) ! i = (contents b @ [x]) ! i"
  proof (cases "i = cb_count b")
    case True
    then show ?thesis
      using at inv write_ptr_mod [OF inv]
      by (simp add: cb_inv_def nth_append flip: getSize_def)
  next
    case False
    then have "i < cb_count b" using i by simp
    moreover have "(read_ptr b + i) mod getSize b \<noteq> write_ptr b"
      using mod_add_inj [of i "getSize b" "cb_count b" "read_ptr b"] assms(2) \<open>i < cb_count b\<close>
        write_ptr_mod [OF inv] by auto
    ultimately show ?thesis
      using at by (simp add: nth_append nth_contents)
  qed
qed

lemma put_full:
  assumes inv: "cb_inv b" and full: "cb_count b = getSize b"
  shows "contents (cb_put x b) = tl (contents b) @ [x]"
proof (rule nth_equalityI)
  have wr: "write_ptr b = read_ptr b" "\<not> empty b"
    using assms by (auto simp: cb_inv_def cb_count_def split: if_splits)
  have pos: "0 < getSize b" "read_ptr b < getSize b" using inv by (simp_all add: cb_inv_def)
  show len: "length (contents (cb_put x b)) = length (tl (contents b) @ [x])"
    using assms pos by (simp add: cb_count_put)
  fix i assume "i < length (contents (cb_put x b))"
  then have i: "i < getSize b" using assms by (simp add: cb_count_put)
  have rd: "read_ptr (cb_put x b) = (read_ptr b + 1) mod getSize b"
    using wr by (simp add: cb_put_def getSize_def Let_def)
  have buf: "buffer (cb_put x b) = (buffer b)[read_ptr b := x]"
    using wr by (simp add: cb_put_def Let_def)
  have at: "contents (cb_put x b) ! i
      = (buffer b)[read_ptr b := x] ! ((read_ptr b + Suc i) mod getSize b)"
    using i full inv by (subst nth_contents) (simp_all add: cb_count_put rd buf mod_simps)
  show "contents (cb_put x b) ! i = (tl (contents b) @ [x]) ! i"
  proof (cases "Suc i = getSize b")
    case True
    then have "(read_ptr b + Suc i) mod getSize b = read_ptr b" using pos by simp
    moreover have "i = length (tl (contents b))" using True full by simp
    ultimately show ?thesis
      using at pos by (simp add: nth_append flip: getSize_def)
  next
    case False
    then have si: "Suc i < getSize b" using i by simp
    then have "(read_ptr b + Suc i) mod getSize b \<noteq> read_ptr b"
      using mod_add_inj [of "Suc i" "getSize b" 0 "read_ptr b"] pos by auto
    moreover have "i < getSize b - 1" using si by simp
    ultimately show ?thesis
      using at full by (simp add: nth_append nth_tl nth_contents)
  qed
qed

lemma cb_put_contents:
  assumes "cb_inv b"
  shows "contents (cb_put x b) = last_n (getSize b) (contents b @ [x])"
proof (cases "cb_count b < getSize b")
  case True
  then show ?thesis using assms by (simp add: put_not_full last_n_def)
next
  case False
  then have full: "cb_count b = getSize b" using cb_count_le [OF assms] by simp
  moreover have "contents b \<noteq> []"
    using full assms by (auto simp: cb_inv_def simp flip: length_0_conv)
  moreover have "0 < getSize b" using assms by (simp add: cb_inv_def)
  ultimately show ?thesis using assms by (simp add: put_full last_n_def drop_Suc)
qed

text \<open>Reading an element, and removing the oldest.\<close>

lemma cb_get_contents:
  assumes "cb_inv b"
  shows "cb_get b = (case contents b of
     [] \<Rightarrow> Inl (RangeError ''CircularBuffer is empty!'') | x # _ \<Rightarrow> Inr x)"
proof (cases "contents b")
  case Nil
  then show ?thesis using isEmpty_contents [OF assms] by (simp add: cb_get_def isEmpty_def)
next
  case (Cons x xs)
  then have "contents b ! 0 = x" "0 < cb_count b" by (simp_all flip: length_contents)
  then have "buffer b ! read_ptr b = x"
    using assms nth_contents [of 0 b] by (simp add: cb_inv_def)
  with Cons show ?thesis
    using isEmpty_contents [OF assms] by (simp add: cb_get_def isEmpty_def)
qed

lemma cb_pop_inv: "cb_inv b \<Longrightarrow> cb_inv (snd (cb_pop b))"
  by (auto simp: cb_inv_def cb_pop_def getSize_def Let_def)

lemma getSize_pop [simp]: "getSize (snd (cb_pop b)) = getSize b"
  by (simp add: cb_pop_def getSize_def Let_def)

lemma cb_pop_result: "fst (cb_pop b) = cb_get b"
  by (simp add: cb_pop_def cb_get_def Let_def)

lemma cb_count_pop:
  assumes "cb_inv b" "\<not> empty b"
  shows "cb_count (snd (cb_pop b)) = cb_count b - 1"
  using assms
  by (auto simp: cb_inv_def cb_pop_def cb_count_def getSize_def Let_def mod_Suc)

lemma cb_pop_contents:
  assumes inv: "cb_inv b" and ne: "\<not> empty b"
  shows "contents (snd (cb_pop b)) = tl (contents b)"
proof (rule nth_equalityI)
  show "length (contents (snd (cb_pop b))) = length (tl (contents b))"
    using assms by (simp add: cb_count_pop)
  fix i assume "i < length (contents (snd (cb_pop b)))"
  then have i: "i < cb_count b - 1" using assms by (simp add: cb_count_pop)
  have "contents (snd (cb_pop b)) ! i = buffer b ! ((read_ptr b + Suc i) mod getSize b)"
    using i assms
    by (subst nth_contents) (simp_all add: cb_count_pop, simp add: cb_pop_def Let_def mod_simps)
  then show "contents (snd (cb_pop b)) ! i = tl (contents b) ! i"
    using i by (simp add: nth_tl nth_contents)
qed

text \<open>Indexed reads: the index counts from the oldest element.\<close>

lemma cb_get_at_contents:
  assumes "cb_inv b" "getSize b \<le> 2 ^ 31"
  shows "cb_get_at i b = (if unat i < length (contents b) then Inr (contents b ! unat i)
     else Inl (RangeError ''Index out of range''))"
proof -
  have "(read_ptr b + unat i) mod getSize b < 2 ^ 31"
    using assms by (auto simp: cb_inv_def intro: less_le_trans [OF mod_less_divisor])
  then show ?thesis
    by (simp add: cb_get_at_def nth_contents Let_def INT_MAX_def)
qed

lemma cb_last_contents:
  assumes "cb_inv b" "getSize b \<le> 2 ^ 31"
  shows "cb_last b = (if contents b = [] then Inl (RangeError ''Index out of range'')
     else Inr (last (contents b)))"
proof (cases "contents b = []")
  case True
  then have "cb_count b = 0" by (simp flip: length_contents)
  then show ?thesis using True by (simp add: cb_last_def cb_get_at_def)
next
  case False
  then have pos: "0 < cb_count b" by (simp flip: length_contents)
  have le: "cb_count b \<le> 2 ^ 31" using cb_count_le [OF assms(1)] assms(2) by simp
  have u64: "unat ((of_nat (cb_count b) :: u64) - 1) = cb_count b - 1"
  proof -
    have "unat (of_nat (cb_count b) :: u64) = cb_count b"
      using le by (simp add: unat_of_nat)
    moreover have "(1 :: u64) \<le> of_nat (cb_count b)"
      using pos calculation by (simp add: word_le_nat_alt)
    ultimately show ?thesis by (simp add: unat_sub)
  qed
  have "unat (ucast ((of_nat (cb_count b) :: u64) - 1) :: u32) = cb_count b - 1"
    using le u64 by (simp add: unsigned_ucast_eq take_bit_nat_eq_self)
  then show ?thesis
    using False pos by (simp add: cb_last_def cb_get_at_contents [OF assms] last_conv_nth)
qed

subsection \<open>The interface of a bounded, overwriting queue\<close>

locale bounded_queue =
  fixes inv :: "'q \<Rightarrow> bool"
    and elems :: "'q \<Rightarrow> 'a list"
    and cap :: "'q \<Rightarrow> nat"
    and enq :: "'a \<Rightarrow> 'q \<Rightarrow> 'q"
    and deq :: "('q, 'a) comp"
  assumes enq_inv: "inv q \<Longrightarrow> inv (enq x q)"
    and enq_cap: "inv q \<Longrightarrow> cap (enq x q) = cap q"
    and enq_elems: "inv q \<Longrightarrow> elems (enq x q) = last_n (cap q) (elems q @ [x])"
    and within_cap: "inv q \<Longrightarrow> length (elems q) \<le> cap q"
    and deq_Cons: "inv q \<Longrightarrow> elems q = x # xs \<Longrightarrow>
      \<exists>q'. deq q = (Inr x, q') \<and> inv q' \<and> elems q' = xs \<and> cap q' = cap q"
    and deq_Nil: "inv q \<Longrightarrow> elems q = [] \<Longrightarrow> \<exists>e. deq q = (Inl e, q)"
begin

lemma fold_enq:
  assumes "inv q"
  shows "inv (fold enq xs q) \<and> cap (fold enq xs q) = cap q
    \<and> elems (fold enq xs q) = last_n (cap q) (elems q @ xs)"
proof (induction xs rule: rev_induct)
  case Nil
  then show ?case using assms within_cap [OF assms] by (simp add: last_n_def)
next
  case (snoc x xs)
  then show ?case
    by (simp add: enq_inv enq_cap enq_elems last_n_last_n)
qed

lemma newest_kept:
  assumes "inv q" "x \<in> set (last_n (cap q) (elems q @ xs))"
  shows "x \<in> set (elems (fold enq xs q))"
  using fold_enq [OF assms(1)] assms(2) by simp

lemma nothing_dropped:
  assumes "inv q" "length (elems q) + length xs \<le> cap q"
  shows "elems (fold enq xs q) = elems q @ xs"
  using fold_enq [OF assms(1)] assms(2) by (simp add: last_n_def)

end

interpretation ring: bounded_queue cb_inv contents getSize cb_put cb_pop
proof unfold_locales
  fix b :: "'a cbuf" and x xs
  assume inv: "cb_inv b"
  show "cb_inv (cb_put x b)" "getSize (cb_put x b) = getSize b"
    "contents (cb_put x b) = last_n (getSize b) (contents b @ [x])"
    "length (contents b) \<le> getSize b"
    using inv by (simp_all add: cb_put_inv cb_put_contents cb_count_le)
  show "\<exists>e. cb_pop b = (Inl e, b)" if "contents b = []"
    using that isEmpty_contents [OF inv] by (simp add: cb_pop_def isEmpty_def)
  assume "contents b = x # xs"
  moreover from this have "\<not> empty b" using isEmpty_contents [OF inv] by (simp add: isEmpty_def)
  ultimately show "\<exists>q'. cb_pop b = (Inr x, q') \<and> cb_inv q' \<and> contents q' = xs \<and> getSize q' = getSize b"
    using cb_pop_inv [OF inv] cb_pop_contents [OF inv] cb_get_contents [OF inv]
    by (intro exI [of _ "snd (cb_pop b)"]) (simp add: prod_eq_iff cb_pop_result)
qed

text \<open>The ring after a sequence of \<open>put\<close>.\<close>

lemma ring_of_puts:
  assumes "0 < sz"
  shows "cb_inv (fold cb_put xs (cb_new d sz)) \<and> getSize (fold cb_put xs (cb_new d sz)) = sz
    \<and> contents (fold cb_put xs (cb_new d sz)) = last_n sz xs"
proof -
  have sz: "getSize (cb_new d sz) = sz" by (simp add: cb_new_def getSize_def)
  show ?thesis
    using ring.fold_enq [OF cb_new_inv [OF assms], of xs d, unfolded cb_new_contents sz] by simp
qed

subsection \<open>Properties\<close>

text \<open>
  C36. A ring of \<open>Size\<close> slots that starts empty and receives any sequence of \<open>put\<close>
  holds, in order, exactly the last \<open>Size\<close> elements put; \<open>count\<close>, \<open>isEmpty\<close> and
  \<open>isFull\<close> agree with that list.
\<close>

theorem put_sequence_contents:
  assumes "0 < sz"
  shows "contents (fold cb_put xs (cb_new d sz)) = last_n sz xs
    \<and> cb_count (fold cb_put xs (cb_new d sz)) = min sz (length xs)
    \<and> (isEmpty (fold cb_put xs (cb_new d sz)) \<longleftrightarrow> xs = [])
    \<and> (isFull (fold cb_put xs (cb_new d sz)) \<longleftrightarrow> sz \<le> length xs)"
proof -
  let ?b = "fold cb_put xs (cb_new d sz)"
  note q = ring_of_puts [OF assms, of xs d]
  then have "cb_count ?b = min sz (length xs)"
    using length_contents [of ?b] by (simp add: last_n_def)
  moreover have "isEmpty ?b \<longleftrightarrow> xs = []"
    using q isEmpty_contents [of ?b] assms by (auto simp: last_n_def)
  ultimately show ?thesis using q assms by (auto simp: isFull_def)
qed

theorem put_sequence_contents_witness:
  "contents (fold cb_put [1, 2, 3, 4, 5 :: int] (cb_new 0 3)) = [3, 4, 5]"
  using put_sequence_contents [of 3 "[1, 2, 3, 4, 5 :: int]" 0] by (simp add: last_n_def)

text \<open>
  Removing from a well-formed ring: an empty one throws \<open>range_error\<close> and is left as
  it was; otherwise the oldest element is returned and exactly it is removed, the ring
  stays well-formed and keeps its size.
\<close>

theorem pop_refines_dequeue:
  assumes "cb_inv b"
  shows "case contents b of
      [] \<Rightarrow> cb_pop b = (Inl (RangeError ''CircularBuffer is empty!''), b)
    | x # xs \<Rightarrow> fst (cb_pop b) = Inr x \<and> contents (snd (cb_pop b)) = xs
        \<and> cb_inv (snd (cb_pop b)) \<and> getSize (snd (cb_pop b)) = getSize b"
proof (cases "contents b")
  case Nil
  then show ?thesis
    using isEmpty_contents [OF assms] by (simp add: cb_pop_def isEmpty_def)
next
  case (Cons x xs)
  then show ?thesis
    using ring.deq_Cons [OF assms Cons] by auto
qed

theorem pop_refines_dequeue_witness:
  "fst (cb_pop (cb_put 7 (cb_put (5 :: int) (cb_new 0 2)))) = Inr 5"
  using pop_refines_dequeue [of "cb_put 7 (cb_put (5 :: int) (cb_new 0 2))"]
    ring_of_puts [of 2 "[5, 7 :: int]" 0] by (simp add: cb_new_inv cb_put_inv last_n_def)

text \<open>
  The three reads of a well-formed ring of at most \<open>2^31\<close> slots: \<open>get(i)\<close> is the
  \<open>i\<close>-th oldest element for every 32-bit index below \<open>count()\<close> and throws for every other,
  \<open>get()\<close> is the oldest and \<open>last()\<close> the newest, and both throw on an empty ring
  (for \<open>last()\<close> because \<open>count() - 1\<close> wraps around to an index that is out of range).
\<close>

theorem reads_refine_list:
  assumes "cb_inv b" "getSize b \<le> 2 ^ 31"
  shows "cb_get_at i b = (if unat i < length (contents b) then Inr (contents b ! unat i)
      else Inl (RangeError ''Index out of range''))
    \<and> cb_get b = (case contents b of [] \<Rightarrow> Inl (RangeError ''CircularBuffer is empty!'')
      | x # _ \<Rightarrow> Inr x)
    \<and> cb_last b = (if contents b = [] then Inl (RangeError ''Index out of range'')
      else Inr (last (contents b)))"
  using cb_get_at_contents [OF assms] cb_get_contents [OF assms(1)] cb_last_contents [OF assms]
  by simp

theorem reads_refine_list_witness:
  "cb_get_at 1 (fold cb_put [1, 2, 3, 4 :: int] (cb_new 0 3)) = Inr 3
   \<and> cb_last (fold cb_put [1, 2, 3, 4 :: int] (cb_new 0 3)) = Inr 4
   \<and> cb_last (cb_new (0 :: int) 3) = Inl (RangeError ''Index out of range'')"
proof -
  let ?b = "fold cb_put [1, 2, 3, 4 :: int] (cb_new 0 3)" and ?e = "cb_new (0 :: int) 3"
  have b: "cb_inv ?b" "getSize ?b \<le> 2 ^ 31" "contents ?b = [2, 3, 4]"
    using ring_of_puts [of 3 "[1, 2, 3, 4 :: int]" 0] by (simp_all add: last_n_def)
  have e: "cb_inv ?e" "getSize ?e \<le> 2 ^ 31" "contents ?e = []"
    by (simp_all add: cb_new_inv cb_new_contents) (simp add: cb_new_def getSize_def)
  show ?thesis
    using reads_refine_list [OF b(1,2), of 1] reads_refine_list [OF e(1,2), of 0]
    unfolding b(3) e(3) by simp
qed

end
