(* ===== verification/Camera_Events.thy ===== *)
theory Camera_Events
  imports Std_Strings
begin

text \<open>
  The data the components exchange: the event signals (\<open>events/Event.h\<close> and the generated
  \<open>cameracontroller/CCEvents.h\<close>), the event classes derived from \<open>Event\<close>
  (\<open>cameracontroller/Events.h\<close>), the camera's configuration and status
  (\<open>cameramanager/CameraData.h\<close>), the path of a file on the camera (\<open>CameraPath\<close> of
  \<open>camera/CameraWrapper.h\<close>) and the printed names of signals and topics
  (\<open>cameracontroller/CCEvents.cpp\<close>).

  An event class is a constructor of the datatype \<open>event\<close>; a \<open>static_pointer_cast\<close> is a
  function that succeeds on that constructor only: casting an event to a class it does
  not have is undefined behaviour in C++ and \<open>Undefined\<close> here.
\<close>

subsection \<open>Signals and topics\<close>

abbreviation EV_ENTRY :: u16 where
  "EV_ENTRY \<equiv> 0"

abbreviation EV_EXIT :: u16 where
  "EV_EXIT \<equiv> 1"

abbreviation EV_EMPTY :: u16 where
  "EV_EMPTY \<equiv> 2"

abbreviation EV_INIT :: u16 where
  "EV_INIT \<equiv> 3"

abbreviation (input) EV_FIRST_SIGNAL :: u16 where
  "EV_FIRST_SIGNAL \<equiv> 4"

abbreviation EV_CAMERA_CONNECT :: u16 where
  "EV_CAMERA_CONNECT \<equiv> 4"

abbreviation EV_CAMERA_CONNECTED :: u16 where
  "EV_CAMERA_CONNECTED \<equiv> 5"

abbreviation EV_CAMERA_CONNECTION_ERROR :: u16 where
  "EV_CAMERA_CONNECTION_ERROR \<equiv> 6"

abbreviation EV_CAMERA_DISCONNECT :: u16 where
  "EV_CAMERA_DISCONNECT \<equiv> 7"

abbreviation EV_CAMERA_DISCONNECTED :: u16 where
  "EV_CAMERA_DISCONNECTED \<equiv> 8"

abbreviation EV_CAMERA_GENERIC_ERROR :: u16 where
  "EV_CAMERA_GENERIC_ERROR \<equiv> 9"

abbreviation EV_CAMERA_SET_CONFIG :: u16 where
  "EV_CAMERA_SET_CONFIG \<equiv> 10"

abbreviation EV_CAMERA_GET_STATUS :: u16 where
  "EV_CAMERA_GET_STATUS \<equiv> 11"

abbreviation EV_CAMERA_VAL_CONFIG :: u16 where
  "EV_CAMERA_VAL_CONFIG \<equiv> 12"

abbreviation EV_CAMERA_VAL_STATUS :: u16 where
  "EV_CAMERA_VAL_STATUS \<equiv> 13"

abbreviation EV_CAMERA_GET_OPTIONS :: u16 where
  "EV_CAMERA_GET_OPTIONS \<equiv> 14"

abbreviation EV_CAMERA_OPTIONS_SHUTTER_SPEED :: u16 where
  "EV_CAMERA_OPTIONS_SHUTTER_SPEED \<equiv> 15"

abbreviation EV_CAMERA_OPTIONS_APERTURE :: u16 where
  "EV_CAMERA_OPTIONS_APERTURE \<equiv> 16"

abbreviation EV_CAMERA_OPTIONS_ISO :: u16 where
  "EV_CAMERA_OPTIONS_ISO \<equiv> 17"

abbreviation EV_CAMERA_OPTIONS_TRIGGER_MODE :: u16 where
  "EV_CAMERA_OPTIONS_TRIGGER_MODE \<equiv> 18"

abbreviation EV_CAMERA_CAPTURE_WIRED :: u16 where
  "EV_CAMERA_CAPTURE_WIRED \<equiv> 19"

abbreviation EV_CAMERA_CAPTURE_SUCCESS :: u16 where
  "EV_CAMERA_CAPTURE_SUCCESS \<equiv> 20"

abbreviation EV_CAMERA_CAPTURE_ERROR :: u16 where
  "EV_CAMERA_CAPTURE_ERROR \<equiv> 21"

abbreviation EV_CAMERA_DOWNLOAD :: u16 where
  "EV_CAMERA_DOWNLOAD \<equiv> 22"

abbreviation EV_CAMERA_DOWNLOAD_SUCCESS :: u16 where
  "EV_CAMERA_DOWNLOAD_SUCCESS \<equiv> 23"

abbreviation EV_CAMERA_DOWNLOAD_ERROR :: u16 where
  "EV_CAMERA_DOWNLOAD_ERROR \<equiv> 24"

abbreviation TOPIC_CAMERA_CMD :: u8 where
  "TOPIC_CAMERA_CMD \<equiv> 0"

abbreviation TOPIC_CAMERA_EVENT :: u8 where
  "TOPIC_CAMERA_EVENT \<equiv> 1"

abbreviation TOPIC_CAMERA_STATUS :: u8 where
  "TOPIC_CAMERA_STATUS \<equiv> 2"

subsection \<open>Camera data\<close>

record CameraStatus =
  battery :: int
  exposure_program :: string
  focal_length :: int

record CameraConfig =
  shutter_speed :: int
  aperture :: int
  iso :: int
  trigger_mode :: string

text \<open>A \<open>CameraConfig\<close> with its member initialisers.\<close>

definition default_config :: CameraConfig where
  "default_config = \<lparr>shutter_speed = - 1, aperture = - 1, iso = - 1, trigger_mode = []\<rparr>"

record CameraPath =
  folder :: string
  name :: string

definition empty_path :: CameraPath where
  "empty_path = \<lparr>folder = [], name = []\<rparr>"

definition getPath :: "CameraPath \<Rightarrow> string" where
  "getPath p = folder p @ ''/'' @ name p"

text \<open>
  \<open>CameraFilePath\<close> is a C struct of libgphoto2 with two fixed character arrays (folder and
  name); their sizes are arguments (\<open>fsz\<close>, \<open>nsz\<close>). \<open>strcpy\<close> copies up to the first NUL
  and writes a terminating one: beyond the array it is undefined.
\<close>

type_synonym CameraFilePath = "string \<times> string"

definition CameraPath_of :: "CameraFilePath \<Rightarrow> CameraPath" where
  "CameraPath_of p = \<lparr>folder = fst p, name = snd p\<rparr>"

definition strcpy :: "nat \<Rightarrow> string \<Rightarrow> exn + string" where
  "strcpy sz s = (if length (c_str s) < sz then Inr (c_str s)
     else Inl (Undefined ''strcpy: buffer overflow''))"

definition toCameraFilePath :: "nat \<Rightarrow> nat \<Rightarrow> CameraPath \<Rightarrow> exn + CameraFilePath" where
  "toCameraFilePath fsz nsz p =
     (case strcpy nsz (name p) of Inl e \<Rightarrow> Inl e
      | Inr n \<Rightarrow> (case strcpy fsz (folder p) of Inl e \<Rightarrow> Inl e | Inr f \<Rightarrow> Inr (f, n)))"

text \<open>A path the camera reported comes back unchanged.\<close>

lemma toCameraFilePath_roundtrip:
  assumes "c_str f = f" "c_str n = n" "length f < fsz" "length n < nsz"
  shows "toCameraFilePath fsz nsz (CameraPath_of (f, n)) = Inr (f, n)"
  using assms by (simp add: toCameraFilePath_def CameraPath_of_def strcpy_def)

subsection \<open>Event classes\<close>

datatype event =
    Event u16
  | CameraConnectedEvent string
  | CameraErrorEvent u16 int
  | CameraStatusEvent CameraStatus
  | CameraConfigEvent u16 CameraConfig
  | CameraOptionListEvent_int u16 "int list"
  | CameraOptionListEvent_string u16 "string list"
  | CameraCaptureSuccessEvent CameraPath
  | CameraDownloadEvent CameraPath
  | CameraDownloadSuccessEvent CameraPath string

text \<open>The signal each class's constructor passes to the base class.\<close>

fun sig :: "event \<Rightarrow> u16" where
  "sig (Event s) = s"
| "sig (CameraConnectedEvent serial) = EV_CAMERA_CONNECTED"
| "sig (CameraErrorEvent s errorcode) = s"
| "sig (CameraStatusEvent status) = EV_CAMERA_VAL_STATUS"
| "sig (CameraConfigEvent s config) = s"
| "sig (CameraOptionListEvent_int s options) = s"
| "sig (CameraOptionListEvent_string s options) = s"
| "sig (CameraCaptureSuccessEvent path) = EV_CAMERA_CAPTURE_SUCCESS"
| "sig (CameraDownloadEvent camera_path) = EV_CAMERA_DOWNLOAD"
| "sig (CameraDownloadSuccessEvent camera_path path) = EV_CAMERA_DOWNLOAD_SUCCESS"

text \<open>The four constant events of \<open>events/Event.cpp\<close>.\<close>

definition C_EV_ENTRY :: event where
  "C_EV_ENTRY = Event EV_ENTRY"

definition C_EV_EXIT :: event where
  "C_EV_EXIT = Event EV_EXIT"

definition C_EV_EMPTY :: event where
  "C_EV_EMPTY = Event EV_EMPTY"

definition C_EV_INIT :: event where
  "C_EV_INIT = Event EV_INIT"

lemma sig_C_EV [simp]:
  "sig C_EV_ENTRY = EV_ENTRY" "sig C_EV_EXIT = EV_EXIT"
  "sig C_EV_EMPTY = EV_EMPTY" "sig C_EV_INIT = EV_INIT"
  by (simp_all add: C_EV_ENTRY_def C_EV_EXIT_def C_EV_EMPTY_def C_EV_INIT_def)

definition bad_cast :: exn where
  "bad_cast = Undefined ''static_pointer_cast to a class the event does not have''"

fun as_CameraConnectedEvent :: "event \<Rightarrow> exn + string" where
  "as_CameraConnectedEvent (CameraConnectedEvent s) = Inr s"
| "as_CameraConnectedEvent _ = Inl bad_cast"

fun as_CameraErrorEvent :: "event \<Rightarrow> exn + int" where
  "as_CameraErrorEvent (CameraErrorEvent s c) = Inr c"
| "as_CameraErrorEvent _ = Inl bad_cast"

fun as_CameraStatusEvent :: "event \<Rightarrow> exn + CameraStatus" where
  "as_CameraStatusEvent (CameraStatusEvent s) = Inr s"
| "as_CameraStatusEvent _ = Inl bad_cast"

fun as_CameraConfigEvent :: "event \<Rightarrow> exn + CameraConfig" where
  "as_CameraConfigEvent (CameraConfigEvent s c) = Inr c"
| "as_CameraConfigEvent _ = Inl bad_cast"

fun as_CameraOptionListEvent_int :: "event \<Rightarrow> exn + int list" where
  "as_CameraOptionListEvent_int (CameraOptionListEvent_int s xs) = Inr xs"
| "as_CameraOptionListEvent_int _ = Inl bad_cast"

fun as_CameraOptionListEvent_string :: "event \<Rightarrow> exn + string list" where
  "as_CameraOptionListEvent_string (CameraOptionListEvent_string s xs) = Inr xs"
| "as_CameraOptionListEvent_string _ = Inl bad_cast"

fun as_CameraCaptureSuccessEvent :: "event \<Rightarrow> exn + CameraPath" where
  "as_CameraCaptureSuccessEvent (CameraCaptureSuccessEvent p) = Inr p"
| "as_CameraCaptureSuccessEvent _ = Inl bad_cast"

fun as_CameraDownloadEvent :: "event \<Rightarrow> exn + CameraPath" where
  "as_CameraDownloadEvent (CameraDownloadEvent p) = Inr p"
| "as_CameraDownloadEvent _ = Inl bad_cast"

fun as_CameraDownloadSuccessEvent :: "event \<Rightarrow> exn + (CameraPath \<times> string)" where
  "as_CameraDownloadSuccessEvent (CameraDownloadSuccessEvent p f) = Inr (p, f)"
| "as_CameraDownloadSuccessEvent _ = Inl bad_cast"

text \<open>
  The events whose class is the one the receivers of their signal cast them to.
\<close>

definition well_formed_event :: "event \<Rightarrow> bool" where
  "well_formed_event ev \<longleftrightarrow>
     (if sig ev = EV_CAMERA_CONNECTED then as_CameraConnectedEvent ev \<noteq> Inl bad_cast
      else if sig ev \<in> {EV_CAMERA_CONNECTION_ERROR, EV_CAMERA_GENERIC_ERROR}
        then as_CameraErrorEvent ev \<noteq> Inl bad_cast
      else if sig ev = EV_CAMERA_VAL_STATUS then as_CameraStatusEvent ev \<noteq> Inl bad_cast
      else if sig ev \<in> {EV_CAMERA_SET_CONFIG, EV_CAMERA_VAL_CONFIG}
        then as_CameraConfigEvent ev \<noteq> Inl bad_cast
      else if sig ev \<in> {EV_CAMERA_OPTIONS_SHUTTER_SPEED, EV_CAMERA_OPTIONS_APERTURE,
          EV_CAMERA_OPTIONS_ISO} then as_CameraOptionListEvent_int ev \<noteq> Inl bad_cast
      else if sig ev = EV_CAMERA_OPTIONS_TRIGGER_MODE
        then as_CameraOptionListEvent_string ev \<noteq> Inl bad_cast
      else if sig ev = EV_CAMERA_CAPTURE_SUCCESS
        then as_CameraCaptureSuccessEvent ev \<noteq> Inl bad_cast
      else if sig ev = EV_CAMERA_DOWNLOAD then as_CameraDownloadEvent ev \<noteq> Inl bad_cast
      else sig ev = EV_CAMERA_DOWNLOAD_SUCCESS
        \<longrightarrow> as_CameraDownloadSuccessEvent ev \<noteq> Inl bad_cast)"

subsection \<open>Printed names\<close>

definition event_string :: "(u16 \<times> string) list" where
  "event_string =
    [(EV_CAMERA_CONNECT, ''EV_CAMERA_CONNECT''),
     (EV_CAMERA_CONNECTED, ''EV_CAMERA_CONNECTED''),
     (EV_CAMERA_CONNECTION_ERROR, ''EV_CAMERA_CONNECTION_ERROR''),
     (EV_CAMERA_DISCONNECT, ''EV_CAMERA_DISCONNECT''),
     (EV_CAMERA_DISCONNECTED, ''EV_CAMERA_DISCONNECTED''),
     (EV_CAMERA_GENERIC_ERROR, ''EV_CAMERA_GENERIC_ERROR''),
     (EV_CAMERA_SET_CONFIG, ''EV_CAMERA_SET_CONFIG''),
     (EV_CAMERA_GET_STATUS, ''EV_CAMERA_GET_STATUS''),
     (EV_CAMERA_VAL_CONFIG, ''EV_CAMERA_VAL_CONFIG''),
     (EV_CAMERA_VAL_STATUS, ''EV_CAMERA_VAL_STATUS''),
     (EV_CAMERA_GET_OPTIONS, ''EV_CAMERA_GET_OPTIONS''),
     (EV_CAMERA_OPTIONS_SHUTTER_SPEED, ''EV_CAMERA_OPTIONS_SHUTTER_SPEED''),
     (EV_CAMERA_OPTIONS_APERTURE, ''EV_CAMERA_OPTIONS_APERTURE''),
     (EV_CAMERA_OPTIONS_ISO, ''EV_CAMERA_OPTIONS_ISO''),
     (EV_CAMERA_OPTIONS_TRIGGER_MODE, ''EV_CAMERA_OPTIONS_TRIGGER_MODE''),
     (EV_CAMERA_CAPTURE_WIRED, ''EV_CAMERA_CAPTURE_WIRED''),
     (EV_CAMERA_CAPTURE_SUCCESS, ''EV_CAMERA_CAPTURE_SUCCESS''),
     (EV_CAMERA_CAPTURE_ERROR, ''EV_CAMERA_CAPTURE_ERROR''),
     (EV_CAMERA_DOWNLOAD, ''EV_CAMERA_DOWNLOAD''),
     (EV_CAMERA_DOWNLOAD_SUCCESS, ''EV_CAMERA_DOWNLOAD_SUCCESS''),
     (EV_CAMERA_DOWNLOAD_ERROR, ''EV_CAMERA_DOWNLOAD_ERROR'')]"

definition topic_string :: "(u8 \<times> string) list" where
  "topic_string =
    [(TOPIC_CAMERA_CMD, ''TOPIC_CAMERA_CMD''),
     (TOPIC_CAMERA_EVENT, ''TOPIC_CAMERA_EVENT''),
     (TOPIC_CAMERA_STATUS, ''TOPIC_CAMERA_STATUS'')]"

definition getEventName :: "u16 \<Rightarrow> string" where
  "getEventName ev = (case map_of event_string ev of Some s \<Rightarrow> s | None \<Rightarrow> to_string (uint ev))"

definition getTopicName :: "u8 \<Rightarrow> string" where
  "getTopicName t = (case map_of topic_string t of Some s \<Rightarrow> s | None \<Rightarrow> to_string (uint t))"

text \<open>
  A printed name determines its signal: the names of the table are distinct, and the
  decimal numbers printed for the other signals start with a digit, which no name does.
\<close>

lemma to_string_hd_digit: "0 \<le> i \<Longrightarrow> is_digit (hd (to_string i))"
  by (rule dec_string_Cons [of i]) (simp_all add: to_string_def)

lemma to_string_inj: "in_int i \<Longrightarrow> in_int j \<Longrightarrow> to_string i = to_string j \<Longrightarrow> i = j"
  by (metis stoi_to_string sum.inject(2))

text \<open>A table of names, none of which starts with a digit, printed with numbers for the rest.\<close>

lemma name_or_number_inj:
  fixes tab :: "('n :: len word \<times> string) list"
  assumes vals: "distinct (map snd tab)" and keys: "distinct (map fst tab)"
    and alpha: "\<forall>s \<in> set (map snd tab). \<not> is_digit (hd s)"
    and small: "LENGTH('n) \<le> 31"
    and eq: "(case map_of tab a of Some s \<Rightarrow> s | None \<Rightarrow> to_string (uint a))
      = (case map_of tab b of Some s \<Rightarrow> s | None \<Rightarrow> to_string (uint b))"
  shows "a = b"
proof -
  have num: "is_digit (hd (to_string (uint w)))" for w :: "'n word"
    by (rule to_string_hd_digit) simp
  have name: "\<not> is_digit (hd s)" if "map_of tab w = Some s" for w s
    using alpha map_of_SomeD [OF that] by force
  have range: "in_int (uint w)" for w :: "'n word"
  proof -
    have "uint w < 2 ^ LENGTH('n)" by (rule uint_lt2p)
    also have "\<dots> \<le> (2 :: int) ^ 31" using small by (intro power_increasing) auto
    finally have "uint w < 2 ^ 31" .
    moreover have "- 2147483648 \<le> uint w" by (rule order_trans [of _ 0]) simp_all
    ultimately show ?thesis by simp
  qed
  show ?thesis
  proof (cases "map_of tab a"; cases "map_of tab b")
    assume "map_of tab a = None" "map_of tab b = None"
    then have "uint a = uint b" using eq to_string_inj [OF range range] by simp
    then show ?thesis by (simp only: word_uint_eq_iff)
  next
    fix s t assume st: "map_of tab a = Some s" "map_of tab b = Some t"
    then have "s = t" using eq by simp
    then show ?thesis
      using map_of_SomeD [OF st(1)] map_of_SomeD [OF st(2)] vals
        inj_onD [of snd "set tab" "(a, t)" "(b, t)"] by (simp add: distinct_map)
  qed (use eq num name in force)+
qed

text \<open>
  Printed signal names are unambiguous: two signals with the same printed name are
  the same signal, for all 65536 signals, and likewise for the 256 topics.
\<close>

theorem printed_names_injective:
  "inj getEventName \<and> inj getTopicName"
proof
  have "distinct (map snd event_string)" "distinct (map fst event_string)"
    "\<forall>s \<in> set (map snd event_string). \<not> is_digit (hd s)"
    by (simp_all add: event_string_def is_digit_def digit_val_def)
  from name_or_number_inj [OF this] show "inj getEventName"
    by (auto intro!: injI simp: getEventName_def)
  have "distinct (map snd topic_string)" "distinct (map fst topic_string)"
    "\<forall>s \<in> set (map snd topic_string). \<not> is_digit (hd s)"
    by (simp_all add: topic_string_def is_digit_def digit_val_def)
  from name_or_number_inj [OF this] show "inj getTopicName"
    by (auto intro!: injI simp: getTopicName_def)
qed

end
