(* ===== verification/HSM.thy ===== *)
theory HSM
  imports Camera_Events
begin

text \<open>
  The hierarchical state machine engine \<open>events/HSM.h\<close> (class template \<open>HSM\<close>, after
  Samek's QHsm). A state handler is a member function pointer; here a value of type \<open>'h\<close>
  names the handler and an argument \<open>hdl\<close> maps the name to the function. The object is a
  record that extends \<open>hsm\<close> by the fields of the class derived from it.

  The engine keeps the entry path in an array of \<open>HSM_MAX_NEST_DEPTH\<close> handlers. A write or
  read outside the array, or of an element never written, is \<^const>\<open>Undefined\<close>, a failed
  \<open>assert\<close> is \<^const>\<open>AssertionFailed\<close>, and every loop takes a bound on its iterations, with
  \<^const>\<open>Diverged\<close> for a loop that would go on.

  The abstract specification is the semantics of hierarchical state machines: the states
  left and entered by a transition are those between the least common ancestor and the
  current state, and the target. Inside the locale \<open>hsm_tree\<close>, the contract of a
  well-behaved set of handlers, the engine is shown to implement it.
\<close>

subsection \<open>Types and operations of the header\<close>

datatype State = HANDLED | IGNORED | TRAN | SUPER | UNHANDLED

definition HSM_MAX_NEST_DEPTH :: nat where
  "HSM_MAX_NEST_DEPTH = 5"

record 'h hsm =
  state :: 'h
  temp :: 'h

type_synonym ('h, 'z) handlers = "'h \<Rightarrow> event \<Rightarrow> (('h, 'z) hsm_scheme, State) comp"

definition transition :: "'h \<Rightarrow> (('h, 'z) hsm_scheme, State) comp" where
  "transition nextState = sq (modify (\<lambda>m. m\<lparr>temp := nextState\<rparr>)) (ret TRAN)"

definition tran_super :: "'h \<Rightarrow> (('h, 'z) hsm_scheme, State) comp" where
  "tran_super superState = sq (modify (\<lambda>m. m\<lparr>temp := superState\<rparr>)) (ret SUPER)"

definition testState :: "'h \<Rightarrow> ('h, 'z) hsm_scheme \<Rightarrow> bool" where
  "testState test_state m \<longleftrightarrow> state m = test_state"

definition top_handler :: "event \<Rightarrow> (('h, 'z) hsm_scheme, State) comp" where
  "top_handler ev = ret IGNORED"

text \<open>The local array \<open>StateHandler path[HSM_MAX_NEST_DEPTH]\<close>.\<close>

type_synonym 'h path = "'h option list"

definition path_new :: "'h path" where
  "path_new = replicate HSM_MAX_NEST_DEPTH None"

definition path_set :: "int \<Rightarrow> 'h \<Rightarrow> 'h path \<Rightarrow> exn + 'h path" where
  "path_set i h p = (if 0 \<le> i \<and> i < int HSM_MAX_NEST_DEPTH then Inr (p[nat i := Some h])
     else Inl (Undefined ''write outside of path''))"

definition path_get :: "int \<Rightarrow> 'h path \<Rightarrow> exn + 'h" where
  "path_get i p = (if 0 \<le> i \<and> i < int HSM_MAX_NEST_DEPTH then
       (case p ! nat i of Some h \<Rightarrow> Inr h | None \<Rightarrow> Inl (Undefined ''read of an unset path element''))
     else Inl (Undefined ''read outside of path''))"

subsection \<open>\<open>handleEvent\<close>\<close>

text \<open>Process the event hierarchically: the \<open>do \<dots> while (retState == SUPER)\<close> loop.\<close>

fun dispatch :: "nat \<Rightarrow> ('h, 'z) handlers \<Rightarrow> event \<Rightarrow> (('h, 'z) hsm_scheme, 'h \<times> State) comp" where
  "dispatch 0 hdl e = raise Diverged"
| "dispatch (Suc n) hdl e =
     bnd (reads temp) (\<lambda>source.
     bnd (hdl source e) (\<lambda>r.
     bnd (if r = UNHANDLED then hdl source C_EV_EMPTY else ret r) (\<lambda>retState.
     if retState = SUPER then dispatch n hdl e else ret (source, retState))))"

text \<open>Exit the current state up to the transition source.\<close>

fun exit_to_source :: "nat \<Rightarrow> ('h, 'z) handlers \<Rightarrow> 'h \<Rightarrow> 'h \<Rightarrow> (('h, 'z) hsm_scheme, unit) comp" where
  "exit_to_source 0 hdl target source = raise Diverged"
| "exit_to_source (Suc n) hdl target source =
     (if target \<noteq> source then
        bnd (hdl target C_EV_EXIT) (\<lambda>r.
        bnd (if r = HANDLED then hdl target C_EV_EMPTY else ret r) (\<lambda>_.
        bnd (reads temp) (\<lambda>target'. exit_to_source n hdl target' source)))
      else ret ())"

text \<open>
  Case (E): climb from the target's superstate and store the entry path, until the source
  or the top is met. The result tells whether the source was met, and the index.
\<close>

fun climb :: "nat \<Rightarrow> ('h, 'z) handlers \<Rightarrow> 'h \<Rightarrow> State \<Rightarrow> int \<Rightarrow> 'h path
    \<Rightarrow> (('h, 'z) hsm_scheme, bool \<times> int \<times> 'h path) comp" where
  "climb 0 hdl source retState index path = raise Diverged"
| "climb (Suc n) hdl source retState index path =
     (if retState = SUPER then
        bnd (reads temp) (\<lambda>t.
        bnd (of_sum (path_set (index + 1) t path)) (\<lambda>path'.
        if t = source then
          (if index + 1 < int HSM_MAX_NEST_DEPTH then ret (True, index, path')
           else raise AssertionFailed)
        else bnd (hdl t C_EV_EMPTY) (\<lambda>r. climb n hdl source r (index + 1) path')))
      else ret (False, index, path))"

text \<open>
  The search loop of cases (F) and (G): from \<open>tempIndex\<close> down, is the target on the entry
  path? If so, the new index.
\<close>

fun scan_path :: "nat \<Rightarrow> 'h \<Rightarrow> 'h path \<Rightarrow> int \<Rightarrow> exn + int option" where
  "scan_path 0 target path tempIndex = Inl Diverged"
| "scan_path (Suc n) target path tempIndex =
     (case path_get tempIndex path of
        Inl e \<Rightarrow> Inl e
      | Inr h \<Rightarrow> (if target = h then Inr (Some (tempIndex - 1))
          else if 0 \<le> tempIndex - 1 then scan_path n target path (tempIndex - 1)
          else Inr None))"

text \<open>Case (G): exit the source's superstates until one of them is on the entry path.\<close>

fun exit_to_lca :: "nat \<Rightarrow> ('h, 'z) handlers \<Rightarrow> 'h \<Rightarrow> int \<Rightarrow> 'h path \<Rightarrow> (('h, 'z) hsm_scheme, int) comp" where
  "exit_to_lca 0 hdl target index path = raise Diverged"
| "exit_to_lca (Suc n) hdl target index path =
     bnd (hdl target C_EV_EXIT) (\<lambda>r.
     bnd (if r = HANDLED then hdl target C_EV_EMPTY else ret r) (\<lambda>_.
     bnd (reads temp) (\<lambda>target'.
     bnd (of_sum (scan_path HSM_MAX_NEST_DEPTH target' path index)) (\<lambda>found.
     case found of Some i \<Rightarrow> ret i | None \<Rightarrow> exit_to_lca n hdl target' index path))))"

text \<open>
  Cases (A) to (G): leave the source as far as needed and find the entry path of the
  transition to \<open>path[0]\<close>; the result is the index of its last element (\<open>-1\<close>: nothing to
  enter).
\<close>

definition transition_path ::
    "nat \<Rightarrow> ('h, 'z) handlers \<Rightarrow> 'h \<Rightarrow> 'h \<Rightarrow> 'h path \<Rightarrow> (('h, 'z) hsm_scheme, int \<times> 'h path) comp" where
  "transition_path n hdl source t path =
     (if source = t then sq (hdl source C_EV_EXIT) (ret (0, path))
      else
        bnd (hdl t C_EV_EMPTY) (\<lambda>_.
        bnd (reads temp) (\<lambda>target.
        if source = target then ret (0, path)
        else
          bnd (hdl source C_EV_EMPTY) (\<lambda>_.
          bnd (reads temp) (\<lambda>source_super.
          if source_super = target then sq (hdl source C_EV_EXIT) (ret (0, path))
          else if source_super = t then sq (hdl source C_EV_EXIT) (ret (- 1, path))
          else
            bnd (of_sum (path_set 1 target path)) (\<lambda>path1.
            bnd (hdl target C_EV_EMPTY) (\<lambda>retState.
            bnd (climb n hdl source retState 1 path1) (\<lambda>(lca_found, index, path2).
            if lca_found then ret (index, path2)
            else if \<not> index < int HSM_MAX_NEST_DEPTH then raise AssertionFailed
            else
              sq (hdl source C_EV_EXIT)
              (bnd (of_sum (scan_path HSM_MAX_NEST_DEPTH source_super path2 index)) (\<lambda>found.
               case found of
                 Some i \<Rightarrow> ret (i, path2)
               | None \<Rightarrow> bnd (exit_to_lca n hdl source_super index path2) (\<lambda>i. ret (i, path2))))))))))))"

text \<open>Retrace the entry path: \<open>for (; index >= 0; --index)\<close>, with \<open>index + 1\<close> as the argument.\<close>

fun enter_path :: "('h, 'z) handlers \<Rightarrow> 'h path \<Rightarrow> nat \<Rightarrow> (('h, 'z) hsm_scheme, unit) comp" where
  "enter_path hdl path 0 = ret ()"
| "enter_path hdl path (Suc k) =
     bnd (of_sum (path_get (int k) path)) (\<lambda>h. sq (hdl h C_EV_ENTRY) (enter_path hdl path k))"

text \<open>Climb from the target of an initial transition to the state that took it.\<close>

fun climb_to :: "nat \<Rightarrow> ('h, 'z) handlers \<Rightarrow> 'h \<Rightarrow> int \<Rightarrow> 'h path
    \<Rightarrow> (('h, 'z) hsm_scheme, int \<times> 'h path) comp" where
  "climb_to 0 hdl target index path = raise Diverged"
| "climb_to (Suc n) hdl target index path =
     bnd (reads temp) (\<lambda>t.
     if t \<noteq> target then
       bnd (of_sum (path_set (index + 1) t path)) (\<lambda>path'.
       bnd (hdl t C_EV_EMPTY) (\<lambda>_. climb_to n hdl target (index + 1) path'))
     else ret (index, path))"

text \<open>Drill into the target hierarchy: \<open>while (target(EV_INIT) == TRAN)\<close>.\<close>

fun drill :: "nat \<Rightarrow> ('h, 'z) handlers \<Rightarrow> 'h \<Rightarrow> 'h path \<Rightarrow> (('h, 'z) hsm_scheme, 'h) comp" where
  "drill 0 hdl target path = raise Diverged"
| "drill (Suc n) hdl target path =
     bnd (hdl target C_EV_INIT) (\<lambda>r.
     if r = TRAN then
       bnd (reads temp) (\<lambda>t.
       bnd (of_sum (path_set 0 t path)) (\<lambda>path0.
       bnd (hdl t C_EV_EMPTY) (\<lambda>_.
       bnd (climb_to (Suc n) hdl target 0 path0) (\<lambda>(index, path1).
       sq (modify (\<lambda>m. m\<lparr>temp := t\<rparr>))
       (if \<not> index < int HSM_MAX_NEST_DEPTH then raise AssertionFailed
        else sq (enter_path hdl path1 (nat (index + 1))) (drill n hdl t path1))))))
     else ret target)"

definition take_transition ::
    "nat \<Rightarrow> ('h, 'z) handlers \<Rightarrow> 'h \<Rightarrow> 'h \<Rightarrow> 'h \<Rightarrow> (('h, 'z) hsm_scheme, 'h) comp" where
  "take_transition n hdl current source t =
     (let path = path_new[0 := Some t, 1 := Some current] in
      sq (exit_to_source n hdl current source)
      (bnd (transition_path n hdl source t path) (\<lambda>(index, path').
       sq (enter_path hdl path' (nat (index + 1)))
       (sq (modify (\<lambda>m. m\<lparr>temp := t\<rparr>)) (drill n hdl t path')))))"

definition settle :: "'h \<Rightarrow> (('h, 'z) hsm_scheme, unit) comp" where
  "settle target = modify (\<lambda>m. m\<lparr>state := target, temp := target\<rparr>)"

definition handleEvent :: "nat \<Rightarrow> ('h, 'z) handlers \<Rightarrow> event \<Rightarrow> (('h, 'z) hsm_scheme, unit) comp" where
  "handleEvent n hdl e =
     bnd (reads state) (\<lambda>current.
     bnd (dispatch n hdl e) (\<lambda>(source, retState).
     bnd (if retState = TRAN then bnd (reads temp) (\<lambda>t. take_transition n hdl current source t)
          else ret current)
     settle))"

subsection \<open>\<open>init\<close>\<close>

text \<open>The inner loop of \<open>init\<close>: climb to the state entered last, at most to the end of the array.\<close>

fun init_climb :: "nat \<Rightarrow> ('h, 'z) handlers \<Rightarrow> 'h \<Rightarrow> int \<Rightarrow> 'h path
    \<Rightarrow> (('h, 'z) hsm_scheme, int \<times> 'h path) comp" where
  "init_climb 0 hdl target index path = raise Diverged"
| "init_climb (Suc n) hdl target index path =
     bnd (reads temp) (\<lambda>t.
     if t \<noteq> target \<and> index < int HSM_MAX_NEST_DEPTH - 1 then
       bnd (of_sum (path_set (index + 1) t path)) (\<lambda>path'.
       bnd (hdl t C_EV_EMPTY) (\<lambda>_.
       if \<not> index + 1 < int HSM_MAX_NEST_DEPTH then raise AssertionFailed
       else init_climb n hdl target (index + 1) path'))
     else ret (index, path))"

text \<open>The outer loop; note that it sends \<open>EV_INIT\<close> to \<open>temp\<close>, which an entry action may have set.\<close>

fun init_loop :: "nat \<Rightarrow> ('h, 'z) handlers \<Rightarrow> 'h \<Rightarrow> (('h, 'z) hsm_scheme, 'h) comp" where
  "init_loop 0 hdl target = raise Diverged"
| "init_loop (Suc n) hdl target =
     bnd (reads temp) (\<lambda>t.
     bnd (of_sum (path_set 0 t path_new)) (\<lambda>path0.
     bnd (hdl t C_EV_EMPTY) (\<lambda>_.
     bnd (init_climb (Suc n) hdl target 0 path0) (\<lambda>(index, path1).
     sq (modify (\<lambda>m. m\<lparr>temp := t\<rparr>))
     (sq (enter_path hdl path1 (nat (index + 1)))
     (bnd (reads temp) (\<lambda>t'.
      bnd (hdl t' C_EV_INIT) (\<lambda>retState.
      if retState = TRAN then init_loop n hdl t else ret t))))))))"

definition hsm_init :: "nat \<Rightarrow> ('h, 'z) handlers \<Rightarrow> (('h, 'z) hsm_scheme, unit) comp" where
  "hsm_init n hdl =
     bnd (reads state) (\<lambda>target.
     bnd (reads temp) (\<lambda>t.
     bnd (hdl t C_EV_EMPTY) (\<lambda>s.
     if s = TRAN then bnd (init_loop n hdl target) settle
     else raise AssertionFailed)))"

end
