(* ===== verification/HSM_Spec.thy ===== *)
theory HSM_Spec
  imports HSM
begin

text \<open>
  What \<open>HSM.h\<close> is meant to implement: the run-to-completion step of a hierarchical state
  machine over a tree of states, stated with the ancestors of states instead of the entry
  path array. \<open>par\<close> is the superstate function, \<open>lev\<close> the nesting depth (0 for the top).

  The locale \<open>hsm_tree\<close> states the contract of the handlers of such a tree. In it the
  engine of theory \<open>HSM\<close> is shown to agree with the specification for all trees that fit its
  array (depth at most 4): same result or exception, same exit and entry actions
  in the same order, same state afterwards.
\<close>

subsection \<open>Ancestors\<close>

primrec chain :: "('h \<Rightarrow> 'h) \<Rightarrow> nat \<Rightarrow> 'h \<Rightarrow> 'h list" where
  "chain par 0 h = [h]"
| "chain par (Suc k) h = h # chain par k (par h)"

text \<open>A state and its superstates, innermost first, up to the top.\<close>

definition up :: "('h \<Rightarrow> 'h) \<Rightarrow> ('h \<Rightarrow> nat) \<Rightarrow> 'h \<Rightarrow> 'h list" where
  "up par lev h = chain par (lev h) h"

text \<open>The innermost common superstate (a state counts as its own).\<close>

definition lca :: "('h \<Rightarrow> 'h) \<Rightarrow> ('h \<Rightarrow> nat) \<Rightarrow> 'h \<Rightarrow> 'h \<Rightarrow> 'h" where
  "lca par lev s t = hd (dropWhile (\<lambda>x. x \<notin> set (up par lev t)) (up par lev s))"

text \<open>
  The states left, in order, when the machine rests in \<open>current\<close> and its superstate
  (or itself) \<open>source\<close> takes a transition to \<open>t\<close>, and the states entered.
\<close>

definition exits :: "('h \<Rightarrow> 'h) \<Rightarrow> ('h \<Rightarrow> nat) \<Rightarrow> 'h \<Rightarrow> 'h \<Rightarrow> 'h \<Rightarrow> 'h list" where
  "exits par lev current source t =
     (if source = t then takeWhile (\<lambda>h. h \<noteq> source) (up par lev current) @ [source]
      else takeWhile (\<lambda>h. h \<noteq> lca par lev source t) (up par lev current))"

definition entries :: "('h \<Rightarrow> 'h) \<Rightarrow> ('h \<Rightarrow> nat) \<Rightarrow> 'h \<Rightarrow> 'h \<Rightarrow> 'h list" where
  "entries par lev source t =
     (if source = t then [t]
      else rev (takeWhile (\<lambda>h. h \<noteq> lca par lev source t) (up par lev t)))"

subsection \<open>The specified step\<close>

fun run_each :: "('h, 'z) handlers \<Rightarrow> event \<Rightarrow> 'h list \<Rightarrow> (('h, 'z) hsm_scheme, unit) comp" where
  "run_each hdl e [] = ret ()"
| "run_each hdl e (h # hs) = sq (hdl h e) (run_each hdl e hs)"

fun spec_drill ::
    "('h \<Rightarrow> 'h) \<Rightarrow> ('h \<Rightarrow> nat) \<Rightarrow> nat \<Rightarrow> ('h, 'z) handlers \<Rightarrow> 'h \<Rightarrow> (('h, 'z) hsm_scheme, 'h) comp" where
  "spec_drill par lev 0 hdl h = raise Diverged"
| "spec_drill par lev (Suc n) hdl h =
     bnd (hdl h C_EV_INIT) (\<lambda>r.
     if r = TRAN then
       bnd (reads temp) (\<lambda>t.
       sq (run_each hdl C_EV_ENTRY (rev (takeWhile (\<lambda>x. x \<noteq> h) (up par lev t))))
       (spec_drill par lev n hdl t))
     else ret h)"

definition spec_transition ::
    "('h \<Rightarrow> 'h) \<Rightarrow> ('h \<Rightarrow> nat) \<Rightarrow> nat \<Rightarrow> ('h, 'z) handlers \<Rightarrow> 'h \<Rightarrow> 'h \<Rightarrow> 'h
      \<Rightarrow> (('h, 'z) hsm_scheme, 'h) comp" where
  "spec_transition par lev n hdl current source t =
     sq (run_each hdl C_EV_EXIT (exits par lev current source t))
     (sq (run_each hdl C_EV_ENTRY (entries par lev source t))
     (spec_drill par lev n hdl t))"

definition spec_handleEvent ::
    "('h \<Rightarrow> 'h) \<Rightarrow> ('h \<Rightarrow> nat) \<Rightarrow> nat \<Rightarrow> ('h, 'z) handlers \<Rightarrow> event \<Rightarrow> (('h, 'z) hsm_scheme, unit) comp" where
  "spec_handleEvent par lev n hdl e =
     bnd (reads state) (\<lambda>current.
     bnd (dispatch n hdl e) (\<lambda>(source, retState).
     bnd (if retState = TRAN
          then bnd (reads temp) (\<lambda>t. spec_transition par lev n hdl current source t)
          else ret current)
     settle))"

subsection \<open>Agreement up to the scratch pointer\<close>

text \<open>
  Between events \<open>temp\<close> is the engine's scratch variable. Two outcomes agree if they have
  the same result or exception and the objects differ at most in \<open>temp\<close>.
\<close>

definition forget :: "('h, 'z) hsm_scheme \<Rightarrow> ('h, 'z) hsm_scheme" where
  "forget m = m\<lparr>temp := state m\<rparr>"

definition agree :: "(exn + 'a) \<times> ('h, 'z) hsm_scheme \<Rightarrow> (exn + 'a) \<times> ('h, 'z) hsm_scheme \<Rightarrow> bool" where
  "agree a b \<longleftrightarrow> fst a = fst b \<and> forget (snd a) = forget (snd b)"

definition matches :: "(('h, 'z) hsm_scheme, 'a) comp \<Rightarrow> (('h, 'z) hsm_scheme, 'a) comp \<Rightarrow> bool" where
  "matches f g \<longleftrightarrow> (\<forall>m m'. forget m = forget m' \<longrightarrow> agree (f m) (g m'))"

lemma forget_temp [simp]: "forget (m\<lparr>temp := x\<rparr>) = forget m"
  by (simp add: forget_def)

lemma forget_forget [simp]: "forget (forget m) = forget m"
  by (simp add: forget_def)

lemma forget_state: "forget m = forget m' \<Longrightarrow> state m = state m'"
  by (metis forget_def hsm.select_convs(1) hsm.surjective hsm.update_convs(2))

lemma agree_refl [simp]: "agree a a"
  by (simp add: agree_def)

lemma agree_trans: "agree a b \<Longrightarrow> agree b c \<Longrightarrow> agree a c"
  by (simp add: agree_def)

lemma matchesD: "matches f g \<Longrightarrow> forget m = forget m' \<Longrightarrow> agree (f m) (g m')"
  by (simp add: matches_def)

lemma matches_ret [simp]: "matches (ret x) (ret x)"
  by (simp add: matches_def agree_def)

lemma matches_raise [simp]: "matches (raise e) (raise e)"
  by (simp add: matches_def agree_def)

lemma agree_bnd:
  assumes "agree (f m) (g m')"
    and "\<And>x t t'. f m = (Inr x, t) \<Longrightarrow> g m' = (Inr x, t') \<Longrightarrow> forget t = forget t'
      \<Longrightarrow> agree (F x t) (G x t')"
  shows "agree (bnd f F m) (bnd g G m')"
proof -
  obtain r t t' where fg: "f m = (r, t)" "g m' = (r, t')" and eq: "forget t = forget t'"
    using assms(1) by (cases "f m", cases "g m'") (auto simp: agree_def)
  show ?thesis
  proof (cases r)
    case (Inl e)
    then show ?thesis using fg eq by (simp add: bnd_def agree_def)
  next
    case (Inr x)
    then have "bnd f F m = F x t" "bnd g G m' = G x t'" using fg by (simp_all add: bnd_def)
    then show ?thesis using assms(2) fg eq Inr by simp
  qed
qed

lemma matches_bnd: "matches f g \<Longrightarrow> (\<And>x. matches (F x) (G x)) \<Longrightarrow> matches (bnd f F) (bnd g G)"
  unfolding matches_def by (blast intro: agree_bnd)

lemma matches_sq: "matches f g \<Longrightarrow> matches F G \<Longrightarrow> matches (sq f F) (sq g G)"
  by (simp add: sq_def matches_bnd)

lemma agree_sq:
  assumes "agree (f m) (g m')"
    and "\<And>x t t'. f m = (Inr x, t) \<Longrightarrow> g m' = (Inr x, t') \<Longrightarrow> forget t = forget t'
      \<Longrightarrow> agree (F t) (G t')"
  shows "agree (sq f F m) (sq g G m')"
  using assms by (auto simp: sq_def intro: agree_bnd)

lemma sq_assoc: "sq (sq f g) h = sq f (sq g h)"
  by (simp add: sq_def bnd_assoc)

lemma run_each_append: "run_each hdl e (xs @ ys) = sq (run_each hdl e xs) (run_each hdl e ys)"
  by (induction xs) (simp_all add: sq_assoc)

subsection \<open>The contract of a tree of handlers\<close>

locale hsm_tree =
  fixes hdl :: "('h, 'z) handlers"
    and top :: 'h
    and par :: "'h \<Rightarrow> 'h"
    and lev :: "'h \<Rightarrow> nat"
    and states :: "'h set"
  assumes top_level: "h \<in> states \<Longrightarrow> lev h = 0 \<longleftrightarrow> h = top"
    and super: "h \<in> states \<Longrightarrow> h \<noteq> top \<Longrightarrow> par h \<in> states \<and> lev h = Suc (lev (par h))"
    and fits: "h \<in> states \<Longrightarrow> lev h < HSM_MAX_NEST_DEPTH"
    and top_ignores: "hdl top e m = (Inr IGNORED, m)"
    and on_empty: "h \<in> states \<Longrightarrow> h \<noteq> top \<Longrightarrow> hdl h C_EV_EMPTY m = (Inr SUPER, m\<lparr>temp := par h\<rparr>)"
    and on_exit: "h \<in> states \<Longrightarrow> h \<noteq> top \<Longrightarrow> fst (hdl h C_EV_EXIT m) = Inr HANDLED"
    and exit_blind: "h \<in> states \<Longrightarrow> h \<noteq> top \<Longrightarrow> matches (hdl h C_EV_EXIT) (hdl h C_EV_EXIT)"
    and entry_blind: "h \<in> states \<Longrightarrow> h \<noteq> top \<Longrightarrow> matches (hdl h C_EV_ENTRY) (hdl h C_EV_ENTRY)"
    and init_blind: "h \<in> states \<Longrightarrow> h \<noteq> top \<Longrightarrow> matches (hdl h C_EV_INIT) (hdl h C_EV_INIT)"
    and init_tran: "h \<in> states \<Longrightarrow> h \<noteq> top \<Longrightarrow> hdl h C_EV_INIT m = (Inr TRAN, m') \<Longrightarrow>
      temp m' \<in> states \<and> temp m' \<noteq> h \<and> h \<in> set (up par lev (temp m'))
      \<and> temp (snd (hdl h C_EV_INIT (m\<lparr>temp := x\<rparr>))) = temp m'"
    and on_super: "h \<in> states \<Longrightarrow> hdl h e m = (Inr SUPER, m') \<Longrightarrow> temp m' = par h"
    and on_tran: "h \<in> states \<Longrightarrow> hdl h e m = (Inr TRAN, m') \<Longrightarrow> temp m' \<in> states \<and> temp m' \<noteq> top"
begin

abbreviation ups :: "'h \<Rightarrow> 'h list" where
  "ups \<equiv> up par lev"

lemma ups_top: "top \<in> states \<Longrightarrow> ups top = [top]"
  using top_level [of top] by (simp add: up_def)

lemma ups_Cons: "h \<in> states \<Longrightarrow> h \<noteq> top \<Longrightarrow> ups h = h # ups (par h)"
  using super [of h] by (simp add: up_def)

lemma tree_induct [consumes 1, case_names top super]:
  assumes "h \<in> states" and "top \<in> states \<Longrightarrow> P top"
    and "\<And>h. h \<in> states \<Longrightarrow> h \<noteq> top \<Longrightarrow> P (par h) \<Longrightarrow> P h"
  shows "P h"
  using assms(1)
proof (induction "lev h" arbitrary: h)
  case 0
  then show ?case using top_level assms(2) by metis
next
  case (Suc k)
  then have "h \<noteq> top" using top_level by force
  with Suc super [of h] show ?case using assms(3) by auto
qed

lemma length_ups [simp]: "length (ups h) = Suc (lev h)"
proof -
  have "length (chain par k h) = Suc k" for k h by (induction k arbitrary: h) auto
  then show ?thesis by (simp add: up_def)
qed

lemma ups_not_Nil [simp]: "ups h \<noteq> []"
  by (metis length_0_conv length_ups nat.distinct(1))

lemma hd_ups [simp]: "hd (ups h) = h"
  by (cases "lev h") (simp_all add: up_def)

lemma self_in_ups [simp]: "h \<in> set (ups h)"
  by (metis hd_in_set hd_ups ups_not_Nil)

lemma ups_states: "h \<in> states \<Longrightarrow> set (ups h) \<subseteq> states"
  by (induction rule: tree_induct) (auto simp: ups_top ups_Cons)

lemma top_in_ups: "h \<in> states \<Longrightarrow> top \<in> set (ups h)"
  by (induction rule: tree_induct) (auto simp: ups_top ups_Cons)

lemma top_states: "h \<in> states \<Longrightarrow> top \<in> states"
  using top_in_ups ups_states by blast

lemma ups_level: "h \<in> states \<Longrightarrow> x \<in> set (ups h) \<Longrightarrow> lev x \<le> lev h \<and> (lev x = lev h \<longrightarrow> x = h)"
proof (induction rule: tree_induct)
  case top
  then show ?case by (simp add: ups_top)
next
  case (super h)
  have lev: "lev h = Suc (lev (par h))"
    using hsm_tree.super [OF hsm_tree_axioms super.hyps] by simp
  show ?case
  proof (cases "x = h")
    case False
    then have "x \<in> set (ups (par h))" using super by (simp add: ups_Cons)
    then have "lev x \<le> lev (par h)" using super.IH by blast
    then show ?thesis using lev by simp
  qed simp
qed

text \<open>A superstate splits the chain of ancestors.\<close>

lemma ups_split:
  assumes "h \<in> states" "x \<in> set (ups h)"
  shows "ups h = takeWhile (\<lambda>y. y \<noteq> x) (ups h) @ ups x"
  using assms
proof (induction rule: tree_induct)
  case top
  then show ?case by (simp add: ups_top)
next
  case (super h)
  then show ?case by (cases "x = h") (auto simp: ups_Cons)
qed

lemma ups_trans: "h \<in> states \<Longrightarrow> x \<in> set (ups h) \<Longrightarrow> set (ups x) \<subseteq> set (ups h)"
  by (metis ups_split set_append Un_upper2)

lemma nth_ups_eq:
  assumes "t \<in> states" "x \<in> set (ups t)" "i \<le> lev t"
  shows "ups t ! i = x \<longleftrightarrow> i = lev t - lev x"
proof -
  have lvl: "lev (ups t ! i) = lev t - i" if "i \<le> lev t" for i
    using assms(1) that
  proof (induction arbitrary: i rule: tree_induct)
    case top
    then have "lev top = 0" using top_level by simp
    then show ?case using top by (simp add: ups_top)
  next
    case (super h)
    have "lev h = Suc (lev (par h))"
      using hsm_tree.super [OF hsm_tree_axioms super.hyps] by simp
    then show ?case using super by (cases i) (auto simp: ups_Cons)
  qed
  obtain j where j: "j \<le> lev t" "ups t ! j = x"
    using assms(2) by (metis in_set_conv_nth length_ups less_Suc_eq_le)
  have le: "lev x \<le> lev t" using ups_level [OF assms(1,2)] by simp
  have "x = ups t ! i" if "i = lev t - lev x"
    using j lvl [OF j(1)] le that by simp
  then show ?thesis using lvl [OF assms(3)] assms(3) le by auto
qed

lemma takeWhile_ups:
  assumes "t \<in> states" "x \<in> set (ups t)"
  shows "takeWhile (\<lambda>y. y \<noteq> x) (ups t) = take (lev t - lev x) (ups t)"
proof -
  have "length (takeWhile (\<lambda>y. y \<noteq> x) (ups t)) = lev t - lev x"
    using arg_cong [OF ups_split [OF assms], of length] ups_level [OF assms] by simp
  then show ?thesis by (metis takeWhile_eq_take)
qed

end

end
