(* ===== verification/HSM_Correct.thy ===== *)
theory HSM_Correct
  imports HSM_Spec
begin

text \<open>
  The engine of theory \<open>HSM\<close> implements the specification of theory \<open>HSM_Spec\<close>, for every
  set of handlers that keeps the contract \<open>hsm_tree\<close>. The lemmas follow the phases of
  \<open>handleEvent\<close>: dispatching, leaving the current state, finding the entry path
  (cases A to G), entering, and drilling into initial transitions.
\<close>

text \<open>The first \<open>i + 1\<close> elements of the path array are those of a list of states.\<close>

definition path_ok :: "'h list \<Rightarrow> nat \<Rightarrow> 'h path \<Rightarrow> bool" where
  "path_ok hs i p \<longleftrightarrow> length p = HSM_MAX_NEST_DEPTH \<and> (\<forall>k \<le> i. p ! k = Some (hs ! k))"

text \<open>What some handler throws.\<close>

definition thrown :: "('h, 'z) handlers \<Rightarrow> exn \<Rightarrow> bool" where
  "thrown hdl x \<longleftrightarrow> (\<exists>h e m. fst (hdl h e m) = Inl x)"

context hsm_tree begin

subsection \<open>Single calls\<close>

lemma forget_eqD:
  assumes "forget m = forget m'"
  shows "m' = m\<lparr>temp := temp m'\<rparr>"
proof -
  have "(forget m)\<lparr>temp := temp m'\<rparr> = (forget m')\<lparr>temp := temp m'\<rparr>" using assms by simp
  then show ?thesis by (simp add: forget_def)
qed

lemma matches_temp_left: "matches f g \<Longrightarrow> matches (sq (modify (\<lambda>m. m\<lparr>temp := x\<rparr>)) f) g"
  by (simp add: matches_def)

lemma empty_reads:
  assumes "h \<in> states" "h \<noteq> top"
  shows "bnd (hdl h C_EV_EMPTY) (\<lambda>_. bnd (reads temp) F)
    = sq (modify (\<lambda>m. m\<lparr>temp := par h\<rparr>)) (F (par h))"
  by (rule ext) (simp add: bnd_Inr [where f = "\<lambda>_. bnd (reads temp) F", OF on_empty [OF assms]])

lemma exit_step:
  assumes h: "h \<in> states" "h \<noteq> top" and F: "matches (F (par h)) G"
  shows "matches (bnd (hdl h C_EV_EXIT) (\<lambda>r. bnd (if r = HANDLED then hdl h C_EV_EMPTY else ret r)
      (\<lambda>_. bnd (reads temp) F))) (sq (hdl h C_EV_EXIT) G)"
  unfolding matches_def sq_def
proof (intro allI impI agree_bnd)
  fix m m' :: "('h, 'z) hsm_scheme" and r t t'
  assume eq: "forget m = forget m'" and t: "hdl h C_EV_EXIT m = (Inr r, t)"
    and t': "forget t = forget t'"
  from t have "r = HANDLED" using on_exit [OF h, of m] by simp
  then show "agree (bnd (if r = HANDLED then hdl h C_EV_EMPTY else ret r)
      (\<lambda>_. bnd (reads temp) F) t) (G t')"
    using F t' by (simp add: empty_reads [OF h] matches_def)
qed (use exit_blind [OF h] in \<open>simp add: matches_def\<close>)

subsection \<open>Dispatching\<close>

lemma dispatch_result:
  assumes "temp m \<in> states" "lev (temp m) < n" "dispatch n hdl e m = (Inr (s, r), m')"
  shows "s \<in> set (ups (temp m)) \<and> r \<noteq> SUPER
    \<and> (r = TRAN \<longrightarrow> s \<noteq> top \<and> temp m' \<in> states \<and> temp m' \<noteq> top)"
  using assms
proof (induction n arbitrary: m)
  case 0
  then show ?case by simp
next
  case (Suc n)
  let ?s = "temp m"
  let ?k = "\<lambda>r. bnd (if r = UNHANDLED then hdl ?s C_EV_EMPTY else ret r) (\<lambda>retState.
     if retState = SUPER then dispatch n hdl e else ret (?s, retState))"
  from Suc.prems(3) have "bnd (hdl ?s e) ?k m = (Inr (s, r), m')" by simp
  then obtain r1 t1 where r1: "hdl ?s e m = (Inr r1, t1)" and k: "?k r1 t1 = (Inr (s, r), m')"
    by (rule bnd_InrE)
  from k obtain r2 t2 where
      r2: "(if r1 = UNHANDLED then hdl ?s C_EV_EMPTY else ret r1) t1 = (Inr r2, t2)"
    and fin: "(if r2 = SUPER then dispatch n hdl e else ret (?s, r2)) t2 = (Inr (s, r), m')"
    by (rule bnd_InrE)
  show ?case
  proof (cases "r2 = SUPER")
    case True
    have ntop: "?s \<noteq> top"
      using r1 r2 True top_ignores [of e m] top_ignores [of C_EV_EMPTY t1]
      by (auto simp: run_simps split: if_splits)
    have "temp t2 = par ?s"
      using r1 r2 True on_super [OF Suc.prems(1)] by (auto simp: run_simps split: if_splits)
    moreover have "set (ups (par ?s)) \<subseteq> set (ups ?s)" using ups_Cons [OF Suc.prems(1) ntop] by auto
    ultimately show ?thesis
      using Suc.IH [of t2] super [OF Suc.prems(1) ntop] Suc.prems(2) fin True by auto
  next
    case False
    then have res: "s = ?s" "r = r2" "m' = t2" using fin by (simp_all add: run_simps)
    moreover have "?s \<noteq> top \<and> temp t2 \<in> states \<and> temp t2 \<noteq> top" if "r2 = TRAN"
    proof -
      have "r1 \<noteq> UNHANDLED"
      proof
        assume "r1 = UNHANDLED"
        then have "hdl ?s C_EV_EMPTY t1 = (Inr TRAN, t2)" using r2 that by simp
        then show False
          using on_empty [OF Suc.prems(1)] top_ignores by (cases "?s = top") auto
      qed
      then have tr: "hdl ?s e m = (Inr TRAN, t2)" using r1 r2 that by (simp add: run_simps)
      moreover have "?s \<noteq> top" using tr top_ignores [of e m] by auto
      ultimately show ?thesis using on_tran [OF Suc.prems(1)] by blast
    qed
    ultimately show ?thesis using False by auto
  qed
qed

subsection \<open>Leaving the current state\<close>

lemma takeWhile_self: "takeWhile (\<lambda>h. h \<noteq> x) (ups x) = []"
  using hd_ups [of x] by (cases "ups x") simp_all

lemma exit_to_source_matches:
  assumes "cur \<in> states" "source \<in> set (ups cur)" "lev cur - lev source < n"
  shows "matches (exit_to_source n hdl cur source)
    (run_each hdl C_EV_EXIT (takeWhile (\<lambda>h. h \<noteq> source) (ups cur)))"
  using assms
proof (induction n arbitrary: cur)
  case 0
  then show ?case by simp
next
  case (Suc n)
  show ?case
  proof (cases "cur = source")
    case True
    then show ?thesis by (simp add: takeWhile_self)
  next
    case False
    have ntop: "cur \<noteq> top"
    proof
      assume "cur = top"
      then have "ups cur = [cur]" using ups_top Suc.prems(1) by simp
      with Suc.prems(2) False show False by simp
    qed
    note c = ups_Cons [OF Suc.prems(1) ntop] super [OF Suc.prems(1) ntop]
    have src: "source \<in> set (ups (par cur))" using Suc.prems(2) False c by simp
    have "lev source \<le> lev (par cur)" using ups_level [of "par cur"] c src by blast
    then have "matches (exit_to_source n hdl (par cur) source)
        (run_each hdl C_EV_EXIT (takeWhile (\<lambda>h. h \<noteq> source) (ups (par cur))))"
      using Suc.IH [of "par cur"] Suc.prems(3) c src by simp
    moreover have "run_each hdl C_EV_EXIT (takeWhile (\<lambda>h. h \<noteq> source) (ups cur))
        = sq (hdl cur C_EV_EXIT) (run_each hdl C_EV_EXIT (takeWhile (\<lambda>h. h \<noteq> source) (ups (par cur))))"
      using False by (subst c(1)) simp
    ultimately show ?thesis
      unfolding exit_to_source.simps using False
      by (simp only: if_True not_False_eq_True exit_step [OF Suc.prems(1) ntop])
  qed
qed

subsection \<open>The entry path\<close>

lemma lev_less_5: "h \<in> states \<Longrightarrow> lev h < 5"
  using fits by (simp add: HSM_MAX_NEST_DEPTH_def)

lemma path_set_in: "i < 5 \<Longrightarrow> path_set (int i) h p = Inr (p[i := Some h])"
  by (simp add: path_set_def HSM_MAX_NEST_DEPTH_def)

lemma path_get_ok:
  assumes "t \<in> states" "path_ok (ups t) i p" "k \<le> i" "k \<le> lev t"
  shows "path_get (int k) p = Inr (ups t ! k)"
  using assms lev_less_5 [of t] by (auto simp: path_get_def path_ok_def HSM_MAX_NEST_DEPTH_def)

lemma path_ok_extend:
  assumes "path_ok (ups t) i p" "Suc i < 5"
  shows "path_ok (ups t) (Suc i) (p[Suc i := Some (ups t ! Suc i)])"
  using assms by (auto simp: path_ok_def HSM_MAX_NEST_DEPTH_def nth_list_update le_Suc_eq)

lemma path_ok_less: "path_ok (ups t) i p \<Longrightarrow> j \<le> i \<Longrightarrow> path_ok (ups t) j p"
  by (simp add: path_ok_def)

lemma ups_0: "ups t ! 0 = t"
  by (metis hd_conv_nth hd_ups ups_not_Nil)

lemma ups_Suc: "i < lev t \<Longrightarrow> ups t ! Suc i = par (ups t ! i)"
proof -
  have 0: "chain par k h ! 0 = h" for k h by (cases k) simp_all
  have "chain par k h ! Suc i = par (chain par k h ! i)" if "i < k" for k i h
    using that
  proof (induction k arbitrary: h i)
    case (Suc k)
    then show ?case by (cases i) (simp_all add: 0 del: One_nat_def)
  qed simp
  then show "i < lev t \<Longrightarrow> ups t ! Suc i = par (ups t ! i)" by (simp add: up_def)
qed

lemma ups_nth_states: "t \<in> states \<Longrightarrow> i \<le> lev t \<Longrightarrow> ups t ! i \<in> states"
  using ups_states [of t] nth_mem [of i "ups t"] by auto

lemma ups_nth_top:
  assumes "t \<in> states" "i \<le> lev t"
  shows "ups t ! i = top \<longleftrightarrow> i = lev t"
  using nth_ups_eq [OF assms(1) top_in_ups [OF assms(1)] assms(2)]
    top_level [OF top_states [OF assms(1)]] by simp

lemma enter_path_ok:
  assumes "t \<in> states" "path_ok (ups t) i p" "k \<le> Suc i" "k \<le> Suc (lev t)"
  shows "enter_path hdl p k = run_each hdl C_EV_ENTRY (rev (take k (ups t)))"
  using assms(3,4)
proof (induction k)
  case (Suc k)
  then show ?case
    using path_get_ok [OF assms(1,2), of k] by (simp add: take_Suc_conv_app_nth)
qed simp

lemma scan_path_ok:
  assumes "t \<in> states" "path_ok (ups t) i p" "i \<le> lev t" "i < n"
  shows "scan_path n x p (int i)
    = Inr (if x \<in> set (ups t) \<and> lev t - lev x \<le> i then Some (int (lev t - lev x) - 1) else None)"
  using assms(2-4)
proof (induction n arbitrary: i)
  case (Suc n)
  have get: "path_get (int i) p = Inr (ups t ! i)"
    using path_get_ok [OF assms(1) Suc.prems(1)] Suc.prems(2) by simp
  have eq: "x = ups t ! i \<longleftrightarrow> x \<in> set (ups t) \<and> lev t - lev x = i"
    using nth_ups_eq [OF assms(1) _ Suc.prems(2), of x] nth_mem [of i "ups t"] Suc.prems(2) by auto
  show ?case
  proof (cases i)
    case 0
    then show ?thesis using get eq by auto
  next
    case (Suc j)
    then have "scan_path n x p (int j) = Inr (if x \<in> set (ups t) \<and> lev t - lev x \<le> j
        then Some (int (lev t - lev x) - 1) else None)"
      using Suc.IH [of j] Suc.prems path_ok_less [of t i p j] by simp
    then show ?thesis using get eq Suc by auto
  qed
qed simp

lemma climb_ok:
  assumes t: "t \<in> states" and src: "\<forall>k \<le> i. ups t ! k \<noteq> source"
    and i: "i \<le> lev t" "lev t - i < n" and p: "path_ok (ups t) i p"
  shows "\<exists>p' m'. bnd (hdl (ups t ! i) C_EV_EMPTY) (\<lambda>r. climb n hdl source r (int i) p) m
      = (Inr (source \<in> set (ups t),
          if source \<in> set (ups t) then int (lev t - lev source) - 1 else int (lev t), p'), m')
    \<and> forget m' = forget m
    \<and> path_ok (ups t) (if source \<in> set (ups t) then lev t - lev source - 1 else lev t) p'"
  using src i p
proof (induction n arbitrary: i p m)
  case 0
  then show ?case by simp
next
  case (Suc n)
  let ?x = "ups t ! i"
  have x: "?x \<in> states" using ups_nth_states [OF t] Suc.prems by simp
  show ?case
  proof (cases "i = lev t")
    case True
    then have "?x = top" using ups_nth_top [OF t] by simp
    moreover have "source \<notin> set (ups t)"
      using Suc.prems(1) True by (auto simp: in_set_conv_nth less_Suc_eq_le)
    ultimately show ?thesis
      using top_ignores [of C_EV_EMPTY m] True Suc.prems by (simp add: bnd_def run_simps)
  next
    case False
    then have il: "Suc i \<le> lev t" using Suc.prems(2) by simp
    have ntop: "?x \<noteq> top" using ups_nth_top [OF t] Suc.prems(2) False by simp
    let ?y = "ups t ! Suc i" and ?m = "m\<lparr>temp := par ?x\<rparr>"
    have y: "?y = par ?x" using ups_Suc il by simp
    have i5: "Suc i < 5" using il lev_less_5 [OF t] by simp
    let ?p = "p[Suc i := Some ?y]"
    have set: "path_set (int i + 1) (par ?x) p = Inr ?p"
      using path_set_in [OF i5] y by (simp add: add.commute)
    have pok: "path_ok (ups t) (Suc i) ?p" by (rule path_ok_extend [OF Suc.prems(4) i5])
    have run: "bnd (hdl ?x C_EV_EMPTY) (\<lambda>r. climb (Suc n) hdl source r (int i) p) m
      = (if ?y = source then ret (True, int i, ?p)
         else bnd (hdl ?y C_EV_EMPTY) (\<lambda>r. climb n hdl source r (int (Suc i)) ?p)) ?m"
      using on_empty [OF x ntop, of m] set i5
      by (simp add: bnd_def [of "hdl ?x C_EV_EMPTY"] y HSM_MAX_NEST_DEPTH_def add.commute
          del: path_set_def)
    show ?thesis
    proof (cases "?y = source")
      case True
      then have "source \<in> set (ups t)" using nth_mem [of "Suc i" "ups t"] il by simp
      moreover from this have "lev t - lev source = Suc i" using nth_ups_eq [OF t _ il, of source] True by simp
      ultimately show ?thesis
        using run True path_ok_less [OF pok, of i] by (simp add: run_simps)
    next
      case False
      then have "\<forall>k \<le> Suc i. ups t ! k \<noteq> source" using Suc.prems(1) by (simp add: le_Suc_eq)
      moreover have "lev t - Suc i < n" using Suc.prems(3) il by simp
      ultimately show ?thesis
        using Suc.IH [OF _ il _ pok, of ?m] run False by simp
    qed
  qed
qed

subsection \<open>Leaving the source's superstates\<close>

lemma takeWhile_lca:
  assumes "s \<in> states" "t \<in> states"
  shows "takeWhile (\<lambda>h. h \<noteq> lca par lev s t) (ups s) = takeWhile (\<lambda>h. h \<notin> set (ups t)) (ups s)"
    and "lca par lev s t \<in> set (ups s)" "lca par lev s t \<in> set (ups t)"
proof -
  have "\<exists>x \<in> set (ups s). x \<in> set (ups t)"
    using top_in_ups [OF assms(1)] top_in_ups [OF assms(2)] by blast
  from first_with [OF this]
  show "takeWhile (\<lambda>h. h \<noteq> lca par lev s t) (ups s) = takeWhile (\<lambda>h. h \<notin> set (ups t)) (ups s)"
    "lca par lev s t \<in> set (ups s)" "lca par lev s t \<in> set (ups t)"
    by (simp_all add: lca_def)
qed

lemma lca_super:
  "s \<in> states \<Longrightarrow> s \<noteq> top \<Longrightarrow> s \<notin> set (ups t) \<Longrightarrow> lca par lev s t = lca par lev (par s) t"
  by (simp add: lca_def ups_Cons)

lemma lca_self: "s \<in> set (ups t) \<Longrightarrow> lca par lev s t = s"
  using hd_ups [of s] by (cases "ups s") (simp_all add: lca_def)

lemma bnd_sq_ret: "bnd (sq f (ret x)) K = sq f (K x)"
  by (simp add: sq_def bnd_assoc)

lemma bnd_sq: "bnd (sq f g) K = sq f (bnd g K)"
  by (simp add: sq_def bnd_assoc)

lemma scan_full:
  assumes "t \<in> states" "path_ok (ups t) (lev t) p"
  shows "scan_path HSM_MAX_NEST_DEPTH x p (int (lev t))
    = Inr (if x \<in> set (ups t) then Some (int (lev t - lev x) - 1) else None)"
  using scan_path_ok [OF assms(1) assms(2), of HSM_MAX_NEST_DEPTH x] lev_less_5 [OF assms(1)]
  by (simp add: HSM_MAX_NEST_DEPTH_def)

lemma exit_to_lca_matches:
  assumes t: "t \<in> states" "path_ok (ups t) (lev t) p"
    and h: "h \<in> states" "h \<notin> set (ups t)" "lev h \<le> n"
    and K: "matches (K (int (lev t - lev (lca par lev h t)) - 1)) G"
  shows "matches (bnd (exit_to_lca n hdl h (int (lev t)) p) K)
    (sq (run_each hdl C_EV_EXIT (takeWhile (\<lambda>x. x \<notin> set (ups t)) (ups h))) G)"
  using h K
proof (induction n arbitrary: h)
  case 0
  then have "h = top" using top_level by simp
  then show ?case using 0 top_in_ups [OF t(1)] by simp
next
  case (Suc n)
  have ntop: "h \<noteq> top" using Suc.prems(2) top_in_ups [OF t(1)] by auto
  note up = super [OF Suc.prems(1) ntop] and lca = lca_super [OF Suc.prems(1) ntop Suc.prems(2)]
  let ?F = "\<lambda>x. bnd (of_sum (scan_path HSM_MAX_NEST_DEPTH x p (int (lev t))))
     (\<lambda>found. case found of Some i \<Rightarrow> ret i | None \<Rightarrow> exit_to_lca n hdl x (int (lev t)) p)"
  let ?rest = "run_each hdl C_EV_EXIT (takeWhile (\<lambda>x. x \<notin> set (ups t)) (ups (par h)))"
  have F: "matches (bnd (?F (par h)) K) (sq ?rest G)"
  proof (cases "par h \<in> set (ups t)")
    case True
    then have "takeWhile (\<lambda>x. x \<notin> set (ups t)) (ups (par h)) = []"
      using hd_ups [of "par h"] by (cases "ups (par h)") simp_all
    moreover have "lca par lev h t = par h" using lca lca_self [OF True] by simp
    ultimately show ?thesis using True Suc.prems(4) scan_full [OF t] by simp
  next
    case False
    then show ?thesis
      using Suc.IH [of "par h"] Suc.prems(3,4) up lca scan_full [OF t] by simp
  qed
  have "takeWhile (\<lambda>x. x \<notin> set (ups t)) (ups h) = h # takeWhile (\<lambda>x. x \<notin> set (ups t)) (ups (par h))"
    using Suc.prems(2) ups_Cons [OF Suc.prems(1) ntop] by simp
  then have rhs: "sq (run_each hdl C_EV_EXIT (takeWhile (\<lambda>x. x \<notin> set (ups t)) (ups h))) G
      = sq (hdl h C_EV_EXIT) (sq ?rest G)"
    by (simp add: sq_assoc)
  have "bnd (exit_to_lca (Suc n) hdl h (int (lev t)) p) K
    = bnd (hdl h C_EV_EXIT) (\<lambda>r. bnd (if r = HANDLED then hdl h C_EV_EMPTY else ret r)
        (\<lambda>_. bnd (reads temp) (\<lambda>x. bnd (?F x) K)))"
    by (simp add: bnd_assoc)
  then show ?case
    unfolding rhs using exit_step [OF Suc.prems(1) ntop, of "\<lambda>x. bnd (?F x) K", OF F] by simp
qed

subsection \<open>Cases A to G\<close>

text \<open>The states left from the transition source on.\<close>

lemma case_F_G:
  assumes s: "source \<in> states" "source \<notin> set (ups t)"
    and t: "t \<in> states" "path_ok (ups t) (lev t) p" and n: "5 \<le> n"
    and K: "matches (K (int (lev t - lev (lca par lev source t)) - 1, p)) G"
  shows "matches (bnd (sq (hdl source C_EV_EXIT)
      (bnd (of_sum (scan_path HSM_MAX_NEST_DEPTH (par source) p (int (lev t)))) (\<lambda>found.
       case found of Some i \<Rightarrow> ret (i, p)
       | None \<Rightarrow> bnd (exit_to_lca n hdl (par source) (int (lev t)) p) (\<lambda>i. ret (i, p))))) K)
    (sq (run_each hdl C_EV_EXIT (takeWhile (\<lambda>x. x \<notin> set (ups t)) (ups source))) G)"
proof -
  have ntop: "source \<noteq> top" using s(2) top_in_ups [OF t(1)] by auto
  note lca = lca_super [OF s(1) ntop s(2)] and up = super [OF s(1) ntop]
  let ?rest = "run_each hdl C_EV_EXIT (takeWhile (\<lambda>x. x \<notin> set (ups t)) (ups (par source)))"
  have rhs: "sq (run_each hdl C_EV_EXIT (takeWhile (\<lambda>x. x \<notin> set (ups t)) (ups source))) G
      = sq (hdl source C_EV_EXIT) (sq ?rest G)"
    using s(2) ups_Cons [OF s(1) ntop] by (simp add: sq_assoc)
  have "matches (bnd (bnd (of_sum (scan_path HSM_MAX_NEST_DEPTH (par source) p (int (lev t)))) (\<lambda>found.
       case found of Some i \<Rightarrow> ret (i, p)
       | None \<Rightarrow> bnd (exit_to_lca n hdl (par source) (int (lev t)) p) (\<lambda>i. ret (i, p)))) K) (sq ?rest G)"
  proof (cases "par source \<in> set (ups t)")
    case True
    then have "takeWhile (\<lambda>x. x \<notin> set (ups t)) (ups (par source)) = []"
      using hd_ups [of "par source"] by (cases "ups (par source)") simp_all
    then show ?thesis using True K lca lca_self [OF True] scan_full [OF t] by simp
  next
    case False
    have "lev (par source) \<le> n" using lev_less_5 [of "par source"] up n by simp
    then show ?thesis
      using exit_to_lca_matches [OF t, of "par source" n "\<lambda>i. K (i, p)"] False up K lca scan_full [OF t]
      by (simp add: bnd_assoc)
  qed
  then show ?thesis unfolding rhs bnd_sq by (intro matches_sq exit_blind s ntop)
qed

lemma case_E:
  assumes s: "source \<in> states" "source \<noteq> t" "source \<noteq> par t"
    and t: "t \<in> states" "t \<noteq> top" "path_ok (ups t) 0 p" and n: "5 \<le> n"
    and K: "\<And>i p'. path_ok (ups t) 0 p' \<Longrightarrow>
      enter_path hdl p' (nat (i + 1)) = run_each hdl C_EV_ENTRY (entries par lev source t)
      \<Longrightarrow> matches (K (i, p')) G"
  shows "matches (bnd (bnd (of_sum (path_set 1 (par t) p)) (\<lambda>path1.
      bnd (hdl (par t) C_EV_EMPTY) (\<lambda>retState.
      bnd (climb n hdl source retState 1 path1) (\<lambda>(lca_found, index, path2).
      if lca_found then ret (index, path2)
      else if \<not> index < int HSM_MAX_NEST_DEPTH then raise AssertionFailed
      else
        sq (hdl source C_EV_EXIT)
        (bnd (of_sum (scan_path HSM_MAX_NEST_DEPTH (par source) path2 index)) (\<lambda>found.
         case found of
           Some i \<Rightarrow> ret (i, path2)
         | None \<Rightarrow> bnd (exit_to_lca n hdl (par source) index path2) (\<lambda>i. ret (i, path2)))))))) K)
    (sq (run_each hdl C_EV_EXIT (takeWhile (\<lambda>h. h \<noteq> lca par lev source t) (ups source))) G)"
    (is "matches (bnd (bnd _ (\<lambda>path1. bnd _ (\<lambda>r. bnd _ ?L))) K) ?rhs")
proof -
  note upt = super [OF t(1,2)]
  have lt: "1 \<le> lev t" using upt by simp
  have u1: "ups t ! 1 = par t" using ups_Suc [of 0 t] lt ups_0 by simp
  let ?p = "p[1 := Some (par t)]"
  have p1: "path_ok (ups t) 1 ?p" "path_set 1 (par t) p = Inr ?p"
    using path_ok_extend [OF t(3)] u1 path_set_in [of 1] by simp_all
  have ne: "\<forall>k \<le> 1. ups t ! k \<noteq> source" using s(2,3) u1 ups_0 by (auto simp: le_Suc_eq)
  have fuel: "lev t - 1 < n" using n lev_less_5 [OF t(1)] by simp
  have ent: "enter_path hdl q (lev t - lev x) = run_each hdl C_EV_ENTRY (entries par lev source t)"
    if "lca par lev source t = x" "x \<in> set (ups t)" "path_ok (ups t) i q"
      "lev t - lev x \<le> Suc i" for x q i
    using enter_path_ok [OF t(1) that(3,4)] takeWhile_ups [OF t(1) that(2)] that(1) s(2)
    by (simp add: entries_def)
  have main: "agree (bnd (bnd (hdl (par t) C_EV_EMPTY) (\<lambda>r. climb n hdl source r 1 ?p))
      (\<lambda>x. bnd (?L x) K) m) (?rhs m')" if eq: "forget m = forget m'" for m m'
  proof -
    obtain q m1 where run: "bnd (hdl (par t) C_EV_EMPTY) (\<lambda>r. climb n hdl source r 1 ?p) m
        = (Inr (source \<in> set (ups t), if source \<in> set (ups t) then int (lev t - lev source) - 1
             else int (lev t), q), m1)"
      and m1: "forget m1 = forget m"
      and q: "path_ok (ups t) (if source \<in> set (ups t) then lev t - lev source - 1 else lev t) q"
      using climb_ok [OF t(1) ne lt fuel p1(1), of m] u1 by auto
    have step: "bnd (bnd (hdl (par t) C_EV_EMPTY) (\<lambda>r. climb n hdl source r 1 ?p)) F m
        = F (source \<in> set (ups t), if source \<in> set (ups t) then int (lev t - lev source) - 1
             else int (lev t), q) m1" for F :: "_ \<Rightarrow> (('h, 'z) hsm_scheme, 'b) comp"
      by (simp only: bnd_def [of "bnd (hdl (par t) C_EV_EMPTY) (\<lambda>r. climb n hdl source r 1 ?p)"]
          run prod.case sum.case)
    show ?thesis
    proof (cases "source \<in> set (ups t)")
      case True
      have "takeWhile (\<lambda>h. h \<noteq> lca par lev source t) (ups source) = []"
        using lca_self [OF True] takeWhile_self by simp
      moreover have "matches (K (int (lev t - lev source) - 1, q)) G"
      proof (rule K)
        show "path_ok (ups t) 0 q" using q True path_ok_less by simp
        show "enter_path hdl q (nat (int (lev t - lev source) - 1 + 1))
            = run_each hdl C_EV_ENTRY (entries par lev source t)"
          using ent [OF lca_self [OF True] True q] True by simp
      qed
      ultimately show ?thesis
        using matchesD [of _ _ m1 m'] m1 eq True unfolding step by simp
    next
      case False
      have q': "path_ok (ups t) (lev t) q" using q False by simp
      let ?l = "lca par lev source t"
      note l = takeWhile_lca [OF s(1) t(1)]
      have "matches (K (int (lev t - lev ?l) - 1, q)) G"
      proof (rule K)
        show "path_ok (ups t) 0 q" using q' path_ok_less by simp
        show "enter_path hdl q (nat (int (lev t - lev ?l) - 1 + 1))
            = run_each hdl C_EV_ENTRY (entries par lev source t)"
          using ent [OF refl l(3) q'] by simp
      qed
      then have "matches (bnd (?L (False, int (lev t), q)) K) ?rhs"
        using case_F_G [OF s(1) False t(1) q' n, of K G] l(1) lev_less_5 [OF t(1)]
        by (simp add: HSM_MAX_NEST_DEPTH_def)
      then have "agree (bnd (?L (False, int (lev t), q)) K m1) (?rhs m')"
        using m1 eq by (intro matchesD) simp_all
      then show ?thesis by (simp only: step False if_False)
    qed
  qed
  have "bnd (bnd (of_sum (path_set 1 (par t) p)) (\<lambda>path1. bnd (hdl (par t) C_EV_EMPTY)
      (\<lambda>r. bnd (climb n hdl source r 1 path1) ?L))) K
    = bnd (bnd (hdl (par t) C_EV_EMPTY) (\<lambda>r. climb n hdl source r 1 ?p)) (\<lambda>x. bnd (?L x) K)"
    by (simp add: p1(2) bnd_assoc)
  then show ?thesis using main by (simp add: matches_def)
qed

lemma transition_path_matches:
  assumes s: "source \<in> states" "source \<noteq> top" and t: "t \<in> states" "t \<noteq> top"
    and p: "path_ok (ups t) 0 p" and n: "5 \<le> n"
    and K: "\<And>i p'. path_ok (ups t) 0 p' \<Longrightarrow>
      enter_path hdl p' (nat (i + 1)) = run_each hdl C_EV_ENTRY (entries par lev source t)
      \<Longrightarrow> matches (K (i, p')) G"
  shows "matches (bnd (transition_path n hdl source t p) K)
    (sq (run_each hdl C_EV_EXIT (if source = t then [source]
       else takeWhile (\<lambda>h. h \<noteq> lca par lev source t) (ups source))) G)"
proof -
  have enter1: "enter_path hdl p 1 = run_each hdl C_EV_ENTRY [t]"
    using enter_path_ok [OF t(1) p, of 1] ups_Cons [OF t] by simp
  have exit1: "matches (sq (hdl source C_EV_EXIT) F) (sq (run_each hdl C_EV_EXIT [source]) G)"
    if "matches F G" for F
    using matches_sq [OF exit_blind [OF s] that] by (simp add: sq_assoc)
  note upt = super [OF t] and ups = super [OF s] and ct = ups_Cons [OF t] and cs = ups_Cons [OF s]
  show ?thesis
  proof (cases "source = t")
    case True
    have "matches (K (0, p)) G" using enter1 True by (intro K [OF p]) (simp add: entries_def)
    then show ?thesis using True exit1 by (simp add: transition_path_def bnd_sq_ret)
  next
    case False
    have B: ?thesis if "source = par t"
    proof -
      have "source \<in> set (ups t)" using that ct by simp
      then have l: "lca par lev source t = source" by (rule lca_self)
      then have "entries par lev source t = [t]"
        using False that takeWhile_self [of source] ct by (simp add: entries_def)
      then have "matches (K (0, p)) G" using enter1 by (intro K [OF p]) simp
      then show ?thesis
        using False that l takeWhile_self [of source]
        by (simp add: transition_path_def bnd_assoc empty_reads [OF t] bnd_sq matches_temp_left)
    qed
    have off: "source \<notin> set (ups t)" if "par source = par t \<or> par source = t"
    proof
      assume "source \<in> set (ups t)"
      then have "lev source \<le> lev t \<and> (lev source = lev t \<longrightarrow> source = t)"
        by (rule ups_level [OF t(1)])
      then show False using that False ups upt by auto
    qed
    have C: ?thesis if "source \<noteq> par t" "par source = par t"
    proof -
      have l: "lca par lev source t = par t"
        using lca_super [OF s off] lca_self [of "par t" t] that ct by simp
      have nl: "source \<noteq> par t" "t \<noteq> par t" using that upt by auto
      have "entries par lev source t = [t]" "takeWhile (\<lambda>h. h \<noteq> par t) (ups source) = [source]"
        using False nl l takeWhile_self [of "par t"] ct cs that(2) by (simp_all add: entries_def)
      moreover from this have "matches (K (0, p)) G" using enter1 by (intro K [OF p]) simp
      ultimately show ?thesis
        using False that exit1 l
        by (simp add: transition_path_def bnd_assoc empty_reads [OF t] empty_reads [OF s]
            bnd_sq matches_temp_left)
    qed
    have D: ?thesis if "source \<noteq> par t" "par source \<noteq> par t" "par source = t"
    proof -
      have l: "lca par lev source t = t"
        using lca_super [OF s off] lca_self [of t t] that by simp
      have "entries par lev source t = []" "takeWhile (\<lambda>h. h \<noteq> t) (ups source) = [source]"
        using False l takeWhile_self [of t] cs that(3) by (simp_all add: entries_def)
      moreover from this have "matches (K (- 1, p)) G" by (intro K [OF p]) simp
      ultimately show ?thesis
        using False that exit1 l
        by (simp add: transition_path_def bnd_assoc empty_reads [OF t] empty_reads [OF s]
            bnd_sq matches_temp_left)
    qed
    have E: ?thesis if "source \<noteq> par t" "par source \<noteq> par t" "par source \<noteq> t"
      using case_E [OF s(1) False that(1) t p n, of K G, OF K] False that
      unfolding transition_path_def
      by (simp add: bnd_assoc empty_reads [OF t] empty_reads [OF s] bnd_sq matches_temp_left)
    show ?thesis using B C D E by blast
  qed
qed

subsection \<open>Initial transitions\<close>

lemma climb_to_ok:
  assumes t: "t \<in> states" and h: "h \<in> set (ups t)"
    and i: "i < lev t - lev h" "lev t - lev h - i \<le> n" and p: "path_ok (ups t) i p"
  shows "\<exists>p' m'. bnd (hdl (ups t ! i) C_EV_EMPTY) (\<lambda>_. climb_to n hdl h (int i) p) m
      = (Inr (int (lev t - lev h) - 1, p'), m') \<and> forget m' = forget m
    \<and> path_ok (ups t) (lev t - lev h - 1) p'"
  using i p
proof (induction n arbitrary: i p m)
  case 0
  then show ?case by simp
next
  case (Suc n)
  let ?x = "ups t ! i"
  have il: "Suc i \<le> lev t" using Suc.prems(1) by simp
  have x: "?x \<in> states" "?x \<noteq> top"
    using ups_nth_states [OF t, of i] ups_nth_top [OF t, of i] il by simp_all
  let ?y = "ups t ! Suc i" and ?m = "m\<lparr>temp := par ?x\<rparr>"
  have y: "?y = par ?x" using ups_Suc il by simp
  have yh: "?y = h \<longleftrightarrow> Suc i = lev t - lev h" using nth_ups_eq [OF t h il] .
  show ?case
  proof (cases "Suc i = lev t - lev h")
    case True
    then have "par ?x = h" using y yh by simp
    then show ?thesis
      using on_empty [OF x, of m] True Suc.prems(3) by (simp add: bnd_def run_simps flip: True)
  next
    case False
    have i5: "Suc i < 5" using il lev_less_5 [OF t] by simp
    let ?p = "p[Suc i := Some ?y]"
    have pok: "path_ok (ups t) (Suc i) ?p" by (rule path_ok_extend [OF Suc.prems(3) i5])
    have set: "path_set (int i + 1) (par ?x) p = Inr ?p"
      using path_set_in [OF i5] y by (simp add: add.commute)
    have run: "bnd (hdl ?x C_EV_EMPTY) (\<lambda>_. climb_to (Suc n) hdl h (int i) p) m
        = bnd (hdl ?y C_EV_EMPTY) (\<lambda>_. climb_to n hdl h (int (Suc i)) ?p) ?m"
      using on_empty [OF x, of m] set yh False
      by (simp add: bnd_def [of "hdl ?x C_EV_EMPTY"] y add.commute)
    show ?thesis unfolding run using Suc.IH [OF _ _ pok, of ?m] Suc.prems False by simp
  qed
qed

lemma drill_matches:
  assumes "h \<in> states" "h \<noteq> top" "5 \<le> n + lev h" "length p = HSM_MAX_NEST_DEPTH"
  shows "matches (drill n hdl h p) (spec_drill par lev n hdl h)"
  using assms
proof (induction n arbitrary: h p)
  case 0
  then show ?case using lev_less_5 [of h] by simp
next
  case (Suc n)
  show ?case unfolding matches_def drill.simps spec_drill.simps
  proof (intro allI impI agree_bnd)
    fix m m' r u u'
    assume eq: "forget m = forget m'" and u: "hdl h C_EV_INIT m = (Inr r, u)"
      and u': "hdl h C_EV_INIT m' = (Inr r, u')" and fu: "forget u = forget u'"
    show "agree ((if r = TRAN then bnd (reads temp) (\<lambda>t. bnd (of_sum (path_set 0 t p)) (\<lambda>path0.
        bnd (hdl t C_EV_EMPTY) (\<lambda>_. bnd (climb_to (Suc n) hdl h 0 path0) (\<lambda>(index, path1).
        sq (modify (\<lambda>m. m\<lparr>temp := t\<rparr>)) (if \<not> index < int HSM_MAX_NEST_DEPTH then raise AssertionFailed
         else sq (enter_path hdl path1 (nat (index + 1))) (drill n hdl t path1))))))
       else ret h) u)
      ((if r = TRAN then bnd (reads temp) (\<lambda>t. sq (run_each hdl C_EV_ENTRY
          (rev (takeWhile (\<lambda>x. x \<noteq> h) (ups t)))) (spec_drill par lev n hdl t)) else ret h) u')"
    proof (cases "r = TRAN")
      case False
      then show ?thesis using fu by (simp add: agree_def run_simps)
    next
      case True
      let ?t = "temp u"
      note it = init_tran [OF Suc.prems(1,2) u [unfolded True]]
      have t: "?t \<in> states" "?t \<noteq> h" "h \<in> set (ups ?t)" using it by blast+
      have tu': "temp u' = ?t"
        using it [of "temp m'"] u' forget_eqD [OF eq] by (simp flip: True)
      have ntop: "?t \<noteq> top"
      proof
        assume "?t = top"
        then have "ups ?t = [?t]" using ups_top t(1) by simp
        then show False using t(2,3) by simp
      qed
      have lt: "lev h < lev ?t" using ups_level [OF t(1,3)] t(2) by fastforce
      let ?p0 = "p[0 := Some ?t]"
      have p0: "path_ok (ups ?t) 0 ?p0" "path_set 0 ?t p = Inr ?p0"
        using Suc.prems(4) ups_0 [of ?t] path_set_in [of 0]
        by (simp_all add: path_ok_def HSM_MAX_NEST_DEPTH_def)
      have a: "0 < lev ?t - lev h" "lev ?t - lev h - 0 \<le> Suc n"
        using lt Suc.prems(3) lev_less_5 [OF t(1)] by simp_all
      obtain q m1 where run: "bnd (hdl ?t C_EV_EMPTY) (\<lambda>_. climb_to (Suc n) hdl h 0 ?p0) u
          = (Inr (int (lev ?t - lev h) - 1, q), m1)"
        and m1: "forget m1 = forget u" and q: "path_ok (ups ?t) (lev ?t - lev h - 1) q"
        using climb_to_ok [OF t(1,3) a p0(1), of u] unfolding ups_0 by auto
      have idx: "int (lev ?t - lev h) - 1 < int HSM_MAX_NEST_DEPTH"
        using lev_less_5 [OF t(1)] by (simp add: HSM_MAX_NEST_DEPTH_def)
      have ent: "enter_path hdl q (nat (int (lev ?t - lev h) - 1 + 1))
          = run_each hdl C_EV_ENTRY (rev (takeWhile (\<lambda>x. x \<noteq> h) (ups ?t)))"
        using enter_path_ok [OF t(1) q, of "lev ?t - lev h"] takeWhile_ups [OF t(1,3)] by simp
      have "matches (run_each hdl C_EV_ENTRY hs) (run_each hdl C_EV_ENTRY hs)"
        if "set hs \<subseteq> states - {top}" for hs
        using that by (induction hs) (auto intro!: matches_sq entry_blind)
      moreover have "set (rev (takeWhile (\<lambda>x. x \<noteq> h) (ups ?t))) \<subseteq> states - {top}"
      proof -
        have "x \<noteq> top" if "x \<in> set (takeWhile (\<lambda>x. x \<noteq> h) (ups ?t))" for x
        proof
          assume "x = top"
          then have "top \<in> set (take (lev ?t - lev h) (ups ?t))"
            using that takeWhile_ups [OF t(1,3)] by simp
          then obtain i where "i < lev ?t - lev h" "ups ?t ! i = top"
            by (auto simp: in_set_conv_nth)
          then show False using ups_nth_top [OF t(1), of i] top_level [OF Suc.prems(1)] Suc.prems(2)
            by simp
        qed
        then show ?thesis using ups_states [OF t(1)] by (auto dest: set_takeWhileD)
      qed
      ultimately have "matches (sq (enter_path hdl q (nat (int (lev ?t - lev h) - 1 + 1))) (drill n hdl ?t q))
          (sq (run_each hdl C_EV_ENTRY (rev (takeWhile (\<lambda>x. x \<noteq> h) (ups ?t)))) (spec_drill par lev n hdl ?t))"
        unfolding ent using Suc.IH [OF t(1) ntop, of q] Suc.prems(3) lt q
        by (intro matches_sq) (auto simp: path_ok_def)
      then have "agree (sq (enter_path hdl q (nat (int (lev ?t - lev h) - 1 + 1))) (drill n hdl ?t q)
            (m1\<lparr>temp := ?t\<rparr>))
          (sq (run_each hdl C_EV_ENTRY (rev (takeWhile (\<lambda>x. x \<noteq> h) (ups ?t)))) (spec_drill par lev n hdl ?t) u')"
        by (rule matchesD) (simp add: m1 fu)
      moreover have "bnd (hdl ?t C_EV_EMPTY) (\<lambda>_. bnd (climb_to (Suc n) hdl h 0 ?p0) F) u
          = F (int (lev ?t - lev h) - 1, q) m1" for F :: "_ \<Rightarrow> (('h, 'z) hsm_scheme, 'h) comp"
        unfolding bnd_assoc [symmetric] bnd_def [of "bnd (hdl ?t C_EV_EMPTY) _"]
        by (simp only: run prod.case sum.case)
      ultimately show ?thesis
        using True idx tu' p0(2) by (simp del: climb_to.simps)
    qed
  qed (use init_blind [OF Suc.prems(1,2)] in \<open>simp add: matches_def\<close>)
qed

subsection \<open>The whole step\<close>

lemma exits_split:
  assumes "cur \<in> states" "source \<in> set (ups cur)" "t \<in> states"
  shows "exits par lev cur source t = takeWhile (\<lambda>h. h \<noteq> source) (ups cur)
    @ (if source = t then [source] else takeWhile (\<lambda>h. h \<noteq> lca par lev source t) (ups source))"
proof (cases "source = t")
  case False
  let ?l = "lca par lev source t"
  have s: "source \<in> states" using assms ups_states by blast
  have l: "?l \<in> set (ups source)" using takeWhile_lca(2) [OF s assms(3)] .
  have "x \<noteq> ?l" if "x \<in> set (takeWhile (\<lambda>h. h \<noteq> source) (ups cur))" for x
  proof
    assume "x = ?l"
    then have "?l \<in> set (take (lev cur - lev source) (ups cur))"
      using that takeWhile_ups [OF assms(1,2)] by simp
    then obtain i where i: "i < lev cur - lev source" "ups cur ! i = ?l"
      by (auto simp: in_set_conv_nth)
    have "?l \<in> set (ups cur)" using l ups_trans [OF assms(1,2)] by blast
    then have "i = lev cur - lev ?l" using nth_ups_eq [OF assms(1), of ?l i] i by simp
    moreover have "lev ?l \<le> lev source" using ups_level [OF s l] by simp
    ultimately show False using i(1) by simp
  qed
  then have "takeWhile (\<lambda>h. h \<noteq> ?l) (takeWhile (\<lambda>h. h \<noteq> source) (ups cur) @ ups source)
      = takeWhile (\<lambda>h. h \<noteq> source) (ups cur) @ takeWhile (\<lambda>h. h \<noteq> ?l) (ups source)"
    by (subst takeWhile_append2) auto
  then show ?thesis using False ups_split [OF assms(1,2)] by (simp add: exits_def)
qed (simp add: exits_def)

lemma take_transition_matches:
  assumes "cur \<in> states" "source \<in> set (ups cur)" "source \<noteq> top" "t \<in> states" "t \<noteq> top"
    and n: "HSM_MAX_NEST_DEPTH \<le> n"
  shows "matches (take_transition n hdl cur source t) (spec_transition par lev n hdl cur source t)"
proof -
  have n5: "5 \<le> n" using n by (simp add: HSM_MAX_NEST_DEPTH_def)
  have s: "source \<in> states" using assms(1,2) ups_states by blast
  let ?p = "path_new[0 := Some t, 1 := Some cur]"
  have p: "path_ok (ups t) 0 ?p"
    using ups_0 by (simp add: path_ok_def path_new_def HSM_MAX_NEST_DEPTH_def)
  let ?K = "\<lambda>(index, path'). sq (enter_path hdl path' (nat (index + 1)))
       (sq (modify (\<lambda>m. m\<lparr>temp := t\<rparr>)) (drill n hdl t path'))"
  have entries: "matches (run_each hdl C_EV_ENTRY hs) (run_each hdl C_EV_ENTRY hs)"
    if "set hs \<subseteq> states - {top}" for hs
    using that by (induction hs) (auto intro!: matches_sq entry_blind)
  have lca_top: "h \<noteq> top" if "h \<in> set (takeWhile (\<lambda>h. h \<noteq> lca par lev source t) (ups t))" for h
  proof
    let ?l = "lca par lev source t"
    assume "h = top"
    have l: "?l \<in> set (ups t)" using takeWhile_lca(3) [OF s assms(4)] .
    from that \<open>h = top\<close> obtain i where "i < lev t - lev ?l" "ups t ! i = top"
      using takeWhile_ups [OF assms(4) l] by (auto simp: in_set_conv_nth)
    then show False using ups_nth_top [OF assms(4), of i] takeWhile_lca(3) [OF s assms(4)]
        ups_states [OF assms(4)] by simp
  qed
  have "set (entries par lev source t) \<subseteq> states - {top}"
    using assms(4,5) lca_top ups_states [OF assms(4)] by (auto simp: entries_def dest: set_takeWhileD)
  then have K: "matches (?K (i, p')) (sq (run_each hdl C_EV_ENTRY (entries par lev source t))
      (spec_drill par lev n hdl t))"
    if "path_ok (ups t) 0 p'"
      "enter_path hdl p' (nat (i + 1)) = run_each hdl C_EV_ENTRY (entries par lev source t)" for i p'
    using that n5 assms(4,5)
    by (auto simp: path_ok_def intro!: matches_sq entries matches_temp_left drill_matches)
  have "lev cur - lev source < n" using lev_less_5 [OF assms(1)] n5 by simp
  then show ?thesis
    unfolding take_transition_def spec_transition_def Let_def
      exits_split [OF assms(1,2,4)] run_each_append sq_assoc
    by (intro matches_sq exit_to_source_matches assms transition_path_matches s p n5 K)
qed

text \<open>The engine implements the specification, from every configuration at rest.\<close>

lemma handleEvent_refines:
  assumes rest: "temp m = state m" "state m \<in> states" and n: "HSM_MAX_NEST_DEPTH \<le> n"
  shows "agree (handleEvent n hdl e m) (spec_handleEvent par lev n hdl e m)"
proof -
  have settle: "matches (settle h) (settle h :: (('h, 'z) hsm_scheme, unit) comp)" for h
    unfolding matches_def
  proof (intro allI impI)
    fix m m' :: "('h, 'z) hsm_scheme"
    assume "forget m = forget m'"
    then obtain x where "m' = m\<lparr>temp := x\<rparr>" using forget_eqD by blast
    then show "agree (settle h m) (settle h m')" by (simp add: settle_def agree_def)
  qed
  have step: "agree (bnd (if r = TRAN then bnd (reads temp) (\<lambda>t. take_transition n hdl (state m) s t)
        else ret (state m)) settle u)
      (bnd (if r = TRAN then bnd (reads temp) (\<lambda>t. spec_transition par lev n hdl (state m) s t)
        else ret (state m)) settle u)"
    if d: "dispatch n hdl e m = (Inr (s, r), u)" for s r u
  proof (cases "r = TRAN")
    case True
    have "lev (temp m) < n" using lev_less_5 [of "temp m"] rest n by (simp add: HSM_MAX_NEST_DEPTH_def)
    then have res: "s \<in> set (ups (state m))" "s \<noteq> top" "temp u \<in> states" "temp u \<noteq> top"
      using dispatch_result [OF _ _ d] rest True by simp_all
    show ?thesis
      using True matchesD [OF matches_bnd [OF take_transition_matches [OF rest(2) res n] settle], of u u]
      by (simp add: bnd_assoc)
  qed (simp add: agree_def)
  show ?thesis
    unfolding handleEvent_def spec_handleEvent_def
    by (simp, rule agree_bnd) (use step in \<open>auto\<close>)
qed

text \<open>
  The engine adds no failure of its own: what it throws, some handler threw, so no loop
  runs out of its bound, no assertion fails and the array is never misused. And it comes
  to rest in a state of the tree.
\<close>

lemma thrownI: "hdl h e m = (Inl x, m') \<Longrightarrow> thrown hdl x"
  unfolding thrown_def by (metis fst_conv)

lemma dispatch_throws:
  assumes "temp m \<in> states" "lev (temp m) < n" "dispatch n hdl e m = (Inl x, m')"
  shows "thrown hdl x"
  using assms
proof (induction n arbitrary: m)
  case (Suc n)
  let ?s = "temp m"
  let ?k = "\<lambda>r. bnd (if r = UNHANDLED then hdl ?s C_EV_EMPTY else ret r) (\<lambda>retState.
     if retState = SUPER then dispatch n hdl e else ret (?s, retState))"
  from Suc.prems(3) have "bnd (hdl ?s e) ?k m = (Inl x, m')" by simp
  then show ?case
  proof (rule bnd_InlE)
    fix r1 t1 assume r1: "hdl ?s e m = (Inr r1, t1)" and "?k r1 t1 = (Inl x, m')"
    from this(2) show ?thesis
    proof (rule bnd_InlE)
      fix r2 t2
      assume r2: "(if r1 = UNHANDLED then hdl ?s C_EV_EMPTY else ret r1) t1 = (Inr r2, t2)"
        and k: "(if r2 = SUPER then dispatch n hdl e else ret (?s, r2)) t2 = (Inl x, m')"
      then have SUPER: "r2 = SUPER" and d: "dispatch n hdl e t2 = (Inl x, m')"
        by (auto simp: run_simps split: if_splits)
      have ntop: "?s \<noteq> top"
        using r1 r2 SUPER top_ignores [of e m] top_ignores [of C_EV_EMPTY t1]
        by (auto simp: run_simps split: if_splits)
      have "temp t2 = par ?s"
        using r1 r2 SUPER on_super [OF Suc.prems(1)] by (auto simp: run_simps split: if_splits)
      then show ?thesis
        using Suc.IH [OF _ _ d] super [OF Suc.prems(1) ntop] Suc.prems(2) by simp
    qed (auto simp: run_simps split: if_splits intro: thrownI)
  qed (rule thrownI)
qed simp

lemma run_each_throws: "run_each hdl e hs m = (Inl x, m') \<Longrightarrow> thrown hdl x"
  by (induction hs arbitrary: m) (auto simp: run_simps sq_def elim!: bnd_InlE intro: thrownI)

lemma spec_drill_result:
  assumes "h \<in> states" "h \<noteq> top" "5 \<le> n + lev h" "spec_drill par lev n hdl h m = (r, m')"
  shows "case r of Inl x \<Rightarrow> thrown hdl x | Inr h' \<Rightarrow> h' \<in> states \<and> h' \<noteq> top"
  using assms
proof (induction n arbitrary: h m)
  case 0
  then show ?case using lev_less_5 [of h] by simp
next
  case (Suc n)
  let ?k = "\<lambda>r. if r = TRAN then bnd (reads temp) (\<lambda>t.
       sq (run_each hdl C_EV_ENTRY (rev (takeWhile (\<lambda>x. x \<noteq> h) (ups t)))) (spec_drill par lev n hdl t))
     else ret h"
  obtain r1 t1 where i: "hdl h C_EV_INIT m = (r1, t1)" by (cases "hdl h C_EV_INIT m")
  show ?case
  proof (cases "r1 = Inr TRAN")
    case True
    have t: "temp t1 \<in> states" "temp t1 \<noteq> h" "h \<in> set (ups (temp t1))"
      using init_tran [OF Suc.prems(1,2) i [unfolded True]] by blast+
    have ntop: "temp t1 \<noteq> top"
    proof
      assume "temp t1 = top"
      then have "ups (temp t1) = [temp t1]" using ups_top t(1) by simp
      then show False using t(2,3) by simp
    qed
    have lt: "lev h < lev (temp t1)" using ups_level [OF t(1,3)] t(2) by fastforce
    let ?es = "run_each hdl C_EV_ENTRY (rev (takeWhile (\<lambda>x. x \<noteq> h) (ups (temp t1))))"
    have eq: "sq ?es (spec_drill par lev n hdl (temp t1)) t1 = (r, m')"
      using Suc.prems(4) i True by (simp add: bnd_def)
    obtain r2 t2 where e: "?es t1 = (r2, t2)" by (cases "?es t1")
    show ?thesis
    proof (cases r2)
      case (Inl x)
      then show ?thesis using eq e run_each_throws [of C_EV_ENTRY _ t1 x t2] by (auto simp: sq_Inl)
    next
      case (Inr u)
      then have "spec_drill par lev n hdl (temp t1) t2 = (r, m')" using eq e by (simp add: sq_Inr)
      then show ?thesis using Suc.IH [OF t(1) ntop] Suc.prems(3) lt by simp
    qed
  next
    case False
    then have "r = (case r1 of Inl x \<Rightarrow> Inl x | Inr s \<Rightarrow> Inr h)"
      using Suc.prems(4) i by (cases r1) (auto simp: bnd_def run_simps)
    then show ?thesis using Suc.prems(1,2) i by (cases r1) (auto intro: thrownI)
  qed
qed

lemma spec_transition_result:
  assumes "t \<in> states" "t \<noteq> top" "HSM_MAX_NEST_DEPTH \<le> n"
    and "spec_transition par lev n hdl cur s t m = (r, m')"
  shows "case r of Inl x \<Rightarrow> thrown hdl x | Inr h \<Rightarrow> h \<in> states \<and> h \<noteq> top"
proof -
  have d: "5 \<le> n + lev t" using assms(3) by (simp add: HSM_MAX_NEST_DEPTH_def)
  show ?thesis
  proof (cases r)
    case (Inl x)
    have "sq (run_each hdl C_EV_EXIT (exits par lev cur s t)) (sq (run_each hdl C_EV_ENTRY
        (entries par lev s t)) (spec_drill par lev n hdl t)) m = (Inl x, m')"
      using assms(4) Inl by (simp add: spec_transition_def)
    then show ?thesis
      using spec_drill_result [OF assms(1,2) d, of _ "Inl x" m'] Inl run_each_throws
      by (auto simp: sq_def elim!: bnd_InlE)
  next
    case (Inr h)
    have "sq (run_each hdl C_EV_EXIT (exits par lev cur s t)) (sq (run_each hdl C_EV_ENTRY
        (entries par lev s t)) (spec_drill par lev n hdl t)) m = (Inr h, m')"
      using assms(4) Inr by (simp add: spec_transition_def)
    then show ?thesis
      using spec_drill_result [OF assms(1,2) d, of _ "Inr h" m'] Inr
      by (auto simp: sq_def elim!: bnd_InrE)
  qed
qed

lemma handleEvent_result:
  assumes rest: "temp m = state m" "state m \<in> states" and n: "HSM_MAX_NEST_DEPTH \<le> n"
    and run: "handleEvent n hdl e m = (r, m')"
  shows "case r of Inl x \<Rightarrow> thrown hdl x | Inr u \<Rightarrow> temp m' = state m' \<and> state m' \<in> states"
proof -
  obtain m2 where spec: "spec_handleEvent par lev n hdl e m = (r, m2)"
    using handleEvent_refines [OF rest n, of e] run
    by (cases "spec_handleEvent par lev n hdl e m") (simp add: agree_def)
  have lv: "lev (temp m) < n" using lev_less_5 [of "temp m"] rest n by (simp add: HSM_MAX_NEST_DEPTH_def)
  obtain d u where d: "dispatch n hdl e m = (d, u)" by (cases "dispatch n hdl e m")
  show ?thesis
  proof (cases r)
    case (Inl x)
    show ?thesis
    proof (cases d)
      case (Inl y)
      then have "r = Inl y" using spec d by (simp add: spec_handleEvent_def bnd_def)
      then show ?thesis using dispatch_throws [OF _ lv] d rest Inl by simp
    next
      case (Inr sr)
      obtain s q where sr: "sr = (s, q)" by (cases sr)
      then have "q = TRAN" and "bnd (spec_transition par lev n hdl (state m) s (temp u)) settle u = (Inl x, m2)"
        using spec d Inr Inl \<open>r = Inl x\<close>
        by (auto simp: spec_handleEvent_def bnd_Inr bnd_assoc settle_def run_simps split: if_splits)
      moreover from this have "temp u \<in> states" "temp u \<noteq> top"
        using dispatch_result [OF _ lv d [unfolded Inr sr]] rest by simp_all
      ultimately show ?thesis
        using spec_transition_result [OF _ _ n, of "temp u" "state m" s u "Inl x"] Inl
        by (auto simp: settle_def elim!: bnd_InlE)
    qed
  next
    case (Inr v)
    have m': "temp m' = state m'"
      using run Inr by (auto simp: handleEvent_def settle_def elim!: bnd_InrE split: prod.splits)
    have "state m' = state m2"
      using handleEvent_refines [OF rest n, of e] run spec by (auto simp: agree_def dest: forget_state)
    moreover have "state m2 \<in> states"
    proof -
      let ?k = "\<lambda>(s, q). bnd (if q = TRAN then bnd (reads temp)
          (\<lambda>t. spec_transition par lev n hdl (state m) s t) else ret (state m)) settle"
      from spec Inr have "bnd (dispatch n hdl e) ?k m = (Inr v, m2)"
        by (simp add: spec_handleEvent_def)
      then obtain x u where "dispatch n hdl e m = (Inr x, u)" "?k x u = (Inr v, m2)"
        by (rule bnd_InrE)
      then obtain s q where sq: "dispatch n hdl e m = (Inr (s, q), u)"
        and k: "bnd (if q = TRAN then bnd (reads temp) (\<lambda>t. spec_transition par lev n hdl (state m) s t)
          else ret (state m)) settle u = (Inr v, m2)"
        by (cases x) simp
      from k obtain h t where h: "(if q = TRAN then bnd (reads temp)
          (\<lambda>t. spec_transition par lev n hdl (state m) s t) else ret (state m)) u = (Inr h, t)"
        and "settle h t = (Inr v, m2)" by (rule bnd_InrE)
      then have "state m2 = h" by (auto simp: settle_def)
      moreover have "h \<in> states"
        using h spec_transition_result [OF _ _ n, of "temp u" "state m" s u "Inr h"] rest
          dispatch_result [OF _ lv sq] by (auto simp: run_simps split: if_splits)
      ultimately show ?thesis by simp
    qed
    ultimately show ?thesis using m' Inr by simp
  qed
qed

end

text \<open>
  C2. The engine implements the semantics of hierarchical state machines. For every tree of
  states whose handlers keep the contract \<open>hsm_tree\<close> (they name their superstate, \<open>EV_EXIT\<close> does
  not transition, \<open>EV_INIT\<close> goes down, at most five levels) and every event: \<open>handleEvent\<close> runs the
  handlers the specification runs, in the same order, that is the exit handlers from
  the current state up to the least common superstate, the entry handlers down to the
  target, and the initial transitions; it returns or throws the same, and afterwards the machine is
  at rest in one of its states. So no transition overruns the fixed-size path, reads
  an unset element of it, fails an assertion or loops, unless a handler does.
\<close>

theorem engine_refines_hierarchy:
  assumes "hsm_tree hdl root par lev states" "temp m = state m" "state m \<in> states"
  shows "agree (handleEvent HSM_MAX_NEST_DEPTH hdl e m)
      (spec_handleEvent par lev HSM_MAX_NEST_DEPTH hdl e m)
    \<and> (case handleEvent HSM_MAX_NEST_DEPTH hdl e m of
         (Inl x, m') \<Rightarrow> (\<exists>h e u. fst (hdl h e u) = Inl x)
       | (Inr u, m') \<Rightarrow> temp m' = state m' \<and> state m' \<in> states)"
proof -
  obtain r m' where run: "handleEvent HSM_MAX_NEST_DEPTH hdl e m = (r, m')" by fastforce
  show ?thesis
    using hsm_tree.handleEvent_refines [OF assms order_refl, of e]
      hsm_tree.handleEvent_result [OF assms order_refl run]
    by (simp add: run thrown_def split: sum.splits)
qed

end
