(* ===== verification/String_Conversion.thy ===== *)
theory String_Conversion
  imports Float32
begin

text \<open>
  \<open>CameraStringConversion\<close> of \<open>camera/CameraWrapper.h/.cpp\<close>: the conversions between the
  strings a camera's widgets hold and the integers of the program (exposure times in
  microseconds, apertures as F-number times 100, the battery percentage), and the binary
  search \<open>findNearest\<close>. What is logged about a caught exception is left out.
\<close>

subsection \<open>Conversions\<close>

text \<open>The two \<open>catch\<close> blocks the conversions share: the exception is logged and -1 returned.\<close>

definition or_minus_one :: "exn + int \<Rightarrow> exn + int" where
  "or_minus_one r =
     (case r of Inl InvalidArgument \<Rightarrow> Inr (- 1) | Inl OutOfRange \<Rightarrow> Inr (- 1) | _ \<Rightarrow> r)"

definition shutterSpeedToInt :: "string \<Rightarrow> exn + int" where
  "shutterSpeedToInt shutter_speed =
     (if shutter_speed = ''Bulb'' then Inr 0
      else or_minus_one
        (case substr 0 (size_minus 1 shutter_speed) shutter_speed of
           Inl e \<Rightarrow> Inl e
         | Inr t \<Rightarrow> (case stof t of
             Inl e \<Rightarrow> Inl e
           | Inr ss \<Rightarrow> f32_to_int (f32_mult (f32_mult ss (f32_of_int 1000)) (f32_of_int 1000)))))"

definition toString :: "f32 \<Rightarrow> int \<Rightarrow> string" where
  "toString v precision = (if 0 \<le> precision then print_fixed (nat precision) v else print_default v)"

definition shutterSpeedToString :: "int \<Rightarrow> string" where
  "shutterSpeedToString shutter_speed =
     (if shutter_speed = 0 then ''Bulb''
      else toString (f32_div (f32_of_int shutter_speed) (f32_of_int 1000000)) 4 @ ''s'')"

definition apertureToInt :: "string \<Rightarrow> exn + int" where
  "apertureToInt aperture = or_minus_one
     (case substr 2 (size_minus 2 aperture) aperture of
        Inl e \<Rightarrow> Inl e
      | Inr t \<Rightarrow> (case stof t of
          Inl e \<Rightarrow> Inl e
        | Inr ap \<Rightarrow> f32_to_int (f32_mult ap (f32_of_int 100))))"

definition apertureToString :: "int \<Rightarrow> string" where
  "apertureToString aperture =
     ''f/'' @ toString (f32_div (f32_of_int aperture) (f32_of_int 100)) (- 1)"

definition batteryLevelToInt :: "string \<Rightarrow> exn + int" where
  "batteryLevelToInt battery = or_minus_one
     (case substr 0 (size_minus 1 battery) battery of
        Inl e \<Rightarrow> Inl e
      | Inr t \<Rightarrow> stoi t)"

text \<open>
  \<open>findNearest\<close>: the differences at the end are \<open>int\<close> subtractions, undefined when they
  overflow.
\<close>

definition int_minus :: "int \<Rightarrow> int \<Rightarrow> exn + int" where
  "int_minus a b = (if in_int (a - b) then Inr (a - b) else Inl (Undefined ''int overflow''))"

definition nearer :: "int \<Rightarrow> int \<Rightarrow> int \<Rightarrow> exn + int" where
  "nearer ca cb v =
     (case int_minus cb v of
        Inl e \<Rightarrow> Inl e
      | Inr d \<Rightarrow> (case int_minus v ca of
          Inl e \<Rightarrow> Inl e
        | Inr d' \<Rightarrow> Inr (if d < d' then cb else ca)))"

function search_nearest :: "int list \<Rightarrow> int \<Rightarrow> nat \<Rightarrow> nat \<Rightarrow> exn + int" where
  "search_nearest choices v a b =
     (if 1 < b - a then
        let c = (b + a) div 2
        in if v = choices ! c then Inr (choices ! c)
           else if choices ! c < v then search_nearest choices v c b
           else search_nearest choices v a c
      else nearer (choices ! a) (choices ! b) v)"
  by pat_completeness auto
termination
  by (relation "measure (\<lambda>(choices, v, a, b). b - a)") auto

declare search_nearest.simps [simp del]

definition findNearest :: "int list \<Rightarrow> int \<Rightarrow> exn + int" where
  "findNearest choices v =
     (if length choices = 1 then Inr (choices ! 0)
      else if length choices = 0 then Inr (- 1)
      else if v \<le> choices ! 0 then Inr (choices ! 0)
      else if choices ! (length choices - 1) \<le> v then Inr (choices ! (length choices - 1))
      else search_nearest choices v 0 (length choices - 1))"

subsection \<open>The strings of the supported camera\<close>

text \<open>
  The shutter speeds and F-numbers of the configuration dump \<open>d3000_configs.txt\<close>, with
  the decimal point of the C locale, the one the conversions read and print.
\<close>

definition d3000_shutter_speeds :: "string list" where
  "d3000_shutter_speeds =
    [''0.0002s'', ''0.0003s'', ''0.0004s'', ''0.0005s'', ''0.0006s'', ''0.0008s'', ''0.0010s'',
     ''0.0012s'', ''0.0015s'', ''0.0020s'', ''0.0025s'', ''0.0031s'', ''0.0040s'', ''0.0050s'',
     ''0.0062s'', ''0.0080s'', ''0.0100s'', ''0.0125s'', ''0.0166s'', ''0.0200s'', ''0.0250s'',
     ''0.0333s'', ''0.0400s'', ''0.0500s'', ''0.0666s'', ''0.0769s'', ''0.1000s'', ''0.1250s'',
     ''0.1666s'', ''0.2000s'', ''0.2500s'', ''0.3333s'', ''0.4000s'', ''0.5000s'', ''0.6250s'',
     ''0.7692s'', ''1.0000s'', ''1.3000s'', ''1.6000s'', ''2.0000s'', ''2.5000s'', ''3.0000s'',
     ''4.0000s'', ''5.0000s'', ''6.0000s'', ''8.0000s'', ''10.0000s'', ''13.0000s'', ''15.0000s'',
     ''20.0000s'', ''25.0000s'', ''30.0000s'', ''Bulb'']"

definition d3000_f_numbers :: "string list" where
  "d3000_f_numbers =
    [''f/1.8'', ''f/2'', ''f/2.2'', ''f/2.5'', ''f/2.8'', ''f/3.2'', ''f/3.5'', ''f/4'', ''f/4.5'',
     ''f/5'', ''f/5.6'', ''f/6.3'', ''f/7.1'', ''f/8'', ''f/9'', ''f/10'', ''f/11'', ''f/13'',
     ''f/14'', ''f/16'', ''f/18'', ''f/20'', ''f/22'']"

text \<open>What the program reads and would write back.\<close>

definition shutter_roundtrip :: "string \<Rightarrow> string option" where
  "shutter_roundtrip s =
     (case shutterSpeedToInt s of Inr i \<Rightarrow> Some (shutterSpeedToString i) | Inl e \<Rightarrow> None)"

definition aperture_roundtrip :: "string \<Rightarrow> string option" where
  "aperture_roundtrip s =
     (case apertureToInt s of Inr i \<Rightarrow> Some (apertureToString i) | Inl e \<Rightarrow> None)"


text \<open>
  With the decimal comma the camera's dump uses, only the integer part is read: an
  exposure of 0,0002 s reads as 0, which the program prints as Bulb; f/1,8 reads as f/1; and
  an exposure of 2148 s or more is not an \<open>int\<close> number of microseconds, which makes the
  conversion undefined behaviour.
\<close>

theorem conversion_pitfalls:
  "shutter_roundtrip ''0,0002s'' = Some ''Bulb'' \<and>
   aperture_roundtrip ''f/1,8'' = Some ''f/1'' \<and>
   (case shutterSpeedToInt ''2148s'' of Inl e \<Rightarrow> is_undefined e | Inr i \<Rightarrow> False)"
  by code_simp

text \<open>The battery percentage is what precedes the last character.\<close>

lemma batteryLevelToInt_reads:
  assumes "in_int i" "length (to_string i) < 2 ^ 63"
  shows "batteryLevelToInt (to_string i @ [c]) = Inr i"
  using assms stoi_to_string [OF assms(1)] substr_butlast [of "to_string i @ [c]"]
  by (simp add: batteryLevelToInt_def or_minus_one_def del: in_int_iff)

subsection \<open>\<open>findNearest\<close>\<close>

definition nearest_to :: "int \<Rightarrow> int list \<Rightarrow> int \<Rightarrow> bool" where
  "nearest_to v choices c \<longleftrightarrow> c \<in> set choices \<and> (\<forall>x \<in> set choices. \<bar>c - v\<bar> \<le> \<bar>x - v\<bar>)"

lemma nearest_in_gap:
  assumes "sorted choices" "Suc a < length choices"
    and "choices ! a < v" "v < choices ! Suc a" "in_int (choices ! Suc a - choices ! a)"
  shows "\<exists>c. nearer (choices ! a) (choices ! Suc a) v = Inr c \<and> nearest_to v choices c"
proof -
  have split: "x \<le> choices ! a \<or> choices ! Suc a \<le> x" if "x \<in> set choices" for x
  proof -
    from that obtain i where i: "i < length choices" "choices ! i = x"
      unfolding in_set_conv_nth by blast
    show ?thesis
    proof (cases "i \<le> a")
      case True
      then show ?thesis using sorted_nth_mono [OF assms(1) True] assms(2) i by simp
    next
      case False
      then show ?thesis using sorted_nth_mono [OF assms(1), of "Suc a" i] i by simp
    qed
  qed
  have "choices ! a \<in> set choices" "choices ! Suc a \<in> set choices" using assms(2) by simp_all
  moreover have "\<bar>choices ! a - v\<bar> \<le> \<bar>x - v\<bar>"
    if "x \<in> set choices" "\<not> choices ! Suc a - v < v - choices ! a" for x
    using split [OF that(1)] that(2) assms(3,4) by linarith
  moreover have "\<bar>choices ! Suc a - v\<bar> \<le> \<bar>x - v\<bar>"
    if "x \<in> set choices" "choices ! Suc a - v < v - choices ! a" for x
    using split [OF that(1)] that(2) assms(3,4) by linarith
  moreover have "nearer (choices ! a) (choices ! Suc a) v = Inr
      (if choices ! Suc a - v < v - choices ! a then choices ! Suc a else choices ! a)"
    using assms(3-5) by (simp add: nearer_def int_minus_def)
  ultimately show ?thesis
    unfolding nearest_to_def by (cases "choices ! Suc a - v < v - choices ! a") auto
qed

lemma search_nearest_correct:
  assumes "sorted choices" "b < length choices" "a < b" "choices ! a < v" "v < choices ! b"
    and "in_int (choices ! b - choices ! a)"
  shows "\<exists>c. search_nearest choices v a b = Inr c \<and> nearest_to v choices c"
  using assms
proof (induction choices v a b rule: search_nearest.induct)
  case (1 choices v a b)
  define c where "c = (b + a) div 2"
  show ?case
  proof (cases "1 < b - a")
    case False
    then have "b = Suc a" using "1.prems"(3) by simp
    then show ?thesis
      using nearest_in_gap [of choices a v] "1.prems" False by (simp add: search_nearest.simps)
  next
    case True
    then have c: "a < c" "c < b" by (auto simp: c_def)
    then have mono: "choices ! a \<le> choices ! c" "choices ! c \<le> choices ! b"
      using "1.prems"(1,2) by (auto intro: sorted_nth_mono)
    consider "v = choices ! c" | "choices ! c < v" | "v < choices ! c" by linarith
    then show ?thesis
    proof cases
      case 1
      then have "search_nearest choices v a b = Inr v"
        using True by (subst search_nearest.simps) (simp add: Let_def flip: c_def)
      moreover have "v \<in> set choices" using 1 c "1.prems"(2) by simp
      ultimately show ?thesis by (auto simp: nearest_to_def)
    next
      case 2
      then have "search_nearest choices v a b = search_nearest choices v c b"
        using True c_def by (simp add: search_nearest.simps [of choices v a b] Let_def)
      then show ?thesis
        using "1.IH"(1) [OF True c_def] 2 "1.prems" c mono by simp
    next
      case 3
      then have "search_nearest choices v a b = search_nearest choices v a c"
        using True c_def by (simp add: search_nearest.simps [of choices v a b] Let_def)
      then show ?thesis
        using "1.IH"(2) [OF True c_def] 3 "1.prems" c mono by simp
    qed
  qed
qed

text \<open>
  \<open>findNearest\<close> on a sorted list of choices returns one of the choices, and none of the
  others is nearer to the value, provided the spread of the choices is an \<open>int\<close>: then no
  subtraction overflows. The binary search always ends.
\<close>

theorem findNearest_correct:
  assumes "sorted choices" "choices \<noteq> []" "in_int (last choices - hd choices)"
  shows "\<exists>c. findNearest choices v = Inr c \<and> c \<in> set choices
    \<and> (\<forall>x \<in> set choices. \<bar>c - v\<bar> \<le> \<bar>x - v\<bar>)"
proof -
  let ?n = "length choices - 1"
  have ends: "last choices = choices ! ?n" "hd choices = choices ! 0"
    using assms(2) by (simp_all add: last_conv_nth hd_conv_nth)
  have range: "choices ! 0 \<le> x" "x \<le> choices ! ?n" if "x \<in> set choices" for x
    using that assms(1) by (auto simp: in_set_conv_nth intro!: sorted_nth_mono)
  have mem: "choices ! 0 \<in> set choices" "choices ! ?n \<in> set choices" using assms(2) by simp_all
  consider "length choices = 1" | "length choices \<noteq> 1" "v \<le> choices ! 0"
    | "length choices \<noteq> 1" "choices ! 0 < v" "choices ! ?n \<le> v"
    | "length choices \<noteq> 1" "choices ! 0 < v" "v < choices ! ?n" by linarith
  then have "\<exists>c. findNearest choices v = Inr c \<and> nearest_to v choices c"
  proof cases
    case 1
    then show ?thesis by (auto simp: findNearest_def nearest_to_def length_Suc_conv)
  next
    case 2
    then show ?thesis
      using assms(2) mem(1) range(1) by (force simp: findNearest_def nearest_to_def)
  next
    case 3
    then show ?thesis
      using assms(2) mem(2) range(2) by (force simp: findNearest_def nearest_to_def)
  next
    case 4
    then have "0 < ?n" using mem by (cases "?n = 0") auto
    then show ?thesis
      using 4 assms(2,3) ends search_nearest_correct [OF assms(1), of ?n 0 v]
      by (simp add: findNearest_def)
  qed
  then show ?thesis by (simp add: nearest_to_def)
qed

theorem findNearest_correct_witness:
  "\<exists>c. findNearest [100, 200, 400] 260 = Inr c \<and> c \<in> set [100, 200, 400]
    \<and> (\<forall>x \<in> set [100, 200, 400]. \<bar>c - 260\<bar> \<le> \<bar>x - 260\<bar>)"
  by (rule findNearest_correct) simp_all

end
