(* ===== verification/GPhoto.thy ===== *)
theory GPhoto
  imports Camera_Events Float32
begin

text \<open>
  The library interface the camera code is written against: the functions of libgphoto2, of
  C stdio and of \<open>std::filesystem\<close> that \<open>camera/\<close> and \<open>cameramanager/\<close> call. They are
  not part of the repository, so they are the fields of a record \<open>'g gphoto\<close>, an argument of
  every definition that calls them. \<open>'g\<close> is the state of the library, the camera
  and the operating system. An output parameter is part of the result. Nothing is assumed of
  the fields here; a theorem that relies on documented behaviour names it as a hypothesis.

  Also here: the exception texts of \<open>camera/CameraExceptions.h\<close> and the configuration names
  of \<open>camera_mappings/mappings.h\<close>.
\<close>

subsection \<open>libgphoto2, stdio and the file system\<close>

datatype CameraWidgetType =
  GP_WIDGET_MENU | GP_WIDGET_RADIO | GP_WIDGET_TEXT | GP_WIDGET_RANGE | GP_WIDGET_OTHER int

text \<open>A \<open>char*\<close> the library hands out: \<^const>\<open>None\<close> is the null pointer.\<close>

type_synonym c_string = "string option"

text \<open>
  \<open>gp_camera_new\<close> takes the old value of the pointer it may overwrite. \<open>folder_size\<close> and
  \<open>name_size\<close> are the lengths of the arrays of a \<open>CameraFilePath\<close>. \<open>errno\<close> is what the
  variable holds in the given state. \<open>fs_exists\<close> is \<open>Inl\<close> of the system error code when
  \<open>std::filesystem::exists\<close> throws; \<open>create_directory\<close> is the overload that does not.
\<close>

record 'g gphoto =
  GP_OK :: int
  GP_ERROR_BAD_PARAMETERS :: int
  folder_size :: nat
  name_size :: nat
  gp_context_new :: "'g \<Rightarrow> ptr \<times> 'g"
  gp_camera_new :: "ptr \<Rightarrow> 'g \<Rightarrow> (int \<times> ptr) \<times> 'g"
  gp_camera_init :: "ptr \<Rightarrow> ptr \<Rightarrow> 'g \<Rightarrow> int \<times> 'g"
  gp_camera_exit :: "ptr \<Rightarrow> ptr \<Rightarrow> 'g \<Rightarrow> 'g"
  gp_camera_free :: "ptr \<Rightarrow> 'g \<Rightarrow> 'g"
  gp_camera_capture :: "ptr \<Rightarrow> ptr \<Rightarrow> 'g \<Rightarrow> (int \<times> CameraFilePath) \<times> 'g"
  gp_camera_file_get :: "ptr \<Rightarrow> string \<Rightarrow> string \<Rightarrow> ptr \<Rightarrow> ptr \<Rightarrow> 'g \<Rightarrow> int \<times> 'g"
  gp_camera_get_single_config :: "ptr \<Rightarrow> string \<Rightarrow> ptr \<Rightarrow> 'g \<Rightarrow> (int \<times> ptr) \<times> 'g"
  gp_camera_set_single_config :: "ptr \<Rightarrow> string \<Rightarrow> ptr \<Rightarrow> ptr \<Rightarrow> 'g \<Rightarrow> int \<times> 'g"
  gp_widget_free :: "ptr \<Rightarrow> 'g \<Rightarrow> 'g"
  gp_widget_get_type :: "ptr \<Rightarrow> 'g \<Rightarrow> (int \<times> CameraWidgetType) \<times> 'g"
  gp_widget_get_name :: "ptr \<Rightarrow> 'g \<Rightarrow> (int \<times> c_string) \<times> 'g"
  gp_widget_get_readonly :: "ptr \<Rightarrow> 'g \<Rightarrow> (int \<times> int) \<times> 'g"
  gp_widget_count_choices :: "ptr \<Rightarrow> 'g \<Rightarrow> int \<times> 'g"
  gp_widget_get_choice :: "ptr \<Rightarrow> int \<Rightarrow> 'g \<Rightarrow> (int \<times> c_string) \<times> 'g"
  gp_widget_get_value_string :: "ptr \<Rightarrow> 'g \<Rightarrow> (int \<times> c_string) \<times> 'g"
  gp_widget_get_value_float :: "ptr \<Rightarrow> 'g \<Rightarrow> (int \<times> f32) \<times> 'g"
  gp_widget_set_value_string :: "ptr \<Rightarrow> string \<Rightarrow> 'g \<Rightarrow> 'g"
  gp_widget_set_value_float :: "ptr \<Rightarrow> f32 \<Rightarrow> 'g \<Rightarrow> 'g"
  gp_widget_get_range :: "ptr \<Rightarrow> 'g \<Rightarrow> (int \<times> f32 \<times> f32 \<times> f32) \<times> 'g"
  gp_file_new_from_fd :: "int \<Rightarrow> 'g \<Rightarrow> (int \<times> ptr) \<times> 'g"
  gp_file_free :: "ptr \<Rightarrow> 'g \<Rightarrow> 'g"
  gp_result_as_string :: "int \<Rightarrow> string"
  fopen_w :: "string \<Rightarrow> 'g \<Rightarrow> ptr \<times> 'g"
  fileno :: "ptr \<Rightarrow> 'g \<Rightarrow> int \<times> 'g"
  fclose :: "ptr \<Rightarrow> 'g \<Rightarrow> 'g"
  errno :: "'g \<Rightarrow> int"
  fs_exists :: "string \<Rightarrow> 'g \<Rightarrow> (int + bool) \<times> 'g"
  create_directory :: "string \<Rightarrow> 'g \<Rightarrow> bool \<times> 'g"

text \<open>\<open>string(value)\<close> for a \<open>const char*\<close>: undefined for the null pointer.\<close>

definition string_of_c :: "c_string \<Rightarrow> exn + string" where
  "string_of_c p = (case p of Some s \<Rightarrow> Inr s | None \<Rightarrow> Inl (Undefined ''string from a null pointer''))"

subsection \<open>Exception texts\<close>

text \<open>
  \<open>GPhotoError\<close>'s constructor passes \<open>"GPhoto returned error code" + gphoto_error\<close> to
  the base class: an integer is added to a character array, so this is the suffix of the
  literal at that offset, and undefined outside it. The model lets the exception be thrown all
  the same, as its \<open>what\<close> does not use the text.
\<close>

definition GPhotoError_wh :: "int \<Rightarrow> exn + string" where
  "GPhotoError_wh gphoto_error =
     (let lit = ''GPhoto returned error code''
      in if 0 \<le> gphoto_error \<and> gphoto_error \<le> int (length lit)
         then Inr (drop (nat gphoto_error) lit)
         else Inl (Undefined ''pointer outside of the string literal''))"

text \<open>\<open>what()\<close> of the classes derived from \<open>CameraException\<close>.\<close>

fun exn_what :: "'g gphoto \<Rightarrow> exn \<Rightarrow> string" where
  "exn_what E (CameraConnectionError reason) = ''Error connecting to camera: '' @ reason"
| "exn_what E (WidgetReadOnlyError widget) = ''Widget '' @ widget @ '' is read only.''"
| "exn_what E (GPhotoError error) = gp_result_as_string E error"
| "exn_what E _ = []"

text \<open>
  The text \<open>GPhotoError\<close> computes for its base class never contains the error code: for
  every negative code, and those are all the error codes of libgphoto2, building it is
  undefined behaviour, and for a small positive one it is a suffix of the literal.
\<close>

theorem GPhotoError_text_defect:
  "GPhotoError_wh (- int (Suc n)) = Inl (Undefined ''pointer outside of the string literal'')
   \<and> GPhotoError_wh 7 = Inr ''returned error code''"
  by (simp add: GPhotoError_wh_def Let_def)

subsection \<open>Configuration names\<close>

definition CONFIG_SERIAL_NUMBER :: string where
  "CONFIG_SERIAL_NUMBER = ''serialnumber''"

definition CONFIG_EXPOSURE_TIME :: string where
  "CONFIG_EXPOSURE_TIME = ''shutterspeed''"

definition CONFIG_APERTURE :: string where
  "CONFIG_APERTURE = ''f-number''"

definition CONFIG_ISO :: string where
  "CONFIG_ISO = ''iso''"

definition CONFIG_TRIGGER_MODE :: string where
  "CONFIG_TRIGGER_MODE = ''capturemode''"

definition CONFIG_BATTERY_LEVEL :: string where
  "CONFIG_BATTERY_LEVEL = ''batterylevel''"

definition CONFIG_EXPOSURE_PROGRAM :: string where
  "CONFIG_EXPOSURE_PROGRAM = ''expprogram''"

definition CONFIG_BURST_COUNT :: string where
  "CONFIG_BURST_COUNT = ''burstnumber''"

definition CONFIG_FOCAL_LENGHT :: string where
  "CONFIG_FOCAL_LENGHT = ''focallength''"

subsection \<open>The camera object\<close>

text \<open>
  The members of \<open>CameraWrapper\<close> (\<open>gp_context\<close> is its member \<open>context\<close>), and the state \<open>lib\<close> of the library on which its member
  functions act.
\<close>

record 'g CameraWrapper =
  connected :: bool
  serial :: string
  camera :: ptr
  gp_context :: ptr
  lib :: 'g

text \<open>A call of a library function that returns a value, and of one whose value is ignored.\<close>

definition call :: "('g \<Rightarrow> 'a \<times> 'g) \<Rightarrow> ('g CameraWrapper, 'a) comp" where
  "call f = (\<lambda>s. case f (lib s) of (x, g) \<Rightarrow> (Inr x, s\<lparr>lib := g\<rparr>))"

definition run :: "('g \<Rightarrow> 'g) \<Rightarrow> ('g CameraWrapper, unit) comp" where
  "run f = modify (\<lambda>s. s\<lparr>lib := f (lib s)\<rparr>)"

lemma throws_call [raises_intros]: "throws X (call f)" "throws X (run f')"
  by (simp_all add: throws_def call_def run_def split: prod.splits)

lemma keeps_call [keeps_intros]:
  assumes "\<And>s. P s \<Longrightarrow> P (s\<lparr>lib := snd (f (lib s))\<rparr>)"
  shows "keeps P (call f)"
  using assms by (simp add: keeps_def call_def split: prod.splits) (metis snd_conv)

lemma keeps_run [keeps_intros]:
  "(\<And>s. P s \<Longrightarrow> P (s\<lparr>lib := f (lib s)\<rparr>)) \<Longrightarrow> keeps P (run f)"
  by (simp add: keeps_def run_def)

text \<open>The exceptions a camera operation throws: \<open>GPhotoError\<close>, unless its behaviour is undefined.\<close>

definition gphoto_or_undefined :: "exn \<Rightarrow> bool" where
  "gphoto_or_undefined e \<longleftrightarrow> (\<exists>c. e = GPhotoError c) \<or> is_undefined e"

lemma gphoto_or_undefined_simps [simp]:
  "gphoto_or_undefined (GPhotoError c)" "gphoto_or_undefined (Undefined w)"
  by (simp_all add: gphoto_or_undefined_def)

lemma throws_string_of_c [raises_intros]:
  "throws gphoto_or_undefined (of_sum (string_of_c p))"
  by (auto simp: string_of_c_def split: option.splits intro!: raises_intros)

end
