(* ===== verification/Camera_Widget.thy ===== *)
theory Camera_Widget
  imports GPhoto
begin

text \<open>
  \<open>camera/CameraWidget.h/.cpp\<close>: the classes that own a libgphoto2 configuration widget. A
  widget object lives in the scope of a local variable, so a function that declares one is
  modelled with the rest of its scope as an argument: the constructor, the body, and the
  destructor, which frees the widget however the scope is left. The lemmas show what the member
  functions throw and that no widget leaks.
\<close>

record CameraWidgetBase =
  widget :: ptr
  widget_name :: string

type_synonym ('g, 'a) widget_op = "'g gphoto \<Rightarrow> CameraWidgetBase \<Rightarrow> ('g CameraWrapper, 'a) comp"

subsection \<open>\<open>CameraWidgetBase\<close>\<close>

definition CameraWidgetBase_new ::
    "'g gphoto \<Rightarrow> string \<Rightarrow> ('g CameraWrapper, CameraWidgetBase) comp" where
  "CameraWidgetBase_new E config_name =
     bnd (reads (\<lambda>s. (camera s, gp_context s))) (\<lambda>(c, ctx).
     bnd (call (gp_camera_get_single_config E c (c_str config_name) ctx)) (\<lambda>(result, p).
     if result \<noteq> GP_OK E then raise (GPhotoError result)
     else ret \<lparr>widget = p, widget_name = config_name\<rparr>))"

definition CameraWidgetBase_delete ::
    "'g gphoto \<Rightarrow> CameraWidgetBase \<Rightarrow> 'g CameraWrapper \<Rightarrow> 'g CameraWrapper" where
  "CameraWidgetBase_delete E w s =
     (if widget w \<noteq> nullptr then s\<lparr>lib := gp_widget_free E (widget w) (lib s)\<rparr> else s)"

definition getType :: "('g, CameraWidgetType) widget_op" where
  "getType E w =
     bnd (call (gp_widget_get_type E (widget w))) (\<lambda>(result, type).
     if result \<noteq> GP_OK E then raise (GPhotoError result) else ret type)"

definition getName :: "('g, string) widget_op" where
  "getName E w =
     bnd (call (gp_widget_get_name E (widget w))) (\<lambda>(result, v).
     if result \<noteq> GP_OK E then ret [] else of_sum (string_of_c v))"

definition isReadOnly :: "('g, bool) widget_op" where
  "isReadOnly E w =
     bnd (call (gp_widget_get_readonly E (widget w))) (\<lambda>(result, v).
     if result \<noteq> GP_OK E then ret True else ret (v \<noteq> 0))"

text \<open>The loop of \<open>getAvailableValues\<close>: \<open>n\<close> choices are left, \<open>i\<close> is the next one.\<close>

fun choices_loop ::
    "'g gphoto \<Rightarrow> CameraWidgetBase \<Rightarrow> nat \<Rightarrow> int \<Rightarrow> string list \<Rightarrow> ('g CameraWrapper, string list) comp" where
  "choices_loop E w 0 i choices = ret choices"
| "choices_loop E w (Suc n) i choices =
     bnd (call (gp_widget_get_choice E (widget w) i)) (\<lambda>(result, choice).
     if result = GP_OK E then
       bnd (of_sum (string_of_c choice)) (\<lambda>c. choices_loop E w n (i + 1) (choices @ [c]))
     else ret [])"

definition getAvailableValues :: "('g, string list) widget_op" where
  "getAvailableValues E w =
     bnd (call (gp_widget_count_choices E (widget w))) (\<lambda>choices_num.
     choices_loop E w (nat choices_num) 0 [])"

definition apply_widget :: "('g, unit) widget_op" where
  "apply_widget E w =
     bnd (isReadOnly E w) (\<lambda>ro.
     if \<not> ro then
       bnd (reads (\<lambda>s. (camera s, gp_context s))) (\<lambda>(c, ctx).
       bnd (call (gp_camera_set_single_config E c (c_str (widget_name w)) (widget w) ctx)) (\<lambda>result.
       if result \<noteq> GP_OK E then raise (GPhotoError result) else ret ()))
     else bnd (getName E w) (\<lambda>n. raise (WidgetReadOnlyError n)))"

text \<open>
  The constructor for an existing widget, with the scope that follows. Should the constructor
  body throw, the object is not yet constructed and the destructor is not run.
\<close>

definition CameraWidgetBase_of ::
    "'g gphoto \<Rightarrow> ptr \<Rightarrow> ('g CameraWrapper, CameraWidgetBase) comp" where
  "CameraWidgetBase_of E p =
     bnd (getName E \<lparr>widget = p, widget_name = []\<rparr>) (\<lambda>n. ret \<lparr>widget = p, widget_name = n\<rparr>)"

text \<open>
  The scope of a widget object: base constructor, the derived constructor's type check, the
  body; once the base is constructed its destructor runs on every way out.
\<close>

definition widget_scope ::
    "'g gphoto \<Rightarrow> ('g CameraWrapper, CameraWidgetBase) comp
      \<Rightarrow> (CameraWidgetBase \<Rightarrow> ('g CameraWrapper, unit) comp)
      \<Rightarrow> (CameraWidgetBase \<Rightarrow> ('g CameraWrapper, 'a) comp) \<Rightarrow> ('g CameraWrapper, 'a) comp" where
  "widget_scope E base check body =
     bnd base (\<lambda>w. with_destructor (sq (check w) (body w)) (CameraWidgetBase_delete E w))"

subsection \<open>\<open>CameraWidgetString\<close> and \<open>CameraWidgetRange\<close>\<close>

definition check_string :: "('g, unit) widget_op" where
  "check_string E w =
     bnd (getType E w) (\<lambda>type.
     if type \<noteq> GP_WIDGET_MENU \<and> type \<noteq> GP_WIDGET_RADIO \<and> type \<noteq> GP_WIDGET_TEXT
     then raise (GPhotoError (GP_ERROR_BAD_PARAMETERS E)) else ret ())"

definition check_range :: "('g, unit) widget_op" where
  "check_range E w =
     bnd (getType E w) (\<lambda>type.
     if type \<noteq> GP_WIDGET_RANGE then raise (GPhotoError (GP_ERROR_BAD_PARAMETERS E)) else ret ())"

definition with_CameraWidgetString ::
    "'g gphoto \<Rightarrow> string \<Rightarrow> (CameraWidgetBase \<Rightarrow> ('g CameraWrapper, 'a) comp)
      \<Rightarrow> ('g CameraWrapper, 'a) comp" where
  "with_CameraWidgetString E config_name =
     widget_scope E (CameraWidgetBase_new E config_name) (check_string E)"

definition with_CameraWidgetString_of ::
    "'g gphoto \<Rightarrow> ptr \<Rightarrow> (CameraWidgetBase \<Rightarrow> ('g CameraWrapper, 'a) comp)
      \<Rightarrow> ('g CameraWrapper, 'a) comp" where
  "with_CameraWidgetString_of E p = widget_scope E (CameraWidgetBase_of E p) (check_string E)"

definition with_CameraWidgetRange ::
    "'g gphoto \<Rightarrow> string \<Rightarrow> (CameraWidgetBase \<Rightarrow> ('g CameraWrapper, 'a) comp)
      \<Rightarrow> ('g CameraWrapper, 'a) comp" where
  "with_CameraWidgetRange E config_name =
     widget_scope E (CameraWidgetBase_new E config_name) (check_range E)"

definition with_CameraWidgetRange_of ::
    "'g gphoto \<Rightarrow> ptr \<Rightarrow> (CameraWidgetBase \<Rightarrow> ('g CameraWrapper, 'a) comp)
      \<Rightarrow> ('g CameraWrapper, 'a) comp" where
  "with_CameraWidgetRange_of E p = widget_scope E (CameraWidgetBase_of E p) (check_range E)"

definition string_getValue :: "('g, string) widget_op" where
  "string_getValue E w =
     bnd (call (gp_widget_get_value_string E (widget w))) (\<lambda>(result, v).
     if result \<noteq> GP_OK E then raise (GPhotoError result) else of_sum (string_of_c v))"

definition string_setValue :: "'g gphoto \<Rightarrow> CameraWidgetBase \<Rightarrow> string \<Rightarrow> ('g CameraWrapper, unit) comp" where
  "string_setValue E w v = run (gp_widget_set_value_string E (widget w) (c_str v))"

definition range_getValue :: "('g, f32) widget_op" where
  "range_getValue E w =
     bnd (call (gp_widget_get_value_float E (widget w))) (\<lambda>(result, v).
     if result \<noteq> GP_OK E then raise (GPhotoError result) else ret v)"

definition range_setValue :: "'g gphoto \<Rightarrow> CameraWidgetBase \<Rightarrow> f32 \<Rightarrow> ('g CameraWrapper, unit) comp" where
  "range_setValue E w v = run (gp_widget_set_value_float E (widget w) v)"

text \<open>\<open>Range\<close> is the triple minimum, maximum, step.\<close>

definition getRange :: "('g, f32 \<times> f32 \<times> f32) widget_op" where
  "getRange E w =
     bnd (call (gp_widget_get_range E (widget w))) (\<lambda>(result, range).
     if result \<noteq> GP_OK E then raise (GPhotoError result) else ret range)"

subsection \<open>Exceptions\<close>

lemma throws_widget_ops [raises_intros]:
  "throws gphoto_or_undefined (CameraWidgetBase_new E n)"
  "throws gphoto_or_undefined (getType E w)"
  "throws gphoto_or_undefined (getName E w)"
  "throws gphoto_or_undefined (isReadOnly E w)"
  "throws gphoto_or_undefined (string_getValue E w)"
  "throws gphoto_or_undefined (string_setValue E w v)"
  "throws gphoto_or_undefined (range_getValue E w)"
  "throws gphoto_or_undefined (range_setValue E w x)"
  "throws gphoto_or_undefined (getRange E w)"
  unfolding CameraWidgetBase_new_def getType_def getName_def isReadOnly_def string_getValue_def
    string_setValue_def range_getValue_def range_setValue_def getRange_def
  by (auto intro!: raises_intros)

lemma throws_choices [raises_intros]:
  "throws gphoto_or_undefined (getAvailableValues E w)"
proof -
  have "throws gphoto_or_undefined (choices_loop E w n i cs)" for n i cs
    by (induction n arbitrary: i cs) (auto intro!: raises_intros)
  then show ?thesis unfolding getAvailableValues_def by (auto intro!: raises_intros)
qed

lemma throws_check [raises_intros]:
  "throws gphoto_or_undefined (check_string E w)" "throws gphoto_or_undefined (check_range E w)"
  unfolding check_string_def check_range_def by (auto intro!: raises_intros)

text \<open>\<open>apply\<close> may throw \<open>WidgetReadOnlyError\<close> as well.\<close>

definition setter_throws :: "exn \<Rightarrow> bool" where
  "setter_throws e \<longleftrightarrow> gphoto_or_undefined e \<or> (\<exists>w. e = WidgetReadOnlyError w)"

lemma setter_throwsI:
  "throws gphoto_or_undefined m \<Longrightarrow> throws setter_throws m"
  by (erule throws_weaken) (simp add: setter_throws_def)

lemma throws_apply [raises_intros]: "throws setter_throws (apply_widget E w)"
  unfolding apply_widget_def
  by (auto intro!: raises_intros intro: setter_throwsI [OF throws_widget_ops(4)]
      setter_throwsI [OF throws_widget_ops(3)] simp: setter_throws_def)

lemma throws_with_widget:
  assumes "\<And>w. throws X (body w)" "\<And>e. gphoto_or_undefined e \<Longrightarrow> X e"
  shows "throws X (with_CameraWidgetString E n body)" "throws X (with_CameraWidgetRange E n body)"
proof -
  note 1 = throws_weaken [OF throws_widget_ops(1) assms(2)]
    throws_weaken [OF throws_check(1) assms(2)] throws_weaken [OF throws_check(2) assms(2)]
  show "throws X (with_CameraWidgetString E n body)" "throws X (with_CameraWidgetRange E n body)"
    unfolding with_CameraWidgetString_def with_CameraWidgetRange_def widget_scope_def
    by (auto intro!: throws_bnd throws_sq throws_with_destructor 1 assms(1))
qed

end
