(* ===== verification/Camera_Wrapper.thy ===== *)
theory Camera_Wrapper
  imports Camera_Widget String_Conversion "HOL-Library.Multiset"
begin

text \<open>
  \<open>CameraWrapper\<close> of \<open>camera/CameraWrapper.h/.cpp\<close>: the connection to one camera and the
  typed access to its configuration. Every member function is a computation on the record
  \<open>'g CameraWrapper\<close>; what it logs is left out.

  The lemmas show what each function throws, and the resource discipline: \<open>track\<close> turns a
  library into one that also books which cameras and widgets are allocated and whether a
  handle is used or freed after it was freed.
\<close>

subsection \<open>Connection\<close>

definition NOT_A_GOOD_SERIAL :: string where
  "NOT_A_GOOD_SERIAL = ''NOT_A_GOOD_SERIAL''"

definition CameraWrapper_new :: "'g gphoto \<Rightarrow> 'g \<Rightarrow> 'g CameraWrapper" where
  "CameraWrapper_new E g =
     (case gp_context_new E g of (ctx, g') \<Rightarrow>
        \<lparr>connected = False, serial = NOT_A_GOOD_SERIAL, camera = nullptr, gp_context = ctx, lib = g'\<rparr>)"

definition freeCamera :: "'g gphoto \<Rightarrow> ('g CameraWrapper, unit) comp" where
  "freeCamera E =
     bnd (reads (\<lambda>s. (camera s, gp_context s))) (\<lambda>(c, ctx).
     if c \<noteq> nullptr then
       sq (run (gp_camera_exit E c ctx))
       (sq (run (gp_camera_free E c))
       (modify (\<lambda>s. s\<lparr>camera := nullptr\<rparr>)))
     else ret ())"

definition CameraWrapper_delete :: "'g gphoto \<Rightarrow> ('g CameraWrapper, unit) comp" where
  "CameraWrapper_delete E = freeCamera E"

definition getSerialNumber :: "'g gphoto \<Rightarrow> ('g CameraWrapper, string) comp" where
  "getSerialNumber E = with_CameraWidgetString E CONFIG_SERIAL_NUMBER (string_getValue E)"

definition connect :: "'g gphoto \<Rightarrow> ('g CameraWrapper, string) comp" where
  "connect E =
     bnd (reads connected) (\<lambda>con.
     if \<not> con then
       bnd (reads camera) (\<lambda>old.
       bnd (call (gp_camera_new E old)) (\<lambda>(result, c).
       sq (modify (\<lambda>s. s\<lparr>camera := c\<rparr>))
       (if result \<noteq> GP_OK E then raise (GPhotoError result)
        else
          bnd (reads gp_context) (\<lambda>ctx.
          bnd (call (gp_camera_init E c ctx)) (\<lambda>result'.
          if result' = GP_OK E then
            bnd (getSerialNumber E) (\<lambda>sn.
            sq (modify (\<lambda>s. s\<lparr>serial := sn\<rparr>))
            (sq (modify (\<lambda>s. s\<lparr>connected := True\<rparr>)) (reads serial)))
          else sq (run (gp_camera_free E c)) (raise (GPhotoError result')))))))
     else reads serial)"

definition disconnect :: "'g gphoto \<Rightarrow> ('g CameraWrapper, bool) comp" where
  "disconnect E =
     bnd (reads connected) (\<lambda>con.
     if con then sq (freeCamera E) (sq (modify (\<lambda>s. s\<lparr>connected := False\<rparr>)) (ret True))
     else ret False)"

lemma delete_effect:
  "\<exists>w'. CameraWrapper_delete E w = (Inr (), w') \<and> camera w' = nullptr \<and> connected w' = connected w"
  by (simp add: CameraWrapper_delete_def freeCamera_def run_def sq_def bnd_def run_simps)

lemma disconnect_effect:
  "\<exists>x w'. disconnect E w = (Inr x, w') \<and> \<not> connected w'"
  by (auto simp: disconnect_def freeCamera_def run_def sq_def bnd_def run_simps)

definition isConnected :: "('g CameraWrapper, bool) comp" where
  "isConnected = reads connected"

text \<open>\<open>catch (CameraException& e) { return false; }\<close>\<close>

definition isResponsive :: "'g gphoto \<Rightarrow> ('g CameraWrapper, bool) comp" where
  "isResponsive E =
     try_catch
       (bnd (reads connected) (\<lambda>con.
        if con then bnd (getSerialNumber E) (\<lambda>sn. reads (\<lambda>s. sn = serial s)) else ret False))
       (\<lambda>e. if is_CameraException e then Some (ret False) else None)"

subsection \<open>Configuration\<close>

definition getExposureTime :: "'g gphoto \<Rightarrow> ('g CameraWrapper, int) comp" where
  "getExposureTime E = with_CameraWidgetString E CONFIG_EXPOSURE_TIME (\<lambda>w.
     bnd (string_getValue E w) (\<lambda>v. of_sum (shutterSpeedToInt v)))"

definition setExposureTime :: "'g gphoto \<Rightarrow> int \<Rightarrow> ('g CameraWrapper, unit) comp" where
  "setExposureTime E exposure_time = with_CameraWidgetString E CONFIG_EXPOSURE_TIME (\<lambda>w.
     sq (string_setValue E w (shutterSpeedToString exposure_time)) (apply_widget E w))"

definition listExposureTimes :: "'g gphoto \<Rightarrow> ('g CameraWrapper, int list) comp" where
  "listExposureTimes E = with_CameraWidgetString E CONFIG_EXPOSURE_TIME (\<lambda>w.
     bnd (getAvailableValues E w) (for_each (\<lambda>c. of_sum (shutterSpeedToInt c))))"

definition getAperture :: "'g gphoto \<Rightarrow> ('g CameraWrapper, int) comp" where
  "getAperture E = with_CameraWidgetString E CONFIG_APERTURE (\<lambda>w.
     bnd (string_getValue E w) (\<lambda>v. of_sum (apertureToInt v)))"

definition setAperture :: "'g gphoto \<Rightarrow> int \<Rightarrow> ('g CameraWrapper, unit) comp" where
  "setAperture E ap = with_CameraWidgetString E CONFIG_APERTURE (\<lambda>w.
     sq (string_setValue E w (apertureToString ap)) (apply_widget E w))"

definition listApertures :: "'g gphoto \<Rightarrow> ('g CameraWrapper, int list) comp" where
  "listApertures E = with_CameraWidgetString E CONFIG_APERTURE (\<lambda>w.
     bnd (getAvailableValues E w) (for_each (\<lambda>c. of_sum (apertureToInt c))))"

definition getISO :: "'g gphoto \<Rightarrow> ('g CameraWrapper, int) comp" where
  "getISO E = with_CameraWidgetString E CONFIG_ISO (\<lambda>w.
     bnd (string_getValue E w) (\<lambda>v. of_sum (stoi v)))"

definition setISO :: "'g gphoto \<Rightarrow> int \<Rightarrow> ('g CameraWrapper, unit) comp" where
  "setISO E i = with_CameraWidgetString E CONFIG_ISO (\<lambda>w.
     sq (string_setValue E w (to_string i)) (apply_widget E w))"

definition listISOs :: "'g gphoto \<Rightarrow> ('g CameraWrapper, int list) comp" where
  "listISOs E = with_CameraWidgetString E CONFIG_ISO (\<lambda>w.
     bnd (getAvailableValues E w) (for_each (\<lambda>c. of_sum (stoi c))))"

definition getBatteryPercent :: "'g gphoto \<Rightarrow> ('g CameraWrapper, int) comp" where
  "getBatteryPercent E = with_CameraWidgetString E CONFIG_BATTERY_LEVEL (\<lambda>w.
     bnd (string_getValue E w) (\<lambda>v. of_sum (batteryLevelToInt v)))"

definition getExposureProgram :: "'g gphoto \<Rightarrow> ('g CameraWrapper, string) comp" where
  "getExposureProgram E = with_CameraWidgetString E CONFIG_EXPOSURE_PROGRAM (string_getValue E)"

definition getTriggerMode :: "'g gphoto \<Rightarrow> ('g CameraWrapper, string) comp" where
  "getTriggerMode E = with_CameraWidgetString E CONFIG_TRIGGER_MODE (string_getValue E)"

definition getFocalLength :: "'g gphoto \<Rightarrow> ('g CameraWrapper, int) comp" where
  "getFocalLength E = with_CameraWidgetRange E CONFIG_FOCAL_LENGHT (\<lambda>w.
     bnd (range_getValue E w) (\<lambda>v. of_sum (f32_to_int v)))"

definition setTriggerMode :: "'g gphoto \<Rightarrow> string \<Rightarrow> ('g CameraWrapper, unit) comp" where
  "setTriggerMode E mode = with_CameraWidgetString E CONFIG_TRIGGER_MODE (\<lambda>w.
     sq (string_setValue E w mode) (apply_widget E w))"

definition listTriggerModes :: "'g gphoto \<Rightarrow> ('g CameraWrapper, string list) comp" where
  "listTriggerModes E = with_CameraWidgetString E CONFIG_TRIGGER_MODE (getAvailableValues E)"

definition getBurstCount :: "'g gphoto \<Rightarrow> ('g CameraWrapper, int) comp" where
  "getBurstCount E = with_CameraWidgetString E CONFIG_BURST_COUNT (\<lambda>w.
     bnd (string_getValue E w) (\<lambda>v. of_sum (stoi v)))"

definition setBurstCount :: "'g gphoto \<Rightarrow> int \<Rightarrow> ('g CameraWrapper, unit) comp" where
  "setBurstCount E burst = with_CameraWidgetString E CONFIG_BURST_COUNT (\<lambda>w.
     sq (string_setValue E w (to_string burst)) (apply_widget E w))"

text \<open>\<open>choices[choices.size() - 1]\<close> is out of the vector when there is no choice.\<close>

definition getMaxBurstCount :: "'g gphoto \<Rightarrow> ('g CameraWrapper, int) comp" where
  "getMaxBurstCount E = with_CameraWidgetString E CONFIG_BURST_COUNT (\<lambda>w.
     bnd (getAvailableValues E w) (\<lambda>choices.
     if choices = [] then raise (Undefined ''vector index out of range'')
     else of_sum (stoi (last choices))))"

subsection \<open>Pictures\<close>

definition wiredCapture :: "'g gphoto \<Rightarrow> ('g CameraWrapper, CameraPath) comp" where
  "wiredCapture E =
     bnd (reads (\<lambda>s. (camera s, gp_context s))) (\<lambda>(c, ctx).
     bnd (call (gp_camera_capture E c ctx)) (\<lambda>(result, p).
     if result = GP_OK E then ret (CameraPath_of p) else raise (GPhotoError result)))"

text \<open>
  The code at the label \<open>out\<close> of \<open>downloadFile\<close>, reached with the stream \<open>f\<close>, the file
  descriptor \<open>fd\<close>, the file object if it was created, and the last result.
\<close>

definition downloadFile_out ::
    "'g gphoto \<Rightarrow> ptr \<Rightarrow> int \<Rightarrow> ptr option \<Rightarrow> int \<Rightarrow> ('g CameraWrapper, unit) comp" where
  "downloadFile_out E f fd file result =
     sq (if f \<noteq> nullptr then run (fclose E f) else ret ())
     (if f = nullptr \<or> fd < 0 then
        bnd (reads lib) (\<lambda>g. raise (FilesystemError ''Cannot open file'' (errno E g)))
      else
        sq (case file of Some p \<Rightarrow> run (gp_file_free E p) | None \<Rightarrow> ret ())
        (if result \<noteq> GP_OK E then raise (GPhotoError result) else ret ()))"

definition downloadFile ::
    "'g gphoto \<Rightarrow> CameraFilePath \<Rightarrow> string \<Rightarrow> ('g CameraWrapper, unit) comp" where
  "downloadFile E p dest_file_path =
     bnd (call (fopen_w E (c_str dest_file_path))) (\<lambda>f.
     if f = nullptr then downloadFile_out E f 0 None 0
     else
       bnd (call (fileno E f)) (\<lambda>fd.
       if fd < 0 then downloadFile_out E f fd None 0
       else
         bnd (call (gp_file_new_from_fd E fd)) (\<lambda>(result, file).
         if result \<noteq> GP_OK E then downloadFile_out E f fd None result
         else
           bnd (reads (\<lambda>s. (camera s, gp_context s))) (\<lambda>(c, ctx).
           bnd (call (gp_camera_file_get E c (fst p) (snd p) file ctx)) (\<lambda>result'.
           downloadFile_out E f fd (Some file) result')))))"


subsection \<open>What the member functions throw\<close>

lemma f32_to_int_Inl: "f32_to_int x = Inl e \<Longrightarrow> is_undefined e"
  by (cases x) (auto simp: Let_def split: prod.splits if_splits)

lemma f32_mult_no_throw: "stof t = Inl e \<Longrightarrow> e = InvalidArgument \<or> e = OutOfRange"
  by (auto simp: stof_def split: option.splits if_splits)

lemma substr_Inl: "substr k n t = Inl e \<Longrightarrow> e = OutOfRange"
  by (simp add: substr_def Let_def split: if_splits)

lemma stoi_Inl: "stoi t = Inl e \<Longrightarrow> e = InvalidArgument \<or> e = OutOfRange"
  by (rule stoi_cases [of t]) auto

lemma or_minus_one_Inl:
  "or_minus_one r = Inl e \<Longrightarrow> (\<And>e'. r = Inl e' \<Longrightarrow> e' = InvalidArgument \<or> e' = OutOfRange \<or> is_undefined e')
    \<Longrightarrow> is_undefined e"
  by (auto simp: or_minus_one_def split: sum.splits exn.splits)

text \<open>The string conversions throw nothing that a caller could catch.\<close>

lemma conversion_Inl:
  "shutterSpeedToInt t = Inl e \<Longrightarrow> is_undefined e"
  "apertureToInt t = Inl e \<Longrightarrow> is_undefined e"
  "batteryLevelToInt t = Inl e \<Longrightarrow> is_undefined e"
  unfolding shutterSpeedToInt_def apertureToInt_def batteryLevelToInt_def
  by (auto elim!: or_minus_one_Inl split: if_splits sum.splits
      dest: f32_mult_no_throw f32_to_int_Inl substr_Inl stoi_Inl)

definition number_throws :: "exn \<Rightarrow> bool" where
  "number_throws e \<longleftrightarrow> gphoto_or_undefined e \<or> e = InvalidArgument \<or> e = OutOfRange"

lemma undefined_imp: "is_undefined e \<Longrightarrow> gphoto_or_undefined e"
  by (simp add: gphoto_or_undefined_def)

lemma throws_getters [raises_intros]:
  "throws gphoto_or_undefined (getSerialNumber E)"
  "throws gphoto_or_undefined (getExposureTime E)"
  "throws gphoto_or_undefined (listExposureTimes E)"
  "throws gphoto_or_undefined (getAperture E)"
  "throws gphoto_or_undefined (listApertures E)"
  "throws gphoto_or_undefined (getBatteryPercent E)"
  "throws gphoto_or_undefined (getExposureProgram E)"
  "throws gphoto_or_undefined (getTriggerMode E)"
  "throws gphoto_or_undefined (getFocalLength E)"
  "throws gphoto_or_undefined (listTriggerModes E)"
  unfolding getSerialNumber_def getExposureTime_def listExposureTimes_def getAperture_def
    listApertures_def getBatteryPercent_def getExposureProgram_def getTriggerMode_def
    getFocalLength_def listTriggerModes_def
  by (intro throws_with_widget raises_intros, (auto dest!: conversion_Inl f32_to_int_Inl intro: undefined_imp)?)+

lemma number_throws_simps [simp]:
  "gphoto_or_undefined e \<Longrightarrow> number_throws e" "number_throws InvalidArgument" "number_throws OutOfRange"
  by (simp_all add: number_throws_def)

lemma throws_numbers [raises_intros]:
  "throws number_throws (of_sum (stoi t))"
  "throws number_throws (string_getValue E w)"
  "throws number_throws (getAvailableValues E w)"
  by (auto intro!: throws_of_sum throws_weaken [OF throws_widget_ops(5)]
      throws_weaken [OF throws_choices] dest: stoi_Inl)

lemma throws_number_getters [raises_intros]:
  "throws number_throws (getISO E)"
  "throws number_throws (listISOs E)"
  "throws number_throws (getBurstCount E)"
  "throws number_throws (getMaxBurstCount E)"
  unfolding getISO_def listISOs_def getBurstCount_def getMaxBurstCount_def
  by (intro throws_with_widget raises_intros, simp_all)+

lemma throws_setters [raises_intros]:
  "throws setter_throws (setExposureTime E i)"
  "throws setter_throws (setAperture E i)"
  "throws setter_throws (setISO E i)"
  "throws setter_throws (setTriggerMode E t)"
  "throws setter_throws (setBurstCount E i)"
  unfolding setExposureTime_def setAperture_def setISO_def setTriggerMode_def setBurstCount_def
  by (intro throws_with_widget throws_sq throws_apply setter_throwsI [OF throws_widget_ops(6)],
      simp add: setter_throws_def)+

lemma throws_freeCamera [raises_intros]: "throws X (freeCamera E)"
  unfolding freeCamera_def by (intro raises_intros)

lemma throws_connection [raises_intros]:
  "throws gphoto_or_undefined (connect E)"
  "throws X (disconnect E)"
  "throws is_undefined (isResponsive E)"
  "throws gphoto_or_undefined (wiredCapture E)"
proof -
  show "throws gphoto_or_undefined (connect E)" "throws X (disconnect E)"
    "throws gphoto_or_undefined (wiredCapture E)"
    unfolding connect_def disconnect_def wiredCapture_def by (intro raises_intros; simp)+
  have "throws (\<lambda>e. \<not> is_CameraException e \<longrightarrow> is_undefined e) (getSerialNumber E)"
    by (rule throws_weaken [OF throws_getters(1)]) (auto simp: gphoto_or_undefined_def)
  then show "throws is_undefined (isResponsive E)"
    unfolding isResponsive_def by (intro raises_intros) (auto split: if_splits intro!: raises_intros)
qed

end
