(* ===== verification/Sim_Camera.thy ===== *)
theory Sim_Camera
  imports GPhoto "HOL-Library.AList"
begin

text \<open>
  One concrete library, \<open>sim_lib\<close>, on which the witnesses of the development evaluate the
  program: a camera with a list of configuration entries, whose calls return the result codes
  its state prescribes. It stands for no code of the repository; every theorem is about all
  libraries, or about those that satisfy the hypotheses it names.
\<close>

text \<open>
  The camera's entries (name, type, value, choices), the widgets handed out (handle, name,
  type, value, choices), the next handle, and the results of the calls that may fail.
\<close>

record sim =
  entries_of :: "(string \<times> CameraWidgetType \<times> string \<times> string list) list"
  opened :: "(ptr \<times> string \<times> CameraWidgetType \<times> string \<times> string list) list"
  fresh :: ptr
  r_new :: int
  r_init :: int
  r_config :: int
  r_capture :: int
  r_file :: int
  r_open :: bool
  dir_exists :: bool
  dir_create :: bool

definition sim_entries :: "(string \<times> CameraWidgetType \<times> string \<times> string list) list" where
  "sim_entries =
    [(''serialnumber'', GP_WIDGET_TEXT, ''D3000'', []),
     (''shutterspeed'', GP_WIDGET_RADIO, ''0.0040s'', [''0.0040s'', ''1.0000s'', ''Bulb'']),
     (''f-number'', GP_WIDGET_RADIO, ''f/2.8'', [''f/1.8'', ''f/2.8'']),
     (''iso'', GP_WIDGET_RADIO, ''100'', [''100'', ''200'']),
     (''capturemode'', GP_WIDGET_RADIO, ''Single Shot'', [''Single Shot'', ''Burst'']),
     (''batterylevel'', GP_WIDGET_TEXT, ''80%'', []),
     (''expprogram'', GP_WIDGET_RADIO, ''M'', []),
     (''focallength'', GP_WIDGET_RANGE, ''50'', []),
     (''burstnumber'', GP_WIDGET_RANGE, ''1'', [])]"

definition sim0 :: sim where
  "sim0 = \<lparr>entries_of = sim_entries, opened = [], fresh = 10, r_new = 0, r_init = 0, r_config = 0,
     r_capture = 0, r_file = 0, r_open = True, dir_exists = True, dir_create = True\<rparr>"

text \<open>The value of an opened widget.\<close>

definition sim_get ::
    "ptr \<Rightarrow> (string \<times> CameraWidgetType \<times> string \<times> string list \<Rightarrow> 'a) \<Rightarrow> 'a \<Rightarrow> sim \<Rightarrow> (int \<times> 'a) \<times> sim" where
  "sim_get w f d g =
     (case map_of (opened g) w of Some v \<Rightarrow> ((0, f v), g) | None \<Rightarrow> ((- 2, d), g))"

definition sim_lib :: "sim gphoto" where
  "sim_lib =
    \<lparr>GP_OK = 0,
     GP_ERROR_BAD_PARAMETERS = - 2,
     folder_size = 1024,
     name_size = 128,
     gp_context_new = (\<lambda>g. (1, g)),
     gp_camera_new = (\<lambda>old g.
       if r_new g = 0 then ((0, fresh g), g\<lparr>fresh := fresh g + 1\<rparr>) else ((r_new g, old), g)),
     gp_camera_init = (\<lambda>c ctx g. (r_init g, g)),
     gp_camera_exit = (\<lambda>c ctx g. g),
     gp_camera_free = (\<lambda>c g. g),
     gp_camera_capture = (\<lambda>c ctx g. ((r_capture g, (''/store'', ''DSC_1.NEF'')), g)),
     gp_camera_file_get = (\<lambda>c f n file ctx g. (r_file g, g)),
     gp_camera_get_single_config = (\<lambda>c n ctx g.
       if r_config g \<noteq> 0 then ((r_config g, 0), g)
       else case map_of (entries_of g) n of
         None \<Rightarrow> ((- 2, 0), g)
       | Some v \<Rightarrow> ((0, fresh g), g\<lparr>opened := (fresh g, n, v) # opened g, fresh := fresh g + 1\<rparr>)),
     gp_camera_set_single_config = (\<lambda>c n w ctx g.
       case map_of (opened g) w of
         None \<Rightarrow> (- 2, g)
       | Some (n', v) \<Rightarrow> (0, g\<lparr>entries_of := AList.update n v (entries_of g)\<rparr>)),
     gp_widget_free = (\<lambda>w g. g\<lparr>opened := filter (\<lambda>x. fst x \<noteq> w) (opened g)\<rparr>),
     gp_widget_get_type = (\<lambda>w. sim_get w (\<lambda>v. fst (snd v)) GP_WIDGET_TEXT),
     gp_widget_get_name = (\<lambda>w. sim_get w (\<lambda>v. Some (fst v)) None),
     gp_widget_get_readonly = (\<lambda>w. sim_get w (\<lambda>v. 0) 0),
     gp_widget_count_choices = (\<lambda>w g. case sim_get w (\<lambda>v. int (length (snd (snd (snd v))))) 0 g of
       ((r, n), g') \<Rightarrow> (n, g')),
     gp_widget_get_choice = (\<lambda>w i. sim_get w (\<lambda>v. Some (snd (snd (snd v)) ! nat i)) None),
     gp_widget_get_value_string = (\<lambda>w. sim_get w (\<lambda>v. Some (fst (snd (snd v)))) None),
     gp_widget_get_value_float = (\<lambda>w. sim_get w (\<lambda>v. Fin False 50 0) NaN),
     gp_widget_set_value_string = (\<lambda>w x g.
       g\<lparr>opened := map (\<lambda>(h, n, t, v, cs). if h = w then (h, n, t, x, cs) else (h, n, t, v, cs)) (opened g)\<rparr>),
     gp_widget_set_value_float = (\<lambda>w x g. g),
     gp_widget_get_range = (\<lambda>w. sim_get w (\<lambda>v. (Fin False 1 0, Fin False 100 0, Fin False 1 0)) (NaN, NaN, NaN)),
     gp_file_new_from_fd = (\<lambda>fd g. ((0, fresh g), g\<lparr>fresh := fresh g + 1\<rparr>)),
     gp_file_free = (\<lambda>p g. g),
     gp_result_as_string = (\<lambda>c. if c = 0 then ''No error'' else ''Error''),
     fopen_w = (\<lambda>n g. if r_open g then (fresh g, g\<lparr>fresh := fresh g + 1\<rparr>) else (0, g)),
     fileno = (\<lambda>f g. (3, g)),
     fclose = (\<lambda>f g. g),
     errno = (\<lambda>g. 13),
     fs_exists = (\<lambda>n g. (Inr (dir_exists g), g)),
     create_directory = (\<lambda>n g. (dir_create g, g))\<rparr>"

end
