(* ===== verification/Camera_Resources.thy ===== *)
theory Camera_Resources
  imports Camera_Wrapper Sim_Camera
begin

text \<open>
  The resource discipline of the camera classes. \<open>track E\<close> is the library \<open>E\<close> run together
  with a book of the cameras and widgets it has handed out and not taken back, and a flag
  that is set when a handle is used or freed that is not in the book. It behaves as \<open>E\<close>
  otherwise, for every library \<open>E\<close>.

  The results: no member function leaks a widget or uses a freed one, whichever calls fail;
  the camera handle is valid in every reachable state as long as no \<open>gp_camera_init\<close> fails;
  and after one that fails the object holds a freed handle, which the destructor uses.
\<close>

subsection \<open>The booking library\<close>

record 'g book =
  inner :: 'g
  cameras :: "ptr multiset"
  widgets :: "ptr multiset"
  misuse :: bool

definition booked :: "('g \<Rightarrow> 'a \<times> 'g) \<Rightarrow> 'g book \<Rightarrow> 'a \<times> 'g book" where
  "booked f b = (case f (inner b) of (x, g) \<Rightarrow> (x, b\<lparr>inner := g\<rparr>))"

definition booked_void :: "('g \<Rightarrow> 'g) \<Rightarrow> 'g book \<Rightarrow> 'g book" where
  "booked_void f b = b\<lparr>inner := f (inner b)\<rparr>"

text \<open>A use of a handle; the null pointer is an error the library reports.\<close>

definition use_camera :: "ptr \<Rightarrow> 'g book \<Rightarrow> 'g book" where
  "use_camera c b = (if c = nullptr \<or> c \<in># cameras b then b else b\<lparr>misuse := True\<rparr>)"

definition use_widget :: "ptr \<Rightarrow> 'g book \<Rightarrow> 'g book" where
  "use_widget w b = (if w = nullptr \<or> w \<in># widgets b then b else b\<lparr>misuse := True\<rparr>)"

definition track :: "'g gphoto \<Rightarrow> 'g book gphoto" where
  "track E =
    \<lparr>GP_OK = GP_OK E,
     GP_ERROR_BAD_PARAMETERS = GP_ERROR_BAD_PARAMETERS E,
     folder_size = folder_size E,
     name_size = name_size E,
     gp_context_new = booked (gp_context_new E),
     gp_camera_new = (\<lambda>old b. case booked (gp_camera_new E old) b of ((r, c), b') \<Rightarrow>
       ((r, c), if r = GP_OK E \<and> c \<noteq> nullptr then b'\<lparr>cameras := add_mset c (cameras b')\<rparr> else b')),
     gp_camera_init = (\<lambda>c ctx b. booked (gp_camera_init E c ctx) (use_camera c b)),
     gp_camera_exit = (\<lambda>c ctx b. booked_void (gp_camera_exit E c ctx) (use_camera c b)),
     gp_camera_free = (\<lambda>c b. (booked_void (gp_camera_free E c) (use_camera c b))
       \<lparr>cameras := cameras b - {#c#}\<rparr>),
     gp_camera_capture = (\<lambda>c ctx b. booked (gp_camera_capture E c ctx) (use_camera c b)),
     gp_camera_file_get = (\<lambda>c f n file ctx b.
       booked (gp_camera_file_get E c f n file ctx) (use_camera c b)),
     gp_camera_get_single_config = (\<lambda>c n ctx b.
       case booked (gp_camera_get_single_config E c n ctx) (use_camera c b) of ((r, w), b') \<Rightarrow>
       ((r, w), if r = GP_OK E \<and> w \<noteq> nullptr then b'\<lparr>widgets := add_mset w (widgets b')\<rparr> else b')),
     gp_camera_set_single_config = (\<lambda>c n w ctx b.
       booked (gp_camera_set_single_config E c n w ctx) (use_widget w (use_camera c b))),
     gp_widget_free = (\<lambda>w b. (booked_void (gp_widget_free E w) (use_widget w b))
       \<lparr>widgets := widgets b - {#w#}\<rparr>),
     gp_widget_get_type = (\<lambda>w b. booked (gp_widget_get_type E w) (use_widget w b)),
     gp_widget_get_name = (\<lambda>w b. booked (gp_widget_get_name E w) (use_widget w b)),
     gp_widget_get_readonly = (\<lambda>w b. booked (gp_widget_get_readonly E w) (use_widget w b)),
     gp_widget_count_choices = (\<lambda>w b. booked (gp_widget_count_choices E w) (use_widget w b)),
     gp_widget_get_choice = (\<lambda>w i b. booked (gp_widget_get_choice E w i) (use_widget w b)),
     gp_widget_get_value_string = (\<lambda>w b. booked (gp_widget_get_value_string E w) (use_widget w b)),
     gp_widget_get_value_float = (\<lambda>w b. booked (gp_widget_get_value_float E w) (use_widget w b)),
     gp_widget_set_value_string = (\<lambda>w v b.
       booked_void (gp_widget_set_value_string E w v) (use_widget w b)),
     gp_widget_set_value_float = (\<lambda>w v b.
       booked_void (gp_widget_set_value_float E w v) (use_widget w b)),
     gp_widget_get_range = (\<lambda>w b. booked (gp_widget_get_range E w) (use_widget w b)),
     gp_file_new_from_fd = (\<lambda>fd. booked (gp_file_new_from_fd E fd)),
     gp_file_free = (\<lambda>p. booked_void (gp_file_free E p)),
     gp_result_as_string = gp_result_as_string E,
     fopen_w = (\<lambda>n. booked (fopen_w E n)),
     fileno = (\<lambda>f. booked (fileno E f)),
     fclose = (\<lambda>f. booked_void (fclose E f)),
     errno = (\<lambda>b. errno E (inner b)),
     fs_exists = (\<lambda>n. booked (fs_exists E n)),
     create_directory = (\<lambda>n. booked (create_directory E n))\<rparr>"

text \<open>What the book says after a call.\<close>

lemma booked_simps [simp]:
  "cameras (snd (booked f b)) = cameras b" "widgets (snd (booked f b)) = widgets b"
  "misuse (snd (booked f b)) = misuse b"
  "cameras (booked_void f' b) = cameras b" "widgets (booked_void f' b) = widgets b"
  "misuse (booked_void f' b) = misuse b"
  by (simp_all add: booked_def booked_void_def split: prod.splits)

lemma use_simps [simp]:
  "cameras (use_camera c b) = cameras b" "widgets (use_camera c b) = widgets b"
  "cameras (use_widget w b) = cameras b" "widgets (use_widget w b) = widgets b"
  "misuse (use_camera c b) \<longleftrightarrow> misuse b \<or> \<not> (c = nullptr \<or> c \<in># cameras b)"
  "misuse (use_widget w b) \<longleftrightarrow> misuse b \<or> \<not> (w = nullptr \<or> w \<in># widgets b)"
  by (simp_all add: use_camera_def use_widget_def)

lemma track_sel [simp]:
  "GP_OK (track E) = GP_OK E"
  "gp_camera_new (track E) old b = (case booked (gp_camera_new E old) b of ((r, c), b') \<Rightarrow>
     ((r, c), if r = GP_OK E \<and> c \<noteq> nullptr then b'\<lparr>cameras := add_mset c (cameras b')\<rparr> else b'))"
  "gp_camera_init (track E) c ctx b = booked (gp_camera_init E c ctx) (use_camera c b)"
  by (simp_all add: track_def)

lemma booked_eq: "f (inner b) = (x, g) \<Longrightarrow> booked f b = (x, b\<lparr>inner := g\<rparr>)"
  by (simp add: booked_def)

subsection \<open>The invariant\<close>

text \<open>
  The camera handle is null or allocated, and nothing freed was used; with the widgets
  open \<open>W\<close> and the cameras allocated \<open>C\<close>.
\<close>

definition sound :: "ptr \<Rightarrow> ptr multiset \<Rightarrow> ptr multiset \<Rightarrow> 'g book CameraWrapper \<Rightarrow> bool" where
  "sound c C W s \<longleftrightarrow> camera s = c \<and> (c = nullptr \<or> c \<in># C) \<and> cameras (lib s) = C
     \<and> widgets (lib s) = W \<and> \<not> misuse (lib s)"

lemma sound_update [simp]:
  "sound c C W (s\<lparr>connected := x\<rparr>) = sound c C W s" "sound c C W (s\<lparr>serial := y\<rparr>) = sound c C W s"
  by (simp_all add: sound_def)

text \<open>Calls that do not allocate or free.\<close>

lemma keeps_track_calls [keeps_intros]:
  "w = nullptr \<or> w \<in># W \<Longrightarrow> keeps (sound c C W) (call (gp_widget_get_type (track E) w))"
  "w = nullptr \<or> w \<in># W \<Longrightarrow> keeps (sound c C W) (call (gp_widget_get_name (track E) w))"
  "w = nullptr \<or> w \<in># W \<Longrightarrow> keeps (sound c C W) (call (gp_widget_get_readonly (track E) w))"
  "w = nullptr \<or> w \<in># W \<Longrightarrow> keeps (sound c C W) (call (gp_widget_count_choices (track E) w))"
  "w = nullptr \<or> w \<in># W \<Longrightarrow> keeps (sound c C W) (call (gp_widget_get_choice (track E) w i))"
  "w = nullptr \<or> w \<in># W \<Longrightarrow> keeps (sound c C W) (call (gp_widget_get_value_string (track E) w))"
  "w = nullptr \<or> w \<in># W \<Longrightarrow> keeps (sound c C W) (call (gp_widget_get_value_float (track E) w))"
  "w = nullptr \<or> w \<in># W \<Longrightarrow> keeps (sound c C W) (call (gp_widget_get_range (track E) w))"
  "w = nullptr \<or> w \<in># W \<Longrightarrow> keeps (sound c C W) (run (gp_widget_set_value_string (track E) w v))"
  "w = nullptr \<or> w \<in># W \<Longrightarrow> keeps (sound c C W) (run (gp_widget_set_value_float (track E) w x))"
  by (auto intro!: keeps_call keeps_run simp: track_def sound_def)

lemma keeps_track_files [keeps_intros]:
  "keeps (sound c C W) (call (fopen_w (track E) n))"
  "keeps (sound c C W) (call (fileno (track E) f))"
  "keeps (sound c C W) (run (fclose (track E) f))"
  "keeps (sound c C W) (call (gp_file_new_from_fd (track E) fd))"
  "keeps (sound c C W) (run (gp_file_free (track E) p))"
  "keeps (sound c C W) (call (fs_exists (track E) n))"
  "keeps (sound c C W) (call (create_directory (track E) n))"
  by (auto intro!: keeps_call keeps_run simp: track_def sound_def)

text \<open>Calls on the camera handle of the object.\<close>

lemma keeps_reads_camera:
  assumes "\<And>ctx. keeps (sound c C W) (f (c, ctx))"
  shows "keeps (sound c C W) (bnd (reads (\<lambda>s. (camera s, gp_context s))) f)"
  using assms by (auto simp: keeps_def sound_def)

lemma keeps_track_camera [keeps_intros]:
  "keeps (sound c C W) (call (gp_camera_capture (track E) c ctx))"
  "keeps (sound c C W) (call (gp_camera_file_get (track E) c f n file ctx))"
  "w = nullptr \<or> w \<in># W \<Longrightarrow>
    keeps (sound c C W) (call (gp_camera_set_single_config (track E) c n w ctx))"
  by (auto intro!: keeps_call simp: track_def sound_def)

subsection \<open>Widgets\<close>

lemma keeps_widget_ops [keeps_intros]:
  assumes "widget w = nullptr \<or> widget w \<in># W"
  shows "keeps (sound c C W) (getType (track E) w)"
    "keeps (sound c C W) (getName (track E) w)"
    "keeps (sound c C W) (isReadOnly (track E) w)"
    "keeps (sound c C W) (string_getValue (track E) w)"
    "keeps (sound c C W) (string_setValue (track E) w v)"
    "keeps (sound c C W) (range_getValue (track E) w)"
    "keeps (sound c C W) (range_setValue (track E) w x)"
    "keeps (sound c C W) (getRange (track E) w)"
  unfolding getType_def getName_def isReadOnly_def string_getValue_def string_setValue_def
    range_getValue_def range_setValue_def getRange_def
  by (intro keeps_intros assms)+

lemma keeps_widget_choices [keeps_intros]:
  assumes "widget w = nullptr \<or> widget w \<in># W"
  shows "keeps (sound c C W) (getAvailableValues (track E) w)"
proof -
  have "keeps (sound c C W) (choices_loop (track E) w n i cs)" for n i cs
    by (induction n arbitrary: i cs) (auto intro!: keeps_intros assms)
  then show ?thesis unfolding getAvailableValues_def by (intro keeps_intros assms)
qed

lemma keeps_widget_checks [keeps_intros]:
  assumes "widget w = nullptr \<or> widget w \<in># W"
  shows "keeps (sound c C W) (check_string (track E) w)"
    "keeps (sound c C W) (check_range (track E) w)"
    "keeps (sound c C W) (apply_widget (track E) w)"
proof -
  show "keeps (sound c C W) (check_string (track E) w)"
    "keeps (sound c C W) (check_range (track E) w)"
    unfolding check_string_def check_range_def by (intro keeps_intros assms)+
  show "keeps (sound c C W) (apply_widget (track E) w)"
    unfolding apply_widget_def
    by (rule keeps_bnd [OF keeps_widget_ops(3) [OF assms]], rule keeps_if, rule keeps_reads_camera)
      (auto intro!: keeps_intros assms)
qed

text \<open>The scope of a widget leaves the open widgets as they were.\<close>

lemma keeps_widget_scope:
  assumes check: "\<And>w W'. widget w = nullptr \<or> widget w \<in># W' \<Longrightarrow> keeps (sound c C W') (check w)"
    and body: "\<And>w W'. widget w = nullptr \<or> widget w \<in># W' \<Longrightarrow> keeps (sound c C W') (body w)"
  shows "keeps (sound c C W) (widget_scope (track E) (CameraWidgetBase_new (track E) n) check body)"
proof -
  have "sound c C W (snd (widget_scope (track E) (CameraWidgetBase_new (track E) n) check body s))"
    if s: "sound c C W s" for s
  proof -
    define q where "q = gp_camera_get_single_config E c (c_str n) (gp_context s) (inner (lib s))"
    obtain r p g where q: "q = ((r, p), g)" by (cases q) auto
    define w where "w = \<lparr>widget = p, widget_name = n\<rparr>"
    define W' where "W' = (if p = nullptr then W else add_mset p W)"
    show ?thesis
    proof (cases "r = GP_OK E")
      case False
      then show ?thesis
        using s q unfolding q_def
        by (auto simp: widget_scope_def CameraWidgetBase_new_def bnd_def call_def track_def
            booked_def use_camera_def sound_def run_simps)
    next
      case True
      obtain t where base: "CameraWidgetBase_new (track E) n s = (Inr w, t)"
        and t: "sound c C W' t"
        using s q True unfolding q_def
        by (auto simp: CameraWidgetBase_new_def bnd_def call_def track_def booked_def
            use_camera_def sound_def run_simps w_def W'_def)
      have "widget w = nullptr \<or> widget w \<in># W'" by (simp add: w_def W'_def)
      then have "keeps (sound c C W') (sq (check w) (body w))"
        by (intro keeps_sq check body)
      then have u: "sound c C W' (snd (sq (check w) (body w) t))" using t by (rule keepsD)
      then have "sound c C W (CameraWidgetBase_delete (track E) w (snd (sq (check w) (body w) t)))"
        by (auto simp: CameraWidgetBase_delete_def w_def W'_def sound_def track_def)
      then show ?thesis
        using base by (cases "sq (check w) (body w) t") (simp add: widget_scope_def bnd_def with_destructor_def)
    qed
  qed
  then show ?thesis by (simp add: keeps_def)
qed

lemma keeps_with_widget:
  assumes "\<And>w W'. widget w = nullptr \<or> widget w \<in># W' \<Longrightarrow> keeps (sound c C W') (body w)"
  shows "keeps (sound c C W) (with_CameraWidgetString (track E) n body)"
    "keeps (sound c C W) (with_CameraWidgetRange (track E) n body)"
  unfolding with_CameraWidgetString_def with_CameraWidgetRange_def
  by (intro keeps_widget_scope keeps_widget_checks assms; assumption)+

subsection \<open>Member functions\<close>

lemma keeps_getters [keeps_intros]:
  "keeps (sound c C W) (getSerialNumber (track E))"
  "keeps (sound c C W) (getExposureTime (track E))"
  "keeps (sound c C W) (setExposureTime (track E) i)"
  "keeps (sound c C W) (listExposureTimes (track E))"
  "keeps (sound c C W) (getAperture (track E))"
  "keeps (sound c C W) (setAperture (track E) i)"
  "keeps (sound c C W) (listApertures (track E))"
  "keeps (sound c C W) (getISO (track E))"
  "keeps (sound c C W) (setISO (track E) i)"
  "keeps (sound c C W) (listISOs (track E))"
  "keeps (sound c C W) (getBatteryPercent (track E))"
  "keeps (sound c C W) (getExposureProgram (track E))"
  "keeps (sound c C W) (getTriggerMode (track E))"
  "keeps (sound c C W) (getFocalLength (track E))"
  "keeps (sound c C W) (setTriggerMode (track E) t)"
  "keeps (sound c C W) (listTriggerModes (track E))"
  "keeps (sound c C W) (getBurstCount (track E))"
  "keeps (sound c C W) (setBurstCount (track E) i)"
  "keeps (sound c C W) (getMaxBurstCount (track E))"
  unfolding getSerialNumber_def getExposureTime_def setExposureTime_def listExposureTimes_def
    getAperture_def setAperture_def listApertures_def getISO_def setISO_def listISOs_def
    getBatteryPercent_def getExposureProgram_def getTriggerMode_def getFocalLength_def
    setTriggerMode_def listTriggerModes_def getBurstCount_def setBurstCount_def getMaxBurstCount_def
  by (intro keeps_with_widget keeps_intros; assumption)+

lemma keeps_isResponsive [keeps_intros]: "keeps (sound c C W) (isResponsive (track E))"
  unfolding isResponsive_def by (intro keeps_intros) (auto split: if_splits intro!: keeps_intros)

lemma keeps_pictures [keeps_intros]:
  "keeps (sound c C W) (wiredCapture (track E))"
  "keeps (sound c C W) (downloadFile (track E) p d)"
proof -
  show "keeps (sound c C W) (wiredCapture (track E))"
    unfolding wiredCapture_def by (rule keeps_reads_camera) (auto intro!: keeps_intros)
  have out: "keeps (sound c C W) (downloadFile_out (track E) f fd fl r)" for f fd fl r
    unfolding downloadFile_out_def by (intro keeps_intros)
  have get: "keeps (sound c C W) (bnd (reads (\<lambda>s. (camera s, gp_context s))) (\<lambda>(c, ctx).
      bnd (call (gp_camera_file_get (track E) c (fst p) (snd p) fl ctx)) (\<lambda>r.
      downloadFile_out (track E) f fd (Some fl) r)))" for f fd fl
    by (rule keeps_reads_camera) (simp, intro keeps_bnd keeps_track_camera out)
  show "keeps (sound c C W) (downloadFile (track E) p d)"
    unfolding downloadFile_def by (intro keeps_bnd keeps_if keeps_prod keeps_track_files out get)
qed

subsection \<open>Connecting and disconnecting\<close>

lemma keeps_freeCamera:
  assumes "sound c C W s"
  shows "fst (freeCamera (track E) s) = Inr ()"
    "sound nullptr (if c = nullptr then C else C - {#c#}) W (snd (freeCamera (track E) s))"
    "connected (snd (freeCamera (track E) s)) = connected s"
  using assms
  by (auto simp: freeCamera_def sq_def bnd_def run_def sound_def track_def booked_void_def
      use_camera_def run_simps)

text \<open>
  What the program relies on: a \<open>gp_camera_new\<close> that fails leaves no dangling pointer in
  its argument, and \<open>gp_camera_init\<close> succeeds.
\<close>

definition new_is_clean :: "'g gphoto \<Rightarrow> bool" where
  "new_is_clean E \<longleftrightarrow>
     (\<forall>old g. fst (fst (gp_camera_new E old g)) \<noteq> GP_OK E \<longrightarrow>
        snd (fst (gp_camera_new E old g)) \<in> {nullptr, old})"

definition init_succeeds :: "'g gphoto \<Rightarrow> bool" where
  "init_succeeds E \<longleftrightarrow> (\<forall>c ctx g. fst (gp_camera_init E c ctx g) = GP_OK E)"

definition holds :: "ptr multiset \<Rightarrow> 'g book CameraWrapper \<Rightarrow> bool" where
  "holds W s \<longleftrightarrow> (\<exists>c C. sound c C W s)"

lemma keeps_holds: "(\<And>c C. keeps (sound c C W) m) \<Longrightarrow> keeps (holds W) m"
  unfolding keeps_def holds_def by blast

lemma connect_holds:
  assumes "new_is_clean E" "init_succeeds E"
  shows "keeps (holds W) (connect (track E))"
  unfolding connect_def
proof (rule keeps_bnd [OF keeps_basic(3)], rule keeps_if)
  fix con :: bool
  show "keeps (holds W) (bnd (reads camera) (\<lambda>old.
       bnd (call (gp_camera_new (track E) old)) (\<lambda>(result, c).
       sq (modify (\<lambda>s. s\<lparr>camera := c\<rparr>))
       (if result \<noteq> GP_OK (track E) then raise (GPhotoError result)
        else
          bnd (reads gp_context) (\<lambda>ctx.
          bnd (call (gp_camera_init (track E) c ctx)) (\<lambda>result'.
          if result' = GP_OK (track E) then
            bnd (getSerialNumber (track E)) (\<lambda>sn.
            sq (modify (\<lambda>s. s\<lparr>serial := sn\<rparr>))
            (sq (modify (\<lambda>s. s\<lparr>connected := True\<rparr>)) (reads serial)))
          else sq (run (gp_camera_free (track E) c)) (raise (GPhotoError result'))))))))"
    (is "keeps _ ?m")
  proof -
    have rest: "keeps (holds W) (bnd (getSerialNumber (track E)) (\<lambda>sn.
            sq (modify (\<lambda>s. s\<lparr>serial := sn\<rparr>))
            (sq (modify (\<lambda>s. s\<lparr>connected := True\<rparr>)) (reads serial))))"
      by (intro keeps_holds keeps_intros) simp_all
    have "holds W (snd (?m s))" if s: "holds W s" for s
    proof -
      obtain c C where sc: "sound c C W s" using s by (auto simp: holds_def)
      define b where "b = lib s"
      obtain r p g where new: "gp_camera_new E (camera s) (inner b) = ((r, p), g)"
        by (metis surj_pair)
      show ?thesis
      proof (cases "r = GP_OK E")
        case False
        then have "p \<in> {nullptr, camera s}"
          using assms(1) new unfolding new_is_clean_def by (metis fst_conv snd_conv)
        then show ?thesis
          using sc False new
          by (auto simp: bnd_def call_def track_def booked_def b_def run_simps sq_def holds_def sound_def)
      next
        case True
        define u where "u = s\<lparr>lib := b\<lparr>inner := g, cameras := if p = nullptr then cameras b
          else add_mset p (cameras b)\<rparr>, camera := p\<rparr>"
        obtain g' where init: "gp_camera_init E p (gp_context s) g = (GP_OK E, g')"
          using assms(2) unfolding init_succeeds_def by (metis prod.collapse)
        let ?u = "u\<lparr>lib := (lib u)\<lparr>inner := g'\<rparr>\<rparr>"
        have step1: "call (gp_camera_new (track E) (camera s)) s = (Inr (GP_OK E, p), u\<lparr>camera := camera s\<rparr>)"
          using new True by (simp add: call_def booked_eq b_def u_def)
        have valid: "use_camera p (lib u) = lib u"
          by (simp add: use_camera_def u_def)
        have step2: "call (gp_camera_init (track E) p (gp_context s)) u = (Inr (GP_OK E), ?u)"
          using booked_eq [of "gp_camera_init E p (gp_context s)" "lib u"] init valid
          by (simp add: call_def) (simp add: u_def)
        have ctx: "gp_context u = gp_context s" by (simp add: u_def)
        have "?m s = bnd (getSerialNumber (track E)) (\<lambda>sn.
            sq (modify (\<lambda>s. s\<lparr>serial := sn\<rparr>))
            (sq (modify (\<lambda>s. s\<lparr>connected := True\<rparr>)) (reads serial))) ?u"
          using step1 step2 ctx by (simp add: bnd_Inr u_def)
        moreover have "holds W ?u"
          using sc by (auto simp: holds_def sound_def u_def b_def)
        ultimately show ?thesis using keepsD [OF rest] by simp
      qed
    qed
    then show ?thesis by (simp add: keeps_def)
  qed
qed (intro keeps_intros)

lemma disconnect_holds: "keeps (holds W) (disconnect (track E))"
proof -
  have "keeps (holds W) (freeCamera (track E))"
    unfolding keeps_def holds_def using keeps_freeCamera(2) by blast
  then show ?thesis
    unfolding disconnect_def by (intro keeps_intros) (auto simp: holds_def)
qed

subsection \<open>Sequences of operations\<close>

datatype camera_op =
    Connect | Disconnect | IsResponsive
  | GetExposureTime | SetExposureTime int | ListExposureTimes
  | GetAperture | SetAperture int | ListApertures
  | GetISO | SetISO int | ListISOs
  | GetBatteryPercent | GetExposureProgram | GetTriggerMode | GetFocalLength
  | SetTriggerMode string | ListTriggerModes
  | GetBurstCount | SetBurstCount int | GetMaxBurstCount
  | WiredCapture | DownloadFile CameraFilePath string

definition void :: "('s, 'a) comp \<Rightarrow> ('s, unit) comp" where
  "void m = sq m (ret ())"

fun perform :: "'g gphoto \<Rightarrow> camera_op \<Rightarrow> ('g CameraWrapper, unit) comp" where
  "perform E Connect = void (connect E)"
| "perform E Disconnect = void (disconnect E)"
| "perform E IsResponsive = void (isResponsive E)"
| "perform E GetExposureTime = void (getExposureTime E)"
| "perform E (SetExposureTime i) = setExposureTime E i"
| "perform E ListExposureTimes = void (listExposureTimes E)"
| "perform E GetAperture = void (getAperture E)"
| "perform E (SetAperture i) = setAperture E i"
| "perform E ListApertures = void (listApertures E)"
| "perform E GetISO = void (getISO E)"
| "perform E (SetISO i) = setISO E i"
| "perform E ListISOs = void (listISOs E)"
| "perform E GetBatteryPercent = void (getBatteryPercent E)"
| "perform E GetExposureProgram = void (getExposureProgram E)"
| "perform E GetTriggerMode = void (getTriggerMode E)"
| "perform E GetFocalLength = void (getFocalLength E)"
| "perform E (SetTriggerMode t) = setTriggerMode E t"
| "perform E ListTriggerModes = void (listTriggerModes E)"
| "perform E GetBurstCount = void (getBurstCount E)"
| "perform E (SetBurstCount i) = setBurstCount E i"
| "perform E GetMaxBurstCount = void (getMaxBurstCount E)"
| "perform E WiredCapture = void (wiredCapture E)"
| "perform E (DownloadFile p d) = downloadFile E p d"

text \<open>The object after a sequence of calls, each of which may have thrown to its caller.\<close>

fun perform_all :: "'g gphoto \<Rightarrow> camera_op list \<Rightarrow> 'g CameraWrapper \<Rightarrow> 'g CameraWrapper" where
  "perform_all E [] s = s"
| "perform_all E (x # xs) s = perform_all E xs (snd (perform E x s))"

definition empty_book :: "'g \<Rightarrow> 'g book" where
  "empty_book g = \<lparr>inner = g, cameras = {#}, widgets = {#}, misuse = False\<rparr>"

lemma perform_holds:
  assumes "new_is_clean E" "init_succeeds E"
  shows "keeps (holds W) (perform (track E) x)"
proof -
  have rest: "keeps (holds W) (perform (track E) x)" if "x \<noteq> Connect" "x \<noteq> Disconnect"
    using that by (cases x) (simp_all add: void_def, (rule keeps_holds, intro keeps_intros)+)
  show ?thesis
    using connect_holds [OF assms, of W] disconnect_holds [of W E] rest
    by (cases "x = Connect \<or> x = Disconnect") (auto simp: void_def intro!: keeps_sq keeps_basic)
qed

lemma perform_all_holds:
  assumes "new_is_clean E" "init_succeeds E" "holds W s"
  shows "holds W (perform_all (track E) xs s)"
  using assms(3) by (induction xs arbitrary: s) (auto intro: keepsD [OF perform_holds [OF assms(1,2)]])

lemma new_holds: "holds {#} (CameraWrapper_new (track E) (empty_book g))"
  by (auto simp: holds_def sound_def CameraWrapper_new_def track_def booked_def empty_book_def
      split: prod.splits)


definition good_init :: "sim gphoto" where
  "good_init = sim_lib\<lparr>gp_camera_init := (\<lambda>c ctx g. (0, g))\<rparr>"


definition init_fails :: sim where
  "init_fails = sim0\<lparr>r_init := - 105\<rparr>"

definition serial_fails :: sim where
  "serial_fails = sim0\<lparr>r_config := - 1\<rparr>"

text \<open>
  A defect of \<open>connect\<close>: whenever \<open>gp_camera_new\<close> hands out a fresh camera and
  \<open>gp_camera_init\<close> fails on it, the function frees the camera and throws, but keeps the
  pointer; the destructor then exits and frees the camera it has already freed.
\<close>

theorem connect_leaves_dangling_camera:
  fixes E :: "'g gphoto"
  assumes "\<not> connected s" "p \<noteq> nullptr" "p \<notin># cameras (lib s)"
    and new: "gp_camera_new E (camera s) (inner (lib s)) = ((GP_OK E, p), g)"
    and init: "gp_camera_init E p (gp_context s) g = (r, g')" "r \<noteq> GP_OK E"
  shows "\<exists>t. connect (track E) s = (Inl (GPhotoError r), t) \<and> \<not> connected t
    \<and> misuse (lib (snd (CameraWrapper_delete (track E) t)))"
proof -
  define u where "u = s\<lparr>lib := lib s\<lparr>inner := g, cameras := add_mset p (cameras (lib s))\<rparr>, camera := p\<rparr>"
  define v where "v = u\<lparr>lib := lib u\<lparr>inner := g'\<rparr>\<rparr>"
  define t where "t = snd (run (gp_camera_free (track E) p) v)"
  have step1: "call (gp_camera_new (track E) (camera s)) s = (Inr (GP_OK E, p), u\<lparr>camera := camera s\<rparr>)"
    using new assms(2) by (simp add: call_def booked_eq u_def)
  have step2: "call (gp_camera_init (track E) p (gp_context u)) u = (Inr r, v)"
    using init(1) by (simp add: call_def use_camera_def booked_eq u_def v_def)
  have "connect (track E) s = sq (run (gp_camera_free (track E) p)) (raise (GPhotoError r)) v"
    using step1 step2 init(2) assms(1) by (simp add: connect_def bnd_Inr u_def)
  then have res: "connect (track E) s = (Inl (GPhotoError r), t)"
    by (simp add: t_def run_def raise_apply)
  have t: "camera t = p" "p \<notin># cameras (lib t)" "\<not> connected t"
    using assms(1,3) by (simp_all add: t_def run_def v_def u_def track_def)
  then have "misuse (lib (snd (CameraWrapper_delete (track E) t)))"
    using assms(2)
    by (simp add: CameraWrapper_delete_def freeCamera_def run_def track_def)
  then show ?thesis using res t by blast
qed

theorem connect_leaves_dangling_camera_witness:
  "\<exists>t. connect (track sim_lib) (CameraWrapper_new (track sim_lib) (empty_book init_fails))
      = (Inl (GPhotoError (- 105)), t) \<and> \<not> connected t
    \<and> misuse (lib (snd (CameraWrapper_delete (track sim_lib) t)))"
  by (rule connect_leaves_dangling_camera [where p = 10])
    (auto simp: CameraWrapper_new_def track_def booked_def empty_book_def sim_lib_def
      init_fails_def sim0_def)

text \<open>
  If the serial number cannot be read after a successful initialisation, \<open>connect\<close>
  keeps the new camera but stays unconnected, and the next \<open>connect\<close> overwrites the only
  pointer to it: on a camera whose configuration cannot be read, two attempts and the
  destructor leave one camera allocated.
\<close>

theorem connect_leaks_camera:
  "(let E = track sim_lib;
        s = perform_all E [Connect, Connect] (CameraWrapper_new E (empty_book serial_fails));
        t = snd (CameraWrapper_delete E s)
    in \<not> connected s \<and> \<not> misuse (lib t) \<and> size (cameras (lib t)) = 1)"
  by code_simp

end
