(* ===== verification/Logger.thy ===== *)
theory Logger
  imports Float32
begin

text \<open>
  \<open>utils/logger.h\<close>: the logger with its list of output streams, each with the least level it
  accepts. A stream is its address; what is written to it is appended to \<open>written\<close>. The two
  mutexes only serialise the calls and are left out. The time of day printed by \<open>put_time\<close>
  is an argument.
\<close>

subsection \<open>Levels\<close>

datatype LogLevel = LOG_DEBUG | LOG_INFO | LOG_WARNING | LOG_ERROR

fun level_int :: "LogLevel \<Rightarrow> int" where
  "level_int LOG_DEBUG = 0"
| "level_int LOG_INFO = 1"
| "level_int LOG_WARNING = 2"
| "level_int LOG_ERROR = 3"

lemma level_int_inj [simp]: "level_int a = level_int b \<longleftrightarrow> a = b"
  by (cases a; cases b) simp_all

text \<open>The levels are compared as the integers of the enumeration.\<close>

instantiation LogLevel :: linorder
begin

definition less_eq_LogLevel :: "LogLevel \<Rightarrow> LogLevel \<Rightarrow> bool" where
  "less_eq_LogLevel a b \<longleftrightarrow> level_int a \<le> level_int b"

definition less_LogLevel :: "LogLevel \<Rightarrow> LogLevel \<Rightarrow> bool" where
  "less_LogLevel a b \<longleftrightarrow> level_int a < level_int b"

instance
  by standard (auto simp: less_eq_LogLevel_def less_LogLevel_def order_antisym)

end

definition LEVEL_STRINGS :: "string list" where
  "LEVEL_STRINGS = [''DEBUG'', ''INFO'', ''WARNING'', ''ERROR'']"

definition getLogLevelString :: "LogLevel \<Rightarrow> string" where
  "getLogLevelString level = ''['' @ LEVEL_STRINGS ! nat (level_int level) @ '']''"

subsection \<open>\<open>snprintf\<close>\<close>

text \<open>
  The conversions the program uses: \<open>%s\<close>, \<open>%d\<close> and \<open>%f\<close>. An argument of another type, or
  one too few, is undefined.
\<close>

datatype fmt_arg = Str string | Num int | Flt f32

fun convert :: "char \<Rightarrow> fmt_arg \<Rightarrow> string option" where
  "convert c (Str s) = (if c = CHR ''s'' then Some (c_str s) else None)"
| "convert c (Num i) = (if c = CHR ''d'' then Some (to_string i) else None)"
| "convert c (Flt x) = (if c = CHR ''f'' then Some (print_fixed 6 x) else None)"

definition bad_conversion :: exn where
  "bad_conversion = Undefined ''printf: bad conversion''"

fun format :: "string \<Rightarrow> fmt_arg list \<Rightarrow> exn + string" where
  "format [] args = Inr []"
| "format [c] args = (if c = CHR ''%'' then Inl bad_conversion else Inr [c])"
| "format (c # d # cs) args =
     (if c = CHR ''%'' then
        (case args of
           [] \<Rightarrow> Inl bad_conversion
         | a # as \<Rightarrow> (case convert d a of
             None \<Rightarrow> Inl bad_conversion
           | Some s \<Rightarrow> map_sum id ((@) s) (format cs as)))
      else map_sum id ((#) c) (format (d # cs) args))"

definition snprintf :: "nat \<Rightarrow> string \<Rightarrow> fmt_arg list \<Rightarrow> exn + string" where
  "snprintf n fmt args = map_sum id (take (n - 1)) (format fmt args)"

subsection \<open>The logger\<close>

record LogStream =
  stream :: ptr
  level :: LogLevel

record Logger =
  streams :: "LogStream list"
  written :: "(ptr \<times> string) list"

definition Logger_new :: "LogStream list \<Rightarrow> Logger" where
  "Logger_new ss = \<lparr>streams = ss, written = []\<rparr>"

text \<open>\<open>left << setw(10)\<close>, and \<open>endl\<close>.\<close>

definition log_line :: "string \<Rightarrow> LogLevel \<Rightarrow> string \<Rightarrow> string" where
  "log_line now lv str =
     (let l = getLogLevelString lv
      in now @ l @ replicate (10 - length l) CHR '' '' @ str @ [CHR 0x0A])"

definition log_str :: "string \<Rightarrow> LogLevel \<Rightarrow> string \<Rightarrow> (Logger, unit) comp" where
  "log_str now lv str = modify (\<lambda>L. L\<lparr>written := written L @
     map (\<lambda>s. (stream s, log_line now lv (c_str str))) (filter (\<lambda>s. level s \<le> lv) (streams L))\<rparr>)"

definition log_fmt :: "string \<Rightarrow> LogLevel \<Rightarrow> string \<Rightarrow> fmt_arg list \<Rightarrow> (Logger, unit) comp" where
  "log_fmt now lv str args = bnd (of_sum (snprintf 1024 str args)) (log_str now lv)"

text \<open>\<open>i\<close>, \<open>d\<close>, \<open>w\<close> and \<open>e\<close> with arguments.\<close>

definition log_i :: "string \<Rightarrow> string \<Rightarrow> fmt_arg list \<Rightarrow> (Logger, unit) comp" where
  "log_i now = log_fmt now LOG_INFO"

definition log_d :: "string \<Rightarrow> string \<Rightarrow> fmt_arg list \<Rightarrow> (Logger, unit) comp" where
  "log_d now = log_fmt now LOG_DEBUG"

definition log_w :: "string \<Rightarrow> string \<Rightarrow> fmt_arg list \<Rightarrow> (Logger, unit) comp" where
  "log_w now = log_fmt now LOG_WARNING"

definition log_e :: "string \<Rightarrow> string \<Rightarrow> fmt_arg list \<Rightarrow> (Logger, unit) comp" where
  "log_e now = log_fmt now LOG_ERROR"

text \<open>The loop that sets the level of the first entry for a stream, if there is one.\<close>

fun set_first :: "ptr \<Rightarrow> LogLevel \<Rightarrow> LogStream list \<Rightarrow> LogStream list option" where
  "set_first p lv [] = None"
| "set_first p lv (s # ss) =
     (if stream s = p then Some (s\<lparr>level := lv\<rparr> # ss)
      else map_option ((#) s) (set_first p lv ss))"

definition addStream :: "ptr \<Rightarrow> LogLevel \<Rightarrow> (Logger, unit) comp" where
  "addStream p minlevel = modify (\<lambda>L. L\<lparr>streams :=
     (case set_first p minlevel (streams L) of
        Some ss \<Rightarrow> ss
      | None \<Rightarrow> streams L @ [\<lparr>stream = p, level = minlevel\<rparr>])\<rparr>)"

definition setLevel :: "ptr \<Rightarrow> LogLevel \<Rightarrow> (Logger, unit) comp" where
  "setLevel p lv = modify (\<lambda>L. L\<lparr>streams :=
     (case set_first p lv (streams L) of Some ss \<Rightarrow> ss | None \<Rightarrow> streams L)\<rparr>)"

text \<open>
  The loop of \<open>removeStream\<close>: the entries before the iterator and those from it on. After
  an \<open>erase\<close> the iterator stands on the next entry, and the loop increments it again: the
  entry is skipped, and if there is none, the end iterator is incremented.
\<close>

fun remove_loop :: "ptr \<Rightarrow> LogStream list \<Rightarrow> LogStream list \<Rightarrow> exn + LogStream list" where
  "remove_loop p done [] = Inr done"
| "remove_loop p done (s # ss) =
     (if stream s = p then
        (case ss of
           [] \<Rightarrow> Inl (Undefined ''increment of the end iterator'')
         | s' # ss' \<Rightarrow> remove_loop p (done @ [s']) ss')
      else remove_loop p (done @ [s]) ss)"

definition removeStream :: "ptr \<Rightarrow> (Logger, unit) comp" where
  "removeStream p = bnd (reads streams) (\<lambda>ss.
     bnd (of_sum (remove_loop p [] ss)) (\<lambda>ss'. modify (\<lambda>L. L\<lparr>streams := ss'\<rparr>)))"

definition clearStreams :: "(Logger, unit) comp" where
  "clearStreams = modify (\<lambda>L. L\<lparr>streams := []\<rparr>)"

subsection \<open>Correctness\<close>

definition log_inv :: "Logger \<Rightarrow> bool" where
  "log_inv L \<longleftrightarrow> distinct (map stream (streams L))"

text \<open>The level a stream is set to, if it is one of the logger's.\<close>

definition level_of :: "Logger \<Rightarrow> ptr \<Rightarrow> LogLevel option" where
  "level_of L = map_of (map (\<lambda>s. (stream s, level s)) (streams L))"

lemma set_first_streams:
  "set_first p lv ss = Some ss' \<Longrightarrow> map stream ss' = map stream ss"
  "set_first p lv ss = None \<longleftrightarrow> p \<notin> stream ` set ss"
  by (induction ss arbitrary: ss') (auto split: if_splits)

lemma set_first_level:
  "set_first p lv ss = Some ss' \<Longrightarrow>
    map_of (map (\<lambda>s. (stream s, level s)) ss') = (map_of (map (\<lambda>s. (stream s, level s)) ss))(p \<mapsto> lv)"
  by (induction ss arbitrary: ss') (auto split: if_splits)

lemma map_of_snoc:
  "p \<notin> fst ` set xs \<Longrightarrow> [p \<mapsto> v] ++ map_of xs = (map_of xs)(p \<mapsto> v)"
  by (induction xs) (auto simp: fun_eq_iff)

lemma remove_loop_absent:
  "p \<notin> stream ` set ss \<Longrightarrow> remove_loop p acc ss = Inr (acc @ ss)"
  by (induction ss arbitrary: acc) auto

lemma remove_loop_once:
  assumes "p \<notin> stream ` set xs" "p \<notin> stream ` set ys" "stream s = p"
  shows "remove_loop p acc (xs @ s # ys) =
    (if ys = [] then Inl (Undefined ''increment of the end iterator'') else Inr (acc @ xs @ ys))"
  using assms
  by (induction xs arbitrary: acc) (auto simp: remove_loop_absent split: list.split)

text \<open>
  The logger's stream table. Adding a stream sets its level whether it is new or not and
  no other's; \<open>setLevel\<close> does so for known streams only; both keep the streams distinct.
\<close>

theorem logger_table:
  fixes p :: ptr and lv :: LogLevel
  assumes "log_inv L"
  defines "A \<equiv> snd (addStream p lv L)" and "S \<equiv> snd (setLevel p lv L)"
  shows "log_inv A \<and> level_of A = (level_of L)(p \<mapsto> lv)
    \<and> log_inv S \<and> level_of S = (if level_of L p = None then level_of L else (level_of L)(p \<mapsto> lv))"
proof (cases "set_first p lv (streams L)")
  case None
  then have p: "p \<notin> stream ` set (streams L)" by (simp add: set_first_streams(2))
  then have "level_of L p = None" by (auto simp: level_of_def map_of_eq_None_iff image_image)
  moreover have "level_of A = (level_of L)(p \<mapsto> lv)"
    using p None by (simp add: A_def addStream_def level_of_def map_of_snoc image_image)
  ultimately show ?thesis
    using p None assms(1) by (auto simp: A_def S_def addStream_def setLevel_def log_inv_def level_of_def)
next
  case (Some ss)
  then have "set_first p lv (streams L) \<noteq> None" by simp
  then have "p \<in> stream ` set (streams L)" by (simp add: set_first_streams(2))
  then have "level_of L p \<noteq> None" by (auto simp: level_of_def map_of_eq_None_iff image_image)
  with Some assms(1) show ?thesis
    using set_first_streams(1) [OF Some] set_first_level [OF Some]
    by (auto simp: A_def S_def addStream_def setLevel_def log_inv_def level_of_def)
qed

theorem logger_table_witness:
  "level_of (snd (addStream 7 LOG_ERROR (Logger_new [\<lparr>stream = 1, level = LOG_DEBUG\<rparr>]))) 7
    = Some LOG_ERROR"
  using logger_table [of "Logger_new [\<lparr>stream = 1, level = LOG_DEBUG\<rparr>]" 7 LOG_ERROR]
  by (simp add: log_inv_def Logger_new_def)

text \<open>
  \<open>removeStream\<close> is right except on the last entry. On distinct streams it removes
  a stream that is followed by another and no other, but for the last entry it increments the end iterator, which is undefined behaviour: so the default
  logger, with one stream, cannot remove it.
\<close>

theorem removeStream_last_is_undefined:
  assumes "log_inv L" "streams L = xs @ \<lparr>stream = p, level = lv\<rparr> # ys"
  shows "removeStream p L =
    (if ys = [] then (Inl (Undefined ''increment of the end iterator''), L)
     else (Inr (), L\<lparr>streams := xs @ ys\<rparr>))"
proof -
  have "p \<notin> stream ` set xs" "p \<notin> stream ` set ys"
    using assms by (auto simp: log_inv_def)
  from remove_loop_once [OF this, of "\<lparr>stream = p, level = lv\<rparr>" "[]"] assms(2)
  show ?thesis by (simp add: removeStream_def raise_apply)
qed

theorem removeStream_last_is_undefined_witness:
  "removeStream 1 (Logger_new [\<lparr>stream = 1, level = LOG_DEBUG\<rparr>])
    = (Inl (Undefined ''increment of the end iterator''), Logger_new [\<lparr>stream = 1, level = LOG_DEBUG\<rparr>])"
  by (subst removeStream_last_is_undefined [where xs = "[]" and ys = "[]" and lv = LOG_DEBUG])
    (simp_all add: log_inv_def Logger_new_def)

end
