(* ===== verification/Event_Logger.thy ===== *)
theory Event_Logger
  imports Logger String_Conversion Sim_Camera
begin

text \<open>
  \<open>EventLogger.cpp\<close>: the callback of the event sniffer, which logs every event of
  every topic. It casts the event to the class its signal stands for; the lemma shows
  which events it can be given.
\<close>

text \<open>\<open>what()\<close> of \<open>CameraErrorEvent\<close>.\<close>

definition error_what :: "'g gphoto \<Rightarrow> int \<Rightarrow> string" where
  "error_what E errorcode = gp_result_as_string E errorcode"

text \<open>The options joined by the loops over \<open>options\<close>.\<close>

definition quoted :: "string \<Rightarrow> string" where
  "quoted s = [CHR 0x27] @ s @ [CHR 0x27]"

fun join_options :: "('a \<Rightarrow> string) \<Rightarrow> 'a list \<Rightarrow> string" where
  "join_options to_s [] = []"
| "join_options to_s [x] = quoted (to_s x)"
| "join_options to_s (x # y # xs) = quoted (to_s x) @ '', '' @ join_options to_s (y # xs)"

definition option_printer :: "u16 \<Rightarrow> int \<Rightarrow> string" where
  "option_printer s =
     (if s = EV_CAMERA_OPTIONS_SHUTTER_SPEED then shutterSpeedToString
      else if s = EV_CAMERA_OPTIONS_APERTURE then apertureToString
      else to_string)"

text \<open>\<open>'%s'\<close> in a format, with its quotes.\<close>

definition quoted_s :: string where
  "quoted_s = [CHR 0x27] @ ''%s'' @ [CHR 0x27]"

text \<open>The format and the arguments of the call of \<open>Log.d\<close>.\<close>

definition event_fields :: "'g gphoto \<Rightarrow> event \<Rightarrow> exn + (string \<times> fmt_arg list)" where
  "event_fields E ev =
     (if sig ev = EV_CAMERA_CONNECTED then
        map_sum id (\<lambda>sn. ('' (%s)'', [Str sn])) (as_CameraConnectedEvent ev)
      else if sig ev = EV_CAMERA_CONNECTION_ERROR \<or> sig ev = EV_CAMERA_GENERIC_ERROR then
        map_sum id (\<lambda>c. ('' Error %d: %s'', [Num c, Str (error_what E c)])) (as_CameraErrorEvent ev)
      else if sig ev = EV_CAMERA_VAL_STATUS then
        map_sum id (\<lambda>st. ('' (battery=%d, program='' @ quoted_s @ '', focal_length=%d)'',
          [Num (battery st), Str (exposure_program st), Num (focal_length st)])) (as_CameraStatusEvent ev)
      else if sig ev = EV_CAMERA_VAL_CONFIG then
        map_sum id (\<lambda>cf. ('' (shutter=%s, aperture='' @ quoted_s @ '', iso=%d, trigger='' @ quoted_s @ '')'',
          [Str (shutterSpeedToString (shutter_speed cf)), Str (apertureToString (aperture cf)),
           Num (iso cf), Str (trigger_mode cf)])) (as_CameraConfigEvent ev)
      else if sig ev = EV_CAMERA_OPTIONS_SHUTTER_SPEED \<or> sig ev = EV_CAMERA_OPTIONS_APERTURE
          \<or> sig ev = EV_CAMERA_OPTIONS_ISO then
        map_sum id (\<lambda>xs. ('' {%s}'', [Str (join_options (option_printer (sig ev)) xs)]))
          (as_CameraOptionListEvent_int ev)
      else if sig ev = EV_CAMERA_OPTIONS_TRIGGER_MODE then
        map_sum id (\<lambda>xs. ('' {%s}'', [Str (join_options id xs)])) (as_CameraOptionListEvent_string ev)
      else if sig ev = EV_CAMERA_CAPTURE_SUCCESS then
        map_sum id (\<lambda>p. ('' (%s)'', [Str (getPath p)])) (as_CameraCaptureSuccessEvent ev)
      else if sig ev = EV_CAMERA_DOWNLOAD then
        map_sum id (\<lambda>p. ('' (%s)'', [Str (getPath p)])) (as_CameraDownloadEvent ev)
      else if sig ev = EV_CAMERA_DOWNLOAD_SUCCESS then
        map_sum id (\<lambda>(p, f). ('' (%s -> %s)'', [Str (getPath p), Str f]))
          (as_CameraDownloadSuccessEvent ev)
      else Inr ([], []))"

definition onEventReceived :: "'g gphoto \<Rightarrow> string \<Rightarrow> event \<Rightarrow> u8 \<Rightarrow> (Logger, unit) comp" where
  "onEventReceived E now ev topic =
     bnd (of_sum (event_fields E ev)) (\<lambda>(fmt, args).
     log_d now (''(%s) %s'' @ fmt)
       ([Str (getTopicName topic), Str (getEventName (sig ev))] @ args))"


subsection \<open>Which events can be logged\<close>

text \<open>Every format matches its arguments.\<close>

lemma event_format_ok:
  assumes "event_fields E ev = Inr (fmt, args)"
  shows "\<exists>s. format (''(%s) %s'' @ fmt) ([Str a, Str b] @ args) = Inr s"
  using assms by (cases ev) (auto simp: event_fields_def quoted_s_def split: if_splits)

lemma event_fields_cases:
  "event_fields E ev = Inl bad_cast \<or> (\<exists>fmt args. event_fields E ev = Inr (fmt, args))"
  by (cases ev) (auto simp: event_fields_def)

lemma well_formed_fields:
  "well_formed_event ev \<Longrightarrow> event_fields E ev \<noteq> Inl bad_cast"
  by (cases ev) (auto simp: well_formed_event_def event_fields_def split: if_splits)

lemma logged_event:
  assumes "well_formed_event ev"
  shows "\<exists>s. onEventReceived E now ev topic L = log_str now LOG_DEBUG s L"
proof -
  obtain fmt args where f: "event_fields E ev = Inr (fmt, args)"
    using event_fields_cases well_formed_fields [OF assms] by blast
  obtain s where "format (''(%s) %s'' @ fmt)
      ([Str (getTopicName topic), Str (getEventName (sig ev))] @ args) = Inr s"
    using event_format_ok [OF f] by blast
  then have "onEventReceived E now ev topic L = log_str now LOG_DEBUG (take 1023 s) L"
    using f by (simp add: onEventReceived_def log_d_def log_fmt_def snprintf_def)
  then show ?thesis by auto
qed

lemma well_formed_logged:
  "well_formed_event ev \<Longrightarrow> fst (onEventReceived E now ev topic L) = Inr ()"
  by (drule logged_event [of ev E now topic L]) (auto simp: log_str_def)

text \<open>
  The sniffer's callback logs every well-formed event: it casts to the class the event
  has, its format strings fit their arguments, it throws nothing, and it writes one line to each
  stream that accepts debug messages.
\<close>

theorem onEventReceived_logs:
  assumes "well_formed_event ev"
  shows "\<exists>s. onEventReceived E now ev topic L = log_str now LOG_DEBUG s L
    \<and> fst (onEventReceived E now ev topic L) = Inr ()"
  using logged_event [OF assms, of E now topic L] well_formed_logged [OF assms, of E now topic L]
  by blast

theorem onEventReceived_logs_witness:
  "fst (onEventReceived sim_lib [] (CameraConnectedEvent ''D3000'') TOPIC_CAMERA_EVENT (Logger_new []))
    = Inr ()"
  using onEventReceived_logs [of "CameraConnectedEvent ''D3000''" sim_lib "[]" TOPIC_CAMERA_EVENT
      "Logger_new []"]
  by (simp add: well_formed_event_def)

text \<open>
  A plain event injected from the console with the signal of an event class is not
  well-formed, and the callback casts it to a class it does not have: for these
  signals the program's behaviour is undefined as soon as the event is posted.
\<close>

theorem injected_event_cast:
  "fst (onEventReceived E now (Event s) topic L) =
     (if s \<in> {EV_CAMERA_CONNECTED, EV_CAMERA_CONNECTION_ERROR, EV_CAMERA_GENERIC_ERROR,
         EV_CAMERA_VAL_STATUS, EV_CAMERA_VAL_CONFIG, EV_CAMERA_OPTIONS_SHUTTER_SPEED,
         EV_CAMERA_OPTIONS_APERTURE, EV_CAMERA_OPTIONS_ISO, EV_CAMERA_OPTIONS_TRIGGER_MODE,
         EV_CAMERA_CAPTURE_SUCCESS, EV_CAMERA_DOWNLOAD, EV_CAMERA_DOWNLOAD_SUCCESS}
      then Inl bad_cast else Inr ())"
  by (auto simp: onEventReceived_def event_fields_def log_d_def log_fmt_def snprintf_def log_str_def)

end
