(* ===== verification/Event_Broker.thy ===== *)
theory Event_Broker
  imports Camera_Events
begin

text \<open>
  \<open>events/EventBroker.h/.cpp\<close>: the publish-subscribe hub and its queue of delayed events.

  A subscriber is a pointer to an \<open>EventHandlerBase\<close>, here a value of type \<open>'h\<close>; the virtual
  call \<open>postEvent\<close> is an argument \<open>deliver\<close> that acts on the state \<open>'s\<close> of the whole
  program, of which the broker is a part (\<open>sel\<close> and \<open>upd\<close> read and update it). What the broker needs
  of the handlers is the locale \<open>event_sink\<close>.

  Times of the system clock are integers (milliseconds) and are arguments. The mutexes make each
  member function atomic and are left out; the thread of \<open>run\<close> is modelled by its iterations,
  and its interplay with \<open>stop\<close> in theory \<open>Active_Object\<close>.
\<close>

subsection \<open>State\<close>

record DelayedEvent =
  sched_id :: u16
  event :: event
  topic :: u8
  deadline :: int

record 'h EventBroker =
  delayed_events :: "DelayedEvent list"
  subscribers :: "u8 \<Rightarrow> 'h list option"
  eventCounter :: u16

definition EventBroker_new :: "'h EventBroker" where
  "EventBroker_new = \<lparr>delayed_events = [], subscribers = (\<lambda>_. None), eventCounter = 0\<rparr>"

subsection \<open>Subscriptions\<close>

definition subscribe :: "'h \<Rightarrow> u8 \<Rightarrow> ('h EventBroker, unit) comp" where
  "subscribe h t = modify (\<lambda>b. b\<lparr>subscribers := (subscribers b)
     (t \<mapsto> (case subscribers b t of None \<Rightarrow> [] | Some hs \<Rightarrow> hs) @ [h])\<rparr>)"

fun deleteSubscriber :: "'h list \<Rightarrow> 'h \<Rightarrow> 'h list" where
  "deleteSubscriber [] h = []"
| "deleteSubscriber (x # xs) h =
     (if x = h then deleteSubscriber xs h else x # deleteSubscriber xs h)"

text \<open>\<open>subscribers.at(topic)\<close> throws for a topic that never had a subscriber.\<close>

definition unsubscribe :: "'h \<Rightarrow> u8 \<Rightarrow> ('h EventBroker, unit) comp" where
  "unsubscribe h t = bnd (reads (\<lambda>b. subscribers b t)) (\<lambda>v.
     case v of
       None \<Rightarrow> raise OutOfRange
     | Some hs \<Rightarrow> modify (\<lambda>b. b\<lparr>subscribers := (subscribers b)(t \<mapsto> deleteSubscriber hs h)\<rparr>))"

definition unsubscribe_all :: "'h \<Rightarrow> ('h EventBroker, unit) comp" where
  "unsubscribe_all h = modify (\<lambda>b. b\<lparr>subscribers :=
     (\<lambda>t. map_option (\<lambda>hs. deleteSubscriber hs h) (subscribers b t))\<rparr>)"

subsection \<open>Posting\<close>

fun deliver_each :: "('h \<Rightarrow> event \<Rightarrow> ('s, unit) comp) \<Rightarrow> event \<Rightarrow> 'h list \<Rightarrow> ('s, unit) comp" where
  "deliver_each deliver ev [] = ret ()"
| "deliver_each deliver ev (h # hs) = sq (deliver h ev) (deliver_each deliver ev hs)"

definition post ::
    "('s \<Rightarrow> 'h EventBroker) \<Rightarrow> ('h \<Rightarrow> event \<Rightarrow> ('s, unit) comp) \<Rightarrow> event \<Rightarrow> u8 \<Rightarrow> ('s, unit) comp" where
  "post sel deliver ev t = bnd (reads (\<lambda>s. subscribers (sel s) t)) (\<lambda>v.
     case v of None \<Rightarrow> ret () | Some hs \<Rightarrow> deliver_each deliver ev hs)"

text \<open>The loop of \<open>postDelayed\<close>: before the first event with a later deadline, else at the end.\<close>

fun insert_delayed :: "DelayedEvent \<Rightarrow> DelayedEvent list \<Rightarrow> DelayedEvent list" where
  "insert_delayed d [] = [d]"
| "insert_delayed d (x # xs) =
     (if deadline d < deadline x then d # x # xs else x # insert_delayed d xs)"

definition postDelayed :: "int \<Rightarrow> event \<Rightarrow> u8 \<Rightarrow> u32 \<Rightarrow> ('h EventBroker, u16) comp" where
  "postDelayed now ev t delay_ms =
     bnd (reads eventCounter) (\<lambda>did.
     sq (modify (\<lambda>b. b\<lparr>eventCounter := eventCounter b + 1\<rparr>))
     (sq (modify (\<lambda>b. b\<lparr>delayed_events := insert_delayed
        \<lparr>sched_id = did, event = ev, topic = t, deadline = now + uint delay_ms\<rparr> (delayed_events b)\<rparr>))
     (ret did)))"

fun erase_id :: "u16 \<Rightarrow> DelayedEvent list \<Rightarrow> DelayedEvent list" where
  "erase_id did [] = []"
| "erase_id did (x # xs) = (if sched_id x = did then xs else x # erase_id did xs)"

definition removeDelayed :: "u16 \<Rightarrow> ('h EventBroker, unit) comp" where
  "removeDelayed did = modify (\<lambda>b. b\<lparr>delayed_events := erase_id did (delayed_events b)\<rparr>)"

definition clearDelayedEvents :: "('h EventBroker, unit) comp" where
  "clearDelayedEvents = modify (\<lambda>b. b\<lparr>delayed_events := []\<rparr>)"

text \<open>
  One iteration of \<open>run\<close> after its wait returned, which it may do at any time: if the first
  deadline has expired, the event is taken out and posted.
\<close>

definition run_tick ::
    "('s \<Rightarrow> 'h EventBroker) \<Rightarrow> (('h EventBroker \<Rightarrow> 'h EventBroker) \<Rightarrow> 's \<Rightarrow> 's)
      \<Rightarrow> ('h \<Rightarrow> event \<Rightarrow> ('s, unit) comp) \<Rightarrow> int \<Rightarrow> ('s, unit) comp" where
  "run_tick sel upd deliver now = bnd (reads (\<lambda>s. delayed_events (sel s))) (\<lambda>ds.
     case ds of
       [] \<Rightarrow> ret ()
     | dev # rest \<Rightarrow>
         if deadline dev \<le> now then
           sq (modify (upd (\<lambda>b. b\<lparr>delayed_events := rest\<rparr>)))
           (post sel deliver (event dev) (topic dev))
         else ret ())"

text \<open>The iterations at the given times.\<close>

fun run_ticks ::
    "('s \<Rightarrow> 'h EventBroker) \<Rightarrow> (('h EventBroker \<Rightarrow> 'h EventBroker) \<Rightarrow> 's \<Rightarrow> 's)
      \<Rightarrow> ('h \<Rightarrow> event \<Rightarrow> ('s, unit) comp) \<Rightarrow> int list \<Rightarrow> ('s, unit) comp" where
  "run_ticks sel upd deliver [] = ret ()"
| "run_ticks sel upd deliver (now # nows) =
     sq (run_tick sel upd deliver now) (run_ticks sel upd deliver nows)"

subsection \<open>The queue of delayed events\<close>

definition broker_inv :: "'h EventBroker \<Rightarrow> bool" where
  "broker_inv b \<longleftrightarrow> sorted (map deadline (delayed_events b))"

lemma set_insert_delayed [simp]: "set (insert_delayed d xs) = insert d (set xs)"
  by (induction xs) auto

lemma sorted_insert_delayed:
  "sorted (map deadline xs) \<Longrightarrow> sorted (map deadline (insert_delayed d xs))"
  by (induction xs) auto

text \<open>The new event comes after those with the same deadline, and the others keep their order.\<close>

lemma insert_delayed_filter:
  assumes "sorted (map deadline xs)"
  shows "filter (\<lambda>x. deadline x = t) (insert_delayed d xs) =
    filter (\<lambda>x. deadline x = t) xs @ (if deadline d = t then [d] else [])"
  using assms
proof (induction xs)
  case (Cons x xs)
  show ?case
  proof (cases "deadline d < deadline x")
    case True
    then have "\<forall>y \<in> set (x # xs). deadline y \<noteq> deadline d" using Cons.prems by auto
    then show ?thesis using True by (auto simp: filter_empty_conv)
  qed (use Cons in auto)
qed simp

lemma erase_id_split:
  "(\<forall>x \<in> set xs. sched_id x \<noteq> did) \<and> erase_id did xs = xs
   \<or> (\<exists>ys d zs. xs = ys @ d # zs \<and> sched_id d = did \<and> (\<forall>y \<in> set ys. sched_id y \<noteq> did)
       \<and> erase_id did xs = ys @ zs)"
proof (induction xs)
  case (Cons x xs)
  show ?case
  proof (cases "sched_id x = did")
    case True
    then have "x # xs = [] @ x # xs \<and> sched_id x = did \<and> (\<forall>y \<in> set []. sched_id y \<noteq> did)
      \<and> erase_id did (x # xs) = [] @ xs" by simp
    then show ?thesis by blast
  next
    case False
    from Cons.IH show ?thesis
    proof
      assume "\<exists>ys d zs. xs = ys @ d # zs \<and> sched_id d = did \<and> (\<forall>y \<in> set ys. sched_id y \<noteq> did)
       \<and> erase_id did xs = ys @ zs"
      then obtain ys d zs where "xs = ys @ d # zs" "sched_id d = did"
        "\<forall>y \<in> set ys. sched_id y \<noteq> did" "erase_id did xs = ys @ zs" by blast
      then have "x # xs = (x # ys) @ d # zs \<and> sched_id d = did
        \<and> (\<forall>y \<in> set (x # ys). sched_id y \<noteq> did) \<and> erase_id did (x # xs) = (x # ys) @ zs"
        using False by simp
      then show ?thesis by blast
    qed (use False in simp)
  qed
qed simp

text \<open>
  \<open>postDelayed\<close> keeps the queue ordered by deadline; it adds the event with the
  deadline now plus the delay, behind the events that are due at the same time, keeps all others
  and their order, and returns the identifier under which it stored the event.
\<close>

theorem postDelayed_correct:
  assumes "broker_inv b" "postDelayed now ev t ms b = (Inr did, b')"
  shows "broker_inv b' \<and> did = eventCounter b \<and> eventCounter b' = eventCounter b + 1
    \<and> set (delayed_events b') = insert \<lparr>sched_id = did, event = ev, topic = t, deadline = now + uint ms\<rparr>
        (set (delayed_events b))
    \<and> (\<forall>T. filter (\<lambda>x. deadline x = T) (delayed_events b') =
        filter (\<lambda>x. deadline x = T) (delayed_events b) @
        (if now + uint ms = T
         then [\<lparr>sched_id = did, event = ev, topic = t, deadline = now + uint ms\<rparr>] else []))"
  using assms
  by (auto simp: postDelayed_def broker_inv_def sq_def run_simps sorted_insert_delayed
      insert_delayed_filter)

theorem postDelayed_correct_witness:
  "broker_inv (snd (postDelayed 5 C_EV_EMPTY 0 10 (EventBroker_new :: nat EventBroker)))"
  using postDelayed_correct [of "EventBroker_new :: nat EventBroker" 5 C_EV_EMPTY 0 10 0
      "snd (postDelayed 5 C_EV_EMPTY 0 10 EventBroker_new)"]
  by (simp add: broker_inv_def EventBroker_new_def postDelayed_def sq_def run_simps)

subsection \<open>Delivery\<close>

text \<open>
  What the broker relies on when it calls its subscribers: \<open>postEvent\<close> returns and leaves the
  broker alone. \<open>obs\<close> is the history of these calls.
\<close>

locale event_sink =
  fixes sel :: "'s \<Rightarrow> 'h EventBroker"
    and upd :: "('h EventBroker \<Rightarrow> 'h EventBroker) \<Rightarrow> 's \<Rightarrow> 's"
    and deliver :: "'h \<Rightarrow> event \<Rightarrow> ('s, unit) comp"
    and obs :: "'s \<Rightarrow> ('h \<times> event) list"
  assumes sel_upd: "sel (upd f s) = f (sel s)"
    and obs_upd: "obs (upd f s) = obs s"
    and deliver_returns: "fst (deliver h e s) = Inr ()"
    and deliver_sel: "sel (snd (deliver h e s)) = sel s"
    and deliver_obs: "obs (snd (deliver h e s)) = obs s @ [(h, e)]"
begin

definition subs_of :: "'s \<Rightarrow> u8 \<Rightarrow> 'h list" where
  "subs_of s t = (case subscribers (sel s) t of None \<Rightarrow> [] | Some hs \<Rightarrow> hs)"

lemma deliver_each_effect:
  "fst (deliver_each deliver e hs s) = Inr () \<and> sel (snd (deliver_each deliver e hs s)) = sel s
   \<and> obs (snd (deliver_each deliver e hs s)) = obs s @ map (\<lambda>h. (h, e)) hs"
proof (induction hs arbitrary: s)
  case (Cons h hs)
  have "deliver h e s = (Inr (), snd (deliver h e s))"
    using deliver_returns [of h e s] by (metis prod.collapse)
  then have "sq (deliver h e) n s = n (snd (deliver h e s))" for n :: "('s, unit) comp"
    by (rule sq_Inr)
  then show ?case
    using Cons [of "snd (deliver h e s)"] by (simp add: deliver_sel deliver_obs)
qed simp

lemma post_effect:
  "fst (post sel deliver e t s) = Inr () \<and> sel (snd (post sel deliver e t s)) = sel s
   \<and> obs (snd (post sel deliver e t s)) = obs s @ map (\<lambda>h. (h, e)) (subs_of s t)"
  using deliver_each_effect by (simp add: post_def subs_of_def split: option.split)

lemma tick_effect:
  assumes "delayed_events (sel s) = d # ds" "deadline d \<le> now"
  shows "fst (run_tick sel upd deliver now s) = Inr ()"
    "sel (snd (run_tick sel upd deliver now s)) = (sel s)\<lparr>delayed_events := ds\<rparr>"
    "obs (snd (run_tick sel upd deliver now s)) = obs s @ map (\<lambda>h. (h, event d)) (subs_of s (topic d))"
  using assms post_effect [of "event d" "topic d" "upd (\<lambda>b. b\<lparr>delayed_events := ds\<rparr>) s"]
  by (simp_all add: run_tick_def sel_upd obs_upd subs_of_def)

lemma tick_idle:
  assumes "\<forall>d \<in> set (take 1 (delayed_events (sel s))). now < deadline d"
  shows "run_tick sel upd deliver now s = (Inr (), s)"
  using assms by (cases "delayed_events (sel s)") (simp_all add: run_tick_def run_simps)

lemma ticks_effect:
  assumes "broker_inv (sel s)" "length (delayed_events (sel s)) \<le> length nows"
    and "\<forall>now \<in> set nows. \<forall>d \<in> set (delayed_events (sel s)). deadline d \<le> now"
  shows "fst (run_ticks sel upd deliver nows s) = Inr ()
    \<and> sel (snd (run_ticks sel upd deliver nows s)) = (sel s)\<lparr>delayed_events := []\<rparr>
    \<and> obs (snd (run_ticks sel upd deliver nows s)) =
      obs s @ concat (map (\<lambda>d. map (\<lambda>h. (h, event d)) (subs_of s (topic d))) (delayed_events (sel s)))"
  using assms
proof (induction nows arbitrary: s)
  case (Cons now nows)
  show ?case
  proof (cases "delayed_events (sel s)")
    case Nil
    then have "run_tick sel upd deliver now s = (Inr (), s)" by (simp add: tick_idle)
    then show ?thesis using Cons Nil by (simp add: sq_Inr)
  next
    case (Cons d ds)
    let ?t = "snd (run_tick sel upd deliver now s)"
    have "deadline d \<le> now" using Cons.prems(3) Cons by simp
    note eff = tick_effect [OF Cons this]
    have "run_tick sel upd deliver now s = (Inr (), ?t)" using eff(1) by (metis prod.collapse)
    then have step: "run_ticks sel upd deliver (now # nows) s = run_ticks sel upd deliver nows ?t"
      by (simp add: sq_Inr)
    have "subs_of ?t = subs_of s" by (rule ext) (simp add: subs_of_def eff(2))
    then show ?thesis
      using Cons.IH [of ?t] Cons.prems Cons eff(2,3) step by (simp add: broker_inv_def)
  qed
qed simp

end

text \<open>
  Events are posted to every subscriber of their topic, once per subscription and in
  the order of subscription, and to no one else; posting changes nothing of the broker.
\<close>

theorem post_delivers:
  assumes "event_sink sel upd deliver obs"
  shows "fst (post sel deliver e t s) = Inr () \<and> sel (snd (post sel deliver e t s)) = sel s
    \<and> obs (snd (post sel deliver e t s)) = obs s @
        map (\<lambda>h. (h, e)) (case subscribers (sel s) t of None \<Rightarrow> [] | Some hs \<Rightarrow> hs)"
  using event_sink.post_effect [OF assms] by (simp add: event_sink.subs_of_def [OF assms])


subsection \<open>Subscriptions\<close>

lemma deleteSubscriber_filter: "deleteSubscriber hs h = filter (\<lambda>x. x \<noteq> h) hs"
  by (induction hs) auto

text \<open>
  Unsubscribing removes every subscription of the handler and keeps the others in their
  order, on one topic or on all; a handler that unsubscribed from all topics is never called again,
  and unsubscribing from a topic that nobody ever subscribed to throws \<open>out_of_range\<close>.
\<close>

theorem unsubscribe_correct:
  "(subscribers b t = Some hs \<longrightarrow>
      unsubscribe h t b = (Inr (), b\<lparr>subscribers := (subscribers b)(t \<mapsto> filter (\<lambda>x. x \<noteq> h) hs)\<rparr>))
   \<and> (subscribers b t = None \<longrightarrow> unsubscribe h t b = (Inl OutOfRange, b))
   \<and> (\<forall>u gs. subscribers (snd (unsubscribe_all h b)) u = Some gs \<longrightarrow> h \<notin> set gs)
   \<and> (\<forall>u. map_option (filter (\<lambda>x. x \<noteq> h)) (subscribers b u) =
        subscribers (snd (unsubscribe_all h b)) u)"
  by (auto simp: unsubscribe_def unsubscribe_all_def deleteSubscriber_filter raise_apply)

theorem unsubscribe_correct_witness:
  "snd (unsubscribe 2 7 (snd (subscribe 2 7 (snd (subscribe (1 :: nat) 7 EventBroker_new)))))
    = EventBroker_new\<lparr>subscribers := [7 \<mapsto> [1]]\<rparr>"
  using unsubscribe_correct [of "snd (subscribe 2 7 (snd (subscribe (1 :: nat) 7 EventBroker_new)))"
      7 "[1, 2]" 2]
  by (simp add: subscribe_def EventBroker_new_def)

subsection \<open>Identifiers\<close>

text \<open>\<open>n\<close> calls of \<open>postDelayed\<close> of one event.\<close>

fun post_many :: "nat \<Rightarrow> int \<Rightarrow> event \<Rightarrow> u8 \<Rightarrow> u32 \<Rightarrow> 'h EventBroker \<Rightarrow> 'h EventBroker" where
  "post_many 0 now ev t ms b = b"
| "post_many (Suc n) now ev t ms b = post_many n now ev t ms (snd (postDelayed now ev t ms b))"

lemma post_many_counter:
  "eventCounter (post_many n now ev t ms b) = eventCounter b + of_nat n"
  by (induction n arbitrary: b) (simp_all add: postDelayed_def sq_def run_simps)

text \<open>
  The \<open>unique id of the delayed event\<close> is unique for 65536 calls only: after 65536
  further calls of \<open>postDelayed\<close> the 16-bit counter has wrapped and the next call returns an
  identifier that was given out before, so \<open>removeDelayed\<close> may remove another event.
\<close>

theorem delayed_id_wraps:
  "fst (postDelayed now' ev' t' ms' (post_many 65536 now ev t ms b)) = Inr (eventCounter b)"
proof -
  have "(65536 :: u16) = 0" by simp
  then show ?thesis
    by (simp add: postDelayed_def sq_def run_simps post_many_counter)
qed

text \<open>
  \<open>removeDelayed\<close> removes the first event with the identifier and only it, or nothing
  if there is none, and keeps the queue ordered.
\<close>

theorem removeDelayed_correct:
  fixes b :: "'h EventBroker" and did :: u16
  assumes "broker_inv b"
  defines "ds \<equiv> delayed_events b" and "b' \<equiv> snd (removeDelayed did b)"
  shows "broker_inv b' \<and>
    (((\<forall>d \<in> set ds. sched_id d \<noteq> did) \<and> b' = b)
     \<or> (\<exists>xs d ys. ds = xs @ d # ys \<and> sched_id d = did \<and> (\<forall>x \<in> set xs. sched_id x \<noteq> did)
         \<and> delayed_events b' = xs @ ys))"
  using erase_id_split [of "delayed_events b" did] assms(1)
  by (auto simp: ds_def b'_def removeDelayed_def broker_inv_def sorted_append)

theorem removeDelayed_correct_witness:
  "broker_inv (snd (removeDelayed 3 (EventBroker_new :: nat EventBroker)))"
  using removeDelayed_correct [of "EventBroker_new :: nat EventBroker" 3]
  by (simp add: broker_inv_def EventBroker_new_def)

end
