(* ===== verification/Event_Sniffer.thy ===== *)
theory Event_Sniffer
  imports Event_Broker
begin

text \<open>
  \<open>utils/EventSniffer.h\<close>: an object that subscribes one \<open>Sniffer\<close> to each of its topics and
  calls back with every event and the topic it was posted to. A new \<open>Sniffer\<close> is a pointer no
  other subscriber has: \<open>mk i t\<close> is the one allocated \<open>i\<close>-th, for topic \<open>t\<close>.
\<close>

subsection \<open>The sniffers\<close>

text \<open>\<open>new Sniffer(*this, t)\<close>: the constructor subscribes the object.\<close>

definition Sniffer_new :: "'h \<Rightarrow> u8 \<Rightarrow> ('h EventBroker, 'h) comp" where
  "Sniffer_new h t = sq (subscribe h t) (ret h)"

definition Sniffer_delete :: "'h \<Rightarrow> ('h EventBroker, unit) comp" where
  "Sniffer_delete h = unsubscribe_all h"

definition Sniffer_postEvent ::
    "(event \<Rightarrow> u8 \<Rightarrow> ('s, unit) comp) \<Rightarrow> u8 \<Rightarrow> event \<Rightarrow> ('s, unit) comp" where
  "Sniffer_postEvent on_event_received t ev = on_event_received ev t"

subsection \<open>The constructors and the destructor\<close>

fun sniff_topics :: "(nat \<Rightarrow> u8 \<Rightarrow> 'h) \<Rightarrow> nat \<Rightarrow> u8 list \<Rightarrow> ('h EventBroker, 'h list) comp" where
  "sniff_topics mk i [] = ret []"
| "sniff_topics mk i (t # ts) =
     bnd (Sniffer_new (mk i t) t) (\<lambda>s. bnd (sniff_topics mk (Suc i) ts) (\<lambda>ss. ret (s # ss)))"

definition EventSniffer_new :: "(nat \<Rightarrow> u8 \<Rightarrow> 'h) \<Rightarrow> u8 list \<Rightarrow> ('h EventBroker, 'h list) comp" where
  "EventSniffer_new mk topics = sniff_topics mk 0 topics"

text \<open>\<open>for (int t = 0; t <= 255; t++)\<close>.\<close>

definition EventSniffer_new_all :: "(nat \<Rightarrow> u8 \<Rightarrow> 'h) \<Rightarrow> ('h EventBroker, 'h list) comp" where
  "EventSniffer_new_all mk = sniff_topics mk 0 (map word_of_nat [0..<256])"

fun EventSniffer_delete :: "'h list \<Rightarrow> ('h EventBroker, unit) comp" where
  "EventSniffer_delete [] = ret ()"
| "EventSniffer_delete (s # ss) = sq (Sniffer_delete s) (EventSniffer_delete ss)"

subsection \<open>What they subscribe to\<close>

text \<open>The subscribers of a topic; a topic without an entry has none.\<close>

definition subs_in :: "'h EventBroker \<Rightarrow> u8 \<Rightarrow> 'h list" where
  "subs_in b t = (case subscribers b t of None \<Rightarrow> [] | Some hs \<Rightarrow> hs)"

lemma subs_in_new [simp]: "subs_in EventBroker_new t = []"
  by (simp add: subs_in_def EventBroker_new_def)

lemma subs_in_subscribe [simp]:
  "subs_in (snd (subscribe h t b)) u = subs_in b u @ (if u = t then [h] else [])"
  by (simp add: subs_in_def subscribe_def)

lemma subs_in_unsubscribe_all [simp]:
  "subs_in (snd (unsubscribe_all h b)) u = filter (\<lambda>x. x \<noteq> h) (subs_in b u)"
  by (simp add: subs_in_def unsubscribe_all_def deleteSubscriber_filter split: option.split)

text \<open>The sniffers of a list of topics, with the topic of each.\<close>

fun sniffers_of :: "(nat \<Rightarrow> u8 \<Rightarrow> 'h) \<Rightarrow> nat \<Rightarrow> u8 list \<Rightarrow> ('h \<times> u8) list" where
  "sniffers_of mk i [] = []"
| "sniffers_of mk i (t # ts) = (mk i t, t) # sniffers_of mk (Suc i) ts"

lemma Sniffer_new_run: "Sniffer_new h t b = (Inr h, snd (subscribe h t b))"
  by (simp add: Sniffer_new_def subscribe_def sq_def run_simps)

lemma sniff_topics_effect:
  "\<exists>b'. sniff_topics mk i ts b = (Inr (map fst (sniffers_of mk i ts)), b')
    \<and> delayed_events b' = delayed_events b
    \<and> (\<forall>u. subs_in b' u = subs_in b u @ map fst (filter (\<lambda>x. snd x = u) (sniffers_of mk i ts)))"
proof (induction ts arbitrary: i b)
  case (Cons t ts)
  obtain b' where b': "sniff_topics mk (Suc i) ts (snd (subscribe (mk i t) t b))
      = (Inr (map fst (sniffers_of mk (Suc i) ts)), b')"
    "delayed_events b' = delayed_events (snd (subscribe (mk i t) t b))"
    "\<forall>u. subs_in b' u = subs_in (snd (subscribe (mk i t) t b)) u
        @ map fst (filter (\<lambda>x. snd x = u) (sniffers_of mk (Suc i) ts))"
    using Cons by blast
  have "sniff_topics mk i (t # ts) b = (Inr (map fst (sniffers_of mk i (t # ts))), b')"
    by (simp add: bnd_Inr [where m = "Sniffer_new (mk i t) t", OF Sniffer_new_run]
        bnd_Inr [where m = "sniff_topics mk (Suc i) ts", OF b'(1)] run_simps)
  moreover have "delayed_events b' = delayed_events b" using b'(2) by (simp add: subscribe_def)
  ultimately show ?case using b'(3) by simp
qed (simp add: run_simps)

lemma EventSniffer_delete_effect:
  "\<exists>b'. EventSniffer_delete ss b = (Inr (), b')
    \<and> (\<forall>u. subs_in b' u = filter (\<lambda>h. h \<notin> set ss) (subs_in b u))"
proof (induction ss arbitrary: b)
  case (Cons s ss)
  have "Sniffer_delete s b = (Inr (), snd (unsubscribe_all s b))"
    by (simp add: Sniffer_delete_def unsubscribe_all_def)
  then have "EventSniffer_delete (s # ss) b = EventSniffer_delete ss (snd (unsubscribe_all s b))"
    by (simp add: sq_Inr)
  then show ?case using Cons [of "snd (unsubscribe_all s b)"] by (auto simp: conj_commute)
qed (simp add: run_simps)

text \<open>On all topics there is one sniffer for each.\<close>

lemma sniffers_of_upt:
  "sniffers_of mk i (map word_of_nat [i..<j]) = map (\<lambda>n. (mk n (word_of_nat n), word_of_nat n)) [i..<j]"
proof (induction "j - i" arbitrary: i)
  case (Suc n)
  then have "[i..<j] = i # [Suc i..<j]" by (simp add: upt_conv_Cons)
  then show ?case using Suc(1) [of "Suc i"] Suc(2) by simp
qed simp

lemma all_topics_once:
  "filter (\<lambda>x. snd x = u) (sniffers_of mk 0 (map word_of_nat [0..<256])) = [(mk (unat u) u, u)]"
proof -
  have u: "unat u < 256" using unsigned_less [of u] by simp
  have eq: "word_of_nat n = u \<longleftrightarrow> n = unat u" if "n < 256" for n
    using that by (auto simp: unsigned_of_nat take_bit_nat_eq_self)
  have "filter (\<lambda>n. word_of_nat n = u) [0..<256] = filter (\<lambda>n. n = unat u) [0..<256]"
    by (rule filter_cong) (simp_all add: eq)
  then have "filter (\<lambda>x. snd x = u) (sniffers_of mk 0 (map word_of_nat [0..<256]))
    = map (\<lambda>n. (mk n (word_of_nat n), word_of_nat n)) (filter (\<lambda>n. n = unat u) [0..<256])"
    by (simp add: sniffers_of_upt filter_map comp_def)
  moreover have "filter (\<lambda>n. n = k) [0..<m] = (if k < m then [k] else [])" for k m :: nat
    by (induction m) auto
  ultimately show ?thesis using u by simp
qed

lemma sniff_all_effect:
  "\<exists>ss b'. EventSniffer_new_all mk b = (Inr ss, b') \<and> delayed_events b' = delayed_events b
    \<and> ss = map (\<lambda>n. mk n (word_of_nat n)) [0..<256] \<and> set ss = range (\<lambda>u. mk (unat u) u)
    \<and> (\<forall>u. subs_in b' u = subs_in b u @ [mk (unat u) u])"
proof -
  let ?ts = "map word_of_nat [0..<256] :: u8 list"
  let ?ss = "map fst (sniffers_of mk 0 ?ts)"
  have ss: "?ss = map (\<lambda>n. mk n (word_of_nat n)) [0..<256]" by (simp add: sniffers_of_upt comp_def)
  have "mk n (word_of_nat n) \<in> range (\<lambda>u :: u8. mk (unat u) u)" if "n < 256" for n
    using that by (intro range_eqI [of _ _ "word_of_nat n"]) (simp add: unsigned_of_nat take_bit_nat_eq_self)
  moreover have "mk (unat u) u \<in> set ?ss" for u
    using unsigned_less [of u] by (auto simp: ss image_iff intro!: bexI [of _ "unat u"])
  ultimately have "set ?ss = range (\<lambda>u. mk (unat u) u)" by (auto simp: ss)
  then show ?thesis
    using sniff_topics_effect [of mk 0 ?ts b] ss by (auto simp: EventSniffer_new_all_def all_topics_once)
qed

text \<open>
  A sniffer of all topics is subscribed exactly once to each of the 256 topics, behind the
  subscribers the topic has, and the event broker is left otherwise as it was; when it is deleted,
  its sniffers are gone from every topic and the other subscribers are the same, in the same
  order, provided that none of them is one of the sniffers' pointers.
\<close>

theorem sniffer_lifetime:
  assumes "\<forall>t. \<forall>h \<in> set (subs_in b t). \<forall>i u. h \<noteq> mk i u"
  shows "\<exists>ss b1 b2. EventSniffer_new_all mk b = (Inr ss, b1) \<and> EventSniffer_delete ss b1 = (Inr (), b2)
    \<and> length ss = 256
    \<and> (\<forall>t. subs_in b1 t = subs_in b t @ [mk (unat t) t] \<and> subs_in b2 t = subs_in b t)
    \<and> delayed_events b1 = delayed_events b"
proof -
  obtain ss b1 where b1: "EventSniffer_new_all mk b = (Inr ss, b1)" "delayed_events b1 = delayed_events b"
    "ss = map (\<lambda>n. mk n (word_of_nat n)) [0..<256]" "set ss = range (\<lambda>u. mk (unat u) u)"
    "\<And>u. subs_in b1 u = subs_in b u @ [mk (unat u) u]"
    using sniff_all_effect [of mk b] by blast
  obtain b2 where b2: "EventSniffer_delete ss b1 = (Inr (), b2)"
    "\<And>u. subs_in b2 u = filter (\<lambda>h. h \<notin> set ss) (subs_in b1 u)"
    using EventSniffer_delete_effect by blast
  have "filter (\<lambda>h. h \<notin> set ss) (subs_in b u) = subs_in b u" for u
    using assms by (force simp: filter_id_conv b1(4))
  then have "subs_in b2 u = subs_in b u" for u by (simp add: b2(2) b1(4,5))
  then show ?thesis using b1 b2(1) by auto
qed

theorem sniffer_lifetime_witness:
  "\<exists>ss b1 b2. EventSniffer_new_all (\<lambda>i t. Some t) (snd (subscribe None 3 EventBroker_new)) = (Inr ss, b1)
    \<and> EventSniffer_delete ss b1 = (Inr (), b2) \<and> subs_in b1 3 = [None, Some 3] \<and> subs_in b2 3 = [None]"
proof -
  have "\<forall>t. \<forall>h \<in> set (subs_in (snd (subscribe None 3 EventBroker_new)) t). \<forall>i u. h \<noteq> Some (u :: u8)"
    by simp
  from sniffer_lifetime [of _ "\<lambda>i t. Some t", OF this] show ?thesis by fastforce
qed

end
