(* ===== verification/Event_Injector.thy ===== *)
theory Event_Injector
  imports Event_Broker
begin

text \<open>
  \<open>utils/EventInjector.h\<close>: the thread that reads events from the console and posts them. The
  lines of \<open>cin\<close> are a list, and \<open>getline\<close> at its end gives the empty string.
  \<open>operator>>\<close> of the standard library's string streams is written out, with the overflow rules
  of libstdc++. The prompts are left out.
\<close>

subsection \<open>Reading numbers\<close>

text \<open>
  A stream is what is left of its string, or \<^const>\<open>None\<close> once \<open>failbit\<close> is set. Extraction
  from a failed stream, or where only white space is left, leaves the variable alone
  (\<^const>\<open>None\<close>); where no digit follows it stores 0; where the number does not fit it stores
  the nearest value of the type; in these cases it fails.
\<close>

type_synonym istream = "string option"

definition extract_num :: "(bool \<Rightarrow> int \<Rightarrow> int \<times> bool) \<Rightarrow> istream \<Rightarrow> int option \<times> istream" where
  "extract_num conv st =
     (case st of
        None \<Rightarrow> (None, None)
      | Some s \<Rightarrow>
          let t = dropWhile is_space s in
          if t = [] then (None, None)
          else
            let (neg, u) = scan_sign t; ds = takeWhile is_digit u in
            if ds = [] then (Some 0, None)
            else
              let (v, ok) = conv neg (dec_value 0 ds) in
              (Some v, if ok then Some (dropWhile is_digit u) else None))"

text \<open>The value of a number for \<open>uint16_t\<close> and for \<open>int\<close>, and whether it fits.\<close>

definition conv_u16 :: "bool \<Rightarrow> int \<Rightarrow> int \<times> bool" where
  "conv_u16 neg v = (if v \<le> 65535 then (if neg then - v else v, True) else (65535, False))"

definition conv_int :: "bool \<Rightarrow> int \<Rightarrow> int \<times> bool" where
  "conv_int neg v =
     (let w = (if neg then - v else v) in
      if in_int w then (w, True) else (if neg then INT_MIN else INT_MAX, False))"

definition extract_u16 :: "istream \<Rightarrow> u16 option \<times> istream" where
  "extract_u16 st = (case extract_num conv_u16 st of (v, st') \<Rightarrow> (map_option word_of_int v, st'))"

subsection \<open>The thread\<close>

text \<open>
  The local variables \<open>ev\<close> and \<open>topic\<close>, not initialised (\<^const>\<open>None\<close>) and kept from one
  iteration to the next, the input, \<open>should_stop\<close>, and the rest of the program.
\<close>

record 's injector =
  ev_var :: "u16 option"
  topic_var :: "u16 option"
  input :: "string list"
  inj_stop :: bool
  world :: 's

definition getline :: "('s injector, string) comp" where
  "getline = bnd (reads input) (\<lambda>ls.
     case ls of [] \<Rightarrow> ret [] | l # rest \<Rightarrow> sq (modify (\<lambda>i. i\<lparr>input := rest\<rparr>)) (ret l))"

text \<open>A variable keeps its value when nothing was stored.\<close>

definition stored :: "'a option \<Rightarrow> 'a option \<Rightarrow> 'a option" where
  "stored new old = (case new of None \<Rightarrow> old | Some v \<Rightarrow> Some v)"

definition use_var :: "'a option \<Rightarrow> exn + 'a" where
  "use_var v = (case v of None \<Rightarrow> Inl (Undefined ''uninitialised variable'') | Some x \<Rightarrow> Inr x)"

text \<open>\<open>stringstream(temp) >> cfg.shutter_speed >> cfg.aperture >> cfg.iso\<close>.\<close>

definition read_config :: "string \<Rightarrow> CameraConfig" where
  "read_config s =
     (let (ss, st1) = extract_num conv_int (Some s);
          (ap, st2) = extract_num conv_int st1;
          (is, st3) = extract_num conv_int st2
      in \<lparr>shutter_speed = the (stored ss (Some (shutter_speed default_config))),
          aperture = the (stored ap (Some (aperture default_config))),
          iso = the (stored is (Some (iso default_config))),
          trigger_mode = trigger_mode default_config\<rparr>)"

text \<open>One iteration of the loop; \<open>post_event\<close> is \<open>sEventBroker.post\<close>, whose topic is 8 bits wide.\<close>

definition injector_step :: "(event \<Rightarrow> u8 \<Rightarrow> ('s, unit) comp) \<Rightarrow> ('s injector, unit) comp" where
  "injector_step post_event = bnd getline (\<lambda>temp.
     let (e, st) = extract_u16 (Some temp); (t, st') = extract_u16 st in
     sq (modify (\<lambda>i. i\<lparr>ev_var := stored e (ev_var i), topic_var := stored t (topic_var i)\<rparr>))
     (bnd (reads ev_var) (\<lambda>v. bnd (of_sum (use_var v)) (\<lambda>ev.
      if ev = 0 then modify (\<lambda>i. i\<lparr>inj_stop := True\<rparr>)
      else if ev = EV_CAMERA_SET_CONFIG then
        bnd getline (\<lambda>temp.
        bnd (reads topic_var) (\<lambda>v. bnd (of_sum (use_var v)) (\<lambda>topic.
        on_member world world_update (post_event (CameraConfigEvent ev (read_config temp)) (ucast topic)))))
      else
        bnd (reads topic_var) (\<lambda>v. bnd (of_sum (use_var v)) (\<lambda>topic.
        on_member world world_update (post_event (Event ev) (ucast topic))))))))"

text \<open>\<open>while (!shouldStop())\<close>, at most \<open>n\<close> iterations.\<close>

fun injector_run :: "nat \<Rightarrow> (event \<Rightarrow> u8 \<Rightarrow> ('s, unit) comp) \<Rightarrow> ('s injector, unit) comp" where
  "injector_run 0 post_event = ret ()"
| "injector_run (Suc n) post_event = bnd (reads inj_stop) (\<lambda>b.
     if \<not> b then sq (injector_step post_event) (injector_run n post_event) else ret ())"

definition injector_new :: "string list \<Rightarrow> 's \<Rightarrow> 's injector" where
  "injector_new ls w = \<lparr>ev_var = None, topic_var = None, input = ls, inj_stop = False, world = w\<rparr>"

subsection \<open>Numbers typed in are the numbers read\<close>

lemma to_string_read:
  assumes "0 \<le> n" "n \<le> 65535" "rest = [] \<or> \<not> is_digit (hd rest)"
  shows "extract_u16 (Some (to_string n @ rest)) = (Some (word_of_int n), Some rest)"
proof -
  let ?d = "dec_string n"
  have d: "list_all is_digit ?d" using assms(1) by (rule dec_string_digits)
  obtain c cs where c: "?d = c # cs" by (cases ?d) auto
  then have dig: "is_digit c" using d by simp
  then have nosp: "\<not> is_space c"
    by (auto simp: is_space_def is_digit_def digit_val_def Let_def split: if_splits)
  have nosign: "c \<noteq> CHR ''-''" "c \<noteq> CHR ''+''"
    using dig by (auto simp: is_digit_def digit_val_def)
  have pre: "takeWhile is_digit (?d @ rest) = ?d" "dropWhile is_digit (?d @ rest) = rest"
    using digits_prefix [OF d assms(3)] by simp_all
  have "dropWhile is_space (?d @ rest) = ?d @ rest" "scan_sign (?d @ rest) = (False, ?d @ rest)"
    using c nosp nosign by simp_all
  then show ?thesis
    using assms(1,2) pre dec_string_not_Nil [of n]
    by (simp del: dec_string_not_Nil add: extract_u16_def extract_num_def to_string_def Let_def conv_u16_def dec_value_dec_string)
qed

lemma space_skipped: "extract_num conv (Some (CHR '' '' # s)) = extract_num conv (Some s)"
  by (simp add: extract_num_def is_space_def)

lemma space_skipped_u16: "extract_u16 (Some (CHR '' '' # s)) = extract_u16 (Some s)"
  by (simp add: extract_u16_def space_skipped)

text \<open>
  A line with the decimal numbers of an event and a topic posts exactly that event: for an
  event other than 0 and \<open>EV_CAMERA_SET_CONFIG\<close>, whatever was typed before, the iteration
  is one \<open>post\<close> of a plain event with this signal on this topic, and it consumes one line. A topic
  above 255 is posted modulo 256.
\<close>

theorem injected_line_posts:
  assumes "e \<noteq> 0" "e \<noteq> EV_CAMERA_SET_CONFIG"
    and "input i = (to_string (uint e) @ '' '' @ to_string (uint t)) # ls"
  shows "injector_step post_event i =
    on_member world world_update (post_event (Event e) (ucast t))
      (i\<lparr>input := ls, ev_var := Some e, topic_var := Some t\<rparr>)"
proof -
  have b: "uint e \<le> 65535" "uint t \<le> 65535" using uint_bounded [of e] uint_bounded [of t] by simp_all
  have sp: "\<not> is_digit (CHR '' '')" by (simp add: is_digit_def digit_val_def)
  have 1: "extract_u16 (Some (to_string (uint e) @ '' '' @ to_string (uint t)))
      = (Some e, Some ('' '' @ to_string (uint t)))"
    using to_string_read [of "uint e" "'' '' @ to_string (uint t)"] b sp by simp
  have 2: "extract_u16 (Some ('' '' @ to_string (uint t))) = (Some t, Some [])"
    using to_string_read [of "uint t" "[]"] b by (simp add: space_skipped_u16)
  show ?thesis
    using assms 1 2
    by (simp add: injector_step_def getline_def Let_def stored_def use_var_def bnd_assoc sq_def)
qed

text \<open>A broker whose subscribers' calls are recorded.\<close>

type_synonym recorder = "nat EventBroker \<times> (nat \<times> event) list"

definition rec_post :: "event \<Rightarrow> u8 \<Rightarrow> (recorder, unit) comp" where
  "rec_post = post fst (\<lambda>h ev. modify (\<lambda>(b, hist). (b, hist @ [(h, ev)])))"

definition rec_world :: recorder where
  "rec_world = (snd (subscribe 7 1 EventBroker_new), [])"

lemma rec_post_run: "rec_post ev t rec_world =
    (Inr (), (fst rec_world, if t = 1 then [(7, ev)] else []))"
  by (simp add: rec_post_def rec_world_def post_def subscribe_def EventBroker_new_def run_simps)

theorem injected_line_posts_witness:
  "snd (world (snd (injector_step rec_post (injector_new [''4 257''] rec_world))))
    = [(7, Event EV_CAMERA_CONNECT)]"
proof -
  have s: "to_string 4 @ '' '' @ to_string 257 = ''4 257''" by code_simp
  have "ucast (257 :: u16) = (1 :: u8)" by simp
  then show ?thesis
    using injected_line_posts [of EV_CAMERA_CONNECT "injector_new [''4 257''] rec_world" 257 "[]" rec_post] s
    by (simp add: injector_new_def on_member_def rec_post_run)
qed

subsection \<open>The end of the input\<close>

lemma getline_run:
  "getline i = (case input i of [] \<Rightarrow> (Inr [], i) | l # ls \<Rightarrow> (Inr l, i\<lparr>input := ls\<rparr>))"
  by (simp add: getline_def run_simps split: list.split)

lemma empty_line: "extract_u16 (Some []) = (None, None)" "extract_u16 None = (None, None)"
  by (simp_all add: extract_u16_def extract_num_def)

text \<open>
  The variables keep their values when a line is empty, and at the end of the input every
  line is: after an event the injector then posts this event again and again, once in each
  iteration, and never stops; if the input was empty from the beginning, it reads a
  variable that was never initialised.
\<close>

theorem injector_repeats_at_eof:
  assumes "input i = []" "\<not> inj_stop i"
  shows "(\<forall>e t. ev_var i = Some e \<and> topic_var i = Some t \<and> e \<noteq> 0 \<and> e \<noteq> EV_CAMERA_SET_CONFIG
        \<and> (\<forall>w. post_event (Event e) (ucast t) w = (Inr (), f w)) \<longrightarrow>
      injector_run n post_event i = (Inr (), i\<lparr>world := (f ^^ n) (world i)\<rparr>))
    \<and> (ev_var i = None \<longrightarrow>
      fst (injector_run (Suc n) post_event i) = Inl (Undefined ''uninitialised variable''))"
proof (intro conjI allI impI)
  fix e t
  assume a: "ev_var i = Some e \<and> topic_var i = Some t \<and> e \<noteq> 0 \<and> e \<noteq> EV_CAMERA_SET_CONFIG
      \<and> (\<forall>w. post_event (Event e) (ucast t) w = (Inr (), f w))"
  show "injector_run n post_event i = (Inr (), i\<lparr>world := (f ^^ n) (world i)\<rparr>)"
    using a assms
  proof (induction n arbitrary: i)
    case (Suc n)
    have "injector_step post_event i = (Inr (), i\<lparr>world := f (world i)\<rparr>)"
      using Suc.prems
      by (simp add: injector_step_def bnd_def [of getline] getline_run empty_line stored_def use_var_def
          on_member_def)
    then show ?case
      using Suc.IH [of "i\<lparr>world := f (world i)\<rparr>"] Suc.prems by (simp add: sq_Inr funpow_swap1)
  qed (simp add: run_simps)
next
  assume "ev_var i = None"
  then have "injector_step post_event i = (Inl (Undefined ''uninitialised variable''), i)"
    using assms
    by (simp add: injector_step_def bnd_def [of getline] getline_run empty_line stored_def use_var_def
        run_simps)
  then show "fst (injector_run (Suc n) post_event i) = Inl (Undefined ''uninitialised variable'')"
    using assms by (simp add: sq_Inl)
qed

text \<open>A world that is the list of the posts.\<close>

definition list_post :: "event \<Rightarrow> u8 \<Rightarrow> ((event \<times> u8) list, unit) comp" where
  "list_post ev t = modify (\<lambda>h. h @ [(ev, t)])"

theorem injector_repeats_at_eof_witness:
  "fst (injector_run 1 list_post (injector_new [] [])) = Inl (Undefined ''uninitialised variable'')
   \<and> world (snd (injector_run 3 list_post
        ((injector_new [] [])\<lparr>ev_var := Some EV_CAMERA_CONNECT, topic_var := Some 1\<rparr>)))
      = replicate 3 (Event EV_CAMERA_CONNECT, 1)"
  using injector_repeats_at_eof [of "injector_new [] []" list_post id 0]
    injector_repeats_at_eof [of "(injector_new [] [])\<lparr>ev_var := Some EV_CAMERA_CONNECT, topic_var := Some 1\<rparr>"
      list_post "\<lambda>h. h @ [(Event EV_CAMERA_CONNECT, 1)]" 3]
  by (simp add: injector_new_def list_post_def numeral_3_eq_3)

end
