(* ===== verification/Sync_Queue.thy ===== *)
theory Sync_Queue
  imports Prelude
begin

text \<open>
  \<open>collections/SyncQueue.h\<close>: the queue between threads. The member functions are given
  first as functions on the list; then the condition variable: a step relation in which
  any number of threads put and get, wait, are notified, or wake up for no reason. A
  section under the mutex is one step; \<open>get\<close> is cut where \<open>wait\<close> releases the mutex.
\<close>

subsection \<open>The member functions\<close>

record 'a SynchronizedQueue =
  queue :: "'a list"

definition q_put :: "'a \<Rightarrow> ('a SynchronizedQueue, unit) comp" where
  "q_put x = modify (\<lambda>q. q\<lparr>queue := queue q @ [x]\<rparr>)"

text \<open>\<open>get\<close> when its wait is over; \<^const>\<open>None\<close> while the predicate does not hold.\<close>

definition q_get :: "'a SynchronizedQueue \<Rightarrow> ('a \<times> 'a SynchronizedQueue) option" where
  "q_get q = (case queue q of [] \<Rightarrow> None | x # xs \<Rightarrow> Some (x, q\<lparr>queue := xs\<rparr>))"

text \<open>\<open>len\<close> converts the \<open>size_t\<close> to \<open>int\<close>.\<close>

definition q_len :: "'a SynchronizedQueue \<Rightarrow> int" where
  "q_len q = sint (of_nat (length (queue q)) :: u32)"

subsection \<open>Threads\<close>

text \<open>
  \<open>waiting\<close> are the threads blocked in the condition variable, \<open>woken\<close> those that have
  left it and will test the predicate when they get the mutex. \<open>put_log\<close> and \<open>got_log\<close>
  record what was put, and what was returned to which thread.
\<close>

record 'a sys =
  q :: "'a SynchronizedQueue"
  waiting :: "nat set"
  woken :: "nat set"
  put_log :: "'a list"
  got_log :: "(nat \<times> 'a) list"

definition sys_init :: "'a sys" where
  "sys_init = \<lparr>q = \<lparr>queue = []\<rparr>, waiting = {}, woken = {}, put_log = [], got_log = []\<rparr>"

definition enqueue :: "'a \<Rightarrow> 'a sys \<Rightarrow> 'a sys" where
  "enqueue x s = s\<lparr>q := snd (q_put x (q s)), put_log := put_log s @ [x]\<rparr>"

inductive sys_step :: "'a sys \<Rightarrow> 'a sys \<Rightarrow> bool" where
  put_notify: "t \<in> waiting s \<Longrightarrow>
    sys_step s ((enqueue x s)\<lparr>waiting := waiting s - {t}, woken := insert t (woken s)\<rparr>)"
| put_nobody: "waiting s = {} \<Longrightarrow> sys_step s (enqueue x s)"
| get_now: "t \<notin> waiting s \<union> woken s \<Longrightarrow> q_get (q s) = Some (x, q') \<Longrightarrow>
    sys_step s (s\<lparr>q := q', got_log := got_log s @ [(t, x)]\<rparr>)"
| get_wait: "t \<notin> waiting s \<union> woken s \<Longrightarrow> q_get (q s) = None \<Longrightarrow>
    sys_step s (s\<lparr>waiting := insert t (waiting s)\<rparr>)"
| spurious: "t \<in> waiting s \<Longrightarrow>
    sys_step s (s\<lparr>waiting := waiting s - {t}, woken := insert t (woken s)\<rparr>)"
| wake_take: "t \<in> woken s \<Longrightarrow> q_get (q s) = Some (x, q') \<Longrightarrow>
    sys_step s (s\<lparr>q := q', woken := woken s - {t}, got_log := got_log s @ [(t, x)]\<rparr>)"
| wake_again: "t \<in> woken s \<Longrightarrow> q_get (q s) = None \<Longrightarrow>
    sys_step s (s\<lparr>waiting := insert t (waiting s), woken := woken s - {t}\<rparr>)"

abbreviation sys_steps :: "'a sys \<Rightarrow> 'a sys \<Rightarrow> bool" where
  "sys_steps \<equiv> sys_step\<^sup>*\<^sup>*"

lemma q_get_simps [simp]:
  "q_get Q = None \<longleftrightarrow> queue Q = []"
  "q_get Q = Some (x, Q') \<longleftrightarrow> (\<exists>xs. queue Q = x # xs \<and> Q' = \<lparr>queue = xs\<rparr>)"
  by (cases Q; auto simp: q_get_def split: list.splits)+

lemma enqueue_simps [simp]:
  "queue (q (enqueue x s)) = queue (q s) @ [x]" "waiting (enqueue x s) = waiting s"
  "woken (enqueue x s) = woken s" "put_log (enqueue x s) = put_log s @ [x]"
  "got_log (enqueue x s) = got_log s"
  by (simp_all add: enqueue_def q_put_def)

text \<open>
  The invariant: what was returned, followed by what is queued, is what was put; the sets of
  waiting and woken threads are finite and disjoint; and while a thread waits, there is a
  woken thread for every queued element.
\<close>

definition sys_inv :: "'a sys \<Rightarrow> bool" where
  "sys_inv s \<longleftrightarrow> map snd (got_log s) @ queue (q s) = put_log s
     \<and> finite (waiting s) \<and> finite (woken s) \<and> waiting s \<inter> woken s = {}
     \<and> (waiting s \<noteq> {} \<longrightarrow> length (queue (q s)) \<le> card (woken s))"

lemma sys_step_inv: "sys_step s s' \<Longrightarrow> sys_inv s \<Longrightarrow> sys_inv s'"
proof (induction rule: sys_step.induct)
  case (put_notify t s x)
  then have "t \<notin> woken s" by (auto simp: sys_inv_def)
  with put_notify show ?case by (auto simp: sys_inv_def simp flip: append_assoc)
next
  case (put_nobody s x)
  then show ?case by (auto simp: sys_inv_def simp flip: append_assoc)
next
  case (spurious t s)
  then have "t \<notin> woken s" by (auto simp: sys_inv_def)
  with spurious show ?case by (auto simp: sys_inv_def)
next
  case (wake_take t s x q')
  then show ?case by (auto simp: sys_inv_def card_Diff_singleton)
qed (auto simp: sys_inv_def)

lemma sys_steps_inv: "sys_steps s s' \<Longrightarrow> sys_inv s \<Longrightarrow> sys_inv s'"
  by (induction rule: rtranclp_induct) (auto intro: sys_step_inv)

lemma sys_init_inv: "sys_inv sys_init"
  by (simp add: sys_inv_def sys_init_def)

text \<open>
  C33. The queue is first-in first-out for any number of threads and every interleaving, with
  spurious wake-ups: what the calls of \<open>get\<close> have returned so far, in their order, followed by
  what is still queued, is what was put, in its order. Nothing is lost, duplicated or
  overtaken.
\<close>

theorem queue_fifo:
  assumes "sys_steps sys_init s"
  shows "map snd (got_log s) @ queue (q s) = put_log s"
  using sys_steps_inv [OF assms sys_init_inv] by (simp add: sys_inv_def)

definition one_put :: "nat sys" where
  "one_put = enqueue 5 sys_init"

lemma one_put_reachable: "sys_steps sys_init one_put"
  unfolding one_put_def by (rule r_into_rtranclp, rule put_nobody) (simp add: sys_init_def)

theorem queue_fifo_witness:
  "map snd (got_log one_put) @ queue (q one_put) = put_log one_put"
  by (rule queue_fifo [OF one_put_reachable])

text \<open>
  C34. No wake-up is lost: in every reachable state with an element in the queue and a thread
  waiting for one, some thread has been woken and can take it at once. So a waiting
  consumer and a queued element never coexist in a deadlock, although \<open>put\<close> notifies only one
  thread.
\<close>

theorem queue_no_lost_wakeup:
  assumes "sys_steps sys_init s" "queue (q s) \<noteq> []" "waiting s \<noteq> {}"
  shows "\<exists>t \<in> woken s. \<exists>s'. sys_step s s' \<and> got_log s' = got_log s @ [(t, hd (queue (q s)))]"
proof -
  have inv: "sys_inv s" by (rule sys_steps_inv [OF assms(1) sys_init_inv])
  then have "length (queue (q s)) \<le> card (woken s)" using assms(3) by (simp add: sys_inv_def)
  then have "0 < card (woken s)" using assms(2) by (cases "queue (q s)") simp_all
  then obtain t where t: "t \<in> woken s" by (metis card.empty equals0I less_numeral_extra(3))
  obtain x xs where x: "queue (q s) = x # xs" using assms(2) by (cases "queue (q s)") auto
  have "q_get (q s) = Some (x, \<lparr>queue = xs\<rparr>)" using x by simp
  from wake_take [OF t this] show ?thesis using t x by fastforce
qed

text \<open>Two threads wait, one element is put, the first thread is notified.\<close>

definition two_wait :: "nat sys" where
  "two_wait = sys_init\<lparr>waiting := {1, 2}\<rparr>"

definition one_woken :: "nat sys" where
  "one_woken = (enqueue 5 two_wait)\<lparr>waiting := {2}, woken := {1}\<rparr>"

lemma one_woken_reachable: "sys_steps sys_init one_woken"
proof -
  have "sys_step (sys_init :: nat sys) (sys_init\<lparr>waiting := {2}\<rparr>)"
    using get_wait [of 2 "sys_init :: nat sys"] by (simp add: sys_init_def)
  moreover have "sys_step (sys_init\<lparr>waiting := {2}\<rparr> :: nat sys) two_wait"
    using get_wait [of 1 "sys_init\<lparr>waiting := {2}\<rparr> :: nat sys"] by (simp add: sys_init_def two_wait_def)
  moreover have "sys_step two_wait one_woken"
    using put_notify [of 1 two_wait 5]
    by (simp add: two_wait_def one_woken_def sys_init_def insert_Diff_if)
  ultimately show ?thesis by (meson rtranclp.rtrancl_into_rtrancl rtranclp.rtrancl_refl)
qed

theorem queue_no_lost_wakeup_witness:
  "\<exists>t \<in> woken one_woken. \<exists>s'. sys_step one_woken s' \<and>
     got_log s' = got_log one_woken @ [(t, hd (queue (q one_woken)))]"
  by (rule queue_no_lost_wakeup [OF one_woken_reachable])
    (simp_all add: one_woken_def enqueue_def q_put_def)

end
