(* ===== verification/Active_Object.thy ===== *)
theory Active_Object
  imports Sync_Queue
begin

text \<open>
  \<open>async/ActiveObject.h\<close>, and how the two classes with a thread of their own stop it:
  \<open>EventHandler\<close> (\<open>events/EventHandler.h\<close>), which queues an \<open>EV_EMPTY\<close> to wake its thread,
  and \<open>EventBroker\<close>, which notifies a condition variable. The first is shown to end the
  thread; the second can lose the notification and wait for its thread forever.

  The flags are plain \<open>bool\<close> members read and written by two threads; the model takes each
  access as atomic.
\<close>

subsection \<open>Life cycle\<close>

record ActiveObject =
  started :: bool
  stopped :: bool
  should_stop :: bool
  has_thread :: bool

definition ActiveObject_new :: ActiveObject where
  "ActiveObject_new = \<lparr>started = False, stopped = False, should_stop = False, has_thread = False\<rparr>"

definition ao_start :: "(ActiveObject, bool) comp" where
  "ao_start = bnd (reads (\<lambda>a. \<not> started a \<and> \<not> stopped a)) (\<lambda>ok.
     if ok then
       sq (modify (\<lambda>a. a\<lparr>has_thread := True\<rparr>))
       (sq (modify (\<lambda>a. a\<lparr>started := True\<rparr>)) (reads started))
     else ret False)"

text \<open>
  \<open>stop\<close> up to the \<open>join\<close>, and what it does once the thread has ended; the \<open>join\<close> itself
  waits for the thread.
\<close>

definition ao_stop_request :: "(ActiveObject, bool) comp" where
  "ao_stop_request = bnd (reads (\<lambda>a. started a \<and> \<not> stopped a)) (\<lambda>ok.
     if ok then sq (modify (\<lambda>a. a\<lparr>should_stop := True\<rparr>)) (ret True) else ret False)"

definition ao_stop_joined :: "(ActiveObject, unit) comp" where
  "ao_stop_joined = modify (\<lambda>a. a\<lparr>stopped := True, has_thread := False\<rparr>)"

definition ao_stop :: "(ActiveObject, unit) comp" where
  "ao_stop = bnd ao_stop_request (\<lambda>b. if b then ao_stop_joined else ret ())"

definition isStarted :: "ActiveObject \<Rightarrow> bool" where
  "isStarted a = started a"

definition isStopping :: "ActiveObject \<Rightarrow> bool" where
  "isStopping a = should_stop a"

definition isStopped :: "ActiveObject \<Rightarrow> bool" where
  "isStopped a = stopped a"

definition isRunning :: "ActiveObject \<Rightarrow> bool" where
  "isRunning a \<longleftrightarrow> started a \<and> \<not> stopped a"

datatype ao_call = Start | Stop

text \<open>The calls that took effect, in a sequence of calls.\<close>

fun ao_run :: "ao_call list \<Rightarrow> ActiveObject \<Rightarrow> ao_call list \<times> ActiveObject" where
  "ao_run [] a = ([], a)"
| "ao_run (Start # cs) a =
     (case ao_start a of (r, a') \<Rightarrow>
       (case ao_run cs a' of (es, a'') \<Rightarrow> (if r = Inr True then Start # es else es, a'')))"
| "ao_run (Stop # cs) a =
     (case ao_run cs (snd (ao_stop a)) of (es, a') \<Rightarrow> (if isRunning a then Stop # es else es, a'))"

lemma ao_simps:
  "ao_start a = (if \<not> started a \<and> \<not> stopped a then (Inr True, a\<lparr>has_thread := True, started := True\<rparr>)
     else (Inr False, a))"
  "ao_stop a = (if isRunning a then (Inr (), a\<lparr>should_stop := True, stopped := True, has_thread := False\<rparr>)
     else (Inr (), a))"
  by (simp_all add: ao_start_def ao_stop_def ao_stop_request_def ao_stop_joined_def isRunning_def
      bnd_def sq_def run_simps)

lemma ao_run_simps:
  "ao_run (Start # cs) a =
     (if \<not> started a \<and> \<not> stopped a
      then (Start # fst (ao_run cs (a\<lparr>has_thread := True, started := True\<rparr>)),
            snd (ao_run cs (a\<lparr>has_thread := True, started := True\<rparr>)))
      else ao_run cs a)"
  "ao_run (Stop # cs) a =
     (if isRunning a
      then (Stop # fst (ao_run cs (a\<lparr>should_stop := True, stopped := True, has_thread := False\<rparr>)),
            snd (ao_run cs (a\<lparr>should_stop := True, stopped := True, has_thread := False\<rparr>)))
      else ao_run cs a)"
  by (simp_all add: ao_simps case_prod_beta)

lemma ao_run_stopped: "stopped a \<Longrightarrow> ao_run cs a = ([], a)"
proof (induction cs)
  case (Cons c cs)
  then show ?case by (cases c) (simp_all add: ao_run_simps isRunning_def del: ao_run.simps(2,3))
qed simp

lemma ao_run_running:
  assumes "isRunning a" "has_thread a"
  shows "ao_run cs a \<in> {([], a), ([Stop], a\<lparr>should_stop := True, stopped := True, has_thread := False\<rparr>)}"
  using assms
proof (induction cs)
  case (Cons c cs)
  then show ?case
    by (cases c) (simp_all add: ao_run_simps ao_run_stopped isRunning_def del: ao_run.simps(2,3))
qed simp

lemma ao_run_new:
  assumes "\<not> started a" "\<not> stopped a"
  shows "ao_run cs a = ([], a)
    \<or> ao_run cs a = ([Start], a\<lparr>has_thread := True, started := True\<rparr>)
    \<or> ao_run cs a = ([Start, Stop],
        a\<lparr>has_thread := False, started := True, should_stop := True, stopped := True\<rparr>)"
  using assms
proof (induction cs)
  case (Cons c cs)
  have "isRunning (a\<lparr>has_thread := True, started := True\<rparr>)" using Cons.prems by (simp add: isRunning_def)
  from ao_run_running [OF this, of cs] show ?case
    using Cons by (cases c) (auto simp: ao_run_simps isRunning_def simp del: ao_run.simps(2,3))
qed simp

text \<open>
  Whatever the sequence of calls of \<open>start\<close> and \<open>stop\<close>, an active object starts its thread at
  most once and stops it at most once, after it was started: a stopped object never runs again,
  and the thread exists exactly while the object is running.
\<close>

theorem active_object_lifecycle:
  "fst (ao_run cs ActiveObject_new) \<in> {[], [Start], [Start, Stop]}
   \<and> has_thread (snd (ao_run cs ActiveObject_new)) = isRunning (snd (ao_run cs ActiveObject_new))"
  using ao_run_new [of ActiveObject_new cs] by (auto simp: ActiveObject_new_def isRunning_def)

subsection \<open>\<open>EventHandler\<close>: stopped by an event\<close>

text \<open>
  The thread: testing \<open>shouldStop\<close>, in \<open>get\<close>, or handling an event; the caller of
  \<open>stop\<close>: not yet called, flag set, \<open>EV_EMPTY\<close> queued and joining, joined. The
  queue is that of theory \<open>Sync_Queue\<close>; with one consumer its notification is that the
  queue is not empty. Events are numbers, 2 is \<open>EV_EMPTY\<close>.
\<close>

datatype thread_pc = Testing | Getting | Handling nat | Ended
datatype stop_pc = NotStopping | FlagSet | Joining | Joined

record handler_sys =
  hq :: "nat SynchronizedQueue"
  hflag :: bool
  hthread :: thread_pc
  hstop :: stop_pc

definition handler_init :: handler_sys where
  "handler_init = \<lparr>hq = \<lparr>queue = []\<rparr>, hflag = False, hthread = Testing, hstop = NotStopping\<rparr>"

inductive handler_step :: "handler_sys \<Rightarrow> handler_sys \<Rightarrow> bool" where
  test_go: "hthread s = Testing \<Longrightarrow> \<not> hflag s \<Longrightarrow> handler_step s (s\<lparr>hthread := Getting\<rparr>)"
| test_end: "hthread s = Testing \<Longrightarrow> hflag s \<Longrightarrow> handler_step s (s\<lparr>hthread := Ended\<rparr>)"
| get: "hthread s = Getting \<Longrightarrow> q_get (hq s) = Some (e, Q) \<Longrightarrow>
    handler_step s (s\<lparr>hq := Q, hthread := Handling e\<rparr>)"
| handled: "hthread s = Handling e \<Longrightarrow> handler_step s (s\<lparr>hthread := Testing\<rparr>)"
| stop_flag: "hstop s = NotStopping \<Longrightarrow> handler_step s (s\<lparr>hflag := True, hstop := FlagSet\<rparr>)"
| stop_put: "hstop s = FlagSet \<Longrightarrow>
    handler_step s (s\<lparr>hq := snd (q_put 2 (hq s)), hstop := Joining\<rparr>)"
| stop_join: "hstop s = Joining \<Longrightarrow> hthread s = Ended \<Longrightarrow> handler_step s (s\<lparr>hstop := Joined\<rparr>)"

definition post_step :: "nat \<Rightarrow> handler_sys \<Rightarrow> handler_sys" where
  "post_step e s = s\<lparr>hq := snd (q_put e (hq s))\<rparr>"

text \<open>Runs with events posted by other threads at any time.\<close>

inductive handler_run :: "handler_sys \<Rightarrow> bool" where
  init: "handler_run handler_init"
| step: "handler_run s \<Longrightarrow> handler_step s t \<Longrightarrow> handler_run t"
| posted: "handler_run s \<Longrightarrow> handler_run (post_step e s)"

inductive_cases handler_stepE: "handler_step s t"

definition handler_inv :: "handler_sys \<Rightarrow> bool" where
  "handler_inv s \<longleftrightarrow> (hflag s \<longleftrightarrow> hstop s \<noteq> NotStopping)
     \<and> (hstop s = Joining \<and> hthread s = Getting \<longrightarrow> queue (hq s) \<noteq> [])
     \<and> (hthread s = Ended \<longrightarrow> hflag s) \<and> (hstop s = Joined \<longrightarrow> hthread s = Ended)"

lemma handler_run_inv: "handler_run s \<Longrightarrow> handler_inv s"
proof (induction rule: handler_run.induct)
  case (step s t)
  from step.hyps(2) step.IH show ?case
    by (cases rule: handler_step.cases) (auto simp: handler_inv_def q_put_def)
qed (auto simp: handler_inv_def handler_init_def post_step_def q_put_def)

text \<open>How many steps of the thread are left until it ends.\<close>

fun steps_left :: "thread_pc \<Rightarrow> nat" where
  "steps_left Getting = 3"
| "steps_left (Handling e) = 2"
| "steps_left Testing = 1"
| "steps_left Ended = 0"

text \<open>
  C38. Stopping an event handler terminates. In every reachable state in which \<open>stop\<close> waits
  for the thread, either the thread has ended and \<open>stop\<close> returns, or the thread can make a step,
  and each of its steps brings it nearer to its end: it handles at most one more event (given
  that the handler of an event returns).
\<close>

theorem handler_stop_terminates:
  assumes "handler_run s" "hstop s = Joining"
  shows "(hthread s = Ended \<and> handler_step s (s\<lparr>hstop := Joined\<rparr>))
    \<or> (\<exists>t. handler_step s t \<and> hstop t = Joining)
      \<and> (\<forall>t. handler_step s t \<longrightarrow> hstop t = Joining \<and> steps_left (hthread t) < steps_left (hthread s))"
proof -
  have inv: "handler_inv s" by (rule handler_run_inv [OF assms(1)])
  have flag: "hflag s" using inv assms(2) by (simp add: handler_inv_def)
  show ?thesis
  proof (cases "hthread s = Ended")
    case True
    then show ?thesis using stop_join assms(2) by blast
  next
    case False
    have "\<exists>t. handler_step s t \<and> hstop t = Joining"
    proof (cases "hthread s")
      case Testing
      from test_end [OF this flag] assms(2) show ?thesis by fastforce
    next
      case Getting
      then obtain e es where "queue (hq s) = e # es"
        using inv assms(2) by (auto simp: handler_inv_def neq_Nil_conv)
      then have "q_get (hq s) = Some (e, \<lparr>queue = es\<rparr>)" by simp
      from get [OF Getting this] assms(2) show ?thesis by fastforce
    next
      case (Handling e)
      from handled [OF this] assms(2) show ?thesis by fastforce
    qed (use False in simp)
    moreover have "hstop t = Joining \<and> steps_left (hthread t) < steps_left (hthread s)"
      if "handler_step s t" for t
      using that assms(2) False flag by (cases rule: handler_step.cases) auto
    ultimately show ?thesis by blast
  qed
qed

definition joining_state :: handler_sys where
  "joining_state = handler_init\<lparr>hq := \<lparr>queue = [2]\<rparr>, hflag := True, hthread := Getting, hstop := Joining\<rparr>"

theorem handler_stop_terminates_witness:
  "\<exists>t. handler_step joining_state t \<and> hstop t = Joining"
proof -
  have 1: "handler_run (handler_init\<lparr>hthread := Getting\<rparr>)"
    by (rule handler_run.step [OF handler_run.init test_go]) (simp_all add: handler_init_def)
  have 2: "handler_run (handler_init\<lparr>hthread := Getting, hflag := True, hstop := FlagSet\<rparr>)"
    using handler_run.step [OF 1 stop_flag] by (simp add: handler_init_def)
  have "handler_run joining_state"
    using handler_run.step [OF 2 stop_put] by (simp add: handler_init_def joining_state_def q_put_def)
  then show ?thesis
    using handler_stop_terminates [of joining_state] by (auto simp: joining_state_def handler_init_def)
qed

subsection \<open>\<open>EventBroker\<close>: stopped by a notification\<close>

text \<open>
  The broker's thread holds the mutex from its test of \<open>shouldStop\<close> until the condition
  variable's \<open>wait\<close> releases it; \<open>stop\<close> sets the flag and notifies without the mutex, so both may
  happen between the two. \<open>pending\<close> tells whether there is a delayed event, whose deadline ends the wait.
\<close>

datatype broker_pc = BTesting | BBeforeWait | BWaiting | BEnded

record broker_sys =
  bflag :: bool
  bthread :: broker_pc
  bstop :: stop_pc
  pending :: bool

definition broker_init :: broker_sys where
  "broker_init = \<lparr>bflag = False, bthread = BTesting, bstop = NotStopping, pending = False\<rparr>"

text \<open>\<open>notify_one\<close> wakes the thread only if it waits.\<close>

inductive broker_step :: "broker_sys \<Rightarrow> broker_sys \<Rightarrow> bool" where
  b_go: "bthread s = BTesting \<Longrightarrow> \<not> bflag s \<Longrightarrow> broker_step s (s\<lparr>bthread := BBeforeWait\<rparr>)"
| b_end: "bthread s = BTesting \<Longrightarrow> bflag s \<Longrightarrow> broker_step s (s\<lparr>bthread := BEnded\<rparr>)"
| b_wait: "bthread s = BBeforeWait \<Longrightarrow> broker_step s (s\<lparr>bthread := BWaiting\<rparr>)"
| b_timeout: "bthread s = BWaiting \<Longrightarrow> pending s \<Longrightarrow> broker_step s (s\<lparr>bthread := BTesting, pending := p\<rparr>)"
| b_flag: "bstop s = NotStopping \<Longrightarrow> broker_step s (s\<lparr>bflag := True, bstop := FlagSet\<rparr>)"
| b_notify: "bstop s = FlagSet \<Longrightarrow> broker_step s
    (s\<lparr>bthread := if bthread s = BWaiting then BTesting else bthread s, bstop := Joining\<rparr>)"
| b_join: "bstop s = Joining \<Longrightarrow> bthread s = BEnded \<Longrightarrow> broker_step s (s\<lparr>bstop := Joined\<rparr>)"

abbreviation broker_steps :: "broker_sys \<Rightarrow> broker_sys \<Rightarrow> bool" where
  "broker_steps \<equiv> broker_step\<^sup>*\<^sup>*"

definition broker_stuck :: broker_sys where
  "broker_stuck = \<lparr>bflag = True, bthread = BWaiting, bstop = Joining, pending = False\<rparr>"

text \<open>
  C39. Stopping the event broker can wait forever. If the thread has tested \<open>shouldStop\<close> but
  not yet entered its \<open>wait\<close> when \<open>stop\<close> sets the flag and notifies, the notification is
  lost: the thread then waits with no delayed event to end the wait, \<open>stop\<close> waits for the
  thread, and neither can make a step (a spurious wake-up apart).
\<close>

theorem broker_stop_deadlock:
  "broker_steps broker_init broker_stuck \<and> (\<nexists>t. broker_step broker_stuck t)"
proof
  let ?s1 = "broker_init\<lparr>bthread := BBeforeWait\<rparr>"
  let ?s2 = "?s1\<lparr>bflag := True, bstop := FlagSet\<rparr>"
  let ?s3 = "?s2\<lparr>bthread := BBeforeWait, bstop := Joining\<rparr>"
  have 1: "broker_step broker_init ?s1" by (rule b_go) (simp_all add: broker_init_def)
  have 2: "broker_step ?s1 ?s2" by (rule b_flag) (simp add: broker_init_def)
  have 3: "broker_step ?s2 ?s3" using b_notify [of ?s2] by (simp add: broker_init_def)
  have "broker_step ?s3 (?s3\<lparr>bthread := BWaiting\<rparr>)" by (rule b_wait) simp
  then have "broker_step ?s3 broker_stuck" by (simp add: broker_init_def broker_stuck_def)
  with 1 2 3 show "broker_steps broker_init broker_stuck"
    by (meson rtranclp.rtrancl_into_rtrancl rtranclp.rtrancl_refl)
  show "\<nexists>t. broker_step broker_stuck t"
    by (auto simp: broker_stuck_def elim: broker_step.cases)
qed

end
