(* ===== verification/Camera_Controller.thy ===== *)
theory Camera_Controller
  imports HSM Circular_Buffer Camera_Wrapper Event_Broker
begin

text \<open>
  \<open>CameraController\<close> of \<open>cameracontroller/cameramanager/CameraManager.h/.cpp\<close>: the state
  machine that owns the camera. A state handler is named by a constructor of \<open>hstate\<close>; the
  object extends the engine's record \<open>hsm\<close> by the controller's members, the camera wrapper it
  refers to, the event queue it inherits from \<open>EventHandler\<close>, and the one event broker of the
  program. What is only logged is left out.

  The subscribers of the broker are the controller and the sniffers of \<open>main\<close>; \<open>delivered\<close>
  is the history of the calls of \<open>postEvent\<close> the broker makes. A sniffer's callback, which
  only logs, is modelled in theory \<open>Event_Logger\<close>.
\<close>

subsection \<open>State\<close>

datatype hstate =
  Top | Init | Disconnected | Connecting | Error | Connected | Idle | CaptureWired | Downloading

datatype handler = CC | Sniffer u8

definition MAX_RECONNECT_ATTEMPS :: int where
  "MAX_RECONNECT_ATTEMPS = 3"

definition DEFERRED_SIZE :: nat where
  "DEFERRED_SIZE = 1000"

text \<open>An \<open>EventPtr\<close> in the ring of deferred events; \<^const>\<open>None\<close> is the null pointer.\<close>

record 'g controller = "hstate hsm" +
  reconnect_attempts :: int
  deferred_events :: "event option cbuf"
  camera_config :: CameraConfig
  camera_obj :: "'g CameraWrapper"
  to_download :: CameraPath
  download_dir :: string
  eventList :: "event list"
  broker :: "handler EventBroker"
  delivered :: "(handler \<times> event) list"

type_synonym ('g, 'a) ctl = "('g controller, 'a) comp"

subsection \<open>Events in and out\<close>

text \<open>\<open>EventHandler::postEvent\<close>: the event is queued.\<close>

definition postEvent :: "event \<Rightarrow> ('g, unit) ctl" where
  "postEvent ev = modify (\<lambda>m. m\<lparr>eventList := eventList m @ [ev]\<rparr>)"

text \<open>The virtual call of \<open>postEvent\<close> by the broker.\<close>

definition deliver :: "handler \<Rightarrow> event \<Rightarrow> ('g, unit) ctl" where
  "deliver h ev =
     sq (modify (\<lambda>m. m\<lparr>delivered := delivered m @ [(h, ev)]\<rparr>))
     (case h of CC \<Rightarrow> postEvent ev | Sniffer t \<Rightarrow> ret ())"

definition broker_post :: "event \<Rightarrow> u8 \<Rightarrow> ('g, unit) ctl" where
  "broker_post ev t = post broker deliver ev t"

text \<open>A member function of the camera wrapper.\<close>

definition cam :: "('g CameraWrapper, 'a) comp \<Rightarrow> ('g, 'a) ctl" where
  "cam m = on_member camera_obj camera_obj_update m"

text \<open>\<open>catch (const GPhotoError& gpe)\<close>.\<close>

definition catch_gphoto :: "('s, unit) comp \<Rightarrow> (int \<Rightarrow> ('s, unit) comp) \<Rightarrow> ('s, unit) comp" where
  "catch_gphoto m h = try_catch m (\<lambda>e. case e of GPhotoError c \<Rightarrow> Some (h c) | _ \<Rightarrow> None)"

subsection \<open>Actions\<close>

definition controller_connect :: "'g gphoto \<Rightarrow> ('g, unit) ctl" where
  "controller_connect E = catch_gphoto
     (bnd (cam (connect E)) (\<lambda>sn. broker_post (CameraConnectedEvent sn) TOPIC_CAMERA_EVENT))
     (\<lambda>c. broker_post (CameraErrorEvent EV_CAMERA_CONNECTION_ERROR c) TOPIC_CAMERA_EVENT)"

definition controller_disconnect :: "'g gphoto \<Rightarrow> ('g, unit) ctl" where
  "controller_disconnect E = bnd (cam (disconnect E)) (\<lambda>b.
     if b then broker_post (Event EV_CAMERA_DISCONNECTED) TOPIC_CAMERA_EVENT else ret ())"

definition postGPhotoError :: "int \<Rightarrow> ('g, unit) ctl" where
  "postGPhotoError c = broker_post (CameraErrorEvent EV_CAMERA_GENERIC_ERROR c) TOPIC_CAMERA_EVENT"

definition criticalError :: "int \<Rightarrow> bool" where
  "criticalError gp_result \<longleftrightarrow> gp_result \<le> - 4 \<and> gp_result \<ge> - 70"

definition setConfig :: "'g gphoto \<Rightarrow> ('g, unit) ctl" where
  "setConfig E = bnd (reads camera_config) (\<lambda>cf.
     sq (catch_gphoto (if 0 < aperture cf then cam (setAperture E (aperture cf)) else ret ()) postGPhotoError)
     (sq (catch_gphoto (if 0 \<le> shutter_speed cf then cam (setExposureTime E (shutter_speed cf)) else ret ())
       postGPhotoError)
     (sq (catch_gphoto (if 0 < iso cf then cam (setISO E (iso cf)) else ret ()) postGPhotoError)
     (catch_gphoto (if trigger_mode cf \<noteq> [] then cam (setTriggerMode E (trigger_mode cf)) else ret ())
       postGPhotoError))))"

definition readStatus :: "'g gphoto \<Rightarrow> ('g, unit) ctl" where
  "readStatus E = catch_gphoto
     (bnd (cam (getExposureTime E)) (\<lambda>ss.
      bnd (cam (getAperture E)) (\<lambda>ap.
      bnd (cam (getISO E)) (\<lambda>is.
      bnd (cam (getTriggerMode E)) (\<lambda>tm.
      sq (broker_post (CameraConfigEvent EV_CAMERA_VAL_CONFIG
           \<lparr>shutter_speed = ss, aperture = ap, iso = is, trigger_mode = tm\<rparr>) TOPIC_CAMERA_STATUS)
      (bnd (cam (getBatteryPercent E)) (\<lambda>bat.
       bnd (cam (getExposureProgram E)) (\<lambda>prog.
       bnd (cam (getFocalLength E)) (\<lambda>fl.
       broker_post (CameraStatusEvent
         \<lparr>battery = bat, exposure_program = prog, focal_length = fl\<rparr>) TOPIC_CAMERA_STATUS)))))))))
     postGPhotoError"

definition readOptions :: "'g gphoto \<Rightarrow> ('g, unit) ctl" where
  "readOptions E =
     sq (catch_gphoto (bnd (cam (listExposureTimes E)) (\<lambda>xs.
       broker_post (CameraOptionListEvent_int EV_CAMERA_OPTIONS_SHUTTER_SPEED xs) TOPIC_CAMERA_STATUS))
       postGPhotoError)
     (sq (catch_gphoto (bnd (cam (listApertures E)) (\<lambda>xs.
       broker_post (CameraOptionListEvent_int EV_CAMERA_OPTIONS_APERTURE xs) TOPIC_CAMERA_STATUS))
       postGPhotoError)
     (sq (catch_gphoto (bnd (cam (listISOs E)) (\<lambda>xs.
       broker_post (CameraOptionListEvent_int EV_CAMERA_OPTIONS_ISO xs) TOPIC_CAMERA_STATUS))
       postGPhotoError)
     (catch_gphoto (bnd (cam (listTriggerModes E)) (\<lambda>xs.
       broker_post (CameraOptionListEvent_string EV_CAMERA_OPTIONS_TRIGGER_MODE xs) TOPIC_CAMERA_STATUS))
       postGPhotoError)))"

definition captureWired :: "'g gphoto \<Rightarrow> ('g, unit) ctl" where
  "captureWired E = catch_gphoto
     (bnd (cam (wiredCapture E)) (\<lambda>p. broker_post (CameraCaptureSuccessEvent p) TOPIC_CAMERA_EVENT))
     (\<lambda>c. broker_post (CameraErrorEvent EV_CAMERA_CAPTURE_ERROR c) TOPIC_CAMERA_EVENT)"

text \<open>\<open>path(a) / b\<close> of \<open>std::filesystem\<close> on POSIX.\<close>

definition path_append :: "string \<Rightarrow> string \<Rightarrow> string" where
  "path_append a b =
     (if b \<noteq> [] \<and> hd b = CHR ''/'' then b
      else if a \<noteq> [] \<and> last a \<noteq> CHR ''/'' then a @ ''/'' @ b
      else a @ b)"

definition download :: "'g gphoto \<Rightarrow> ('g, unit) ctl" where
  "download E = bnd (reads (\<lambda>m. (download_dir m, to_download m))) (\<lambda>(dir, td).
     let photo = path_append dir (name td) in
     sq (bnd (cam (call (fs_exists E dir))) (\<lambda>ex.
         case ex of
           Inl c \<Rightarrow> raise (FilesystemError dir c)
         | Inr there \<Rightarrow>
             if \<not> there then
               bnd (cam (call (create_directory E dir))) (\<lambda>ok.
               if \<not> ok then broker_post (Event EV_CAMERA_DOWNLOAD_ERROR) TOPIC_CAMERA_EVENT else ret ())
             else ret ()))
     (try_catch
       (bnd (of_sum (toCameraFilePath (folder_size E) (name_size E) td)) (\<lambda>fp.
        sq (cam (downloadFile E fp photo))
        (broker_post (CameraDownloadSuccessEvent td photo) TOPIC_CAMERA_EVENT)))
       (\<lambda>e. case e of
          FilesystemError w c \<Rightarrow> Some (broker_post (Event EV_CAMERA_DOWNLOAD_ERROR) TOPIC_CAMERA_EVENT)
        | GPhotoError c \<Rightarrow>
            Some (broker_post (CameraErrorEvent EV_CAMERA_GENERIC_ERROR c) TOPIC_CAMERA_EVENT)
        | _ \<Rightarrow> None)))"

text \<open>\<open>while (!deferred_events.isEmpty()) postEvent(deferred_events.pop());\<close> with a bound.\<close>

definition deref :: "event option \<Rightarrow> exn + event" where
  "deref p = (case p of Some ev \<Rightarrow> Inr ev | None \<Rightarrow> Inl (Undefined ''null event''))"

fun flush_deferred :: "nat \<Rightarrow> ('g, unit) ctl" where
  "flush_deferred 0 = raise Diverged"
| "flush_deferred (Suc n) =
     bnd (reads (\<lambda>m. isEmpty (deferred_events m))) (\<lambda>e.
     if \<not> e then
       bnd (on_member deferred_events deferred_events_update cb_pop) (\<lambda>p.
       bnd (of_sum (deref p)) (\<lambda>ev. sq (postEvent ev) (flush_deferred n)))
     else ret ())"

subsection \<open>State handlers\<close>

definition stateInit :: "event \<Rightarrow> ('g, State) ctl" where
  "stateInit ev = transition Disconnected"

definition stateDisconnected :: "event \<Rightarrow> ('g, State) ctl" where
  "stateDisconnected ev =
     (if sig ev = EV_ENTRY then ret HANDLED
      else if sig ev = EV_INIT then ret HANDLED
      else if sig ev = EV_EXIT then ret HANDLED
      else if sig ev = EV_CAMERA_CONNECT then transition Connecting
      else tran_super Top)"

definition stateConnecting :: "'g gphoto \<Rightarrow> event \<Rightarrow> ('g, State) ctl" where
  "stateConnecting E ev =
     (if sig ev = EV_ENTRY then sq (controller_connect E) (ret HANDLED)
      else if sig ev = EV_INIT then ret HANDLED
      else if sig ev = EV_EXIT then ret HANDLED
      else if sig ev = EV_CAMERA_CONNECTION_ERROR then transition Error
      else if sig ev = EV_CAMERA_GENERIC_ERROR then
        bnd (of_sum (as_CameraErrorEvent ev)) (\<lambda>_. ret HANDLED)
      else if sig ev = EV_CAMERA_CONNECTED then
        sq (setConfig E) (sq (readStatus E) (sq (readOptions E) (transition Connected)))
      else tran_super Top)"

definition stateError :: "'g gphoto \<Rightarrow> event \<Rightarrow> ('g, State) ctl" where
  "stateError E ev =
     (if sig ev = EV_ENTRY then sq (controller_disconnect E) (ret HANDLED)
      else if sig ev = EV_INIT then ret HANDLED
      else if sig ev = EV_EXIT then ret HANDLED
      else if sig ev = EV_CAMERA_CONNECT then transition Connecting
      else tran_super Top)"

definition stateConnected :: "event \<Rightarrow> ('g, State) ctl" where
  "stateConnected ev =
     (if sig ev = EV_ENTRY then
        sq (modify (\<lambda>m. m\<lparr>reconnect_attempts := MAX_RECONNECT_ATTEMPS\<rparr>)) (ret HANDLED)
      else if sig ev = EV_INIT then transition Idle
      else if sig ev = EV_EXIT then ret HANDLED
      else if sig ev = EV_CAMERA_GENERIC_ERROR then
        bnd (of_sum (as_CameraErrorEvent ev)) (\<lambda>errorcode.
        if criticalError errorcode then transition Error else ret HANDLED)
      else if sig ev \<in> {EV_CAMERA_SET_CONFIG, EV_CAMERA_GET_STATUS, EV_CAMERA_GET_OPTIONS,
          EV_CAMERA_CAPTURE_WIRED, EV_CAMERA_DOWNLOAD} then
        sq (modify (\<lambda>m. m\<lparr>deferred_events := cb_put (Some ev) (deferred_events m)\<rparr>)) (ret HANDLED)
      else tran_super Top)"

definition stateIdle :: "'g gphoto \<Rightarrow> event \<Rightarrow> ('g, State) ctl" where
  "stateIdle E ev =
     (if sig ev = EV_ENTRY then
        bnd (cam (isResponsive E)) (\<lambda>ok.
        if \<not> ok then transition Error
        else sq (readStatus E) (sq (flush_deferred (Suc DEFERRED_SIZE)) (ret HANDLED)))
      else if sig ev = EV_INIT then ret HANDLED
      else if sig ev = EV_EXIT then ret HANDLED
      else if sig ev = EV_CAMERA_SET_CONFIG then
        bnd (of_sum (as_CameraConfigEvent ev)) (\<lambda>cf.
        sq (modify (\<lambda>m. m\<lparr>camera_config := cf\<rparr>))
        (sq (setConfig E) (sq (readStatus E) (ret HANDLED))))
      else if sig ev = EV_CAMERA_GET_STATUS then sq (readStatus E) (ret HANDLED)
      else if sig ev = EV_CAMERA_GET_OPTIONS then sq (readOptions E) (ret HANDLED)
      else if sig ev = EV_CAMERA_CAPTURE_WIRED then transition CaptureWired
      else if sig ev = EV_CAMERA_DOWNLOAD then
        bnd (of_sum (as_CameraDownloadEvent ev)) (\<lambda>p.
        sq (modify (\<lambda>m. m\<lparr>to_download := p\<rparr>)) (transition Downloading))
      else if sig ev = EV_CAMERA_DISCONNECT then transition Disconnected
      else tran_super Connected)"

definition stateCaptureWired :: "'g gphoto \<Rightarrow> event \<Rightarrow> ('g, State) ctl" where
  "stateCaptureWired E ev =
     (if sig ev = EV_ENTRY then
        bnd (cam (isResponsive E)) (\<lambda>ok.
        if \<not> ok then transition Error else sq (captureWired E) (ret HANDLED))
      else if sig ev = EV_INIT then ret HANDLED
      else if sig ev = EV_EXIT then ret HANDLED
      else if sig ev = EV_CAMERA_CAPTURE_ERROR then transition Error
      else if sig ev = EV_CAMERA_CAPTURE_SUCCESS then
        bnd (of_sum (as_CameraCaptureSuccessEvent ev)) (\<lambda>_. transition Idle)
      else tran_super Connected)"

definition stateDownloading :: "'g gphoto \<Rightarrow> event \<Rightarrow> ('g, State) ctl" where
  "stateDownloading E ev =
     (if sig ev = EV_ENTRY then
        bnd (cam (isResponsive E)) (\<lambda>ok.
        if \<not> ok then transition Error else sq (download E) (ret HANDLED))
      else if sig ev = EV_INIT then ret HANDLED
      else if sig ev = EV_EXIT then ret HANDLED
      else if sig ev = EV_CAMERA_DOWNLOAD_ERROR \<or> sig ev = EV_CAMERA_DOWNLOAD_SUCCESS then
        transition Idle
      else tran_super Connected)"

text \<open>The member function a handler name stands for.\<close>

fun hdl :: "'g gphoto \<Rightarrow> hstate \<Rightarrow> event \<Rightarrow> ('g, State) ctl" where
  "hdl E Top = top_handler"
| "hdl E Init = stateInit"
| "hdl E Disconnected = stateDisconnected"
| "hdl E Connecting = stateConnecting E"
| "hdl E Error = stateError E"
| "hdl E Connected = stateConnected"
| "hdl E Idle = stateIdle E"
| "hdl E CaptureWired = stateCaptureWired E"
| "hdl E Downloading = stateDownloading E"

subsection \<open>Life of the object\<close>

definition CameraController_new :: "'g CameraWrapper \<Rightarrow> string \<Rightarrow> handler EventBroker \<Rightarrow> 'g controller" where
  "CameraController_new c dir b =
     \<lparr>state = Top, temp = Init, reconnect_attempts = 0, deferred_events = cb_new None DEFERRED_SIZE,
      camera_config = default_config, camera_obj = c, to_download = empty_path, download_dir = dir,
      eventList = [],
      broker = snd (subscribe CC TOPIC_CAMERA_EVENT (snd (subscribe CC TOPIC_CAMERA_CMD b))),
      delivered = []\<rparr>"

text \<open>\<open>start\<close> runs \<open>init\<close>; then the thread takes one event after the other.\<close>

definition controller_init :: "'g gphoto \<Rightarrow> ('g, unit) ctl" where
  "controller_init E = hsm_init HSM_MAX_NEST_DEPTH (hdl E)"

definition controller_handle :: "'g gphoto \<Rightarrow> event \<Rightarrow> ('g, unit) ctl" where
  "controller_handle E ev = handleEvent HSM_MAX_NEST_DEPTH (hdl E) ev"

text \<open>
  At most \<open>n\<close> iterations of \<open>run\<close>, until the queue is empty and \<open>eventList.get()\<close> would wait.
\<close>

fun controller_run :: "nat \<Rightarrow> 'g gphoto \<Rightarrow> ('g, unit) ctl" where
  "controller_run 0 E = ret ()"
| "controller_run (Suc n) E = bnd (reads eventList) (\<lambda>q.
     case q of
       [] \<Rightarrow> ret ()
     | ev # rest \<Rightarrow>
         sq (modify (\<lambda>m. m\<lparr>eventList := rest\<rparr>))
         (sq (controller_handle E ev) (controller_run n E)))"

end
