(* ===== verification/Controller_Spec.thy ===== *)
theory Controller_Spec
  imports Camera_Controller HSM_Correct Sim_Camera
begin

text \<open>
  The camera controller as a flat state machine. \<open>react\<close> gives, for a resting state and an
  event, the actions the controller performs and the state it comes to rest in; it knows
  nothing of the engine, of superstates or of the scratch pointer. The theorem: run on the
  engine of \<open>HSM.h\<close>, the handlers of \<open>CameraController\<close> behave like this machine, for every
  library, every camera and every event but a posted \<open>EV_ENTRY\<close>.

  The handlers keep the contract \<open>hsm_tree\<close>, so the result is the engine's refinement
  theorem for this tree and an evaluation of its specification in each state.
\<close>

subsection \<open>The tree of states\<close>

fun cc_par :: "hstate \<Rightarrow> hstate" where
  "cc_par Idle = Connected"
| "cc_par CaptureWired = Connected"
| "cc_par Downloading = Connected"
| "cc_par _ = Top"

fun cc_lev :: "hstate \<Rightarrow> nat" where
  "cc_lev Top = 0"
| "cc_lev Idle = 2"
| "cc_lev CaptureWired = 2"
| "cc_lev Downloading = 2"
| "cc_lev _ = 1"

definition cc_states :: "hstate set" where
  "cc_states = {Top, Disconnected, Connecting, Error, Connected, Idle, CaptureWired, Downloading}"

subsection \<open>Actions ignore the scratch pointer\<close>

lemma forget_eq_temp:
  assumes "forget m = forget m'"
  obtains x where "m' = m\<lparr>temp := x\<rparr>"
proof -
  have "(forget m)\<lparr>temp := temp m'\<rparr> = (forget m')\<lparr>temp := temp m'\<rparr>" using assms by simp
  then show ?thesis using that [of "temp m'"] by (simp add: forget_def)
qed

lemma blindI:
  assumes "\<And>m x. agree (f m) (f (m\<lparr>temp := x\<rparr>))"
  shows "matches f f"
  unfolding matches_def using assms by (metis forget_eq_temp)

lemma blind_basic [blind_intros]:
  "matches (ret x) (ret x)" "matches (raise e) (raise e)" "matches (of_sum r) (of_sum r)"
  by (simp_all add: matches_def agree_def)

lemma blind_reads [blind_intros]:
  "(\<And>m x. f (m\<lparr>temp := x\<rparr>) = f m) \<Longrightarrow> matches (reads f) (reads f)"
  by (rule blindI) (simp add: agree_def)

lemma blind_modify [blind_intros]:
  "(\<And>m x. g (m\<lparr>temp := x\<rparr>) = (g m)\<lparr>temp := x\<rparr>) \<Longrightarrow> matches (modify g) (modify g)"
  by (rule blindI) (simp add: agree_def)

lemma blind_on_member [blind_intros]:
  assumes "\<And>m x. sel (m\<lparr>temp := x\<rparr>) = sel m" "\<And>f m x. upd f (m\<lparr>temp := x\<rparr>) = (upd f m)\<lparr>temp := x\<rparr>"
  shows "matches (on_member sel upd k) (on_member sel upd k)"
  by (rule blindI) (simp add: agree_def on_member_def assms split: prod.split)

lemma blind_try_catch [blind_intros]:
  assumes "matches m m" "\<And>e k. h e = Some k \<Longrightarrow> matches k k"
  shows "matches (try_catch m h) (try_catch m h)"
  unfolding matches_def
proof (intro allI impI, goal_cases)
  case (1 s s')
  then have a: "agree (m s) (m s')" by (rule matchesD [OF assms(1)])
  obtain r t t' where r: "m s = (r, t)" "m s' = (r, t')" "forget t = forget t'"
    using a by (cases "m s"; cases "m s'") (auto simp: agree_def)
  show ?case
  proof (cases "\<exists>e k. r = Inl e \<and> h e = Some k")
    case True
    then obtain e k where "r = Inl e" "h e = Some k" by blast
    then show ?thesis using r matchesD [OF assms(2) r(3)] by (simp add: try_catch_def)
  next
    case False
    then show ?thesis using r
      by (auto simp: try_catch_def agree_def split: sum.splits option.splits)
  qed
qed

lemmas blind_compose = matches_bnd [where f = f and g = f for f] matches_sq

lemma blind_if [blind_intros]:
  "(b \<Longrightarrow> matches m m') \<Longrightarrow> (\<not> b \<Longrightarrow> matches n n') \<Longrightarrow>
    matches (if b then m else n) (if b then m' else n')"
  by simp

lemma blind_option [blind_intros]:
  "matches m m \<Longrightarrow> (\<And>x. matches (f x) (f x)) \<Longrightarrow>
    matches (case v of None \<Rightarrow> m | Some x \<Rightarrow> f x) (case v of None \<Rightarrow> m | Some x \<Rightarrow> f x)"
  by (simp split: option.split)

lemma blind_sum [blind_intros]:
  "(\<And>x. matches (g x) (g x)) \<Longrightarrow> (\<And>x. matches (f x) (f x)) \<Longrightarrow>
    matches (case v of Inl x \<Rightarrow> g x | Inr x \<Rightarrow> f x) (case v of Inl x \<Rightarrow> g x | Inr x \<Rightarrow> f x)"
  by (simp split: sum.split)

lemma blind_prod [blind_intros]:
  "(\<And>x y. matches (f x y) (f x y)) \<Longrightarrow>
    matches (case v of (x, y) \<Rightarrow> f x y) (case v of (x, y) \<Rightarrow> f x y)"
  by (simp split: prod.split)

lemma blind_cam [blind_intros]: "matches (cam f) (cam f)"
  unfolding cam_def by (rule blind_on_member) simp_all

lemma blind_postEvent [blind_intros]: "matches (postEvent ev) (postEvent ev)"
  unfolding postEvent_def by (rule blind_modify) simp

lemma blind_post [blind_intros]: "matches (broker_post ev t) (broker_post ev t)"
proof -
  have d: "matches (deliver h ev) (deliver h ev)" for h
    unfolding deliver_def
    by (cases h) (auto intro!: matches_sq blind_intros)
  have "matches (deliver_each deliver ev hs) (deliver_each deliver ev hs)" for hs
    by (induction hs) (auto intro!: matches_sq blind_intros d)
  then show ?thesis
    unfolding broker_post_def post_def by (auto intro!: matches_bnd blind_intros)
qed

lemma blind_catch [blind_intros]:
  "matches m m \<Longrightarrow> (\<And>c. matches (h c) (h c)) \<Longrightarrow> matches (catch_gphoto m h) (catch_gphoto m h)"
  unfolding catch_gphoto_def
  by (rule blind_try_catch) (auto split: exn.splits)

lemma blind_actions [blind_intros]:
  "matches (controller_connect E) (controller_connect E)"
  "matches (controller_disconnect E) (controller_disconnect E)"
  "matches (postGPhotoError c) (postGPhotoError c)"
  "matches (captureWired E) (captureWired E)"
  unfolding controller_connect_def controller_disconnect_def postGPhotoError_def captureWired_def
  by (intro matches_bnd matches_sq blind_intros)+

lemma blind_camera_actions [blind_intros]:
  "matches (setConfig E) (setConfig E)"
  "matches (readStatus E) (readStatus E)"
  "matches (readOptions E) (readOptions E)"
  unfolding setConfig_def readStatus_def readOptions_def
  by (intro matches_bnd matches_sq blind_intros; simp)+

lemma blind_download [blind_intros]: "matches (download E) (download E)"
  unfolding download_def Let_def
  by (intro matches_bnd matches_sq blind_intros; (simp split: exn.splits)?)
    (auto split: exn.splits intro!: blind_intros)

lemma blind_flush [blind_intros]: "matches (flush_deferred n) (flush_deferred n)"
  by (induction n) (simp_all only: flush_deferred.simps blind_basic,
    (intro matches_bnd matches_sq blind_intros; simp?))

subsection \<open>The flat machine\<close>

text \<open>The reactions the substates of \<open>Connected\<close> inherit; \<open>h\<close> is the substate.\<close>

definition connected_default :: "'g gphoto \<Rightarrow> hstate \<Rightarrow> event \<Rightarrow> ('g, hstate) ctl" where
  "connected_default E h ev =
     (if sig ev = EV_CAMERA_GENERIC_ERROR then
        bnd (of_sum (as_CameraErrorEvent ev)) (\<lambda>c.
        if criticalError c then sq (controller_disconnect E) (ret Error) else ret h)
      else if sig ev \<in> {EV_CAMERA_SET_CONFIG, EV_CAMERA_GET_STATUS, EV_CAMERA_GET_OPTIONS,
          EV_CAMERA_CAPTURE_WIRED, EV_CAMERA_DOWNLOAD} then
        sq (modify (\<lambda>m. m\<lparr>deferred_events := cb_put (Some ev) (deferred_events m)\<rparr>)) (ret h)
      else ret h)"

text \<open>
  Entering the substates. An unresponsive camera is only noticed: the transition the entry
  action asks for is dropped, and the machine stays.
\<close>

definition enter_Idle :: "'g gphoto \<Rightarrow> ('g, hstate) ctl" where
  "enter_Idle E = bnd (cam (isResponsive E)) (\<lambda>ok.
     if \<not> ok then ret Idle
     else sq (readStatus E) (sq (flush_deferred (Suc DEFERRED_SIZE)) (ret Idle)))"

definition enter_CaptureWired :: "'g gphoto \<Rightarrow> ('g, hstate) ctl" where
  "enter_CaptureWired E = bnd (cam (isResponsive E)) (\<lambda>ok.
     if \<not> ok then ret CaptureWired else sq (captureWired E) (ret CaptureWired))"

definition enter_Downloading :: "'g gphoto \<Rightarrow> ('g, hstate) ctl" where
  "enter_Downloading E = bnd (cam (isResponsive E)) (\<lambda>ok.
     if \<not> ok then ret Downloading else sq (download E) (ret Downloading))"

fun react :: "'g gphoto \<Rightarrow> hstate \<Rightarrow> event \<Rightarrow> ('g, hstate) ctl" where
  "react E Disconnected ev =
     (if sig ev = EV_CAMERA_CONNECT then sq (controller_connect E) (ret Connecting)
      else ret Disconnected)"
| "react E Error ev =
     (if sig ev = EV_CAMERA_CONNECT then sq (controller_connect E) (ret Connecting) else ret Error)"
| "react E Connecting ev =
     (if sig ev = EV_CAMERA_CONNECTION_ERROR then sq (controller_disconnect E) (ret Error)
      else if sig ev = EV_CAMERA_GENERIC_ERROR then
        bnd (of_sum (as_CameraErrorEvent ev)) (\<lambda>_. ret Connecting)
      else if sig ev = EV_CAMERA_CONNECTED then
        sq (setConfig E) (sq (readStatus E) (sq (readOptions E)
        (sq (modify (\<lambda>m. m\<lparr>reconnect_attempts := MAX_RECONNECT_ATTEMPS\<rparr>)) (enter_Idle E))))
      else ret Connecting)"
| "react E Idle ev =
     (if sig ev = EV_CAMERA_SET_CONFIG then
        bnd (of_sum (as_CameraConfigEvent ev)) (\<lambda>cf.
        sq (modify (\<lambda>m. m\<lparr>camera_config := cf\<rparr>))
        (sq (setConfig E) (sq (readStatus E) (ret Idle))))
      else if sig ev = EV_CAMERA_GET_STATUS then sq (readStatus E) (ret Idle)
      else if sig ev = EV_CAMERA_GET_OPTIONS then sq (readOptions E) (ret Idle)
      else if sig ev = EV_CAMERA_CAPTURE_WIRED then enter_CaptureWired E
      else if sig ev = EV_CAMERA_DOWNLOAD then
        bnd (of_sum (as_CameraDownloadEvent ev)) (\<lambda>p.
        sq (modify (\<lambda>m. m\<lparr>to_download := p\<rparr>)) (enter_Downloading E))
      else if sig ev = EV_CAMERA_DISCONNECT then ret Disconnected
      else connected_default E Idle ev)"
| "react E CaptureWired ev =
     (if sig ev = EV_CAMERA_CAPTURE_ERROR then sq (controller_disconnect E) (ret Error)
      else if sig ev = EV_CAMERA_CAPTURE_SUCCESS then
        bnd (of_sum (as_CameraCaptureSuccessEvent ev)) (\<lambda>_. enter_Idle E)
      else connected_default E CaptureWired ev)"
| "react E Downloading ev =
     (if sig ev = EV_CAMERA_DOWNLOAD_ERROR \<or> sig ev = EV_CAMERA_DOWNLOAD_SUCCESS then enter_Idle E
      else connected_default E Downloading ev)"
| "react E h ev = ret h"

definition flat_handle :: "'g gphoto \<Rightarrow> event \<Rightarrow> ('g, unit) ctl" where
  "flat_handle E ev = bnd (reads state) (\<lambda>h. bnd (react E h ev) settle)"

definition rest_states :: "hstate set" where
  "rest_states = {Disconnected, Connecting, Error, Idle, CaptureWired, Downloading}"

subsection \<open>The contract of the handlers\<close>

lemmas handler_defs = stateDisconnected_def stateConnecting_def stateError_def stateConnected_def
  stateIdle_def stateCaptureWired_def stateDownloading_def top_handler_def

text \<open>Which result and which scratch pointer a computation may end with.\<close>

definition yields :: "('a \<Rightarrow> 's \<Rightarrow> bool) \<Rightarrow> ('s, 'a) comp \<Rightarrow> bool" where
  "yields P m \<longleftrightarrow> (\<forall>s r t. m s = (Inr r, t) \<longrightarrow> P r t)"

lemma yields_rules:
  "(\<And>s. P x s) \<Longrightarrow> yields P (ret x)"
  "(\<And>x. yields P (f x)) \<Longrightarrow> yields P (bnd k f)"
  "yields P n \<Longrightarrow> yields P (sq k' n)"
  "(b \<Longrightarrow> yields P m1) \<Longrightarrow> (\<not> b \<Longrightarrow> yields P m2) \<Longrightarrow> yields P (if b then m1 else m2)"
  by (auto simp: yields_def run_simps sq_def elim!: bnd_InrE)

lemma yields_transition:
  "(\<And>m. P TRAN (m\<lparr>temp := h\<rparr>)) \<Longrightarrow> yields P (transition h)"
  "(\<And>m. P SUPER (m\<lparr>temp := h\<rparr>)) \<Longrightarrow> yields P (tran_super h)"
  by (simp_all add: yields_def transition_def tran_super_def run_simps)

lemma handler_yields:
  assumes "h \<in> cc_states"
  shows "yields (\<lambda>r m. (r = SUPER \<longrightarrow> temp m = cc_par h)
    \<and> (r = TRAN \<longrightarrow> temp m \<in> cc_states \<and> temp m \<noteq> Top)) (hdl E h ev)"
proof (cases h)
  case Init
  then show ?thesis using assms by (simp add: cc_states_def)
qed (auto simp: handler_defs cc_states_def intro!: yields_rules yields_transition)

lemma handler_init:
  "h \<in> cc_states \<Longrightarrow> h \<noteq> Top \<Longrightarrow> hdl E h C_EV_INIT =
    (if h = Connected then transition Idle else ret HANDLED)"
  by (cases h) (simp_all add: handler_defs cc_states_def)

lemma handler_exit: "h \<in> cc_states \<Longrightarrow> h \<noteq> Top \<Longrightarrow> hdl E h C_EV_EXIT = ret HANDLED"
  by (cases h) (simp_all add: handler_defs cc_states_def)

lemma handler_empty: "h \<in> cc_states \<Longrightarrow> h \<noteq> Top \<Longrightarrow> hdl E h C_EV_EMPTY = tran_super (cc_par h)"
  by (cases h) (simp_all add: handler_defs cc_states_def)

lemma blind_transition [blind_intros]: "matches (transition h) (transition h)"
  by (simp add: transition_def matches_def agree_def run_simps)

lemma handler_entry_blind:
  "h \<in> cc_states \<Longrightarrow> h \<noteq> Top \<Longrightarrow> matches (hdl E h C_EV_ENTRY) (hdl E h C_EV_ENTRY)"
  by (cases h) (simp_all add: handler_defs cc_states_def,
    (intro matches_bnd matches_sq blind_intros; simp?)+)

lemma transition_run: "transition h m = (Inr TRAN, m\<lparr>temp := h\<rparr>)"
  by (simp add: transition_def run_simps)

lemma tran_super_run: "tran_super h m = (Inr SUPER, m\<lparr>temp := h\<rparr>)"
  by (simp add: tran_super_def run_simps)

interpretation cc: hsm_tree "hdl E" Top cc_par cc_lev cc_states for E :: "'g gphoto"
proof (unfold_locales, goal_cases)
  case (1 h)
  then show ?case by (auto simp: cc_states_def)
next
  case (2 h)
  then show ?case by (auto simp: cc_states_def)
next
  case (3 h)
  then show ?case by (cases h) (simp_all add: HSM_MAX_NEST_DEPTH_def)
next
  case (4 e m)
  then show ?case by (simp add: top_handler_def run_simps)
next
  case (5 h m)
  then show ?case by (simp add: handler_empty tran_super_run)
next
  case (6 h m)
  then show ?case by (simp add: handler_exit)
next
  case (7 h)
  then show ?case by (simp add: handler_exit)
next
  case (8 h)
  then show ?case by (rule handler_entry_blind)
next
  case (9 h)
  then show ?case by (simp add: handler_init blind_transition)
next
  case (10 h m m' x)
  then show ?case
    by (auto simp: handler_init transition_run run_simps cc_states_def up_def numeral_2_eq_2
        split: if_splits)
next
  case (11 h e m m')
  then show ?case using handler_yields [of h E e] unfolding yields_def by blast
next
  case (12 h e m m')
  then show ?case using handler_yields [of h E e] unfolding yields_def by blast
qed

subsection \<open>The engine's specification, evaluated\<close>

lemma bnd_if: "bnd (if b then m else n) f = (if b then bnd m f else bnd n f)"
  by simp

lemma temp_then_read:
  "bnd (modify (\<lambda>m. m\<lparr>temp := x\<rparr>)) (\<lambda>_. bnd (reads temp) F) =
   bnd (modify (\<lambda>m. m\<lparr>temp := x\<rparr>)) (\<lambda>_. F x)"
  by (rule ext) simp

lemma matches_drop: "matches f g \<Longrightarrow> matches (bnd (modify (\<lambda>m. m\<lparr>temp := x\<rparr>)) (\<lambda>_. f)) g"
  by (simp add: matches_def)

lemma matches_settle: "matches (settle h) (settle h)"
  by (rule blindI) (simp add: settle_def agree_def)

lemma cc_up [simp]:
  "up cc_par cc_lev Top = [Top]"
  "up cc_par cc_lev Disconnected = [Disconnected, Top]"
  "up cc_par cc_lev Connecting = [Connecting, Top]"
  "up cc_par cc_lev Error = [Error, Top]"
  "up cc_par cc_lev Connected = [Connected, Top]"
  "up cc_par cc_lev Idle = [Idle, Connected, Top]"
  "up cc_par cc_lev CaptureWired = [CaptureWired, Connected, Top]"
  "up cc_par cc_lev Downloading = [Downloading, Connected, Top]"
  by (simp_all add: up_def numeral_2_eq_2)

lemma depth_5: "HSM_MAX_NEST_DEPTH = Suc (Suc (Suc (Suc (Suc 0))))"
  by (simp add: HSM_MAX_NEST_DEPTH_def)

lemma spec_at_rest:
  assumes "temp m = h" "state m = h"
  shows "spec_handleEvent cc_par cc_lev n (hdl E) ev m =
    bnd (modify (\<lambda>m. m\<lparr>temp := h\<rparr>)) (\<lambda>_. bnd (dispatch n (hdl E) ev) (\<lambda>(source, retState).
      bnd (if retState = TRAN
           then bnd (reads temp) (\<lambda>t. spec_transition cc_par cc_lev n (hdl E) h source t)
           else ret h) settle)) m"
proof -
  have "m\<lparr>temp := state m\<rparr> = m" using assms by simp
  then show ?thesis unfolding assms(2) [symmetric] by (simp add: spec_handleEvent_def)
qed

lemmas eval_simps = depth_5 bnd_assoc sq_def temp_then_read bnd_if handler_defs transition_def
  tran_super_def spec_transition_def exits_def entries_def lca_def flat_handle_def
  connected_default_def enter_Idle_def enter_CaptureWired_def enter_Downloading_def

lemmas match_rules = matches_drop matches_settle matches_bnd [where g = f and f = f for f]
  blind_intros

text \<open>
  In every resting state the specified step is the reaction of the flat machine, up to the
  scratch pointer.
\<close>

lemma spec_is_react:
  assumes "sig ev \<noteq> EV_ENTRY" "h \<in> rest_states"
  shows "matches
    (bnd (modify (\<lambda>m. m\<lparr>temp := h\<rparr>)) (\<lambda>_. bnd (dispatch HSM_MAX_NEST_DEPTH (hdl E) ev) (\<lambda>(source, retState).
      bnd (if retState = TRAN
           then bnd (reads temp) (\<lambda>t. spec_transition cc_par cc_lev HSM_MAX_NEST_DEPTH (hdl E) h source t)
           else ret h) settle)))
    (bnd (react E h ev) settle)"
proof -
  consider "h = Disconnected" | "h = Connecting" | "h = Error" | "h = Idle" | "h = CaptureWired"
    | "h = Downloading" using assms(2) by (auto simp: rest_states_def)
  then show ?thesis
  proof cases
    case 1
    show ?thesis unfolding 1 using assms(1)
      by (simp add: eval_simps del: bnd_reads bnd_modify sq_modify) (intro conjI impI;
        (rule match_rules | simp add: eval_simps del: bnd_reads bnd_modify sq_modify)+)
  next
    case 2
    show ?thesis unfolding 2 using assms(1)
      by (simp add: eval_simps del: bnd_reads bnd_modify sq_modify) (intro conjI impI;
        (rule match_rules | simp add: eval_simps del: bnd_reads bnd_modify sq_modify)+)
  next
    case 3
    show ?thesis unfolding 3 using assms(1)
      by (simp add: eval_simps del: bnd_reads bnd_modify sq_modify) (intro conjI impI;
        (rule match_rules | simp add: eval_simps del: bnd_reads bnd_modify sq_modify)+)
  next
    case 4
    show ?thesis unfolding 4 using assms(1)
      by (simp add: eval_simps del: bnd_reads bnd_modify sq_modify) (intro conjI impI;
        (rule match_rules | simp add: eval_simps del: bnd_reads bnd_modify sq_modify)+)
  next
    case 5
    show ?thesis unfolding 5 using assms(1)
      by (simp add: eval_simps del: bnd_reads bnd_modify sq_modify) (intro conjI impI;
        (rule match_rules | simp add: eval_simps del: bnd_reads bnd_modify sq_modify)+)
  next
    case 6
    show ?thesis unfolding 6 using assms(1)
      by (simp add: eval_simps del: bnd_reads bnd_modify sq_modify) (intro conjI impI;
        (rule match_rules | simp add: eval_simps del: bnd_reads bnd_modify sq_modify)+)
  qed
qed


lemma controller_flat:
  assumes "sig ev \<noteq> EV_ENTRY" "state m \<in> rest_states" "temp m = state m"
  shows "agree (controller_handle E ev m) (flat_handle E ev m)"
proof -
  have "state m \<in> cc_states" using assms(2) by (auto simp: rest_states_def cc_states_def)
  then have "agree (controller_handle E ev m) (spec_handleEvent cc_par cc_lev HSM_MAX_NEST_DEPTH (hdl E) ev m)"
    unfolding controller_handle_def by (rule cc.handleEvent_refines [OF assms(3) _ order_refl])
  also have "agree \<dots> (bnd (react E (state m) ev) settle m)"
    unfolding spec_at_rest [OF assms(3) refl] by (rule matchesD [OF spec_is_react [OF assms(1,2)] refl])
  finally (agree_trans) show ?thesis by (simp add: flat_handle_def)
qed

text \<open>
  C1. The camera controller is the flat state machine \<open>react\<close>. For every library, every camera
  and every event other than a posted \<open>EV_ENTRY\<close>: from a resting state, handling the
  event on the hierarchical engine performs the actions of \<open>react\<close>, in its order,
  throws what they throw, and leaves the same object (up to the engine's scratch pointer) in
  the state \<open>react\<close> returns.
\<close>

theorem controller_refines_flat:
  assumes "sig ev \<noteq> EV_ENTRY" "state m \<in> rest_states" "temp m = state m"
  shows "agree (controller_handle E ev m) (flat_handle E ev m)"
  using assms by (rule controller_flat)

text \<open>A controller at rest in a state, for the witnesses.\<close>

definition sim_controller :: "sim \<Rightarrow> hstate \<Rightarrow> sim controller" where
  "sim_controller g h =
     (CameraController_new (CameraWrapper_new sim_lib g) ''photos'' EventBroker_new)
       \<lparr>state := h, temp := h\<rparr>"

theorem controller_refines_flat_witness:
  "agree (controller_handle sim_lib (Event EV_CAMERA_CONNECT) (sim_controller sim0 Disconnected))
     (flat_handle sim_lib (Event EV_CAMERA_CONNECT) (sim_controller sim0 Disconnected))"
  by (rule controller_refines_flat) (simp_all add: sim_controller_def rest_states_def)

theorem engine_refines_hierarchy_witness:
  "agree (handleEvent HSM_MAX_NEST_DEPTH (hdl sim_lib) (Event EV_CAMERA_DISCONNECT) (sim_controller sim0 Idle))
     (spec_handleEvent cc_par cc_lev HSM_MAX_NEST_DEPTH (hdl sim_lib) (Event EV_CAMERA_DISCONNECT)
       (sim_controller sim0 Idle))"
  by (rule engine_refines_hierarchy [OF cc.hsm_tree_axioms, THEN conjunct1])
    (simp_all add: sim_controller_def cc_states_def)

end
