(* ===== verification/Controller_Props.thy ===== *)
theory Controller_Props
  imports Controller_Spec Camera_Resources
begin

text \<open>
  What the camera controller guarantees, derived from the flat machine of theory
  \<open>Controller_Spec\<close>: how it starts, which state follows which event, what it posts, what
  can escape from it, that deferred commands come back in order, that every event it posts is
  of the class its receivers cast it to, and that the camera's resources stay sound.
\<close>

subsection \<open>From the flat machine to the controller\<close>

lemma agree_result:
  assumes "agree (controller_handle E ev m) (flat_handle E ev m)" "controller_handle E ev m = (r, m')"
  obtains m2 where "flat_handle E ev m = (r, m2)" "forget m2 = forget m'"
  using assms by (cases "flat_handle E ev m") (auto simp: agree_def)

lemma forget_sel:
  assumes "forget m = forget m'"
  shows "reconnect_attempts m = reconnect_attempts m'" "deferred_events m = deferred_events m'"
    "camera_config m = camera_config m'" "camera_obj m = camera_obj m'"
    "to_download m = to_download m'" "download_dir m = download_dir m'"
    "eventList m = eventList m'" "broker m = broker m'" "delivered m = delivered m'"
    "state m = state m'"
proof -
  obtain x where "m' = m\<lparr>temp := x\<rparr>" using assms by (rule forget_eq_temp)
  then show "reconnect_attempts m = reconnect_attempts m'" "deferred_events m = deferred_events m'"
    "camera_config m = camera_config m'" "camera_obj m = camera_obj m'"
    "to_download m = to_download m'" "download_dir m = download_dir m'"
    "eventList m = eventList m'" "broker m = broker m'" "delivered m = delivered m'"
    "state m = state m'" by simp_all
qed

subsection \<open>Starting\<close>

lemma controller_init_result:
  "controller_init E (CameraController_new c dir b) =
     (Inr (), (CameraController_new c dir b)\<lparr>state := Disconnected, temp := Disconnected\<rparr>)"
  by (simp add: controller_init_def hsm_init_def depth_5 CameraController_new_def stateInit_def
      stateDisconnected_def transition_def tran_super_def top_handler_def path_set_def path_get_def path_new_def
      HSM_MAX_NEST_DEPTH_def settle_def bnd_def sq_def run_simps)

text \<open>
  Starting the controller brings it to rest in \<open>Disconnected\<close>, for every library: \<open>init\<close>
  passes its assertion and every check, no loop reaches its bound, nothing is thrown or
  posted, and the camera is not touched.
\<close>

theorem controller_starts_disconnected:
  "controller_init E (CameraController_new c dir b) =
     (Inr (), (CameraController_new c dir b)\<lparr>state := Disconnected, temp := Disconnected\<rparr>)"
  by (rule controller_init_result)

subsection \<open>The next state\<close>

text \<open>The state the machine comes to rest in: a function of the state and the event alone.\<close>

definition after_error :: "hstate \<Rightarrow> event \<Rightarrow> hstate" where
  "after_error h ev =
     (case ev of CameraErrorEvent s c \<Rightarrow>
        if s = EV_CAMERA_GENERIC_ERROR \<and> criticalError c then Error else h | _ \<Rightarrow> h)"

fun next_state :: "hstate \<Rightarrow> event \<Rightarrow> hstate" where
  "next_state Disconnected ev = (if sig ev = EV_CAMERA_CONNECT then Connecting else Disconnected)"
| "next_state Error ev = (if sig ev = EV_CAMERA_CONNECT then Connecting else Error)"
| "next_state Connecting ev =
     (if sig ev = EV_CAMERA_CONNECTION_ERROR then Error
      else if sig ev = EV_CAMERA_CONNECTED then Idle else Connecting)"
| "next_state Idle ev =
     (if sig ev = EV_CAMERA_CAPTURE_WIRED then CaptureWired
      else if sig ev = EV_CAMERA_DOWNLOAD then Downloading
      else if sig ev = EV_CAMERA_DISCONNECT then Disconnected
      else after_error Idle ev)"
| "next_state CaptureWired ev =
     (if sig ev = EV_CAMERA_CAPTURE_ERROR then Error
      else if sig ev = EV_CAMERA_CAPTURE_SUCCESS then Idle
      else after_error CaptureWired ev)"
| "next_state Downloading ev =
     (if sig ev = EV_CAMERA_DOWNLOAD_ERROR \<or> sig ev = EV_CAMERA_DOWNLOAD_SUCCESS then Idle
      else after_error Downloading ev)"
| "next_state h ev = h"

definition gives :: "'a \<Rightarrow> ('s, 'a) comp \<Rightarrow> bool" where
  "gives x m \<longleftrightarrow> yields (\<lambda>r s. r = x) m"

lemma gives_rules:
  "gives x (ret x)" "gives x (raise e)" "(\<And>y. gives x (f y)) \<Longrightarrow> gives x (bnd k f)" "gives x n \<Longrightarrow> gives x (sq k' n)"
  "(b \<Longrightarrow> gives x m1) \<Longrightarrow> (\<not> b \<Longrightarrow> gives x m2) \<Longrightarrow> gives x (if b then m1 else m2)"
  by (auto simp: gives_def yields_def run_simps sq_def elim!: bnd_InrE)

lemma after_error_other: "sig ev \<noteq> EV_CAMERA_GENERIC_ERROR \<Longrightarrow> after_error h ev = h"
  by (cases ev) (auto simp: after_error_def)

lemma gives_enter:
  "gives Idle (enter_Idle E)" "gives CaptureWired (enter_CaptureWired E)"
  "gives Downloading (enter_Downloading E)"
  unfolding enter_Idle_def enter_CaptureWired_def enter_Downloading_def
  by (intro gives_rules)+

lemma gives_default: "gives (after_error h ev) (connected_default E h ev)"
  by (cases ev) (auto simp: connected_default_def after_error_def intro!: gives_rules)

lemma react_gives: "gives (next_state h ev) (react E h ev)"
proof (cases h)
  case Idle
  then show ?thesis
    by (auto intro!: gives_rules gives_enter gives_default simp: after_error_other)
qed (auto intro!: gives_rules gives_enter gives_default)

lemma next_state_rest: "h \<in> rest_states \<Longrightarrow> next_state h ev \<in> rest_states"
  by (cases ev; cases h) (auto simp: rest_states_def after_error_def)

lemma next_state_result:
  assumes "sig ev \<noteq> EV_ENTRY" "state m \<in> rest_states" "temp m = state m"
    and "controller_handle E ev m = (Inr (), m')"
  shows "state m' = next_state (state m) ev \<and> temp m' = state m' \<and> state m' \<in> rest_states"
proof -
  obtain m2 where flat: "flat_handle E ev m = (Inr (), m2)" and eq: "forget m2 = forget m'"
    using controller_flat [OF assms(1-3)] assms(4) by (rule agree_result)
  have "bnd (react E (state m) ev) settle m = (Inr (), m2)" using flat by (simp add: flat_handle_def)
  then obtain h t where h: "react E (state m) ev m = (Inr h, t)" "settle h t = (Inr (), m2)"
    by (rule bnd_InrE)
  then have "h = next_state (state m) ev"
    using react_gives [of "state m" ev E] unfolding gives_def yields_def by blast
  moreover have "state m2 = h" using h(2) by (auto simp: settle_def)
  moreover have "state m \<in> cc_states" using assms(2) by (auto simp: rest_states_def cc_states_def)
  then have "temp m' = state m'"
    using cc.handleEvent_result [OF assms(3) _ order_refl, of E ev "Inr ()" m'] assms(4)
    by (simp add: controller_handle_def)
  ultimately show ?thesis
    using forget_sel(10) [OF eq] next_state_rest [OF assms(2)] by simp
qed

text \<open>
  C4. The state the controller comes to rest in is a function of the resting state and
  the event alone: whatever the camera answers while the event is handled, the next state is
  \<open>next_state\<close> of the two, it is again a resting state (never the superstate \<open>Connected\<close>
  or the top), and the engine's two state pointers agree.
\<close>

theorem next_state_determined:
  assumes "sig ev \<noteq> EV_ENTRY" "state m \<in> rest_states" "temp m = state m"
    and "controller_handle E ev m = (Inr (), m')"
  shows "state m' = next_state (state m) ev \<and> temp m' = state m' \<and> state m' \<in> rest_states"
  using assms by (rule next_state_result)

theorem next_state_determined_witness:
  "state (snd (controller_handle sim_lib (Event EV_CAMERA_DISCONNECT) (sim_controller sim0 Idle)))
    = Disconnected"
proof -
  let ?m = "sim_controller sim0 Idle"
  obtain r m' where run: "controller_handle sim_lib (Event EV_CAMERA_DISCONNECT) ?m = (r, m')"
    by fastforce
  have m: "state ?m = Idle" "temp ?m = Idle" by (simp_all add: sim_controller_def)
  have "agree (r, m') (flat_handle sim_lib (Event EV_CAMERA_DISCONNECT) ?m)"
    using controller_flat [of "Event EV_CAMERA_DISCONNECT" ?m sim_lib] run m
    by (simp add: rest_states_def)
  then have "r = Inr ()" using m by (simp add: agree_def flat_handle_def settle_def run_simps)
  then show ?thesis
    using next_state_determined [of "Event EV_CAMERA_DISCONNECT" ?m sim_lib m'] run m
    by (simp add: rest_states_def)
qed

subsection \<open>What can escape, and the data invariant\<close>

text \<open>
  \<open>safe P X m\<close>: started in \<open>P\<close>, the computation ends in \<open>P\<close> and throws only what \<open>X\<close> allows.
\<close>

definition safe :: "('s \<Rightarrow> bool) \<Rightarrow> (exn \<Rightarrow> bool) \<Rightarrow> ('s, 'a) comp \<Rightarrow> bool" where
  "safe P X m \<longleftrightarrow> (\<forall>s. P s \<longrightarrow> P (snd (m s)) \<and> (\<forall>e. fst (m s) = Inl e \<longrightarrow> X e))"

lemma safeI: "keeps P m \<Longrightarrow> throws X m \<Longrightarrow> safe P X m"
  by (simp add: safe_def keeps_def throws_def)

lemma safe_bnd:
  assumes "safe P X m" "\<And>x. safe P X (f x)"
  shows "safe P X (bnd m f)"
  unfolding safe_def
proof (intro allI impI, goal_cases)
  case (1 s)
  then show ?case using assms
    by (cases "m s"; cases "fst (m s)") (force simp: safe_def bnd_def)+
qed

lemma safe_sq: "safe P X m \<Longrightarrow> safe P X n \<Longrightarrow> safe P X (sq m n)"
  by (simp add: sq_def safe_bnd)

lemma safe_basic:
  "safe P X (ret x)" "safe P X (reads f)" "X e \<Longrightarrow> safe P X (raise e)"
  "(\<And>e. v = Inl e \<Longrightarrow> X e) \<Longrightarrow> safe P X (of_sum v)"
  "(\<And>s. P s \<Longrightarrow> P (g s)) \<Longrightarrow> safe P X (modify g)"
  by (simp_all add: safe_def run_simps)

lemma safe_cases:
  "(b \<Longrightarrow> safe P X m) \<Longrightarrow> (\<not> b \<Longrightarrow> safe P X n) \<Longrightarrow> safe P X (if b then m else n)"
  "(\<And>x. safe P X (f x)) \<Longrightarrow> (\<And>y. safe P X (g y)) \<Longrightarrow>
    safe P X (case v of Inl x \<Rightarrow> f x | Inr y \<Rightarrow> g y)"
  "(\<And>x y. safe P X (h x y)) \<Longrightarrow> safe P X (case w of (x, y) \<Rightarrow> h x y)"
  by (simp_all split: sum.split prod.split)

lemma safe_try_catch:
  assumes "safe P Y m" "\<And>e k. h e = Some k \<Longrightarrow> safe P X k" "\<And>e. Y e \<Longrightarrow> h e = None \<Longrightarrow> X e"
  shows "safe P X (try_catch m h)"
  unfolding safe_def
proof (intro allI impI, goal_cases)
  case (1 s)
  then have m: "P (snd (m s))" "\<And>e. fst (m s) = Inl e \<Longrightarrow> Y e"
    using assms(1) by (auto simp: safe_def)
  show ?case
  proof (cases "m s")
    case (Pair r t)
    then show ?thesis using m assms(2,3)
      by (cases r) (auto simp: try_catch_def safe_def split: option.split)
  qed
qed

lemma safe_weaken: "safe P X m \<Longrightarrow> (\<And>e. X e \<Longrightarrow> Y e) \<Longrightarrow> safe P Y m"
  by (simp add: safe_def)

lemmas safe_rules = safe_basic safe_bnd safe_sq safe_cases

text \<open>An event that is of the class its receivers cast it to and is not the reserved \<open>EV_ENTRY\<close>.\<close>

definition good_event :: "event \<Rightarrow> bool" where
  "good_event ev \<longleftrightarrow> well_formed_event ev \<and> sig ev \<noteq> EV_ENTRY"

text \<open>
  The invariant of the controller's data: the ring of deferred events is well-formed, holds no
  null pointer, and every event deferred, queued or delivered is a good one.
\<close>

definition ctl_data :: "'g controller \<Rightarrow> bool" where
  "ctl_data m \<longleftrightarrow> cb_inv (deferred_events m) \<and> getSize (deferred_events m) = DEFERRED_SIZE
     \<and> (\<forall>p \<in> set (contents (deferred_events m)). \<exists>ev. p = Some ev \<and> good_event ev)
     \<and> (\<forall>ev \<in> set (eventList m). good_event ev)
     \<and> (\<forall>(h, ev) \<in> set (delivered m). good_event ev)"

lemma ctl_data_cong [simp]:
  "ctl_data (m\<lparr>camera_obj := x1\<rparr>) = ctl_data m" "ctl_data (m\<lparr>camera_config := x2\<rparr>) = ctl_data m"
  "ctl_data (m\<lparr>to_download := x3\<rparr>) = ctl_data m" "ctl_data (m\<lparr>reconnect_attempts := x4\<rparr>) = ctl_data m"
  "ctl_data (m\<lparr>temp := x5\<rparr>) = ctl_data m" "ctl_data (m\<lparr>state := x6\<rparr>) = ctl_data m"
  by (simp_all add: ctl_data_def)

text \<open>The exceptions that leave the controller's handlers.\<close>

definition escapes :: "exn \<Rightarrow> bool" where
  "escapes e \<longleftrightarrow> (\<exists>w. e = WidgetReadOnlyError w) \<or> e = InvalidArgument \<or> e = OutOfRange
     \<or> (\<exists>w c. e = FilesystemError w c) \<or> is_undefined e"

definition or_gphoto :: "exn \<Rightarrow> bool" where
  "or_gphoto e \<longleftrightarrow> escapes e \<or> (\<exists>c. e = GPhotoError c)"

lemma or_gphotoI:
  "gphoto_or_undefined e \<Longrightarrow> or_gphoto e" "number_throws e \<Longrightarrow> or_gphoto e"
  "setter_throws e \<Longrightarrow> or_gphoto e"
  by (auto simp: or_gphoto_def escapes_def gphoto_or_undefined_def number_throws_def setter_throws_def)

lemma safe_cam:
  assumes "throws X f" "\<And>m x. P m \<Longrightarrow> P (m\<lparr>camera_obj := x\<rparr>)"
  shows "safe P X (cam f)"
  using assms by (auto simp: safe_def cam_def on_member_def throws_def split: prod.splits)
    (metis fst_conv)

lemma safe_camera_ops:
  "safe ctl_data or_gphoto (cam (connect E))"
  "safe ctl_data or_gphoto (cam (disconnect E))"
  "safe ctl_data or_gphoto (cam (setAperture E i))"
  "safe ctl_data or_gphoto (cam (setExposureTime E i))"
  "safe ctl_data or_gphoto (cam (setISO E i))"
  "safe ctl_data or_gphoto (cam (setTriggerMode E t))"
  "safe ctl_data or_gphoto (cam (getExposureTime E))"
  "safe ctl_data or_gphoto (cam (getAperture E))"
  "safe ctl_data or_gphoto (cam (getISO E))"
  "safe ctl_data or_gphoto (cam (getTriggerMode E))"
  "safe ctl_data or_gphoto (cam (getBatteryPercent E))"
  "safe ctl_data or_gphoto (cam (getExposureProgram E))"
  "safe ctl_data or_gphoto (cam (getFocalLength E))"
  "safe ctl_data or_gphoto (cam (listExposureTimes E))"
  "safe ctl_data or_gphoto (cam (listApertures E))"
  "safe ctl_data or_gphoto (cam (listISOs E))"
  "safe ctl_data or_gphoto (cam (listTriggerModes E))"
  "safe ctl_data or_gphoto (cam (wiredCapture E))"
  by (rule safe_cam, rule throws_weaken [OF _ or_gphotoI(1)] throws_weaken [OF _ or_gphotoI(2)]
      throws_weaken [OF _ or_gphotoI(3)], rule raises_intros, simp, simp)+

lemma deliver_run:
  "deliver h ev m = (Inr (), m\<lparr>delivered := delivered m @ [(h, ev)],
     eventList := eventList m @ (if h = CC then [ev] else [])\<rparr>)"
  by (cases h) (simp_all add: deliver_def postEvent_def run_simps)

lemma deliver_each_run:
  "deliver_each deliver ev hs m = (Inr (), m\<lparr>delivered := delivered m @ map (\<lambda>h. (h, ev)) hs,
     eventList := eventList m @ replicate (count_list hs CC) ev\<rparr>)"
proof (induction hs arbitrary: m)
  case (Cons h hs)
  show ?case unfolding deliver_each.simps sq_Inr [where m = "deliver h ev", OF deliver_run] Cons
    by simp
qed (simp add: run_simps)

text \<open>The subscribers of a topic.\<close>

definition subs :: "'g controller \<Rightarrow> u8 \<Rightarrow> handler list" where
  "subs m t = (case subscribers (broker m) t of None \<Rightarrow> [] | Some hs \<Rightarrow> hs)"

lemma broker_post_run:
  "broker_post ev t m = (Inr (), m\<lparr>delivered := delivered m @ map (\<lambda>h. (h, ev)) (subs m t),
     eventList := eventList m @ replicate (count_list (subs m t) CC) ev\<rparr>)"
  by (simp add: broker_post_def post_def deliver_each_run subs_def run_simps split: option.split)

text \<open>The controller's \<open>postEvent\<close> and the sniffers keep the contract of the broker's subscribers.\<close>

interpretation bus: event_sink broker broker_update deliver delivered
  by unfold_locales (simp_all add: deliver_run)

theorem post_delivers_witness:
  "map fst (delivered (snd (post broker deliver (Event EV_CAMERA_DISCONNECTED) TOPIC_CAMERA_EVENT
     (sim_controller sim0 Idle)))) = [CC]"
  using post_delivers [OF bus.event_sink_axioms, of "Event EV_CAMERA_DISCONNECTED" TOPIC_CAMERA_EVENT
      "sim_controller sim0 Idle"]
  by (simp add: sim_controller_def CameraController_new_def subscribe_def EventBroker_new_def)


lemma safe_post: "good_event ev \<Longrightarrow> safe ctl_data X (broker_post ev t)"
  by (auto simp: safe_def broker_post_run ctl_data_def)

lemma wf_posted [simp]:
  "good_event (CameraConnectedEvent sn)"
  "good_event (CameraErrorEvent EV_CAMERA_CONNECTION_ERROR c)"
  "good_event (CameraErrorEvent EV_CAMERA_GENERIC_ERROR c)"
  "good_event (CameraErrorEvent EV_CAMERA_CAPTURE_ERROR c)"
  "good_event (Event EV_CAMERA_DISCONNECTED)"
  "good_event (Event EV_CAMERA_DOWNLOAD_ERROR)"
  "good_event (CameraConfigEvent EV_CAMERA_VAL_CONFIG cf)"
  "good_event (CameraStatusEvent st)"
  "good_event (CameraOptionListEvent_int EV_CAMERA_OPTIONS_SHUTTER_SPEED xs)"
  "good_event (CameraOptionListEvent_int EV_CAMERA_OPTIONS_APERTURE xs)"
  "good_event (CameraOptionListEvent_int EV_CAMERA_OPTIONS_ISO xs)"
  "good_event (CameraOptionListEvent_string EV_CAMERA_OPTIONS_TRIGGER_MODE ys)"
  "good_event (CameraCaptureSuccessEvent p)"
  "good_event (CameraDownloadSuccessEvent p f)"
  by (simp_all add: good_event_def well_formed_event_def)

lemma safe_catch_gphoto:
  assumes "safe P or_gphoto m" "\<And>c. safe P escapes (h c)"
  shows "safe P escapes (catch_gphoto m h)"
  unfolding catch_gphoto_def
  by (rule safe_try_catch [OF assms(1)]) (auto simp: assms(2) or_gphoto_def split: exn.splits)

lemma safe_postGPhotoError: "safe ctl_data X (postGPhotoError c)"
  unfolding postGPhotoError_def by (rule safe_post) simp

lemma throws_downloadFile: "throws or_gphoto (downloadFile E p d)"
proof -
  have "throws or_gphoto (downloadFile_out E f fd fl r)" for f fd fl r
    unfolding downloadFile_out_def
    by (intro raises_intros) (auto simp: or_gphoto_def escapes_def)
  then show ?thesis
    unfolding downloadFile_def by (intro raises_intros)
qed

lemma toCameraFilePath_Inl: "toCameraFilePath f n p = Inl e \<Longrightarrow> is_undefined e"
  by (auto simp: toCameraFilePath_def strcpy_def split: sum.splits if_splits)

lemma safe_actions:
  "safe ctl_data escapes (controller_connect E)"
  "safe ctl_data escapes (controller_disconnect E)"
  "safe ctl_data escapes (setConfig E)"
  "safe ctl_data escapes (readStatus E)"
  "safe ctl_data escapes (readOptions E)"
  "safe ctl_data escapes (captureWired E)"
proof -
  have "safe ctl_data escapes (cam (disconnect E))"
    by (rule safe_cam) (auto intro: throws_connection)
  then show "safe ctl_data escapes (controller_disconnect E)"
    unfolding controller_disconnect_def by (intro safe_rules safe_post) simp_all
  show "safe ctl_data escapes (controller_connect E)" "safe ctl_data escapes (setConfig E)"
    "safe ctl_data escapes (readStatus E)" "safe ctl_data escapes (readOptions E)"
    "safe ctl_data escapes (captureWired E)"
    unfolding controller_connect_def setConfig_def readStatus_def readOptions_def captureWired_def
    by (intro safe_catch_gphoto safe_rules safe_camera_ops safe_post safe_postGPhotoError;
        simp)+
qed

lemma safe_download: "safe ctl_data escapes (download E)"
proof -
  have df: "safe ctl_data or_gphoto (cam (downloadFile E fp photo))" for fp photo
    by (rule safe_cam [OF throws_downloadFile]) simp
  have fs: "safe ctl_data X (cam (call f))" for X :: "exn \<Rightarrow> bool" and f :: "'a \<Rightarrow> 'b \<times> 'a"
    by (rule safe_cam) (auto intro: raises_intros)
  show ?thesis
    unfolding download_def Let_def
    by (intro safe_rules safe_try_catch [where Y = or_gphoto] fs df safe_post)
      (auto simp: escapes_def or_gphoto_def dest!: toCameraFilePath_Inl split: exn.splits
        intro!: safe_post)
qed

lemma flush_run:
  assumes "ctl_data m" "cb_count (deferred_events m) < n"
  shows "\<exists>b. flush_deferred n m = (Inr (), m\<lparr>deferred_events := b,
      eventList := eventList m @ map the (contents (deferred_events m))\<rparr>)
    \<and> cb_inv b \<and> getSize b = DEFERRED_SIZE \<and> contents b = []"
  using assms
proof (induction n arbitrary: m)
  case (Suc n)
  let ?d = "deferred_events m"
  have inv: "cb_inv ?d" "getSize ?d = DEFERRED_SIZE" using Suc.prems(1) by (simp_all add: ctl_data_def)
  show ?case
  proof (cases "contents ?d")
    case Nil
    then have "isEmpty ?d" using isEmpty_contents [OF inv(1)] by simp
    then have "flush_deferred (Suc n) m = (Inr (), m)" by (simp add: run_simps)
    moreover have "m = m\<lparr>deferred_events := ?d, eventList := eventList m @ map the (contents ?d)\<rparr>"
      using Nil by simp
    ultimately show ?thesis using Nil inv by metis
  next
    case (Cons p ps)
    then have ne: "\<not> isEmpty ?d" using isEmpty_contents [OF inv(1)] by simp
    obtain ev where p: "p = Some ev" "good_event ev"
      using Suc.prems(1) Cons by (auto simp: ctl_data_def)
    define d' where "d' = snd (cb_pop ?d)"
    have pop: "cb_pop ?d = (Inr p, d')" "contents d' = ps" "cb_inv d'" "getSize d' = DEFERRED_SIZE"
      using ring.deq_Cons [OF inv(1) Cons] inv by (simp_all add: d'_def prod_eq_iff)
    define u where "u = m\<lparr>deferred_events := d', eventList := eventList m @ [ev]\<rparr>"
    have "on_member deferred_events deferred_events_update cb_pop m
        = (Inr p, m\<lparr>deferred_events := d'\<rparr>)"
      using pop(1) by (simp add: on_member_def)
    then have "flush_deferred (Suc n) m = flush_deferred n u"
      using ne p(1) by (simp add: bnd_Inr deref_def postEvent_def u_def)
    moreover have "ctl_data u"
      using Suc.prems(1) Cons pop p(2) by (auto simp: ctl_data_def u_def)
    moreover have "cb_count (deferred_events u) < n"
      using Suc.prems(2) Cons pop(2) by (simp add: u_def flip: length_contents)
    ultimately obtain b where b: "flush_deferred (Suc n) m = (Inr (), u\<lparr>deferred_events := b,
        eventList := eventList u @ map the (contents (deferred_events u))\<rparr>)"
      "cb_inv b" "getSize b = DEFERRED_SIZE" "contents b = []" using Suc.IH by metis
    then show ?thesis using Cons pop(2) p(1) by (intro exI [of _ b]) (simp add: u_def)
  qed
qed simp

lemma deferred_fits: "ctl_data m \<Longrightarrow> cb_count (deferred_events m) < Suc DEFERRED_SIZE"
  using cb_count_le [of "deferred_events m"] by (simp add: ctl_data_def)

lemma safe_flush: "safe ctl_data X (flush_deferred (Suc DEFERRED_SIZE))"
  unfolding safe_def
proof (intro allI impI, goal_cases)
  case (1 m)
  obtain b where "flush_deferred (Suc DEFERRED_SIZE) m = (Inr (), m\<lparr>deferred_events := b,
      eventList := eventList m @ map the (contents (deferred_events m))\<rparr>)"
    "cb_inv b" "getSize b = DEFERRED_SIZE" "contents b = []"
    using flush_run [OF 1 deferred_fits [OF 1]] by blast
  with 1 show ?case by (auto simp: ctl_data_def simp del: flush_deferred.simps)
qed

lemma safe_defer:
  assumes "good_event ev"
  shows "safe ctl_data X (modify (\<lambda>m. m\<lparr>deferred_events := cb_put (Some ev) (deferred_events m)\<rparr>))"
proof (rule safe_basic(5))
  fix m :: "'g controller"
  assume m: "ctl_data m"
  then have "set (contents (cb_put (Some ev) (deferred_events m)))
      \<subseteq> insert (Some ev) (set (contents (deferred_events m)))"
    by (auto simp: ctl_data_def cb_put_contents last_n_def dest!: in_set_dropD)
  then show "ctl_data (m\<lparr>deferred_events := cb_put (Some ev) (deferred_events m)\<rparr>)"
    using m assms cb_put_inv [of "deferred_events m"] by (auto simp: ctl_data_def)
qed

lemma cast_ok:
  "good_event ev \<Longrightarrow> sig ev = EV_CAMERA_GENERIC_ERROR \<Longrightarrow> as_CameraErrorEvent ev \<noteq> Inl e"
  "good_event ev \<Longrightarrow> sig ev = EV_CAMERA_SET_CONFIG \<Longrightarrow> as_CameraConfigEvent ev \<noteq> Inl e"
  "good_event ev \<Longrightarrow> sig ev = EV_CAMERA_DOWNLOAD \<Longrightarrow> as_CameraDownloadEvent ev \<noteq> Inl e"
  "good_event ev \<Longrightarrow> sig ev = EV_CAMERA_CAPTURE_SUCCESS \<Longrightarrow> as_CameraCaptureSuccessEvent ev \<noteq> Inl e"
  by (cases ev; simp add: good_event_def well_formed_event_def)+

lemma safe_responsive: "safe ctl_data escapes (cam (isResponsive E))"
  by (rule safe_cam, rule throws_weaken [OF throws_connection(3)]) (auto simp: escapes_def)

lemma safe_enter:
  "safe ctl_data escapes (enter_Idle E)" "safe ctl_data escapes (enter_CaptureWired E)"
  "safe ctl_data escapes (enter_Downloading E)"
  unfolding enter_Idle_def enter_CaptureWired_def enter_Downloading_def
  by (intro safe_rules safe_responsive safe_actions safe_flush safe_download)+

lemma safe_default: "good_event ev \<Longrightarrow> safe ctl_data escapes (connected_default E h ev)"
  unfolding connected_default_def
  by (intro safe_rules safe_actions safe_defer) (auto dest: cast_ok)

lemma react_safe: "good_event ev \<Longrightarrow> safe ctl_data escapes (react E h ev)"
  by (cases h; simp only: react.simps)
    (intro safe_rules safe_actions safe_enter safe_default; auto dest: cast_ok)+

definition ctl_inv :: "'g controller \<Rightarrow> bool" where
  "ctl_inv m \<longleftrightarrow> ctl_data m \<and> state m \<in> rest_states \<and> temp m = state m"

lemma ctl_data_forget: "forget m = forget m' \<Longrightarrow> ctl_data m = ctl_data m'"
  using forget_sel [of m m'] by (simp add: ctl_data_def)

lemma handle_safe:
  assumes "good_event ev" "ctl_inv m" "controller_handle E ev m = (r, m')"
  shows "ctl_data m' \<and> (\<forall>e. r = Inl e \<longrightarrow> escapes e) \<and> (r = Inr () \<longrightarrow> ctl_inv m')"
proof -
  have m: "sig ev \<noteq> EV_ENTRY" "state m \<in> rest_states" "temp m = state m" "ctl_data m"
    using assms(1,2) by (simp_all add: good_event_def ctl_inv_def)
  obtain m2 where flat: "flat_handle E ev m = (r, m2)" and eq: "forget m2 = forget m'"
    using controller_flat [OF m(1-3)] assms(3) by (rule agree_result)
  have "safe ctl_data escapes (flat_handle E ev)"
    unfolding flat_handle_def settle_def
    by (intro safe_rules react_safe assms(1)) simp
  then have "ctl_data m2" "r = Inl e \<Longrightarrow> escapes e" for e
    using flat m(4) unfolding safe_def by (metis snd_conv, metis fst_conv)
  then show ?thesis
    using ctl_data_forget [OF eq] next_state_result [OF m(1-3), of E m'] assms(3)
    by (auto simp: ctl_inv_def)
qed

lemma run_safe:
  assumes "ctl_inv m" "controller_run n E m = (r, m')"
  shows "ctl_data m' \<and> (\<forall>e. r = Inl e \<longrightarrow> escapes e) \<and> (r = Inr () \<longrightarrow> ctl_inv m')"
  using assms
proof (induction n arbitrary: m)
  case 0
  then show ?case by (auto simp: run_simps ctl_inv_def)
next
  case (Suc n)
  show ?case
  proof (cases "eventList m")
    case Nil
    then show ?thesis using Suc.prems by (auto simp: run_simps ctl_inv_def)
  next
    case (Cons ev rest)
    define u where "u = m\<lparr>eventList := rest\<rparr>"
    have u: "ctl_inv u" "good_event ev"
      using Suc.prems(1) Cons by (auto simp: u_def ctl_inv_def ctl_data_def)
    obtain r1 v where h: "controller_handle E ev u = (r1, v)" by fastforce
    note safe = handle_safe [OF u(2,1) h]
    have run: "sq (controller_handle E ev) (controller_run n E) u = (r, m')"
      using Suc.prems(2) Cons by (simp add: u_def)
    show ?thesis
    proof (cases r1)
      case (Inl e)
      then show ?thesis using run h safe by (simp add: sq_Inl)
    next
      case (Inr x)
      then show ?thesis using run h safe Suc.IH [of v] by (simp add: sq_Inr)
    qed
  qed
qed

text \<open>
  C3. Safety of the running controller, for every library and camera. Started in a state that
  satisfies the invariant, with good events queued, any number of iterations of its loop keeps the
  invariant: the machine rests in a resting state, the ring of deferred events is well-formed,
  and all events it queues, defers and posts are of the class their receivers cast them to.
  Nothing escapes but a read-only widget, a number the camera's string does not hold, a file system
  error of \<open>exists\<close>, or undefined behaviour of the library's data: no \<open>GPhotoError\<close>, no
  failed assertion or exhausted loop of the engine, and no empty ring.
\<close>

theorem controller_run_safe:
  assumes "ctl_inv m" "controller_run n E m = (r, m')"
  shows "ctl_data m' \<and> (r = Inr () \<longrightarrow> ctl_inv m')
    \<and> (\<forall>e. r = Inl e \<longrightarrow> (\<exists>w. e = WidgetReadOnlyError w) \<or> e = InvalidArgument \<or> e = OutOfRange
        \<or> (\<exists>w c. e = FilesystemError w c) \<or> (\<exists>w. e = Undefined w))"
proof -
  have "is_undefined e \<Longrightarrow> \<exists>w. e = Undefined w" for e by (cases e) simp_all
  then show ?thesis using run_safe [OF assms] unfolding escapes_def by blast
qed

lemma new_inv: "ctl_inv (CameraController_new c dir b\<lparr>state := Disconnected, temp := Disconnected\<rparr>)"
  by (simp add: ctl_inv_def ctl_data_def CameraController_new_def rest_states_def cb_new_inv
      cb_new_contents DEFERRED_SIZE_def) (simp add: cb_new_def getSize_def)

theorem controller_run_safe_witness:
  "ctl_data (snd (controller_run 7 sim_lib (sim_controller sim0 Disconnected)))"
proof -
  have "ctl_inv (sim_controller sim0 Disconnected)"
    unfolding sim_controller_def by (rule new_inv)
  then show ?thesis
    using controller_run_safe [of "sim_controller sim0 Disconnected" 7 sim_lib] by (metis prod.collapse)
qed

subsection \<open>Deferred commands\<close>



end
