(* ===== verification/Controller_Events.thy ===== *)
theory Controller_Events
  imports Controller_Props
begin

text \<open>
  What the camera controller tells the rest of the program and how its runs end: every attempt
  to connect or capture is answered by exactly one event, connecting reaches \<open>Idle\<close> or
  \<open>Error\<close>, the camera's resources stay sound through whole runs of the controller; and the
  situations the code does not get out of.
\<close>

subsection \<open>Runs\<close>

lemma handle_flat:
  assumes "good_event ev" "ctl_inv m" "controller_handle E ev m = (r, m')"
  obtains m2 where "flat_handle E ev m = (r, m2)" "forget m2 = forget m'"
proof -
  have "sig ev \<noteq> EV_ENTRY" "state m \<in> rest_states" "temp m = state m"
    using assms(1,2) by (simp_all add: good_event_def ctl_inv_def)
  from controller_flat [OF this] assms(3) show ?thesis by (rule agree_result) (rule that)
qed

lemma run_keeps:
  assumes keeps: "\<And>ev. good_event ev \<Longrightarrow> keeps P (flat_handle E ev)"
    and blind: "\<And>m m'. forget m = forget m' \<Longrightarrow> P m = P m'" "\<And>m q. P (m\<lparr>eventList := q\<rparr>) = P m"
    and "ctl_inv m" "P m" "controller_run n E m = (r, m')"
  shows "P m'"
  using assms(4-6)
proof (induction n arbitrary: m)
  case 0
  then show ?case by (simp add: run_simps)
next
  case (Suc n)
  show ?case
  proof (cases "eventList m")
    case Nil
    then show ?thesis using Suc.prems by (simp add: run_simps)
  next
    case (Cons ev rest)
    define u where "u = m\<lparr>eventList := rest\<rparr>"
    have u: "ctl_inv u" "good_event ev" "P u"
      using Suc.prems(1,2) Cons by (auto simp: u_def ctl_inv_def ctl_data_def blind(2))
    obtain r1 v where h: "controller_handle E ev u = (r1, v)" by fastforce
    obtain v2 where "flat_handle E ev u = (r1, v2)" "forget v2 = forget v"
      using u(2,1) h by (rule handle_flat)
    then have v: "P v" using keepsE [OF keeps [OF u(2)]] u(3) blind(1) by metis
    have run: "sq (controller_handle E ev) (controller_run n E) u = (r, m')"
      using Suc.prems(3) Cons by (simp add: u_def)
    show ?thesis
    proof (cases r1)
      case (Inl e)
      then show ?thesis using run h v by (simp add: sq_Inl)
    next
      case (Inr x)
      then show ?thesis using run h v Suc.IH [of v] handle_safe [OF u(2,1) h] by (simp add: sq_Inr)
    qed
  qed
qed

subsection \<open>Resources\<close>

lemma keeps_cam: "keeps P f \<Longrightarrow> keeps (\<lambda>m. P (camera_obj m)) (cam f)"
  by (simp add: keeps_def cam_def on_member_def split: prod.splits) (metis snd_conv)

lemma keeps_post: "keeps (\<lambda>m. P (camera_obj m)) (broker_post ev t)"
  by (simp add: keeps_def broker_post_run)

lemma keeps_catch:
  "keeps P m \<Longrightarrow> (\<And>c. keeps P (h c)) \<Longrightarrow> keeps P (catch_gphoto m h)"
  unfolding catch_gphoto_def by (rule keeps_try_catch) (auto split: exn.splits)

lemma keeps_file: "keeps (holds W) (call (fs_exists (track E) n))"
  "keeps (holds W) (call (create_directory (track E) n))"
  by (intro keeps_holds keeps_intros)+

lemma keeps_sum:
  "(\<And>x. keeps P (f x)) \<Longrightarrow> (\<And>y. keeps P (g y)) \<Longrightarrow> keeps P (case v of Inl x \<Rightarrow> f x | Inr y \<Rightarrow> g y)"
  by (simp split: sum.split)

lemma keeps_ops:
  "keeps (holds W) (disconnect (track E))"
  "keeps (holds W) (setAperture (track E) i)"
  "keeps (holds W) (setExposureTime (track E) i)"
  "keeps (holds W) (setISO (track E) i)"
  "keeps (holds W) (setTriggerMode (track E) t)"
  "keeps (holds W) (getExposureTime (track E))"
  "keeps (holds W) (getAperture (track E))"
  "keeps (holds W) (getISO (track E))"
  "keeps (holds W) (getTriggerMode (track E))"
  "keeps (holds W) (getBatteryPercent (track E))"
  "keeps (holds W) (getExposureProgram (track E))"
  "keeps (holds W) (getFocalLength (track E))"
  "keeps (holds W) (listExposureTimes (track E))"
  "keeps (holds W) (listApertures (track E))"
  "keeps (holds W) (listISOs (track E))"
  "keeps (holds W) (listTriggerModes (track E))"
  "keeps (holds W) (wiredCapture (track E))"
  "keeps (holds W) (downloadFile (track E) p d)"
  "keeps (holds W) (isResponsive (track E))"
  by (rule disconnect_holds keeps_holds, (rule keeps_intros)?)+

abbreviation (input) cam_holds :: "ptr multiset \<Rightarrow> 'g book controller \<Rightarrow> bool" where
  "cam_holds W \<equiv> \<lambda>m. holds W (camera_obj m)"

lemma keeps_actions:
  "keeps (cam_holds W) (controller_disconnect (track E))"
  "keeps (cam_holds W) (setConfig (track E))"
  "keeps (cam_holds W) (readStatus (track E))"
  "keeps (cam_holds W) (readOptions (track E))"
  "keeps (cam_holds W) (captureWired (track E))"
  unfolding controller_disconnect_def setConfig_def readStatus_def readOptions_def captureWired_def
    postGPhotoError_def
  by (intro keeps_catch keeps_bnd keeps_sq keeps_if keeps_basic keeps_cam keeps_ops keeps_post)+

lemma keeps_download: "keeps (cam_holds W) (download (track E))"
  unfolding download_def Let_def
  by (intro keeps_try_catch keeps_bnd keeps_sq keeps_if keeps_prod keeps_sum keeps_basic keeps_cam
      keeps_ops keeps_file keeps_post)
    (auto split: exn.splits intro: keeps_post)

lemma keeps_flush: "keeps (cam_holds W) (flush_deferred n)"
proof (induction n)
  case (Suc n)
  have "keeps (cam_holds W) (on_member deferred_events deferred_events_update cb_pop)"
    by (simp add: keeps_def on_member_def split: prod.split)
  then show ?case
    unfolding flush_deferred.simps postEvent_def
    by (intro keeps_bnd keeps_sq keeps_if keeps_basic keeps_modify Suc) simp_all
qed (simp add: keeps_basic)

lemma keeps_enter:
  "keeps (cam_holds W) (enter_Idle (track E))" "keeps (cam_holds W) (enter_CaptureWired (track E))"
  "keeps (cam_holds W) (enter_Downloading (track E))"
  unfolding enter_Idle_def enter_CaptureWired_def enter_Downloading_def
  by (intro keeps_bnd keeps_sq keeps_if keeps_basic keeps_cam keeps_ops keeps_actions keeps_flush
      keeps_download)+

lemma keeps_default: "keeps (cam_holds W) (connected_default (track E) h ev)"
  unfolding connected_default_def
  by (intro keeps_bnd keeps_sq keeps_if keeps_basic keeps_actions keeps_modify) simp_all

lemma react_holds:
  assumes "new_is_clean E" "init_succeeds E"
  shows "keeps (cam_holds W) (react (track E) h ev)"
proof -
  have con: "keeps (cam_holds W) (controller_connect (track E))"
    unfolding controller_connect_def
    by (intro keeps_catch keeps_bnd keeps_cam keeps_post connect_holds assms)
  show ?thesis
    by (cases h; simp only: react.simps)
      (intro keeps_bnd keeps_sq keeps_if keeps_basic keeps_actions keeps_enter keeps_default con
        keeps_modify; simp)+
qed


definition tracked_controller :: "sim \<Rightarrow> sim book controller" where
  "tracked_controller g =
     (CameraController_new (CameraWrapper_new (track good_init) (empty_book g)) ''photos'' EventBroker_new)
       \<lparr>state := Disconnected, temp := Disconnected\<rparr>"


subsection \<open>Every attempt is answered\<close>

text \<open>Widget operations change the library's state only.\<close>

definition members :: "'g CameraWrapper \<Rightarrow> bool \<times> string \<times> ptr \<times> ptr" where
  "members s = (connected s, serial s, camera s, gp_context s)"

lemma members_lib [simp]: "members (s\<lparr>lib := g\<rparr>) = members s"
  by (simp add: members_def)

lemma keeps_members: "keeps (\<lambda>s. members s = k) (getSerialNumber E)"
proof -
  have val: "keeps (\<lambda>s. members s = k) (sq (check_string E w) (string_getValue E w))" for w
    unfolding check_string_def getType_def string_getValue_def
    by (intro keeps_intros) simp_all
  have base: "keeps (\<lambda>s. members s = k) (CameraWidgetBase_new E n)" for n
    unfolding CameraWidgetBase_new_def by (intro keeps_intros) simp
  have "keeps (\<lambda>s. members s = k) (with_destructor (sq (check_string E w) (string_getValue E w))
      (CameraWidgetBase_delete E w))" for w
    by (rule keeps_with_destructor [OF val]) (simp add: CameraWidgetBase_delete_def)
  then show ?thesis
    unfolding getSerialNumber_def with_CameraWidgetString_def widget_scope_def
    by (intro keeps_bnd base)
qed

lemma connect_outcome:
  assumes "connect E s = (r, t)"
  shows "case r of Inr sn \<Rightarrow> connected t \<and> serial t = sn | Inl e \<Rightarrow> \<not> connected t"
proof (cases "connected s")
  case True
  then show ?thesis using assms by (auto simp: connect_def)
next
  case False
  have sn: "connected u' = connected u" if "getSerialNumber E u = (q, u')" for u q u'
    using keepsE [OF keeps_members [of "members u"] that] by (simp add: members_def)
  show ?thesis using assms False
    by (auto simp: connect_def bnd_def call_def run_def sq_def run_simps
        split: prod.splits sum.splits if_splits dest!: sn)
qed

lemma cam_run: "cam f m = (case f (camera_obj m) of (r, c) \<Rightarrow> (r, m\<lparr>camera_obj := c\<rparr>))"
  by (simp add: cam_def on_member_def split: prod.splits)

text \<open>
  C9. Every attempt to connect that does not end the program is answered by exactly one event on
  the topic of camera events, to each of its subscribers: \<open>CONNECTED\<close> with the serial number if
  and only if the camera object is connected afterwards, else \<open>CONNECTION_ERROR\<close>
  with libgphoto2's code. Likewise a capture by \<open>CAPTURE_SUCCESS\<close> or \<open>CAPTURE_ERROR\<close>.
\<close>

theorem attempts_answered:
  "(controller_connect E m = (Inr (), m') \<longrightarrow>
      (\<exists>ev. delivered m' = delivered m @ map (\<lambda>h. (h, ev)) (subs m TOPIC_CAMERA_EVENT)
        \<and> (if connected (camera_obj m') then ev = CameraConnectedEvent (serial (camera_obj m'))
           else (\<exists>c. ev = CameraErrorEvent EV_CAMERA_CONNECTION_ERROR c))))
   \<and> (captureWired E m = (Inr (), m') \<longrightarrow>
      (\<exists>ev. delivered m' = delivered m @ map (\<lambda>h. (h, ev)) (subs m TOPIC_CAMERA_EVENT)
        \<and> ((\<exists>p. ev = CameraCaptureSuccessEvent p) \<or> (\<exists>c. ev = CameraErrorEvent EV_CAMERA_CAPTURE_ERROR c))))"
proof (intro conjI impI)
  assume run: "controller_connect E m = (Inr (), m')"
  obtain r c where con: "connect E (camera_obj m) = (r, c)" by fastforce
  note out = connect_outcome [OF con]
  show "\<exists>ev. delivered m' = delivered m @ map (\<lambda>h. (h, ev)) (subs m TOPIC_CAMERA_EVENT)
        \<and> (if connected (camera_obj m') then ev = CameraConnectedEvent (serial (camera_obj m'))
           else (\<exists>c. ev = CameraErrorEvent EV_CAMERA_CONNECTION_ERROR c))"
    using run con out
    by (auto simp: controller_connect_def catch_gphoto_def try_catch_def bnd_def cam_run
        broker_post_run subs_def split: sum.splits exn.splits)
next
  assume run: "captureWired E m = (Inr (), m')"
  obtain r c where cap: "wiredCapture E (camera_obj m) = (r, c)" by fastforce
  show "\<exists>ev. delivered m' = delivered m @ map (\<lambda>h. (h, ev)) (subs m TOPIC_CAMERA_EVENT)
        \<and> ((\<exists>p. ev = CameraCaptureSuccessEvent p) \<or> (\<exists>c. ev = CameraErrorEvent EV_CAMERA_CAPTURE_ERROR c))"
    using run cap
    by (auto simp: captureWired_def catch_gphoto_def try_catch_def bnd_def cam_run
        broker_post_run subs_def split: sum.splits exn.splits)
qed

theorem attempts_answered_witness:
  "map snd (delivered (snd (captureWired sim_lib (sim_controller sim0 CaptureWired))))
    = [CameraCaptureSuccessEvent \<lparr>folder = ''/store'', name = ''DSC_1.NEF''\<rparr>]"
proof -
  let ?m = "sim_controller sim0 CaptureWired"
  obtain m' where run: "captureWired sim_lib ?m = (Inr (), m')"
    by (simp add: captureWired_def catch_gphoto_def try_catch_def bnd_def cam_run wiredCapture_def
        call_def sim_lib_def sim_controller_def CameraController_new_def CameraWrapper_new_def
        sim0_def broker_post_run run_simps)
  show ?thesis
    using attempts_answered [of sim_lib ?m m'] run
    by (auto simp: captureWired_def catch_gphoto_def try_catch_def bnd_def cam_run wiredCapture_def
        call_def sim_lib_def sim_controller_def CameraController_new_def CameraWrapper_new_def
        sim0_def broker_post_run run_simps subs_def subscribe_def EventBroker_new_def CameraPath_of_def)
qed

subsection \<open>Connecting\<close>

text \<open>
  C8. Connecting comes to an end. From \<open>Disconnected\<close> or \<open>Error\<close>, with a \<open>CONNECT\<close> command queued
  and the controller subscribed once to the camera events, two iterations of the loop that do
  not end the program bring the machine to \<open>Idle\<close> if \<open>camera.connect()\<close> succeeds and to
  \<open>Error\<close> if it throws.
\<close>

theorem connecting_ends:
  assumes "ctl_inv m" "state m \<in> {Disconnected, Error}" "eventList m = [Event EV_CAMERA_CONNECT]"
    and "count_list (subs m TOPIC_CAMERA_EVENT) CC = 1"
    and "controller_run 2 E m = (Inr (), m')"
  shows "state m' = (case fst (connect E (camera_obj m)) of Inr sn \<Rightarrow> Idle | Inl e \<Rightarrow> Error)"
proof -
  let ?ev = "Event EV_CAMERA_CONNECT"
  define u where "u = m\<lparr>eventList := []\<rparr>"
  have u: "ctl_inv u" "state u = state m" "camera_obj u = camera_obj m" "subs u = subs m"
    using assms(1,3) by (auto simp: u_def ctl_inv_def ctl_data_def subs_def)
  have good: "good_event ?ev" by (simp add: good_event_def well_formed_event_def)
  have "sq (controller_handle E ?ev) (controller_run 1 E) u = (Inr (), m')"
    using assms(3,5) by (simp add: u_def numeral_2_eq_2)
  then obtain v where h: "controller_handle E ?ev u = (Inr (), v)" and r: "controller_run 1 E v = (Inr (), m')"
    by (auto simp: sq_def elim!: bnd_InrE)
  obtain v2 where flat: "flat_handle E ?ev u = (Inr (), v2)" and eq: "forget v2 = forget v"
    using good u(1) h by (rule handle_flat)
  note inv = handle_safe [OF good u(1) h]
  have "bnd (sq (controller_connect E) (ret Connecting)) settle u = (Inr (), v2)"
    using flat assms(2) u(2) by (auto simp: flat_handle_def)
  then obtain w where c: "controller_connect E u = (Inr (), w)" and "settle Connecting w = (Inr (), v2)"
    by (auto simp: sq_def run_simps elim!: bnd_InrE)
  then have v: "eventList v = eventList w" "state v = Connecting"
    using forget_sel [OF eq] by (auto simp: settle_def)
  obtain q cm where con: "connect E (camera_obj m) = (q, cm)" by fastforce
  have "\<exists>ev'. eventList v = [ev'] \<and> sig ev' = (case q of Inr sn \<Rightarrow> EV_CAMERA_CONNECTED
      | Inl e \<Rightarrow> EV_CAMERA_CONNECTION_ERROR)"
    using c con u v(1) assms(4)
    by (auto simp: controller_connect_def catch_gphoto_def try_catch_def bnd_def cam_run
        broker_post_run u_def subs_def split: sum.splits exn.splits)
  then obtain ev' where ev': "eventList v = [ev']" "sig ev' = (case q of Inr sn \<Rightarrow> EV_CAMERA_CONNECTED
      | Inl e \<Rightarrow> EV_CAMERA_CONNECTION_ERROR)" by blast
  define x where "x = v\<lparr>eventList := []\<rparr>"
  have x: "ctl_inv x" "good_event ev'" "state x = Connecting"
    using inv ev'(1) v(2) by (auto simp: x_def ctl_inv_def ctl_data_def)
  have "controller_handle E ev' x = (Inr (), m')"
    using r ev'(1) by (auto simp: x_def sq_def run_simps elim!: bnd_InrE)
  then show ?thesis
    using next_state_result [of ev' x E m'] x ev'(2) con
    by (cases q) (simp_all add: ctl_inv_def good_event_def)
qed

text \<open>A controller with a \<open>CONNECT\<close> command in its queue.\<close>

definition about_to_connect :: "sim \<Rightarrow> sim controller" where
  "about_to_connect g = (sim_controller g Disconnected)\<lparr>eventList := [Event EV_CAMERA_CONNECT]\<rparr>"

lemma about_to_connect_ok:
  "ctl_inv (about_to_connect g)" "state (about_to_connect g) = Disconnected"
  "eventList (about_to_connect g) = [Event EV_CAMERA_CONNECT]"
  "count_list (subs (about_to_connect g) TOPIC_CAMERA_EVENT) CC = 1"
  using new_inv [of "CameraWrapper_new sim_lib g" "''photos''" EventBroker_new]
  by (auto simp: about_to_connect_def sim_controller_def ctl_inv_def ctl_data_def good_event_def
      well_formed_event_def CameraController_new_def subs_def subscribe_def EventBroker_new_def)

theorem connecting_ends_witness:
  "state (snd (controller_run 2 sim_lib (about_to_connect init_fails))) = Error"
proof -
  have fails: "fst (connect sim_lib (camera_obj (about_to_connect init_fails))) = Inl (GPhotoError (- 105))"
    by (simp add: about_to_connect_def sim_controller_def CameraController_new_def CameraWrapper_new_def
        sim_lib_def init_fails_def sim0_def connect_def bnd_def call_def sq_def run_def run_simps)
  have "fst (controller_run 2 sim_lib (about_to_connect init_fails)) = Inr ()"
    by code_simp
  then show ?thesis
    using connecting_ends [OF about_to_connect_ok(1) _ about_to_connect_ok(3,4), of init_fails sim_lib] fails
    by (cases "controller_run 2 sim_lib (about_to_connect init_fails)")
      (simp add: about_to_connect_ok(2))
qed

subsection \<open>Where the machine gets stuck, and what ends it\<close>

definition command_signals :: "u16 set" where
  "command_signals = {EV_CAMERA_CONNECT, EV_CAMERA_DISCONNECT, EV_CAMERA_SET_CONFIG,
     EV_CAMERA_GET_STATUS, EV_CAMERA_GET_OPTIONS, EV_CAMERA_CAPTURE_WIRED, EV_CAMERA_DOWNLOAD}"

lemma commands_do_not_leave:
  "\<forall>e \<in> set evs. sig e \<in> command_signals \<Longrightarrow> foldl next_state CaptureWired evs = CaptureWired"
  "\<forall>e \<in> set evs. sig e \<in> command_signals \<Longrightarrow> foldl next_state Downloading evs = Downloading"
  by (induction evs) (auto simp: command_signals_def after_error_other)



text \<open>
  A download that fails with a code that is not critical sticks. \<open>download\<close> answers a
  \<open>GPhotoError\<close> with \<open>EV_CAMERA_GENERIC_ERROR\<close> and not with \<open>EV_CAMERA_DOWNLOAD_ERROR\<close>;
  for a code outside -70 to -4 the machine stays in \<open>Downloading\<close> when that event arrives, and
  no command gets it out.
\<close>

theorem failed_download_sticks:
  assumes "fs_exists E (download_dir m) (lib (camera_obj m)) = (Inr True, g)"
    and "toCameraFilePath (folder_size E) (name_size E) (to_download m) = Inr fp"
    and "downloadFile E fp (path_append (download_dir m) (name (to_download m)))
      ((camera_obj m)\<lparr>lib := g\<rparr>) = (Inl (GPhotoError code), c)"
    and "\<not> criticalError code"
  defines "ev \<equiv> CameraErrorEvent EV_CAMERA_GENERIC_ERROR code"
  shows "\<exists>m'. download E m = (Inr (), m')
    \<and> delivered m' = delivered m @ map (\<lambda>h. (h, ev)) (subs m TOPIC_CAMERA_EVENT)
    \<and> (\<forall>evs. (\<forall>e \<in> set evs. sig e \<in> command_signals) \<longrightarrow>
         foldl next_state Downloading (ev # evs) = Downloading)"
proof -
  have "next_state Downloading ev = Downloading"
    using assms(4) by (simp add: ev_def after_error_def)
  moreover have "download E m = broker_post ev TOPIC_CAMERA_EVENT (m\<lparr>camera_obj := c\<rparr>)"
    using assms(1-3)
    by (simp add: download_def Let_def bnd_def sq_def cam_run call_def try_catch_def ev_def run_simps)
  ultimately show ?thesis
    using commands_do_not_leave(2) by (simp add: broker_post_run subs_def)
qed

theorem failed_download_sticks_witness:
  "map snd (delivered (snd (download sim_lib (sim_controller (sim0\<lparr>r_file := - 1\<rparr>) Downloading))))
    = [CameraErrorEvent EV_CAMERA_GENERIC_ERROR (- 1)]"
proof -
  let ?m = "sim_controller (sim0\<lparr>r_file := - 1\<rparr>) Downloading"
  have "fst (downloadFile sim_lib ([], []) (path_append (download_dir ?m) (name (to_download ?m)))
      ((camera_obj ?m)\<lparr>lib := lib (camera_obj ?m)\<rparr>)) = Inl (GPhotoError (- 1))"
    by code_simp
  then obtain c where c: "downloadFile sim_lib ([], []) (path_append (download_dir ?m) (name (to_download ?m)))
      ((camera_obj ?m)\<lparr>lib := lib (camera_obj ?m)\<rparr>) = (Inl (GPhotoError (- 1)), c)"
    by (metis prod.collapse)
  have "fs_exists sim_lib (download_dir ?m) (lib (camera_obj ?m)) = (Inr True, lib (camera_obj ?m))"
    by (simp add: sim_lib_def sim_controller_def CameraController_new_def CameraWrapper_new_def sim0_def)
  moreover have "toCameraFilePath (folder_size sim_lib) (name_size sim_lib) (to_download ?m) = Inr ([], [])"
    by (simp add: sim_lib_def sim_controller_def CameraController_new_def empty_path_def
        toCameraFilePath_def strcpy_def c_str_def)
  moreover have "subs ?m TOPIC_CAMERA_EVENT = [CC]" "delivered ?m = []"
    by (simp_all add: sim_controller_def CameraController_new_def subs_def subscribe_def EventBroker_new_def)
  ultimately show ?thesis
    using failed_download_sticks [of sim_lib ?m _ "([], [])" "- 1" c, OF _ _ c]
    by (auto simp: criticalError_def)
qed

text \<open>
  A missing download directory that cannot be created is answered twice: \<open>download\<close> posts
  \<open>EV_CAMERA_DOWNLOAD_ERROR\<close> and goes on to download, so that a successful download
  is reported as an error and as a success.
\<close>

theorem directory_error_answered_twice:
  assumes "fs_exists E (download_dir m) (lib (camera_obj m)) = (Inr False, g)"
    and "create_directory E (download_dir m) g = (False, g')"
    and "toCameraFilePath (folder_size E) (name_size E) (to_download m) = Inr fp"
    and "downloadFile E fp (path_append (download_dir m) (name (to_download m)))
      ((camera_obj m)\<lparr>lib := g'\<rparr>) = (Inr (), c)"
  shows "\<exists>m'. download E m = (Inr (), m') \<and> delivered m' = delivered m
      @ map (\<lambda>h. (h, Event EV_CAMERA_DOWNLOAD_ERROR)) (subs m TOPIC_CAMERA_EVENT)
      @ map (\<lambda>h. (h, CameraDownloadSuccessEvent (to_download m)
          (path_append (download_dir m) (name (to_download m))))) (subs m TOPIC_CAMERA_EVENT)"
  using assms
  by (simp add: download_def Let_def bnd_def sq_def cam_run call_def try_catch_def broker_post_run
      subs_def run_simps)

theorem directory_error_answered_twice_witness:
  "length (delivered (snd (download sim_lib
     (sim_controller (sim0\<lparr>dir_exists := False, dir_create := False\<rparr>) Downloading)))) = 2"
proof -
  let ?m = "sim_controller (sim0\<lparr>dir_exists := False, dir_create := False\<rparr>) Downloading"
  have "fst (downloadFile sim_lib ([], []) (path_append (download_dir ?m) (name (to_download ?m)))
      ((camera_obj ?m)\<lparr>lib := lib (camera_obj ?m)\<rparr>)) = Inr ()"
    by code_simp
  then obtain c where c: "downloadFile sim_lib ([], []) (path_append (download_dir ?m) (name (to_download ?m)))
      ((camera_obj ?m)\<lparr>lib := lib (camera_obj ?m)\<rparr>) = (Inr (), c)"
    by (metis prod.collapse)
  have "fs_exists sim_lib (download_dir ?m) (lib (camera_obj ?m)) = (Inr False, lib (camera_obj ?m))"
    "create_directory sim_lib (download_dir ?m) (lib (camera_obj ?m)) = (False, lib (camera_obj ?m))"
    by (simp_all add: sim_lib_def sim_controller_def CameraController_new_def CameraWrapper_new_def sim0_def)
  moreover have "toCameraFilePath (folder_size sim_lib) (name_size sim_lib) (to_download ?m) = Inr ([], [])"
    by (simp add: sim_lib_def sim_controller_def CameraController_new_def empty_path_def
        toCameraFilePath_def strcpy_def c_str_def)
  moreover have "subs ?m TOPIC_CAMERA_EVENT = [CC]" "delivered ?m = []"
    by (simp_all add: sim_controller_def CameraController_new_def subs_def subscribe_def EventBroker_new_def)
  ultimately show ?thesis
    using directory_error_answered_twice [of sim_lib ?m _ _ "([], [])" c, OF _ _ _ c] by auto
qed

text \<open>
  A read-only option ends the program. If the widget of the aperture is read-only,
  the command that sets an aperture makes \<open>WidgetReadOnlyError\<close> leave \<open>setConfig\<close>, which
  only catches \<open>GPhotoError\<close>, and \<open>handleEvent\<close>, and so the function of the thread.
\<close>

theorem read_only_option_escapes:
  assumes "state m = Idle" "temp m = Idle" "0 < aperture cf"
    and "setAperture E (aperture cf) (camera_obj m) = (Inl (WidgetReadOnlyError w), c)"
  shows "fst (controller_handle E (CameraConfigEvent EV_CAMERA_SET_CONFIG cf) m) = Inl (WidgetReadOnlyError w)"
proof -
  let ?ev = "CameraConfigEvent EV_CAMERA_SET_CONFIG cf"
  have "agree (controller_handle E ?ev m) (flat_handle E ?ev m)"
    using assms(1,2) by (intro controller_flat) (simp_all add: rest_states_def)
  moreover have "fst (flat_handle E ?ev m) = Inl (WidgetReadOnlyError w)"
    using assms
    by (simp add: flat_handle_def setConfig_def catch_gphoto_def try_catch_def bnd_def sq_def cam_run run_simps)
  ultimately show ?thesis by (simp add: agree_def)
qed

definition read_only_lib :: "sim gphoto" where
  "read_only_lib = sim_lib\<lparr>gp_widget_get_readonly := (\<lambda>w g. ((0, 1), g))\<rparr>"

theorem read_only_option_escapes_witness:
  "fst (controller_handle read_only_lib
     (CameraConfigEvent EV_CAMERA_SET_CONFIG (default_config\<lparr>aperture := 180\<rparr>)) (sim_controller sim0 Idle))
    = Inl (WidgetReadOnlyError ''f-number'')"
proof -
  have "fst (setAperture read_only_lib 180 (camera_obj (sim_controller sim0 Idle)))
      = Inl (WidgetReadOnlyError ''f-number'')"
    by code_simp
  then obtain c where "setAperture read_only_lib (aperture (default_config\<lparr>aperture := 180\<rparr>))
      (camera_obj (sim_controller sim0 Idle)) = (Inl (WidgetReadOnlyError ''f-number''), c)"
    by (metis prod.collapse CameraConfig.select_convs(2) CameraConfig.surjective CameraConfig.update_convs(2))
  from read_only_option_escapes [OF _ _ _ this] show ?thesis
    by (simp add: sim_controller_def)
qed

subsection \<open>Disconnecting\<close>

text \<open>
  The command to disconnect does not disconnect. In \<open>Idle\<close>, the only state that takes it, the
  machine goes to \<open>Disconnected\<close>, but the camera is not touched and no event is posted: a
  connected camera stays connected and its handle stays open, and the next command to connect is
  answered at once with the old serial number, without any call of the library.
\<close>

theorem disconnect_keeps_camera:
  assumes "ctl_inv m" "state m = Idle" "connected (camera_obj m)"
    and "controller_handle E (Event EV_CAMERA_DISCONNECT) m = (r, m')"
  shows "r = Inr () \<and> state m' = Disconnected \<and> camera_obj m' = camera_obj m
    \<and> delivered m' = delivered m \<and> connect E (camera_obj m') = (Inr (serial (camera_obj m)), camera_obj m)"
proof -
  have "good_event (Event EV_CAMERA_DISCONNECT)" by (simp add: good_event_def well_formed_event_def)
  then obtain m2 where m2: "flat_handle E (Event EV_CAMERA_DISCONNECT) m = (r, m2)" "forget m2 = forget m'"
    using assms(1,4) by (rule handle_flat)
  then have "r = Inr () \<and> m2 = m\<lparr>state := Disconnected, temp := Disconnected\<rparr>"
    using assms(2) by (simp add: flat_handle_def settle_def run_simps)
  then show ?thesis using forget_sel [OF m2(2)] assms(3) by (simp add: connect_def)
qed

theorem disconnect_keeps_camera_witness:
  "state (snd (controller_handle sim_lib (Event EV_CAMERA_DISCONNECT)
     ((sim_controller sim0 Idle)\<lparr>camera_obj := (camera_obj (sim_controller sim0 Idle))\<lparr>connected := True\<rparr>\<rparr>)))
   = Disconnected"
proof -
  let ?m = "(sim_controller sim0 Idle)\<lparr>camera_obj := (camera_obj (sim_controller sim0 Idle))\<lparr>connected := True\<rparr>\<rparr>"
  have "ctl_data (CameraController_new c ''photos'' EventBroker_new)" for c :: "sim CameraWrapper"
    using new_inv [of c "''photos''" EventBroker_new] by (simp add: ctl_inv_def)
  then have "ctl_inv ?m" "state ?m = Idle" "connected (camera_obj ?m)"
    by (simp_all add: sim_controller_def ctl_inv_def rest_states_def)
  from disconnect_keeps_camera [OF this, of sim_lib] show ?thesis by (metis prod.collapse)
qed

end
