(* ===== verification/Cxxopts_Values.thy ===== *)
theory Cxxopts_Values
  imports Std_Strings
begin

text \<open>
  \<open>libs/cxxopts/cxxopts.hpp\<close>, first part: the texts of its exceptions, the parsers from texts to
  values, and the class \<open>Value\<close> with its default and implicit texts.

  The C++ type a value has is a \<open>vtype\<close>; an integer type is its signedness and its width in bits.
  A value that stores into a variable of the caller, \<open>value(T&)\<close>, and the types read by a
  string stream are not modelled; the program uses neither. Regular expressions are written out
  as matchers; \<open>[:alnum:]\<close> is that of the C locale.
\<close>

subsection \<open>Exceptions\<close>

definition LQUOTE :: string where
  "LQUOTE = [CHR 0xE2, CHR 0x80, CHR 0x98]"

definition RQUOTE :: string where
  "RQUOTE = [CHR 0xE2, CHR 0x80, CHR 0x99]"

definition in_quotes :: "string \<Rightarrow> string" where
  "in_quotes s = LQUOTE @ s @ RQUOTE"

fun option_what :: "option_error \<Rightarrow> string" where
  "option_what (option_exists_error option) = ''Option '' @ in_quotes option @ '' already exists''"
| "option_what (invalid_option_format_error format) = ''Invalid option format '' @ in_quotes format"
| "option_what (option_syntax_exception text) =
     ''Argument '' @ in_quotes text @ '' starts with a - but has incorrect syntax''"
| "option_what (option_not_exists_exception option) =
     ''Option '' @ in_quotes option @ '' does not exist''"
| "option_what (missing_argument_exception option) =
     ''Option '' @ in_quotes option @ '' is missing an argument''"
| "option_what (option_requires_argument_exception option) =
     ''Option '' @ in_quotes option @ '' requires an argument''"
| "option_what (option_not_has_argument_exception option arg) =
     ''Option '' @ in_quotes option @ '' does not take an argument, but argument '' @
     in_quotes arg @ '' given''"
| "option_what (option_not_present_exception option) =
     ''Option '' @ in_quotes option @ '' not present''"
| "option_what (option_has_no_value_exception option) =
     (if option = [] then ''Option '' @ in_quotes option @ '' has no value''
      else ''Option has no value'')"
| "option_what (argument_incorrect_type arg) = ''Argument '' @ in_quotes arg @ '' failed to parse''"
| "option_what (option_required_exception option) =
     ''Option '' @ in_quotes option @ '' is required but not present''"

abbreviation incorrect_type :: "string \<Rightarrow> exn" where
  "incorrect_type text \<equiv> OptionException (argument_incorrect_type text)"

text \<open>The text of \<open>option_has_no_value_exception\<close> names the option only if it has no name.\<close>

theorem exception_texts:
  "option_what (option_has_no_value_exception []) = ''Option '' @ in_quotes [] @ '' has no value''
   \<and> option_what (option_has_no_value_exception (c # cs)) = ''Option has no value''"
  by simp

subsection \<open>Integers\<close>

definition is_alpha :: "char \<Rightarrow> bool" where
  "is_alpha c \<longleftrightarrow> (let k = of_char c :: int in 65 \<le> k \<and> k \<le> 90 \<or> 97 \<le> k \<and> k \<le> 122)"

definition is_alnum :: "char \<Rightarrow> bool" where
  "is_alnum c \<longleftrightarrow> is_digit c \<or> is_alpha c"

text \<open>
  \<open>regex_match\<close> with \<open>(-)?(0x)?([0-9a-zA-Z]+)|((0x)?0)\<close>: whether the first two groups
  matched, and the third. The fourth never matches, since the first alternative is tried
  first and accepts all it accepts.
\<close>

definition integer_match :: "string \<Rightarrow> (bool \<times> bool \<times> string) option" where
  "integer_match s =
     (let neg = (s \<noteq> [] \<and> hd s = CHR ''-'');
          t = (if neg then tl s else s);
          hex = (take 2 t = ''0x'' \<and> drop 2 t \<noteq> []);
          d = (if hex then drop 2 t else t)
      in if d \<noteq> [] \<and> list_all is_alnum d then Some (neg, hex, d) else None)"

text \<open>The value of a digit in a base, as the chain of conditions in the loop has it.\<close>

definition digit_in :: "int \<Rightarrow> char \<Rightarrow> int option" where
  "digit_in base c =
     (let k = of_char c :: int in
      if 48 \<le> k \<and> k \<le> 57 then Some (k - 48)
      else if base = 16 \<and> 97 \<le> k \<and> k \<le> 102 then Some (k - 97 + 10)
      else if base = 16 \<and> 65 \<le> k \<and> k \<le> 70 then Some (k - 65 + 10)
      else None)"

text \<open>
  The loop over the digits, on an unsigned integer of \<open>w\<close> bits; \<^const>\<open>None\<close> where it throws.
  A digit that makes the result smaller is taken for an overflow.
\<close>

fun digits_loop :: "nat \<Rightarrow> int \<Rightarrow> int \<Rightarrow> string \<Rightarrow> int option" where
  "digits_loop w base result [] = Some result"
| "digits_loop w base result (c # cs) =
     (case digit_in base c of
        None \<Rightarrow> None
      | Some digit \<Rightarrow>
          let nxt = (result * base + digit) mod 2 ^ w in
          if result > nxt then None else digits_loop w base nxt cs)"

definition check_signed_range :: "bool \<Rightarrow> nat \<Rightarrow> bool \<Rightarrow> int \<Rightarrow> bool" where
  "check_signed_range sgnd w negative u =
     (if sgnd then (if negative then u \<le> 2 ^ (w - 1) else u \<le> 2 ^ (w - 1) - 1) else True)"

text \<open>\<open>static_cast\<close> to the signed type of \<open>w\<close> bits.\<close>

definition to_signed :: "nat \<Rightarrow> int \<Rightarrow> int" where
  "to_signed w v = (v + 2 ^ (w - 1)) mod 2 ^ w - 2 ^ (w - 1)"

definition checked_negate :: "bool \<Rightarrow> nat \<Rightarrow> int \<Rightarrow> string \<Rightarrow> exn + int" where
  "checked_negate sgnd w t text =
     (if sgnd then Inr (to_signed w (- to_signed w (t - 1) - 1)) else Inl (incorrect_type text))"

definition integer_parser :: "bool \<Rightarrow> nat \<Rightarrow> string \<Rightarrow> exn + int" where
  "integer_parser sgnd w text =
     (case integer_match text of
        None \<Rightarrow> Inl (incorrect_type text)
      | Some (negative, hex, ds) \<Rightarrow>
          (case digits_loop w (if hex then 16 else 10) 0 ds of
             None \<Rightarrow> Inl (incorrect_type text)
           | Some result \<Rightarrow>
               if \<not> check_signed_range sgnd w negative result then Inl (incorrect_type text)
               else if negative then checked_negate sgnd w result text
               else Inr (if sgnd then to_signed w result else result)))"

subsection \<open>Other values\<close>

text \<open>\<open>(t|T)(rue)?|1\<close> and \<open>(f|F)(alse)?|0\<close>.\<close>

definition truthy_pattern :: "string \<Rightarrow> bool" where
  "truthy_pattern s \<longleftrightarrow> s \<in> {''t'', ''T'', ''true'', ''True'', ''1''}"

definition falsy_pattern :: "string \<Rightarrow> bool" where
  "falsy_pattern s \<longleftrightarrow> s \<in> {''f'', ''F'', ''false'', ''False'', ''0''}"

datatype vtype = T_bool | T_string | T_char | T_int bool nat | T_vector vtype

datatype vval = V_bool bool | V_string string | V_char char | V_int int | V_vector "vval list"

text \<open>A value-initialised variable of the type.\<close>

fun init_of :: "vtype \<Rightarrow> vval" where
  "init_of T_bool = V_bool False"
| "init_of T_string = V_string []"
| "init_of T_char = V_char (CHR 0x00)"
| "init_of (T_int sgnd w) = V_int 0"
| "init_of (T_vector t) = V_vector []"

text \<open>
  What \<open>getline\<close> with the delimiter yields until the stream is at its end: the pieces, but not an
  empty one after the last delimiter.
\<close>

fun split_tokens :: "string \<Rightarrow> string \<Rightarrow> string list" where
  "split_tokens acc [] = (if acc = [] then [] else [acc])"
| "split_tokens acc (c # cs) =
     (if c = CHR '','' then acc # split_tokens [] cs else split_tokens (acc @ [c]) cs)"

fun push_value :: "vval \<Rightarrow> vval \<Rightarrow> vval" where
  "push_value v (V_vector vs) = V_vector (vs @ [v])"
| "push_value v x = x"

text \<open>The loop over the tokens of a vector, with the parser of an element.\<close>

fun parse_tokens :: "(string \<Rightarrow> (vval, unit) comp) \<Rightarrow> vval \<Rightarrow> string list \<Rightarrow> (vval, unit) comp" where
  "parse_tokens p v0 [] = ret ()"
| "parse_tokens p v0 (k # ks) =
     (case p k v0 of
        (Inl e, v) \<Rightarrow> raise e
      | (Inr _, v) \<Rightarrow> sq (modify (push_value v)) (parse_tokens p v0 ks))"

definition parse_char :: "string \<Rightarrow> (vval, unit) comp" where
  "parse_char text =
     (if length text \<noteq> 1 then raise (incorrect_type text) else modify (\<lambda>_. V_char (hd text)))"

text \<open>The overloads of \<open>parse_value\<close>, on the variable that is stored into.\<close>

fun parse_value :: "vtype \<Rightarrow> string \<Rightarrow> (vval, unit) comp" where
  "parse_value T_bool text =
     (if truthy_pattern text then modify (\<lambda>_. V_bool True)
      else if falsy_pattern text then modify (\<lambda>_. V_bool False)
      else raise (incorrect_type text))"
| "parse_value T_string text = modify (\<lambda>_. V_string text)"
| "parse_value T_char text = parse_char text"
| "parse_value (T_int sgnd w) text =
     bnd (of_sum (integer_parser sgnd w text)) (\<lambda>i. modify (\<lambda>_. V_int i))"
| "parse_value (T_vector t) text = parse_tokens (parse_value t) (init_of t) (split_tokens [] text)"

subsection \<open>\<open>Value\<close>\<close>

text \<open>The members of \<open>abstract_value<T>\<close>; \<open>type_of\<close> is \<open>T\<close>.\<close>

record Value =
  type_of :: vtype
  store :: vval
  m_default :: bool
  m_implicit :: bool
  m_default_value :: string
  m_implicit_value :: string

text \<open>\<open>value<T>()\<close>: a boolean is false unless given and true if given without a text.\<close>

definition cxx_value :: "vtype \<Rightarrow> Value" where
  "cxx_value t =
     (if t = T_bool
      then \<lparr>type_of = t, store = init_of t, m_default = True, m_implicit = True,
            m_default_value = ''false'', m_implicit_value = ''true''\<rparr>
      else \<lparr>type_of = t, store = init_of t, m_default = False, m_implicit = False,
            m_default_value = [], m_implicit_value = []\<rparr>)"

text \<open>\<open>clone\<close>: the texts are copied, the storage is new.\<close>

definition value_clone :: "Value \<Rightarrow> Value" where
  "value_clone v = v\<lparr>store := init_of (type_of v)\<rparr>"

definition value_parse :: "string \<Rightarrow> (Value, unit) comp" where
  "value_parse text = bnd (reads type_of) (\<lambda>t. on_member store store_update (parse_value t text))"

definition value_parse_default :: "(Value, unit) comp" where
  "value_parse_default = bnd (reads m_default_value) value_parse"

definition default_value :: "string \<Rightarrow> Value \<Rightarrow> Value" where
  "default_value s v = v\<lparr>m_default := True, m_default_value := s\<rparr>"

definition implicit_value :: "string \<Rightarrow> Value \<Rightarrow> Value" where
  "implicit_value s v = v\<lparr>m_implicit := True, m_implicit_value := s\<rparr>"

definition no_implicit_value :: "Value \<Rightarrow> Value" where
  "no_implicit_value v = v\<lparr>m_implicit := False\<rparr>"

fun is_container :: "vtype \<Rightarrow> bool" where
  "is_container (T_vector t) = True"
| "is_container _ = False"

definition is_boolean :: "vtype \<Rightarrow> bool" where
  "is_boolean t \<longleftrightarrow> t = T_bool"

subsection \<open>Correctness of the integer parser\<close>

text \<open>The number a text stands for, without any bound.\<close>

fun digits_value :: "int \<Rightarrow> int \<Rightarrow> string \<Rightarrow> int option" where
  "digits_value base acc [] = Some acc"
| "digits_value base acc (c # cs) =
     (case digit_in base c of None \<Rightarrow> None | Some d \<Rightarrow> digits_value base (acc * base + d) cs)"

definition text_value :: "string \<Rightarrow> int option" where
  "text_value text =
     (case integer_match text of
        None \<Rightarrow> None
      | Some (negative, hex, ds) \<Rightarrow>
          map_option (\<lambda>v. if negative then - v else v) (digits_value (if hex then 16 else 10) 0 ds))"

definition in_type :: "bool \<Rightarrow> nat \<Rightarrow> int \<Rightarrow> bool" where
  "in_type sgnd w v \<longleftrightarrow> (if sgnd then - (2 ^ (w - 1)) \<le> v \<and> v < 2 ^ (w - 1) else 0 \<le> v \<and> v < 2 ^ w)"

lemma digit_in_range: "digit_in base c = Some d \<Longrightarrow> 0 \<le> d"
  by (auto simp: digit_in_def Let_def split: if_splits)

lemma digits_value_mono:
  assumes "digits_value base acc ds = Some v" "0 \<le> acc" "1 \<le> base"
  shows "acc \<le> v"
  using assms
proof (induction ds arbitrary: acc)
  case (Cons c ds)
  then obtain d where d: "digit_in base c = Some d" "digits_value base (acc * base + d) ds = Some v"
    by (auto split: option.splits)
  have "acc \<le> acc * base + d"
    using digit_in_range [OF d(1)] Cons.prems(2,3) mult_left_mono [of 1 base acc] by simp
  moreover have "acc * base + d \<le> v"
    using Cons.IH [OF d(2)] digit_in_range [OF d(1)] Cons.prems(2,3) by simp
  ultimately show ?case by simp
qed simp

lemma digits_loop_exact:
  assumes "digits_value base acc ds = Some v" "v < 2 ^ w" "0 \<le> acc" "1 \<le> base"
  shows "digits_loop w base acc ds = Some v"
  using assms
proof (induction ds arbitrary: acc)
  case (Cons c ds)
  then obtain d where d: "digit_in base c = Some d" "digits_value base (acc * base + d) ds = Some v"
    by (auto split: option.splits)
  have 0: "0 \<le> acc * base + d" using digit_in_range [OF d(1)] Cons.prems(3,4) by simp
  have le: "acc * base + d \<le> v" using digits_value_mono [OF d(2) 0 Cons.prems(4)] .
  have "acc \<le> acc * base + d"
    using digit_in_range [OF d(1)] Cons.prems(3,4) mult_left_mono [of 1 base acc] by simp
  moreover have "(acc * base + d) mod 2 ^ w = acc * base + d" using 0 le Cons.prems(2) by simp
  ultimately show ?case using Cons.IH [OF d(2) Cons.prems(2) 0 Cons.prems(4)] d(1) by simp
qed simp

lemma digits_loop_mod:
  assumes "digits_loop w base r ds = Some u" "0 \<le> r" "r < 2 ^ w" "r = acc mod 2 ^ w"
  shows "0 \<le> u \<and> u < 2 ^ w \<and> (\<exists>v. digits_value base acc ds = Some v \<and> u = v mod 2 ^ w)"
  using assms
proof (induction ds arbitrary: r acc)
  case (Cons c ds)
  then obtain d where d: "digit_in base c = Some d"
    "digits_loop w base ((r * base + d) mod 2 ^ w) ds = Some u"
    by (auto simp: Let_def split: option.splits if_splits)
  have "(r * base + d) mod 2 ^ w = (acc * base + d) mod 2 ^ w"
    unfolding Cons.prems(4) by (metis mod_add_left_eq mod_mult_left_eq)
  from Cons.IH [OF d(2) _ _ this] show ?case using d(1) by simp
qed auto

lemma to_signed_range: "0 < w \<Longrightarrow> in_type True w (to_signed w v)"
proof -
  assume "0 < w"
  then have "(2 :: int) ^ w = 2 * 2 ^ (w - 1)" by (cases w) simp_all
  then show ?thesis
    using pos_mod_bound [of "2 ^ w" "v + 2 ^ (w - 1)"] pos_mod_sign [of "2 ^ w" "v + 2 ^ (w - 1)"]
    by (simp add: in_type_def to_signed_def)
qed

lemma to_signed_id:
  assumes "0 < w" "in_type True w v"
  shows "to_signed w v = v"
proof -
  have "(2 :: int) ^ w = 2 * 2 ^ (w - 1)" using assms(1) by (cases w) simp_all
  then show ?thesis using assms(2) by (simp add: in_type_def to_signed_def)
qed

lemma to_signed_mod: "to_signed w v mod 2 ^ w = v mod 2 ^ w"
  unfolding to_signed_def by (metis diff_add_cancel add_diff_cancel_right' mod_diff_left_eq)

lemma in_type_near:
  assumes "0 \<le> u" "u \<le> 2 ^ (w - 1)"
  shows "in_type True w (- u)" "in_type True w (u - 1)"
proof -
  have p: "(0 :: int) < 2 ^ (w - 1)" by simp
  have "- u < 2 ^ (w - 1)" "- (2 ^ (w - 1)) \<le> u - 1" using assms(1) p by linarith+
  then show "in_type True w (- u)" "in_type True w (u - 1)" using assms(2) by (simp_all add: in_type_def)
qed

lemma negate_exact:
  assumes "0 < w" "0 \<le> t" "t \<le> 2 ^ (w - 1)"
  shows "to_signed w (- to_signed w (t - 1) - 1) = - t"
  using to_signed_id [OF assms(1)] in_type_near [OF assms(2,3)] by simp

lemma parser_exact:
  assumes "0 < w" "text_value text = Some v" "in_type sgnd w v" "sgnd \<or> hd text \<noteq> CHR ''-''"
  shows "integer_parser sgnd w text = Inr v"
proof -
  obtain negative hex ds where m: "integer_match text = Some (negative, hex, ds)"
    using assms(2) by (auto simp: text_value_def split: option.splits)
  define base :: int where "base = (if hex then 16 else 10)"
  have base: "1 \<le> base" by (simp add: base_def)
  obtain u where u: "digits_value base 0 ds = Some u" "v = (if negative then - u else u)"
    using assms(2) m by (auto simp: text_value_def base_def)
  have neg: "negative \<longrightarrow> sgnd"
    using m assms(4) by (auto simp: integer_match_def Let_def split: if_splits)
  have w2: "(2 :: int) ^ w = 2 * 2 ^ (w - 1)" using assms(1) by (cases w) simp_all
  have "0 \<le> u" using digits_value_mono [OF u(1) _ base] by simp
  moreover have "u < 2 ^ w" "check_signed_range sgnd w negative u"
    using assms(3) u(2) neg w2 \<open>0 \<le> u\<close>
    by (auto simp: in_type_def check_signed_range_def split: if_splits)
  moreover have "digits_loop w base 0 ds = Some u"
    by (rule digits_loop_exact [OF u(1) \<open>u < 2 ^ w\<close> _ base]) simp
  ultimately show ?thesis
    using m negate_exact [OF assms(1), of u] to_signed_id [OF assms(1), of u] u(2) neg assms(3)
    by (auto simp: integer_parser_def base_def checked_negate_def check_signed_range_def split: if_splits)
qed

lemma parser_run:
  assumes "integer_match text = Some (negative, hex, ds)"
  defines "base \<equiv> (if hex then 16 else 10 :: int)"
  shows "text_value text = map_option (\<lambda>v. if negative then - v else v) (digits_value base 0 ds)"
    "integer_parser sgnd w text =
      (case digits_loop w base 0 ds of
         None \<Rightarrow> Inl (incorrect_type text)
       | Some result \<Rightarrow>
           if \<not> check_signed_range sgnd w negative result then Inl (incorrect_type text)
           else if negative then checked_negate sgnd w result text
           else Inr (if sgnd then to_signed w result else result))"
  using assms(1) by (simp_all add: text_value_def integer_parser_def base_def)

lemma parser_sound:
  assumes "0 < w" and r: "integer_parser sgnd w text = Inr r"
  shows "in_type sgnd w r \<and> (\<exists>v. text_value text = Some v \<and> r mod 2 ^ w = v mod 2 ^ w)"
proof -
  obtain negative hex ds where m: "integer_match text = Some (negative, hex, ds)"
    using r by (auto simp: integer_parser_def split: option.splits)
  note tv = parser_run(1) [OF m] and ip = parser_run(2) [OF m]
  define base :: int where "base = (if hex then 16 else 10)"
  obtain u where u: "digits_loop w base 0 ds = Some u" "check_signed_range sgnd w negative u"
    "(if negative then checked_negate sgnd w u text
      else Inr (if sgnd then to_signed w u else u)) = Inr r"
    using r unfolding ip base_def [symmetric] by (auto split: option.splits if_splits)
  obtain v where v: "digits_value base 0 ds = Some v" "u = v mod 2 ^ w" "0 \<le> u" "u < 2 ^ w"
    using digits_loop_mod [OF u(1), of 0] by auto
  show ?thesis
  proof (cases negative)
    case True
    then have "sgnd" "r = - u"
      using u(2,3) negate_exact [OF assms(1) v(3)] by (auto simp: checked_negate_def check_signed_range_def split: if_splits)
    moreover have "u \<le> 2 ^ (w - 1)" using True \<open>sgnd\<close> u(2) by (simp add: check_signed_range_def)
    ultimately have "in_type sgnd w r" using in_type_near(1) [OF v(3)] by simp
    then show ?thesis using True v \<open>r = - u\<close> by (auto simp: tv base_def [symmetric] mod_minus_eq)
  next
    case False
    then show ?thesis
      using u(2,3) v to_signed_range [OF assms(1)] to_signed_mod [of w u]
      by (auto simp: tv base_def [symmetric] in_type_def split: if_splits)
  qed
qed

lemma parser_error: "integer_parser sgnd w text = Inl e \<Longrightarrow> e = incorrect_type text"
  by (auto simp: integer_parser_def checked_negate_def split: option.splits if_splits)

lemma parser_no_number:
  assumes "text_value text = None"
  shows "integer_parser sgnd w text = Inl (incorrect_type text)"
proof (cases "integer_match text")
  case (Some m)
  obtain negative hex ds where m: "integer_match text = Some (negative, hex, ds)"
    using Some by (cases m) simp
  then have "digits_value (if hex then 16 else 10) 0 ds = None" using assms by (simp add: text_value_def)
  then have "digits_loop w (if hex then 16 else 10) 0 ds = None"
    using digits_loop_mod [of w "if hex then 16 else 10" 0 ds _ 0]
    by (cases "digits_loop w (if hex then 16 else 10) 0 ds") auto
  then show ?thesis unfolding parser_run(2) [OF m] by simp
qed (simp add: integer_parser_def)

text \<open>
  The integer parser, for every width and signedness. A decimal or hexadecimal text whose
  number fits the type gives that number (a minus sign is for signed types only); a text that
  is no number is rejected with \<open>argument_incorrect_type\<close>; and whatever it accepts is
  a value of the type that equals the number modulo the size of the type.
\<close>

theorem integer_parser_correct:
  assumes "0 < w"
  shows "(\<forall>v. text_value text = Some v \<and> in_type sgnd w v \<and> (sgnd \<or> hd text \<noteq> CHR ''-'') \<longrightarrow>
        integer_parser sgnd w text = Inr v)
    \<and> (text_value text = None \<longrightarrow> integer_parser sgnd w text = Inl (incorrect_type text))
    \<and> (\<forall>r. integer_parser sgnd w text = Inr r \<longrightarrow>
        in_type sgnd w r \<and> (\<exists>v. text_value text = Some v \<and> r mod 2 ^ w = v mod 2 ^ w))"
  using parser_exact [OF assms] parser_no_number parser_sound [OF assms] by blast

text \<open>Printed integers are read back.\<close>

lemma decimal_digit:
  assumes "is_digit c"
  shows "digit_in 10 c = digit_val c" "is_alnum c" "c \<noteq> CHR ''-''" "c \<noteq> CHR ''x''"
  using assms by (auto simp: digit_in_def digit_val_def is_digit_def is_alnum_def Let_def split: if_splits)

lemma digits_value_dec:
  "list_all is_digit ds \<Longrightarrow> digits_value 10 acc ds = Some (dec_value acc ds)"
proof (induction ds arbitrary: acc)
  case (Cons c ds)
  then show ?case
    using decimal_digit(1) [of c] by (auto simp: is_digit_def algebra_simps split: option.split)
qed simp

lemma text_value_to_string: "text_value (to_string i) = Some i"
proof -
  define n where "n = \<bar>i\<bar>"
  let ?d = "dec_string n"
  have d: "list_all is_digit ?d" unfolding n_def by (rule dec_string_digits) simp
  obtain c cs where c: "?d = c # cs" by (cases ?d) auto
  have hx: "take 2 ?d \<noteq> ''0x''"
    using d c decimal_digit(4) by (cases cs) auto
  have al: "list_all is_alnum ?d" using d decimal_digit(2) by (auto simp: list_all_iff)
  have hd: "hd ?d \<noteq> CHR ''-''" using d c decimal_digit(3) [of c] by simp
  have v: "digits_value 10 0 ?d = Some n"
    using digits_value_dec [OF d, of 0] dec_value_dec_string [of n] by (simp add: n_def)
  show ?thesis
    using hx al hd v by (auto simp: text_value_def integer_match_def to_string_def n_def)
qed

lemma hd_to_string: "0 \<le> i \<Longrightarrow> hd (to_string i) \<noteq> CHR ''-''"
  by (rule dec_string_Cons [of i]) (use decimal_digit(3) in \<open>simp_all add: to_string_def\<close>)

theorem integer_parser_correct_witness:
  "integer_parser True 8 ''-128'' = Inr (- 128)"
proof -
  have v: "text_value ''-128'' = Some (- 128)" by code_simp
  show ?thesis
    by (rule integer_parser_correct [THEN conjunct1, rule_format]) (simp_all only: v, simp_all add: in_type_def)
qed

text \<open>
  The check for overflow is not one: a digit can take the unsigned result past its size and
  still leave it larger than before, and then the reduced number is accepted. So 300 is read into
  8 bits as 44 and 9999999999 into 32 bits as 1410065407, while 256 and 4294967296 are rejected.
\<close>

theorem integer_overflow_accepted:
  "integer_parser False 8 ''300'' = Inr 44
   \<and> integer_parser False 32 ''9999999999'' = Inr 1410065407
   \<and> integer_parser True 32 ''9999999999'' = Inr 1410065407
   \<and> integer_parser False 8 ''256'' = Inl (incorrect_type ''256'')
   \<and> integer_parser False 32 ''4294967296'' = Inl (incorrect_type ''4294967296'')"
  by code_simp

subsection \<open>Lists of integers\<close>

fun join_comma :: "string list \<Rightarrow> string" where
  "join_comma [] = []"
| "join_comma [x] = x"
| "join_comma (x # y # xs) = x @ CHR '','' # join_comma (y # xs)"

lemma split_token:
  "CHR '','' \<notin> set x \<Longrightarrow> split_tokens acc (x @ CHR '','' # r) = (acc @ x) # split_tokens [] r"
  "CHR '','' \<notin> set x \<Longrightarrow> split_tokens acc x = (if acc @ x = [] then [] else [acc @ x])"
  by (induction x arbitrary: acc) auto

lemma split_join:
  assumes "\<forall>x \<in> set xs. x \<noteq> [] \<and> CHR '','' \<notin> set x"
  shows "split_tokens [] (join_comma xs) = xs"
  using assms by (induction xs rule: join_comma.induct) (auto simp: split_token)

lemma to_string_token: "to_string i \<noteq> [] \<and> CHR '','' \<notin> set (to_string i)"
proof -
  have "\<not> is_digit (CHR '','')" by (simp add: is_digit_def digit_val_def)
  then have "CHR '','' \<notin> set (dec_string n)" if "0 \<le> n" for n
    using dec_string_digits [OF that] by (auto simp: list_all_iff)
  then show ?thesis by (auto simp: to_string_def)
qed

lemma read_printed:
  assumes "0 < w" "in_type sgnd w i"
  shows "integer_parser sgnd w (to_string i) = Inr i"
proof -
  have "sgnd \<or> hd (to_string i) \<noteq> CHR ''-''"
    using assms(2) hd_to_string [of i] by (cases sgnd) (simp_all add: in_type_def)
  then show ?thesis
    using parser_exact [OF assms(1) text_value_to_string assms(2)] by blast
qed

lemma parse_tokens_ints:
  assumes "0 < w" "\<forall>i \<in> set xs. in_type sgnd w i"
  shows "parse_tokens (parse_value (T_int sgnd w)) (V_int 0) (map to_string xs) (V_vector vs)
    = (Inr (), V_vector (vs @ map V_int xs))"
  using assms
proof (induction xs arbitrary: vs)
  case (Cons i xs)
  have "parse_value (T_int sgnd w) (to_string i) (V_int 0) = (Inr (), V_int i)"
    using read_printed [OF assms(1)] Cons.prems(2) by simp
  then show ?case using Cons.IH [of "vs @ [V_int i]"] Cons.prems by simp
qed (simp add: run_simps)

text \<open>
  Round trip of integers and of lists of integers, for every integer type: the decimal
  text of a value of the type is parsed back to it, and the comma-separated texts of a list are
  parsed to this list, behind what the vector held before.
\<close>

theorem integers_roundtrip:
  assumes "0 < w" "\<forall>i \<in> set xs. in_type sgnd w i"
  shows "(\<forall>i \<in> set xs. integer_parser sgnd w (to_string i) = Inr i)
    \<and> parse_value (T_vector (T_int sgnd w)) (join_comma (map to_string xs)) (V_vector vs)
      = (Inr (), V_vector (vs @ map V_int xs))"
proof -
  have "split_tokens [] (join_comma (map to_string xs)) = map to_string xs"
    by (rule split_join) (auto simp: to_string_token)
  then show ?thesis using read_printed [OF assms(1)] parse_tokens_ints [OF assms] assms(2) by simp
qed

theorem integers_roundtrip_witness:
  "fst (parse_value (T_vector (T_int True 16)) (join_comma (map to_string [-32768, 0, 32767])) (V_vector []))
    = Inr ()"
  using integers_roundtrip [of 16 "[-32768, 0, 32767]" True "[]"] by (simp add: in_type_def)

end
