(* ===== verification/Cxxopts_Options.thy ===== *)
theory Cxxopts_Options
  imports Cxxopts_Values "HOL-Library.List_Lexorder" "HOL-Library.Char_ord"
begin

text \<open>
  \<open>libs/cxxopts/cxxopts.hpp\<close>, second part: how options are specified and added.

  A \<open>shared_ptr<OptionDetails>\<close> is an index into the list \<open>details\<close> of the objects made so far;
  the two names of an option lead to the same index. \<open>unordered_map\<close>s are association lists in
  the order of insertion, one of the orders an implementation may have; \<open>std::map\<close> is one sorted
  by key.
\<close>

subsection \<open>Details of an option\<close>

record OptionDetails =
  m_short :: string
  m_long :: string
  m_desc :: string
  m_value :: Value
  m_count :: int

definition OptionDetails_new :: "string \<Rightarrow> string \<Rightarrow> string \<Rightarrow> Value \<Rightarrow> OptionDetails" where
  "OptionDetails_new s l desc v = \<lparr>m_short = s, m_long = l, m_desc = desc, m_value = v, m_count = 0\<rparr>"

definition make_storage :: "OptionDetails \<Rightarrow> Value" where
  "make_storage d = value_clone (m_value d)"

text \<open>The copy constructor does not copy the names.\<close>

definition OptionDetails_copy :: "OptionDetails \<Rightarrow> OptionDetails" where
  "OptionDetails_copy rhs =
     \<lparr>m_short = [], m_long = [], m_desc = m_desc rhs, m_value = value_clone (m_value rhs),
      m_count = m_count rhs\<rparr>"

record HelpOptionDetails =
  ho_s :: string
  ho_l :: string
  ho_desc :: string
  ho_has_default :: bool
  ho_default_value :: string
  ho_has_implicit :: bool
  ho_implicit_value :: string
  ho_arg_help :: string
  ho_is_container :: bool
  ho_is_boolean :: bool

record HelpGroupDetails =
  group_name :: string
  group_description :: string
  group_options :: "HelpOptionDetails list"

text \<open>The struct \<open>Option\<close> of an initializer list.\<close>

record Option =
  spec_opts :: string
  spec_desc :: string
  spec_value :: Value
  spec_arg_help :: string

subsection \<open>\<open>Options\<close>\<close>

record Options =
  program :: string
  help_string :: string
  custom_help_text :: string
  positional_help_text :: string
  show_positional :: bool
  allow_unrecognised :: bool
  details :: "OptionDetails list"
  option_map :: "(string \<times> nat) list"
  positional :: "string list"
  positional_set :: "string set"
  help_map :: "(string \<times> HelpGroupDetails) list"

definition Options_new :: "string \<Rightarrow> string \<Rightarrow> Options" where
  "Options_new prog help_str =
     \<lparr>program = prog, help_string = help_str, custom_help_text = ''[OPTION...]'',
      positional_help_text = ''positional parameters'', show_positional = False,
      allow_unrecognised = False, details = [], option_map = [], positional = [],
      positional_set = {}, help_map = []\<rparr>"

definition positional_help :: "string \<Rightarrow> Options \<Rightarrow> Options" where
  "positional_help help_text o1 = o1\<lparr>positional_help_text := help_text\<rparr>"

definition custom_help :: "string \<Rightarrow> Options \<Rightarrow> Options" where
  "custom_help help_text o1 = o1\<lparr>custom_help_text := help_text\<rparr>"

definition show_positional_help :: "Options \<Rightarrow> Options" where
  "show_positional_help o1 = o1\<lparr>show_positional := True\<rparr>"

definition allow_unrecognised_options :: "Options \<Rightarrow> Options" where
  "allow_unrecognised_options o1 = o1\<lparr>allow_unrecognised := True\<rparr>"

text \<open>Names that were positional before stay in the set.\<close>

definition parse_positional :: "string list \<Rightarrow> Options \<Rightarrow> Options" where
  "parse_positional names o1 =
     o1\<lparr>positional := names, positional_set := set names \<union> positional_set o1\<rparr>"

definition parse_positional_one :: "string \<Rightarrow> Options \<Rightarrow> Options" where
  "parse_positional_one option = parse_positional [option]"

subsection \<open>The option specifier\<close>

definition is_word :: "char \<Rightarrow> bool" where
  "is_word c \<longleftrightarrow> c = CHR ''-'' \<or> c = CHR ''_'' \<or> is_alnum c"

text \<open>\<open>[[:alnum:]][-_[:alnum:]]*\<close>.\<close>

definition is_name :: "string \<Rightarrow> bool" where
  "is_name s \<longleftrightarrow> s \<noteq> [] \<and> is_alnum (hd s) \<and> list_all is_word (tl s)"

text \<open>\<open>(([[:alnum:]]),)?\<close>: the inner group, empty if it did not match, and the rest.\<close>

fun split_short :: "string \<Rightarrow> string \<times> string" where
  "split_short (c # k # r) = (if is_alnum c \<and> k = CHR '','' then ([c], r) else ([], c # k # r))"
| "split_short s = ([], s)"

text \<open>
  \<open>regex_match\<close> with \<open>(([[:alnum:]]),)?[ ]*([[:alnum:]][-_[:alnum:]]*)?\<close>: the second and the
  third group, empty if they did not match. The rest has no other way to match a comma.
\<close>

definition match_specifier :: "string \<Rightarrow> (string \<times> string) option" where
  "match_specifier s =
     (case split_short s of (short, t) \<Rightarrow>
        let u = dropWhile (\<lambda>c. c = CHR '' '') t
        in if u = [] \<or> is_name u then Some (short, u) else None)"

subsection \<open>Adding options\<close>

definition add_one_option :: "string \<Rightarrow> nat \<Rightarrow> (Options, unit) comp" where
  "add_one_option option d = bnd (reads option_map) (\<lambda>m.
     case map_of m option of
       None \<Rightarrow> modify (\<lambda>o1. o1\<lparr>option_map := option_map o1 @ [(option, d)]\<rparr>)
     | Some _ \<Rightarrow> raise (OptionException (option_exists_error option)))"

text \<open>\<open>m_help[group]\<close>, which makes the group if there is none, and an update of it.\<close>

fun update_group ::
    "string \<Rightarrow> (HelpGroupDetails \<Rightarrow> HelpGroupDetails) \<Rightarrow> (string \<times> HelpGroupDetails) list
      \<Rightarrow> (string \<times> HelpGroupDetails) list" where
  "update_group g f [] = [(g, f \<lparr>group_name = [], group_description = [], group_options = []\<rparr>)]"
| "update_group g f ((k, v) # rest) =
     (if k = g then (k, f v) # rest
      else if g < k
      then (g, f \<lparr>group_name = [], group_description = [], group_options = []\<rparr>) # (k, v) # rest
      else (k, v) # update_group g f rest)"

definition help_details :: "string \<Rightarrow> string \<Rightarrow> string \<Rightarrow> Value \<Rightarrow> string \<Rightarrow> HelpOptionDetails" where
  "help_details s l desc v arg_help =
     \<lparr>ho_s = s, ho_l = l, ho_desc = desc, ho_has_default = m_default v,
      ho_default_value = m_default_value v, ho_has_implicit = m_implicit v,
      ho_implicit_value = m_implicit_value v, ho_arg_help = arg_help,
      ho_is_container = is_container (type_of v), ho_is_boolean = is_boolean (type_of v)\<rparr>"

definition add_option ::
    "string \<Rightarrow> string \<Rightarrow> string \<Rightarrow> string \<Rightarrow> Value \<Rightarrow> string \<Rightarrow> (Options, unit) comp" where
  "add_option grp s l desc v arg_help =
     bnd (reads (\<lambda>o1. length (details o1))) (\<lambda>option.
     sq (modify (\<lambda>o1. o1\<lparr>details := details o1 @ [OptionDetails_new s l desc v]\<rparr>))
     (sq (if s \<noteq> [] then add_one_option s option else ret ())
     (sq (if l \<noteq> [] then add_one_option l option else ret ())
     (modify (\<lambda>o1. o1\<lparr>help_map := update_group grp
        (\<lambda>h. h\<lparr>group_options := group_options h @ [help_details s l desc v arg_help]\<rparr>) (help_map o1)\<rparr>)))))"

text \<open>A long name of one letter is a short one.\<close>

definition option_names :: "string \<Rightarrow> string \<Rightarrow> string \<times> string" where
  "option_names short long = (if length long = 1 then (long, short) else (short, long))"

text \<open>\<open>OptionAdder::operator()\<close>.\<close>

definition option_adder ::
    "string \<Rightarrow> string \<Rightarrow> string \<Rightarrow> Value \<Rightarrow> string \<Rightarrow> (Options, unit) comp" where
  "option_adder grp opts desc v arg_help =
     (case match_specifier (c_str opts) of
        None \<Rightarrow> raise (OptionException (invalid_option_format_error opts))
      | Some (short, long) \<Rightarrow>
          if length short = 0 \<and> length long = 0
          then raise (OptionException (invalid_option_format_error opts))
          else if length long = 1 \<and> length short \<noteq> 0
          then raise (OptionException (invalid_option_format_error opts))
          else (case option_names short long of (s, l) \<Rightarrow> add_option grp s l desc v arg_help))"

fun add_options :: "string \<Rightarrow> Option list \<Rightarrow> (Options, unit) comp" where
  "add_options grp [] = ret ()"
| "add_options grp (o1 # os) =
     sq (option_adder grp (spec_opts o1) (spec_desc o1) (spec_value o1) (spec_arg_help o1)) (add_options grp os)"

definition add_option_struct :: "string \<Rightarrow> Option \<Rightarrow> (Options, unit) comp" where
  "add_option_struct grp o1 = add_options grp [o1]"

definition groups :: "Options \<Rightarrow> string list" where
  "groups o1 = map fst (help_map o1)"

text \<open>\<open>m_help.at(group)\<close>.\<close>

definition group_help :: "string \<Rightarrow> Options \<Rightarrow> exn + HelpGroupDetails" where
  "group_help g o1 = (case map_of (help_map o1) g of None \<Rightarrow> Inl OutOfRange | Some h \<Rightarrow> Inr h)"

subsection \<open>The specifier's language\<close>

lemma comma_not_word: "\<not> is_word (CHR '','')" "\<not> is_alnum (CHR '' '')" "\<not> is_alnum (CHR '','')"
  by (simp_all add: is_word_def is_alnum_def is_digit_def digit_val_def is_alpha_def)

lemma name_no_comma: "is_name s \<Longrightarrow> CHR '','' \<notin> set s"
  using comma_not_word by (cases s) (auto simp: is_name_def list_all_iff)

lemma drop_spaces_name:
  assumes "l = [] \<or> is_name l"
  shows "dropWhile (\<lambda>c. c = CHR '' '') (replicate n (CHR '' '') @ l) = l"
  using assms comma_not_word(2) by (induction n) (cases l; auto simp: is_name_def)+

lemma split_short_parts:
  assumes "split_short s = (short, t)"
  shows "s = (if short = [] then [] else short @ '','') @ t"
    "short = [] \<or> (\<exists>c. short = [c] \<and> is_alnum c)"
  using assms by (cases s rule: split_short.cases; auto split: if_splits)+

text \<open>
  The matcher of option specifiers is the regular expression's language with its groups: it
  yields a short and a long name exactly if the text is the short name, one alphanumeric
  character, and a comma, or neither, then any number of spaces, then the long name, a word
  that starts with an alphanumeric character, or nothing.
\<close>

theorem match_specifier_language:
  "match_specifier s = Some (short, long) \<longleftrightarrow>
     (short = [] \<or> (\<exists>c. short = [c] \<and> is_alnum c)) \<and> (long = [] \<or> is_name long)
     \<and> (\<exists>n. s = (if short = [] then [] else short @ '','') @ replicate n (CHR '' '') @ long)"
proof
  assume m: "match_specifier s = Some (short, long)"
  obtain t where t: "split_short s = (short, t)" "long = dropWhile (\<lambda>c. c = CHR '' '') t"
    "long = [] \<or> is_name long"
    using m by (auto simp: match_specifier_def Let_def split: prod.splits if_splits)
  note s = split_short_parts [OF t(1)] and long = t(2,3)
  have "\<forall>c \<in> set (takeWhile (\<lambda>c. c = CHR '' '') t). c = CHR '' ''" by (auto dest: set_takeWhileD)
  then have "takeWhile (\<lambda>c. c = CHR '' '') t
      = replicate (length (takeWhile (\<lambda>c. c = CHR '' '') t)) (CHR '' '')"
    by (metis replicate_length_same)
  then have "t = replicate (length (takeWhile (\<lambda>c. c = CHR '' '') t)) (CHR '' '') @ long"
    using long(1) by (metis takeWhile_dropWhile_id)
  then show "(short = [] \<or> (\<exists>c. short = [c] \<and> is_alnum c)) \<and> (long = [] \<or> is_name long)
     \<and> (\<exists>n. s = (if short = [] then [] else short @ '','') @ replicate n (CHR '' '') @ long)"
    using s long(2) by metis
next
  assume r: "(short = [] \<or> (\<exists>c. short = [c] \<and> is_alnum c)) \<and> (long = [] \<or> is_name long)
     \<and> (\<exists>n. s = (if short = [] then [] else short @ '','') @ replicate n (CHR '' '') @ long)"
  then obtain n where n: "s = (if short = [] then [] else short @ '','') @ replicate n (CHR '' '') @ long"
    by blast
  let ?t = "replicate n (CHR '' '') @ long"
  have drop: "dropWhile (\<lambda>c. c = CHR '' '') ?t = long" using r drop_spaces_name by blast
  have comma: "CHR '','' \<notin> set ?t" using r name_no_comma by auto
  show "match_specifier s = Some (short, long)"
  proof (cases "short = []")
    case True
    then have s: "s = ?t" using n by simp
    have "split_short s = ([], s)"
      using comma unfolding s [symmetric] by (cases s rule: split_short.cases) auto
    then show ?thesis using True r drop s by (auto simp: match_specifier_def)
  next
    case False
    then obtain c where "short = [c]" "is_alnum c" using r by blast
    then show ?thesis using n r drop by (auto simp: match_specifier_def)
  qed
qed

subsection \<open>The table of options\<close>

text \<open>
  Every name is entered once and leads to an object that has it, and the groups of the help text
  are sorted.
\<close>

definition opts_inv :: "Options \<Rightarrow> bool" where
  "opts_inv o1 \<longleftrightarrow> distinct (map fst (option_map o1))
     \<and> (\<forall>(k, i) \<in> set (option_map o1). k \<noteq> [] \<and> i < length (details o1)
         \<and> (k = m_short (details o1 ! i) \<or> k = m_long (details o1 ! i)))
     \<and> sorted_wrt (<) (map fst (help_map o1))"

lemma Options_new_inv: "opts_inv (Options_new p h)"
  by (simp add: opts_inv_def Options_new_def)

lemma update_group_keys: "set (map fst (update_group g f m)) = insert g (set (map fst m))"
  by (induction g f m rule: update_group.induct) auto

lemma update_group_sorted:
  "sorted_wrt (<) (map fst m) \<Longrightarrow> sorted_wrt (<) (map fst (update_group g f m))"
proof (induction g f m rule: update_group.induct)
  case (2 g f k v rest)
  have keys: "fst ` set (update_group g f rest) = insert g (fst ` set rest)"
    using update_group_keys [of g f rest] by simp
  consider "k = g" | "g < k" | "k \<noteq> g" "\<not> g < k" "k < g" by force
  then show ?case
  proof cases
    case 3
    then have "\<forall>x \<in> fst ` set (update_group g f rest). k < x" using 2 keys by auto
    then show ?thesis using 3 2 by auto
  qed (use 2 in \<open>auto intro: less_trans\<close>)
qed simp

text \<open>What one name adds.\<close>

lemma add_one_option_run:
  "add_one_option k i o1 =
     (if k \<in> set (map fst (option_map o1)) then (Inl (OptionException (option_exists_error k)), o1)
      else (Inr (), o1\<lparr>option_map := option_map o1 @ [(k, i)]\<rparr>))"
proof (cases "k \<in> set (map fst (option_map o1))")
  case True
  then obtain j where "map_of (option_map o1) k = Some j"
    by (metis map_of_eq_None_iff option.exhaust set_map)
  then show ?thesis using True by (simp add: add_one_option_def run_simps)
next
  case False
  then have "map_of (option_map o1) k = None" by (simp add: map_of_eq_None_iff)
  then show ?thesis using False by (simp add: add_one_option_def run_simps)
qed

definition names_of :: "Options \<Rightarrow> string set" where
  "names_of o1 = set (map fst (option_map o1))"

lemma names_update [simp]:
  "names_of (o1\<lparr>details := ds\<rparr>) = names_of o1" "names_of (o1\<lparr>help_map := hm\<rparr>) = names_of o1"
  "names_of (o1\<lparr>option_map := m @ [(k, i)]\<rparr>) = insert k (set (map fst m))"
  by (auto simp: names_of_def)

lemma inv_details: "opts_inv o1 \<Longrightarrow> opts_inv (o1\<lparr>details := details o1 @ [d]\<rparr>)"
  by (auto simp: opts_inv_def nth_append)

lemma inv_name:
  assumes "opts_inv o1" "k \<notin> names_of o1" "k \<noteq> []" "i < length (details o1)"
    and "k = m_short (details o1 ! i) \<or> k = m_long (details o1 ! i)"
  shows "opts_inv (o1\<lparr>option_map := option_map o1 @ [(k, i)]\<rparr>)"
  using assms by (auto simp: opts_inv_def names_of_def)

lemma inv_group: "opts_inv o1 \<Longrightarrow> opts_inv (o1\<lparr>help_map := update_group g f (help_map o1)\<rparr>)"
  using update_group_sorted [of "help_map o1" g f] by (auto simp: opts_inv_def)

text \<open>A name that is not taken, appended: the others lead where they led.\<close>

lemma map_of_snoc_other: "k \<in> set (map fst m) \<Longrightarrow> map_of (m @ [(x, i)]) k = map_of m k"
  by (induction m) auto

lemma map_of_snoc_same: "k \<notin> set (map fst m) \<Longrightarrow> map_of (m @ [(k, i)]) k = Some i"
  by (induction m) auto

text \<open>One of the two names, where an empty one is left out.\<close>

definition enter_name :: "string \<Rightarrow> nat \<Rightarrow> (Options, unit) comp" where
  "enter_name k i = (if k \<noteq> [] then add_one_option k i else ret ())"

definition entered :: "string \<Rightarrow> nat \<Rightarrow> Options \<Rightarrow> Options" where
  "entered k i o1 = (if k = [] then o1 else o1\<lparr>option_map := option_map o1 @ [(k, i)]\<rparr>)"

lemma enter_name_run:
  assumes "opts_inv o1"
  shows "enter_name k i o1 =
    (if k \<in> names_of o1 then (Inl (OptionException (option_exists_error k)), o1)
     else (Inr (), entered k i o1))"
proof -
  have "[] \<notin> names_of o1" using assms by (auto simp: opts_inv_def names_of_def)
  then show ?thesis
    by (auto simp: enter_name_def entered_def add_one_option_run names_of_def run_simps)
qed

lemma entered_facts:
  assumes "opts_inv o1" "k \<notin> names_of o1" "i < length (details o1)"
    and "k = m_short (details o1 ! i) \<or> k = m_long (details o1 ! i)"
  shows "opts_inv (entered k i o1)" "names_of (entered k i o1) = names_of o1 \<union> ({k} - {[]})"
    "details (entered k i o1) = details o1" "help_map (entered k i o1) = help_map o1"
    "x \<in> names_of o1 \<Longrightarrow> map_of (option_map (entered k i o1)) x = map_of (option_map o1) x"
    "k \<noteq> [] \<Longrightarrow> map_of (option_map (entered k i o1)) k = Some i"
proof -
  show "opts_inv (entered k i o1)" using inv_name [OF assms(1,2) _ assms(3,4)] assms(1) by (simp add: entered_def)
  show "names_of (entered k i o1) = names_of o1 \<union> ({k} - {[]})" by (auto simp: entered_def names_of_def)
  show "k \<noteq> [] \<Longrightarrow> map_of (option_map (entered k i o1)) k = Some i"
    using map_of_snoc_same assms(2) by (simp add: entered_def names_of_def del: map_of_append)
  show "x \<in> names_of o1 \<Longrightarrow> map_of (option_map (entered k i o1)) x = map_of (option_map o1) x"
    using map_of_snoc_other [of x "option_map o1" k i] by (auto simp: entered_def names_of_def simp del: map_of_append)
qed (simp_all add: entered_def)

text \<open>The table with the new object, and the three ways on from there.\<close>

definition with_details :: "string \<Rightarrow> string \<Rightarrow> string \<Rightarrow> Value \<Rightarrow> Options \<Rightarrow> Options" where
  "with_details s l desc v o1 = o1\<lparr>details := details o1 @ [OptionDetails_new s l desc v]\<rparr>"

lemma with_details_facts:
  assumes "opts_inv o1"
  shows "opts_inv (with_details s l desc v o1)" "names_of (with_details s l desc v o1) = names_of o1"
    "option_map (with_details s l desc v o1) = option_map o1"
    "details (with_details s l desc v o1) = details o1 @ [OptionDetails_new s l desc v]"
    "m_short (details (with_details s l desc v o1) ! length (details o1)) = s"
    "m_long (details (with_details s l desc v o1) ! length (details o1)) = l"
  using inv_details [OF assms] by (simp_all add: with_details_def OptionDetails_new_def)

lemma entered_short:
  fixes l desc :: string and v :: Value
  assumes "opts_inv o1" "s \<notin> names_of o1"
  defines "e \<equiv> entered s (length (details o1)) (with_details s l desc v o1)"
  shows "opts_inv e" "names_of e = names_of o1 \<union> ({s} - {[]})"
    "details e = details o1 @ [OptionDetails_new s l desc v]"
    "x \<in> names_of o1 \<Longrightarrow> map_of (option_map e) x = map_of (option_map o1) x"
    "s \<noteq> [] \<Longrightarrow> map_of (option_map e) s = Some (length (details o1))"
  using entered_facts [where k = s and i = "length (details o1)",
      OF with_details_facts(1) [OF assms(1), of s l desc v]]
    with_details_facts(2-5) [OF assms(1), of s l desc v] assms(2) by (simp_all add: e_def)

lemma add_option_cases:
  assumes "opts_inv o1" "add_option grp s l desc v arg_help o1 = (r, o2)"
  defines "d \<equiv> with_details s l desc v o1" and "i \<equiv> length (details o1)"
  obtains (short_taken) "s \<in> names_of o1" "r = Inl (OptionException (option_exists_error s))" "o2 = d"
  | (long_taken) "s \<notin> names_of o1" "l \<in> names_of (entered s i d)"
      "r = Inl (OptionException (option_exists_error l))" "o2 = entered s i d"
  | (added) f where "s \<notin> names_of o1" "l \<notin> names_of (entered s i d)" "r = Inr ()"
      "o2 = entered l i (entered s i d)\<lparr>help_map := update_group grp f (help_map (entered l i (entered s i d)))\<rparr>"
proof -
  define f :: "HelpGroupDetails \<Rightarrow> HelpGroupDetails"
    where "f = (\<lambda>h. h\<lparr>group_options := group_options h @ [help_details s l desc v arg_help]\<rparr>)"
  have run: "add_option grp s l desc v arg_help o1 =
     sq (enter_name s i) (sq (enter_name l i) (modify (\<lambda>o1. o1\<lparr>help_map := update_group grp f (help_map o1)\<rparr>))) d"
    by (simp add: add_option_def enter_name_def with_details_def d_def f_def i_def)
  note d = with_details_facts [OF assms(1), of s l desc v, folded d_def i_def]
  have s: "enter_name s i d = (if s \<in> names_of o1 then (Inl (OptionException (option_exists_error s)), d)
      else (Inr (), entered s i d))"
    using enter_name_run [OF d(1)] by (simp add: d(2))
  show thesis
  proof (cases "s \<in> names_of o1")
    case True
    then show ?thesis using short_taken assms(2) s unfolding run by (simp add: sq_def bnd_def)
  next
    case False
    note l = enter_name_run [OF entered_short(1) [OF assms(1) False, where l = l and desc = desc and v = v, folded d_def i_def], of l i]
    show ?thesis using False long_taken added assms(2) s l unfolding run
      by (cases "l \<in> names_of (entered s i d)") (auto simp: sq_def bnd_def)
  qed
qed

text \<open>
  Adding an option enters each name it has, once, for a new object with its details, and
  keeps the table well-formed, whether it succeeds or throws. It succeeds exactly if no name of
  it is taken and the two differ; otherwise it throws \<open>option_exists_error\<close> with the name that is
  taken, but when only the long one is, the short one has been entered.
\<close>

theorem add_option_correct:
  assumes "opts_inv o1" "add_option grp s l desc v arg_help o1 = (r, o2)"
  shows "opts_inv o2
    \<and> (r = Inr () \<longleftrightarrow> s \<notin> names_of o1 \<and> l \<notin> names_of o1 \<and> (s = l \<longrightarrow> s = []))
    \<and> (r \<noteq> Inr () \<longrightarrow> r = Inl (OptionException (option_exists_error (if s \<in> names_of o1 then s else l))))
    \<and> details o2 = details o1 @ [OptionDetails_new s l desc v]
    \<and> names_of o2 = names_of o1 \<union> (if r = Inr () then {s, l} - {[]} else if s \<in> names_of o1 then {} else {s} - {[]})
    \<and> (\<forall>k \<in> names_of o1. map_of (option_map o2) k = map_of (option_map o1) k)
    \<and> (\<forall>k \<in> names_of o2 - names_of o1. map_of (option_map o2) k = Some (length (details o1)))"
proof -
  define d where "d = with_details s l desc v o1"
  define i where "i = length (details o1)"
  note d = with_details_facts [OF assms(1), of s l desc v, folded d_def i_def]
  have ne: "[] \<notin> names_of o1" using assms(1) by (auto simp: opts_inv_def names_of_def)
  show ?thesis using assms
  proof (cases rule: add_option_cases)
    case short_taken
    then show ?thesis using d by (simp add: d_def)
  next
    case long_taken
    note e = entered_short [OF assms(1) long_taken(1), where l = l and desc = desc and v = v, folded d_def i_def]
    show ?thesis using long_taken e ne by (auto simp: d_def [symmetric] i_def [symmetric])
  next
    case (added f)
    note e = entered_short [OF assms(1) added(1), where l = l and desc = desc and v = v, folded d_def i_def]
    have "i < length (details (entered s i d))" "m_long (details (entered s i d) ! i) = l"
      unfolding e(3) by (simp_all add: i_def OptionDetails_new_def)
    note f = entered_facts [OF e(1) added(2) [folded d_def i_def] this(1) disjI2 [OF this(2) [symmetric]]]
    show ?thesis using added e f ne inv_group [OF f(1)] by (auto simp: d_def [symmetric] i_def [symmetric])
  qed
qed

theorem add_option_correct_witness:
  "names_of (snd (add_option [] ''d'' ''dir'' [] (cxx_value T_string) [] (Options_new [] []))) = {''d'', ''dir''}"
proof -
  obtain r o2 where run: "add_option [] ''d'' ''dir'' [] (cxx_value T_string) [] (Options_new [] []) = (r, o2)"
    by fastforce
  have "names_of (Options_new [] []) = {}" by (simp add: names_of_def Options_new_def)
  then show ?thesis using add_option_correct [OF Options_new_inv run] run by auto
qed

end
