(* ===== verification/Cxxopts_Help.thy ===== *)
theory Cxxopts_Help
  imports Cxxopts_Options "HOL-Library.Sublist"
begin

text \<open>
  \<open>libs/cxxopts/cxxopts.hpp\<close>, third part: the help text. The build does not define
  \<open>CXXOPTS_USE_UNICODE\<close>, so a \<open>String\<close> is a \<open>std::string\<close>, its length is its number of
  characters and the conversions between the two do nothing. Iterators into a text are positions.
\<close>

subsection \<open>One option\<close>

definition OPTION_LONGEST :: nat where "OPTION_LONGEST = 30"

definition OPTION_DESC_GAP :: nat where "OPTION_DESC_GAP = 2"

definition newline :: string where "newline = [CHR 0x0A]"

definition spaces :: "nat \<Rightarrow> string" where "spaces n = replicate n (CHR '' '')"

definition format_option :: "HelpOptionDetails \<Rightarrow> string" where
  "format_option ho =
     (let s = ho_s ho; l = ho_l ho;
          arg = (if ho_arg_help ho \<noteq> [] then ho_arg_help ho else ''arg'')
      in ''  ''
         @ (if s \<noteq> [] then ''-'' @ s @ (if l \<noteq> [] then '','' else []) else ''   '')
         @ (if l \<noteq> [] then '' --'' @ l else [])
         @ (if \<not> ho_is_boolean ho
            then if ho_has_implicit ho then '' [='' @ arg @ ''(='' @ ho_implicit_value ho @ '')]''
                 else '' '' @ arg
            else []))"

text \<open>The characters from position \<open>i\<close> up to \<open>j\<close>.\<close>

definition char_range :: "string \<Rightarrow> nat \<Rightarrow> nat \<Rightarrow> string" where
  "char_range s i j = take (j - i) (drop i s)"

text \<open>The loop of \<open>format_description\<close> and the last append.\<close>

function wrap_loop :: "nat \<Rightarrow> nat \<Rightarrow> string \<Rightarrow> nat \<Rightarrow> nat \<Rightarrow> nat \<Rightarrow> nat \<Rightarrow> string \<Rightarrow> string" where
  "wrap_loop start width desc current startLine lastSpace sz result =
     (if current < length desc then
        let c = desc ! current;
            lastSpace = (if c = CHR '' '' then current else lastSpace)
        in if c = CHR 0x0A
           then wrap_loop start width desc (current + 1) (current + 1) (current + 1) sz result
           else if sz > width
           then if lastSpace = startLine
                then wrap_loop start width desc (current + 1) (current + 1) (current + 1) 0
                       (result @ char_range desc startLine (current + 1) @ newline @ spaces start)
                else wrap_loop start width desc (current + 1) (lastSpace + 1) (lastSpace + 1) 0
                       (result @ char_range desc startLine lastSpace @ newline @ spaces start)
           else wrap_loop start width desc (current + 1) startLine lastSpace (sz + 1) result
      else result @ char_range desc startLine current)"
  by pat_completeness auto
termination by (relation "measure (\<lambda>(_, _, desc, current, _). length desc - current)") auto

declare wrap_loop.simps [simp del]

definition description_text :: "HelpOptionDetails \<Rightarrow> string" where
  "description_text ho =
     ho_desc ho
     @ (if ho_has_default ho \<and> (\<not> ho_is_boolean ho \<or> ho_default_value ho \<noteq> ''false'')
        then if ho_default_value ho \<noteq> [] then '' (default: '' @ ho_default_value ho @ '')''
             else '' (default: '' @ [CHR 0x22, CHR 0x22] @ '')''
        else [])"

definition format_description :: "HelpOptionDetails \<Rightarrow> nat \<Rightarrow> nat \<Rightarrow> string" where
  "format_description ho start width = wrap_loop start width (description_text ho) 0 0 0 0 []"

subsection \<open>Groups\<close>

definition hidden :: "Options \<Rightarrow> HelpOptionDetails \<Rightarrow> bool" where
  "hidden o1 ho \<longleftrightarrow> ho_l ho \<in> positional_set o1 \<and> \<not> show_positional o1"

text \<open>One line of a group, given the width of the left column.\<close>

definition help_line :: "nat \<Rightarrow> HelpOptionDetails \<Rightarrow> string" where
  "help_line longest ho =
     (let f = format_option ho;
          d = format_description ho (longest + OPTION_DESC_GAP) (76 - longest - OPTION_DESC_GAP)
      in f @ (if length f > longest then newline @ spaces (longest + OPTION_DESC_GAP)
              else spaces (longest + OPTION_DESC_GAP - length f))
         @ d @ newline)"

definition longest_option :: "HelpOptionDetails list \<Rightarrow> nat" where
  "longest_option os = min (foldl (\<lambda>m ho. max m (length (format_option ho))) 0 os) OPTION_LONGEST"

definition help_one_group :: "Options \<Rightarrow> string \<Rightarrow> string" where
  "help_one_group o1 g =
     (case map_of (help_map o1) g of
        None \<Rightarrow> []
      | Some grp \<Rightarrow>
          let os = filter (\<lambda>ho. \<not> hidden o1 ho) (group_options grp)
          in (if g \<noteq> [] then '' '' @ g @ '' options:'' @ newline else [])
             @ concat (map (help_line (longest_option os)) os))"

fun generate_group_help :: "Options \<Rightarrow> string list \<Rightarrow> string \<Rightarrow> string" where
  "generate_group_help o1 [] result = result"
| "generate_group_help o1 (g # gs) result =
     (let t = help_one_group o1 g
      in if t = [] then generate_group_help o1 gs result
         else generate_group_help o1 gs (result @ t @ (if gs \<noteq> [] then newline else [])))"

definition generate_all_groups_help :: "Options \<Rightarrow> string \<Rightarrow> string" where
  "generate_all_groups_help o1 = generate_group_help o1 (map fst (help_map o1))"

definition Options_help :: "string list \<Rightarrow> Options \<Rightarrow> string" where
  "Options_help help_groups o1 =
     (let result = help_string o1 @ newline @ ''Usage:'' @ newline @ ''  '' @ program o1 @ '' ''
            @ custom_help_text o1
            @ (if positional o1 \<noteq> [] \<and> positional_help_text o1 \<noteq> [] then '' '' @ positional_help_text o1 else [])
            @ newline @ newline
      in if help_groups = [] then generate_all_groups_help o1 result
         else generate_group_help o1 help_groups result)"

subsection \<open>Wrapping\<close>

text \<open>Lines separated by a newline and the indentation.\<close>

fun join_lines :: "nat \<Rightarrow> string list \<Rightarrow> string" where
  "join_lines start [] = []"
| "join_lines start [p] = p"
| "join_lines start (p # p' # ps) = p @ newline @ spaces start @ join_lines start (p' # ps)"

definition wraps :: "nat \<Rightarrow> nat \<Rightarrow> string list \<Rightarrow> bool" where
  "wraps start width ps \<longleftrightarrow> ps \<noteq> [] \<and> (\<forall>p \<in> set ps. length p \<le> 2 * width + 3 \<and> CHR 0x0A \<notin> set p)"

definition visible :: "string \<Rightarrow> string" where
  "visible = filter (\<lambda>c. c \<noteq> CHR '' '' \<and> c \<noteq> CHR 0x0A)"

lemma visible_simps [simp]:
  "visible [] = []" "visible (x @ y) = visible x @ visible y" "visible newline = []" "visible (spaces n) = []"
  by (simp_all add: visible_def newline_def spaces_def)

lemma char_range_simps:
  "length (char_range s i j) \<le> j - i"
  "c \<in> set (char_range s i j) \<Longrightarrow> \<exists>k. i \<le> k \<and> k < j \<and> k < length s \<and> c = s ! k"
proof -
  show "length (char_range s i j) \<le> j - i" by (simp add: char_range_def)
  assume "c \<in> set (char_range s i j)"
  then obtain k where "k < length (char_range s i j)" "char_range s i j ! k = c" by (metis in_set_conv_nth)
  then have "i \<le> i + k \<and> i + k < j \<and> i + k < length s \<and> c = s ! (i + k)" by (auto simp: char_range_def)
  then show "\<exists>k. i \<le> k \<and> k < j \<and> k < length s \<and> c = s ! k" by blast
qed

lemma char_range_split:
  assumes "i \<le> j" "j \<le> k"
  shows "char_range s i k = char_range s i j @ char_range s j k"
proof -
  have "k - i = (j - i) + (k - j)" using assms by simp
  then show ?thesis using assms unfolding char_range_def by (simp only: take_add drop_drop) simp
qed

lemma char_range_one: "i < length s \<Longrightarrow> char_range s i (i + 1) = [s ! i]"
  by (simp add: char_range_def take_Suc_conv_app_nth hd_drop_conv_nth take_Suc)

text \<open>What holds at the head of the loop.\<close>

definition wrap_inv :: "nat \<Rightarrow> string \<Rightarrow> nat \<Rightarrow> nat \<Rightarrow> nat \<Rightarrow> nat \<Rightarrow> bool" where
  "wrap_inv width desc c s l z \<longleftrightarrow>
     c \<le> length desc \<and> s \<le> l \<and> l \<le> c \<and> z \<le> width + 1 \<and> c - s \<le> width + 1 + z
     \<and> (l \<noteq> s \<longrightarrow> c - l \<le> z \<and> desc ! l = CHR '' '')
     \<and> (\<forall>k. s \<le> k \<longrightarrow> k < c \<longrightarrow> desc ! k \<noteq> CHR 0x0A)"

lemma wrap_inv_0: "wrap_inv width desc 0 0 0 0"
  by (simp add: wrap_inv_def)

lemma wrap_inv_step:
  assumes "wrap_inv width desc c s l z" "c < length desc"
  shows "desc ! c = CHR 0x0A \<Longrightarrow> wrap_inv width desc (c + 1) (c + 1) (c + 1) z"
    "wrap_inv width desc (c + 1) (c + 1) (c + 1) 0"
    "desc ! c \<noteq> CHR 0x0A \<Longrightarrow> l \<noteq> s \<Longrightarrow> wrap_inv width desc (c + 1) (l + 1) (l + 1) 0"
    "desc ! c \<noteq> CHR 0x0A \<Longrightarrow> z \<le> width \<Longrightarrow> wrap_inv width desc (c + 1) s l (z + 1)"
    "desc ! c = CHR '' '' \<Longrightarrow> wrap_inv width desc c s c z"
  using assms by (auto simp: wrap_inv_def less_Suc_eq)

lemma join_lines_Cons: "ps \<noteq> [] \<Longrightarrow> join_lines n (p # ps) = p @ newline @ spaces n @ join_lines n ps"
  by (cases ps) auto

text \<open>The loop appends lines to the result that hold the visible characters from the start of the line.\<close>

lemma wrap_loop_lines:
  assumes "wrap_inv width desc c s l z"
  shows "\<exists>ps. wrap_loop start width desc c s l z result = result @ join_lines start ps
    \<and> wraps start width ps
    \<and> (CHR 0x0A \<notin> set desc \<longrightarrow> visible (join_lines start ps) = visible (char_range desc s (length desc)))"
  (is "\<exists>ps. ?P c s l z result ps")
  using assms
proof (induction "length desc - c" arbitrary: c s l z result rule: less_induct)
  case less
  have IH: "\<exists>ps. ?P (c + 1) s' l' z' result' ps"
    if "c < length desc" "wrap_inv width desc (c + 1) s' l' z'" for s' l' z' result'
    by (rule less.hyps [OF _ that(2)]) (use that(1) in simp)
  have emit: "\<exists>ps. ?P c s l z result ps"
    if prems: "c < length desc" "wrap_inv width desc (c + 1) s' s' 0"
      "wrap_loop start width desc c s l z result
        = wrap_loop start width desc (c + 1) s' s' 0 (result @ char_range desc s e @ newline @ spaces start)"
      "e \<le> c + 1" "c + 1 - s \<le> 2 * width + 3" "\<forall>k. s \<le> k \<longrightarrow> k < e \<longrightarrow> desc ! k \<noteq> CHR 0x0A"
      "visible (char_range desc s (length desc)) = visible (char_range desc s e) @ visible (char_range desc s' (length desc))"
    for s' e
  proof -
    obtain ps where "?P (c + 1) s' s' 0 (result @ char_range desc s e @ newline @ spaces start) ps"
      using IH [OF prems(1,2)] by blast
    moreover have "length (char_range desc s e) \<le> 2 * width + 3" "CHR 0x0A \<notin> set (char_range desc s e)"
      using char_range_simps(1) [of desc s e] char_range_simps(2) [of _ desc s e] prems(4-6)
      by (auto dest!: char_range_simps(2))
    ultimately have "?P c s l z result (char_range desc s e # ps)"
      using prems(3,7) by (auto simp: wraps_def join_lines_Cons)
    then show ?thesis by blast
  qed
  have inv: "c \<le> length desc" "s \<le> c" "z \<le> width + 1" "c - s \<le> width + 1 + z"
    "\<forall>k. s \<le> k \<longrightarrow> k < c \<longrightarrow> desc ! k \<noteq> CHR 0x0A"
    using less.prems by (auto simp: wrap_inv_def)
  show ?case
  proof (cases "c < length desc")
    case False
    then have c: "c = length desc" using inv(1) by simp
    have "length (char_range desc s c) \<le> 2 * width + 3" using char_range_simps(1) [of desc s c] inv(3,4) by simp
    moreover have "CHR 0x0A \<notin> set (char_range desc s c)" using inv(5) by (auto dest!: char_range_simps(2))
    ultimately have "?P c s l z result [char_range desc s c]"
      using c by (simp add: wrap_loop.simps [of start width desc "length desc"] wraps_def)
    then show ?thesis by blast
  next
    case c: True
    define l' where "l' = (if desc ! c = CHR '' '' then c else l)"
    have inv': "wrap_inv width desc c s l' z"
      using less.prems wrap_inv_step(5) [OF less.prems c] by (simp add: l'_def)
    note step = wrap_inv_step [OF inv' c] and run = wrap_loop.simps [of start width desc c s l z result]
    have l': "s \<le> l'" "l' \<le> c" "l' \<noteq> s \<longrightarrow> desc ! l' = CHR '' ''" using inv' by (auto simp: wrap_inv_def)
    consider "desc ! c = CHR 0x0A" | "desc ! c \<noteq> CHR 0x0A" "z \<le> width"
      | "desc ! c \<noteq> CHR 0x0A" "width < z" "l' = s" | "desc ! c \<noteq> CHR 0x0A" "width < z" "l' \<noteq> s"
      by linarith
    then show ?thesis
    proof cases
      case 1
      then have "CHR 0x0A \<in> set desc" using c by (metis nth_mem)
      then show ?thesis using IH [OF c step(1) [OF 1], of result] run c 1 by simp
    next
      case 2
      then show ?thesis using IH [OF c step(4) [OF 2], of result] run c by (simp add: l'_def Let_def)
    next
      case 3
      show ?thesis
      proof (rule emit [OF c step(2)])
        show "wrap_loop start width desc c s l z result = wrap_loop start width desc (c + 1) (c + 1) (c + 1) 0
            (result @ char_range desc s (c + 1) @ newline @ spaces start)"
          using run c 3 by (simp add: l'_def Let_def)
        show "\<forall>k. s \<le> k \<longrightarrow> k < c + 1 \<longrightarrow> desc ! k \<noteq> CHR 0x0A" using inv(5) 3(1) by (auto simp: less_Suc_eq)
        show "visible (char_range desc s (length desc)) = visible (char_range desc s (c + 1)) @ visible (char_range desc (c + 1) (length desc))"
          using char_range_split [of s "c + 1" "length desc" desc] inv(2) c by simp
      qed (use inv in simp_all)
    next
      case 4
      show ?thesis
      proof (rule emit [OF c step(3) [OF 4(1,3)]])
        show "wrap_loop start width desc c s l z result = wrap_loop start width desc (c + 1) (l' + 1) (l' + 1) 0
            (result @ char_range desc s l' @ newline @ spaces start)"
          using run c 4 by (simp add: l'_def Let_def)
        show "\<forall>k. s \<le> k \<longrightarrow> k < l' \<longrightarrow> desc ! k \<noteq> CHR 0x0A" using inv(5) l' by auto
        have "visible (char_range desc l' (l' + 1)) = []"
          using l' 4(3) c char_range_one [of l' desc] by (simp add: visible_def)
        then show "visible (char_range desc s (length desc)) = visible (char_range desc s l') @ visible (char_range desc (l' + 1) (length desc))"
          using char_range_split [of s l' "length desc" desc] char_range_split [of l' "l' + 1" "length desc" desc] l' c by simp
      qed (use inv l' in simp_all)
    qed
  qed
qed

lemma wrap_keeps:
  "\<exists>ps. format_description ho start width = join_lines start ps \<and> wraps start width ps
    \<and> (CHR 0x0A \<notin> set (description_text ho) \<longrightarrow>
        visible (join_lines start ps) = visible (description_text ho))"
  using wrap_loop_lines [OF wrap_inv_0, of start width "description_text ho" "[]"]
  by (simp add: format_description_def char_range_def)

text \<open>
  Wrapping of descriptions, for every text, indentation and width. The loop ends and yields lines
  separated by a newline and the indentation, none of them longer than twice the width and three.
  If the text itself has no newline, its visible characters, with the default value, are all
  kept in their order. The bound is reached: with a width of 2 a line of 7 characters is made.
\<close>

theorem format_description_wraps:
  "(\<exists>ps. format_description ho start width = join_lines start ps
      \<and> (\<forall>p \<in> set ps. length p \<le> 2 * width + 3 \<and> CHR 0x0A \<notin> set p)
      \<and> (CHR 0x0A \<notin> set (description_text ho) \<longrightarrow>
          visible (format_description ho start width) = visible (description_text ho)))
   \<and> wrap_loop 1 2 ''a bb cccccccc'' 0 0 0 0 [] = join_lines 1 [''a'', ''bb'', ''ccccccc'', ''c'']"
  (is "?A \<and> ?B")
proof
  show ?A using wrap_keeps [of ho start width] by (metis wraps_def)
  show ?B by code_simp
qed

theorem format_description_wraps_witness:
  "visible (format_description (help_details ''d'' [] ''aa bbb cccccc d'' (cxx_value T_string) []) 4 2)
    = ''aabbbccccccd''"
proof -
  let ?h = "help_details ''d'' [] ''aa bbb cccccc d'' (cxx_value T_string) []"
  have d: "description_text ?h = ''aa bbb cccccc d''" by (simp add: description_text_def help_details_def cxx_value_def)
  show ?thesis using format_description_wraps [of ?h 4 2] unfolding d by (auto simp: visible_def)
qed

text \<open>
  A line break in a description loses text: what stands before it, on the line that is being
  collected, is not in the help.
\<close>

theorem newline_loses_text:
  "format_description (help_details ''x'' [] (''first'' @ newline @ ''second'') (cxx_value T_bool) [])
     10 44 = ''second''
   \<and> format_description (help_details ''x'' [] (''first'' @ newline) (cxx_value T_string) []) 10 44 = []"
  by code_simp

subsection \<open>The whole text\<close>

lemma sublist_middle: "sublist y (x @ y @ z)"
  by (auto simp: sublist_def)

lemma generate_prefix: "prefix r (generate_group_help o1 gs r)"
proof (induction o1 gs r rule: generate_group_help.induct)
  case (2 o1 g gs r)
  then show ?case by (auto simp: Let_def intro: prefix_order.trans append_prefixD)
qed simp

lemma generate_shows: "g \<in> set gs \<Longrightarrow> sublist (help_one_group o1 g) (generate_group_help o1 gs r)"
proof (induction o1 gs r rule: generate_group_help.induct)
  case (2 o1 h gs r)
  show ?case
  proof (cases "g = h \<and> help_one_group o1 h \<noteq> []")
    case True
    let ?r = "r @ help_one_group o1 h @ (if gs \<noteq> [] then newline else [])"
    have "sublist (help_one_group o1 g) ?r" using True sublist_middle by simp
    moreover have "sublist ?r (generate_group_help o1 gs ?r)"
      using generate_prefix [of ?r] by (rule prefix_imp_sublist)
    ultimately show ?thesis using True by (auto simp: Let_def intro: sublist_order.order.trans)
  next
    case False
    then show ?thesis using 2 by (cases "help_one_group o1 h = []") (auto simp: Let_def)
  qed
qed simp

text \<open>
  The help text is complete: in every well-formed table, an option that is not a hidden positional one
  has its name column, and the line breaks and the lines of its wrapped description behind it, in the
  text of its group, whether all groups are asked for or some with this one among them.
\<close>

theorem help_shows_option:
  assumes "opts_inv o1" "(g, grp) \<in> set (help_map o1)" "ho \<in> set (group_options grp)"
    and "\<not> (ho_l ho \<in> positional_set o1 \<and> \<not> show_positional o1)" "gs = [] \<or> g \<in> set gs"
  shows "\<exists>start width gap. sublist (format_option ho @ gap @ format_description ho start width @ newline)
      (Options_help gs o1)
    \<and> visible gap = [] \<and> gap \<noteq> [] \<and> 44 \<le> width \<and> start + width = 76"
proof -
  define os where "os = filter (\<lambda>ho. \<not> hidden o1 ho) (group_options grp)"
  define n where "n = longest_option os"
  have "map_of (help_map o1) g = Some grp"
    using assms(1,2) by (simp add: opts_inv_def strict_sorted_iff)
  then have "sublist (concat (map (help_line n) os)) (help_one_group o1 g)"
    by (simp add: help_one_group_def Let_def n_def os_def)
  moreover have "ho \<in> set os" using assms(3,4) by (simp add: os_def hidden_def)
  then have "sublist (help_line n ho) (concat (map (help_line n) os))"
    using sublist_middle by (auto dest!: split_list)
  moreover have "g \<in> set (if gs = [] then map fst (help_map o1) else gs)"
    using assms(2,5) by (auto simp: image_iff intro: bexI [of _ "(g, grp)"])
  then have "sublist (help_one_group o1 g) (Options_help gs o1)"
    using generate_shows [of g] by (simp add: Options_help_def Let_def generate_all_groups_help_def split: if_splits)
  ultimately have "sublist (help_line n ho) (Options_help gs o1)"
    by (meson sublist_order.order.trans)
  moreover define gap where "gap = (if length (format_option ho) > n then newline @ spaces (n + OPTION_DESC_GAP)
      else spaces (n + OPTION_DESC_GAP - length (format_option ho)))"
  ultimately have "sublist (format_option ho @ gap @ format_description ho (n + 2) (76 - n - 2) @ newline)
      (Options_help gs o1)"
    unfolding help_line_def Let_def OPTION_DESC_GAP_def by simp
  moreover have "visible gap = []" "gap \<noteq> []"
    by (auto simp: gap_def newline_def spaces_def visible_def OPTION_DESC_GAP_def)
  moreover have "n \<le> 30" by (simp add: n_def longest_option_def OPTION_LONGEST_def)
  then have "44 \<le> 76 - n - 2" "(n + 2) + (76 - n - 2) = 76" by simp_all
  ultimately show ?thesis by blast
qed

theorem help_shows_option_witness:
  "\<exists>start width gap.
     sublist (''  -d, --dir arg'' @ gap @ format_description (help_details ''d'' ''dir'' ''Directory''
         (cxx_value T_string) []) start width @ newline)
       (Options_help [] (snd (add_option [] ''d'' ''dir'' ''Directory'' (cxx_value T_string) [] (Options_new ''p'' ''h''))))"
proof -
  let ?h = "help_details ''d'' ''dir'' ''Directory'' (cxx_value T_string) []"
  define o1 where "o1 = snd (add_option [] ''d'' ''dir'' ''Directory'' (cxx_value T_string) [] (Options_new ''p'' ''h''))"
  have o1: "o1 = (Options_new ''p'' ''h'')\<lparr>details := [OptionDetails_new ''d'' ''dir'' ''Directory'' (cxx_value T_string)],
      option_map := [(''d'', 0), (''dir'', 0)], help_map := [([], \<lparr>group_name = [], group_description = [], group_options = [?h]\<rparr>)]\<rparr>"
    by (simp add: o1_def add_option_def add_one_option_def Options_new_def comp_defs)
  have "opts_inv o1" by (simp add: o1 opts_inv_def OptionDetails_new_def less_Suc_eq)
  moreover have "([], \<lparr>group_name = [], group_description = [], group_options = [?h]\<rparr>) \<in> set (help_map o1)"
    by (simp add: o1)
  moreover have "format_option ?h = ''  -d, --dir arg''" by code_simp
  moreover have "\<not> (ho_l ?h \<in> positional_set o1 \<and> \<not> show_positional o1)" by (simp add: o1 Options_new_def)
  ultimately show ?thesis
    using help_shows_option [of o1 "[]" _ ?h "[]"] unfolding o1_def [symmetric] by (metis HelpGroupDetails.select_convs(3) list.set_intros(1))
qed

end
