(* ===== verification/Cxxopts_Parse.thy ===== *)
theory Cxxopts_Parse
  imports Cxxopts_Options "HOL-Library.Sublist"
begin

text \<open>
  \<open>libs/cxxopts/cxxopts.hpp\<close>, fourth part: \<open>OptionValue\<close>, \<open>KeyValue\<close> and \<open>ParseResult\<close>, the
  parser of an argument vector.

  \<open>m_results\<close> is keyed by the pointer to the details of an option, here an index into \<open>details\<close>.
  The argument vector is a list of C strings, which hold no NUL character, together with \<open>argc\<close>;
  reading or writing it out of range is undefined, and so is following a pointer that leads
  nowhere. \<open>unordered_map\<close>s are gone through in the order of insertion.
\<close>

subsection \<open>\<open>OptionValue\<close> and \<open>KeyValue\<close>\<close>

record OptionValue =
  ov_long_name :: "string option"
  ov_value :: "Value option"
  ov_count :: nat
  ov_default :: bool

definition OptionValue_new :: OptionValue where
  "OptionValue_new = \<lparr>ov_long_name = None, ov_value = None, ov_count = 0, ov_default = False\<rparr>"

definition ensure_value :: "OptionDetails \<Rightarrow> OptionValue \<Rightarrow> OptionValue" where
  "ensure_value d ov = (if ov_value ov = None then ov\<lparr>ov_value := Some (make_storage d)\<rparr> else ov)"

text \<open>A call of a member function of \<open>*m_value\<close>.\<close>

definition on_value :: "(Value, unit) comp \<Rightarrow> (OptionValue, unit) comp" where
  "on_value m = (\<lambda>ov. case ov_value ov of
     None \<Rightarrow> (Inl (Undefined ''null pointer''), ov)
   | Some v \<Rightarrow> (case m v of (r, v') \<Rightarrow> (r, ov\<lparr>ov_value := Some v'\<rparr>)))"

definition ov_parse :: "OptionDetails \<Rightarrow> string \<Rightarrow> (OptionValue, unit) comp" where
  "ov_parse d text =
     sq (modify (ensure_value d))
     (sq (modify (\<lambda>ov. ov\<lparr>ov_count := ov_count ov + 1\<rparr>))
     (sq (on_value (value_parse text))
     (modify (\<lambda>ov. ov\<lparr>ov_long_name := Some (m_long d)\<rparr>))))"

definition ov_parse_default :: "OptionDetails \<Rightarrow> (OptionValue, unit) comp" where
  "ov_parse_default d =
     sq (modify (ensure_value d))
     (sq (modify (\<lambda>ov. ov\<lparr>ov_default := True, ov_long_name := Some (m_long d)\<rparr>))
     (on_value value_parse_default))"

text \<open>\<open>as<T>()\<close>; the \<open>dynamic_cast\<close> to a reference throws \<open>std::bad_cast\<close> for another type.\<close>

definition ov_as :: "vtype \<Rightarrow> OptionValue \<Rightarrow> exn + vval" where
  "ov_as t ov =
     (case ov_value ov of
        None \<Rightarrow> Inl (OptionException (option_has_no_value_exception
                  (case ov_long_name ov of None \<Rightarrow> [] | Some n \<Rightarrow> n)))
      | Some v \<Rightarrow> if type_of v = t then Inr (store v) else Inl BadCast)"

record KeyValue =
  kv_key :: string
  kv_value :: string

definition kv_as :: "vtype \<Rightarrow> KeyValue \<Rightarrow> exn + vval" where
  "kv_as t kv =
     (case parse_value t (kv_value kv) (init_of t) of (Inl e, v) \<Rightarrow> Inl e | (Inr _, v) \<Rightarrow> Inr v)"

subsection \<open>\<open>ParseResult\<close>\<close>

record ParseResult =
  pr_details :: "OptionDetails list"
  pr_options :: "(string \<times> nat) list"
  pr_positional :: "string list"
  pr_next :: nat
  pr_results :: "nat \<Rightarrow> OptionValue option"
  pr_allow :: bool
  pr_sequential :: "KeyValue list"

definition ParseResult_new :: "Options \<Rightarrow> ParseResult" where
  "ParseResult_new o1 =
     \<lparr>pr_details = details o1, pr_options = option_map o1, pr_positional = positional o1, pr_next = 0,
      pr_results = (\<lambda>_. None), pr_allow = allow_unrecognised o1, pr_sequential = []\<rparr>"

text \<open>An iterator that is dereferenced; the end iterator of \<open>m_results\<close> would be undefined.\<close>

definition result_of :: "nat \<Rightarrow> ParseResult \<Rightarrow> exn + OptionValue" where
  "result_of d pr =
     (case pr_results pr d of None \<Rightarrow> Inl (Undefined ''end iterator'') | Some ov \<Rightarrow> Inr ov)"

definition result_count :: "string \<Rightarrow> ParseResult \<Rightarrow> exn + nat" where
  "result_count option pr =
     (case map_of (pr_options pr) option of
        None \<Rightarrow> Inr 0
      | Some d \<Rightarrow> (case result_of d pr of Inl e \<Rightarrow> Inl e | Inr ov \<Rightarrow> Inr (ov_count ov)))"

text \<open>\<open>operator[]\<close>.\<close>

definition result_index :: "string \<Rightarrow> ParseResult \<Rightarrow> exn + OptionValue" where
  "result_index option pr =
     (case map_of (pr_options pr) option of
        None \<Rightarrow> Inl (OptionException (option_not_present_exception option))
      | Some d \<Rightarrow> result_of d pr)"

text \<open>The object a \<open>shared_ptr<OptionDetails>\<close> points to.\<close>

definition deref_details :: "nat \<Rightarrow> (ParseResult, OptionDetails) comp" where
  "deref_details d = bnd (reads pr_details) (\<lambda>ds.
     if d < length ds then ret (ds ! d) else raise (Undefined ''pointer''))"

definition find_option :: "string \<Rightarrow> (ParseResult, nat option) comp" where
  "find_option name = reads (\<lambda>pr. map_of (pr_options pr) name)"

text \<open>\<open>m_results[d]\<close>, which makes an entry if there is none, and a computation on it.\<close>

definition on_result :: "nat \<Rightarrow> (OptionValue, 'a) comp \<Rightarrow> (ParseResult, 'a) comp" where
  "on_result d m = (\<lambda>pr.
     case m (case pr_results pr d of None \<Rightarrow> OptionValue_new | Some ov \<Rightarrow> ov) of
       (r, ov) \<Rightarrow> (r, pr\<lparr>pr_results := (pr_results pr)(d \<mapsto> ov)\<rparr>))"

definition parse_default :: "nat \<Rightarrow> (ParseResult, unit) comp" where
  "parse_default d = bnd (deref_details d) (\<lambda>o1. on_result d (ov_parse_default o1))"

definition parse_option :: "nat \<Rightarrow> string \<Rightarrow> (ParseResult, unit) comp" where
  "parse_option d arg = bnd (deref_details d) (\<lambda>o1.
     sq (on_result d (ov_parse o1 arg))
        (modify (\<lambda>pr. pr\<lparr>pr_sequential := pr_sequential pr @ [\<lparr>kv_key = m_long o1, kv_value = arg\<rparr>]\<rparr>)))"

definition add_to_option :: "string \<Rightarrow> string \<Rightarrow> (ParseResult, unit) comp" where
  "add_to_option option arg = bnd (find_option option) (\<lambda>f.
     case f of
       None \<Rightarrow> raise (OptionException (option_not_exists_exception option))
     | Some d \<Rightarrow> parse_option d arg)"

text \<open>The loop of \<open>consume_positional\<close> over the names from \<open>m_next_positional\<close> on.\<close>

definition next_positional :: "(ParseResult, unit) comp" where
  "next_positional = modify (\<lambda>pr. pr\<lparr>pr_next := pr_next pr + 1\<rparr>)"

fun consume_loop :: "string \<Rightarrow> string list \<Rightarrow> (ParseResult, bool) comp" where
  "consume_loop a [] = ret False"
| "consume_loop a (p # ps) = bnd (find_option p) (\<lambda>f.
     case f of
       None \<Rightarrow> raise (OptionException (option_not_exists_exception p))
     | Some d \<Rightarrow> bnd (on_result d (reads ov_count)) (\<lambda>n. bnd (deref_details d) (\<lambda>o1.
         if \<not> is_container (type_of (m_value o1))
         then if n = 0 then sq (add_to_option p a) (sq next_positional (ret True))
              else sq next_positional (consume_loop a ps)
         else sq (add_to_option p a) (ret True))))"

definition consume_positional :: "string \<Rightarrow> (ParseResult, bool) comp" where
  "consume_positional a =
     bnd (reads (\<lambda>pr. drop (pr_next pr) (pr_positional pr))) (consume_loop a)"

subsection \<open>Matching an argument\<close>

datatype arg_match = No_match | Long string "string option" | Short string

definition line_end :: "char \<Rightarrow> bool" where
  "line_end c \<longleftrightarrow> c = CHR 0x0A \<or> c = CHR 0x0D"

text \<open>
  \<open>regex_match\<close> with \<open>--([[:alnum:]][-_[:alnum:]]+)(=(.*))?|-([[:alnum:]]+)\<close>: the first group
  and the third, if it took part, or the fourth. A dot matches no line terminator.
\<close>

definition match_long :: "string \<Rightarrow> arg_match" where
  "match_long t =
     (let n = takeWhile is_word t; r = dropWhile is_word t
      in if \<not> (is_name n \<and> length n \<ge> 2) then No_match
         else (case r of
                 [] \<Rightarrow> Long n None
               | c # v \<Rightarrow> if c = CHR ''='' \<and> \<not> list_ex line_end v then Long n (Some v) else No_match))"

definition option_matcher :: "string \<Rightarrow> arg_match" where
  "option_matcher s =
     (if take 2 s = ''--'' then match_long (drop 2 s)
      else if take 1 s = ''-'' \<and> tl s \<noteq> [] \<and> list_all is_alnum (tl s) then Short (tl s)
      else No_match)"

subsection \<open>\<open>ParseResult::parse\<close>\<close>

text \<open>The local variables of \<open>parse\<close>, with the argument vector and the object.\<close>

record parsing =
  argv :: "string list"
  current :: nat
  nextKeep :: nat
  result :: ParseResult

definition on_res :: "(ParseResult, 'a) comp \<Rightarrow> (parsing, 'a) comp" where
  "on_res m = on_member result result_update m"

definition read_arg :: "nat \<Rightarrow> (parsing, string) comp" where
  "read_arg i = bnd (reads argv) (\<lambda>a.
     if i < length a then ret (a ! i) else raise (Undefined ''argv''))"

definition next_arg :: "(parsing, unit) comp" where
  "next_arg = modify (\<lambda>p. p\<lparr>current := current p + 1\<rparr>)"

text \<open>\<open>argv[nextKeep] = argv[current]; ++nextKeep\<close>.\<close>

definition keep_arg :: "(parsing, unit) comp" where
  "keep_arg = bnd (reads current) (\<lambda>i. bnd (read_arg i) (\<lambda>a. bnd (reads nextKeep) (\<lambda>k.
     bnd (read_arg k) (\<lambda>_.
     modify (\<lambda>p. p\<lparr>argv := (argv p)[k := a], nextKeep := k + 1\<rparr>)))))"

definition checked_parse_arg :: "nat \<Rightarrow> nat \<Rightarrow> string \<Rightarrow> (parsing, unit) comp" where
  "checked_parse_arg argc d name = bnd (on_res (deref_details d)) (\<lambda>o1. bnd (reads current) (\<lambda>i.
     let v = m_value o1 in
     if i + 1 \<ge> argc
     then if m_implicit v then on_res (parse_option d (m_implicit_value v))
          else raise (OptionException (missing_argument_exception name))
     else if m_implicit v then on_res (parse_option d (m_implicit_value v))
     else bnd (read_arg (i + 1)) (\<lambda>a. sq (on_res (parse_option d a)) next_arg)))"

text \<open>The loop over the characters of \<open>-abc\<close>.\<close>

fun parse_short :: "nat \<Rightarrow> string \<Rightarrow> (parsing, unit) comp" where
  "parse_short argc [] = ret ()"
| "parse_short argc (c # cs) =
     (let name = [c] in
      bnd (on_res (find_option name)) (\<lambda>f.
        case f of
          None \<Rightarrow> bnd (reads (\<lambda>p. pr_allow (result p))) (\<lambda>allow.
            if allow then parse_short argc cs
            else raise (OptionException (option_not_exists_exception name)))
        | Some d \<Rightarrow>
            sq (if cs = [] then checked_parse_arg argc d name
                else bnd (on_res (deref_details d)) (\<lambda>o1.
                  if m_implicit (m_value o1) then on_res (parse_option d (m_implicit_value (m_value o1)))
                  else raise (OptionException (option_requires_argument_exception name))))
               (parse_short argc cs)))"

definition parse_long :: "nat \<Rightarrow> string \<Rightarrow> string option \<Rightarrow> (parsing, unit) comp" where
  "parse_long argc name arg =
     bnd (on_res (find_option name)) (\<lambda>f.
       case f of
         None \<Rightarrow> bnd (reads (\<lambda>p. pr_allow (result p))) (\<lambda>allow.
           if allow then keep_arg
           else raise (OptionException (option_not_exists_exception name)))
       | Some d \<Rightarrow> (case arg of
             Some text \<Rightarrow> on_res (parse_option d text)
           | None \<Rightarrow> checked_parse_arg argc d name))"

text \<open>An argument that matches no flag.\<close>

definition parse_other :: "string \<Rightarrow> (parsing, unit) comp" where
  "parse_other a =
     bnd (reads (\<lambda>p. pr_allow (result p))) (\<lambda>allow.
       if take 1 a = ''-'' \<and> tl a \<noteq> [] \<and> \<not> allow
       then raise (OptionException (option_syntax_exception a))
       else bnd (on_res (consume_positional a)) (\<lambda>consumed. if consumed then ret () else keep_arg))"

text \<open>The body of the main loop; \<^const>\<open>True\<close> is the \<open>break\<close> at \<open>--\<close>.\<close>

definition parse_step :: "nat \<Rightarrow> (parsing, bool) comp" where
  "parse_step argc = bnd (reads current) (\<lambda>i. bnd (read_arg i) (\<lambda>a.
     if a = ''--'' then sq next_arg (ret True)
     else sq (case option_matcher a of
                No_match \<Rightarrow> parse_other a
              | Short s \<Rightarrow> parse_short argc s
              | Long name arg \<Rightarrow> parse_long argc name arg)
             (sq next_arg (ret False))))"

fun parse_defaults :: "(string \<times> nat) list \<Rightarrow> (ParseResult, unit) comp" where
  "parse_defaults [] = ret ()"
| "parse_defaults ((k, d) # os) =
     bnd (deref_details d) (\<lambda>o1. bnd (on_result d (reads (\<lambda>ov. ov_count ov = 0 \<and> \<not> ov_default ov))) (\<lambda>unset.
       sq (if m_default (m_value o1) \<and> unset then parse_default d else ret ()) (parse_defaults os)))"

definition rest_step :: "(parsing, bool) comp" where
  "rest_step = bnd (reads current) (\<lambda>i. bnd (read_arg i) (\<lambda>a.
     bnd (on_res (consume_positional a)) (\<lambda>consumed.
     if consumed then sq next_arg (ret False) else ret True)))"

definition keep_step :: "(parsing, bool) comp" where
  "keep_step = sq keep_arg (sq next_arg (ret False))"

text \<open>The new \<open>argc\<close> is the result.\<close>

definition ParseResult_parse :: "nat \<Rightarrow> (parsing, nat) comp" where
  "ParseResult_parse argc = bnd (reads (\<lambda>p. Suc (length (argv p)))) (\<lambda>n.
     bnd (rounds n (\<lambda>p. current p \<noteq> argc) (parse_step argc)) (\<lambda>consume_remaining.
     bnd (reads (\<lambda>p. pr_options (result p))) (\<lambda>os.
     sq (on_res (parse_defaults os))
     (sq (if consume_remaining
          then sq (rounds n (\<lambda>p. current p < argc) rest_step)
                  (sq (rounds n (\<lambda>p. current p \<noteq> argc) keep_step) (ret ()))
          else ret ())
     (reads nextKeep)))))"

definition parsing_new :: "Options \<Rightarrow> string list \<Rightarrow> parsing" where
  "parsing_new o1 av = \<lparr>argv = av, current = 1, nextKeep = 1, result = ParseResult_new o1\<rparr>"

text \<open>\<open>Options::parse\<close>: the result, and \<open>argc\<close> and \<open>argv\<close> as they are changed.\<close>

definition Options_parse :: "Options \<Rightarrow> nat \<Rightarrow> string list \<Rightarrow> exn + (ParseResult \<times> nat \<times> string list)" where
  "Options_parse o1 argc av =
     (case ParseResult_parse argc (parsing_new o1 av) of
        (Inl e, p) \<Rightarrow> Inl e
      | (Inr argc', p) \<Rightarrow> Inr (result p, argc', argv p))"

end
