(* ===== verification/Cxxopts_Correct.thy ===== *)
theory Cxxopts_Correct
  imports Cxxopts_Parse
begin

text \<open>
  What every run of the argument parser guarantees: it ends, it is never undefined, it throws
  nothing but the exceptions of the library, the values it stores have the declared types, its
  counts agree with the list of the arguments it parsed, and the arguments it leaves are
  those it was given, in order.
\<close>

declare bnd_reads [simp del] bnd_modify [simp del] sq_modify [simp del]

definition is_option_exn :: "exn \<Rightarrow> bool" where
  "is_option_exn e \<longleftrightarrow> (\<exists>x. e = OptionException x)"

lemma is_option_exn_simps [simp]:
  "is_option_exn (OptionException x)" "\<not> is_option_exn (Undefined w)" "\<not> is_option_exn Diverged"
  by (simp_all add: is_option_exn_def)

subsection \<open>Types of values\<close>

fun wf_type :: "vtype \<Rightarrow> bool" where
  "wf_type (T_int sgnd w) = (0 < w)"
| "wf_type (T_vector t) = wf_type t"
| "wf_type _ = True"

fun has_type :: "vtype \<Rightarrow> vval \<Rightarrow> bool" where
  "has_type T_bool (V_bool b) = True"
| "has_type T_string (V_string s) = True"
| "has_type T_char (V_char c) = True"
| "has_type (T_int sgnd w) (V_int i) = in_type sgnd w i"
| "has_type (T_vector t) (V_vector vs) = list_all (has_type t) vs"
| "has_type _ _ = False"

lemma init_has_type: "wf_type t \<Longrightarrow> has_type t (init_of t)"
  by (cases t) (simp_all add: in_type_def)

lemma parser_in_type:
  assumes "0 < w"
  shows "case integer_parser sgnd w text of Inl e \<Rightarrow> is_option_exn e | Inr i \<Rightarrow> in_type sgnd w i"
  using parser_error parser_sound [OF assms] by (fastforce split: sum.split)

lemma parse_value_typed:
  "wf_type t \<Longrightarrow> has_type t v \<Longrightarrow> wp is_option_exn (parse_value t s) (\<lambda>_. has_type t) v"
proof (induction t arbitrary: s v)
  case (T_int sgnd w)
  then show ?case using parser_in_type [of w sgnd s] by (simp add: wp_simps split: sum.splits)
next
  case (T_vector t)
  have "wp is_option_exn (parse_tokens (parse_value t) (init_of t) ks) (\<lambda>_. has_type (T_vector t)) v" for ks
    using T_vector.prems
  proof (induction ks arbitrary: v)
    case (Cons k ks)
    obtain vs where v: "v = V_vector vs" "list_all (has_type t) vs" using Cons.prems by (cases v) auto
    have k: "wp is_option_exn (parse_value t k) (\<lambda>_. has_type t) (init_of t)"
      using T_vector.IH [OF _ init_has_type] Cons.prems(1) by simp
    obtain r x where run: "parse_value t k (init_of t) = (r, x)" by fastforce
    show ?case
    proof (cases r)
      case (Inr u)
      then have "has_type (T_vector t) (push_value x v)" using wp_result [OF k run] v by simp
      then show ?thesis using Cons.IH [OF Cons.prems(1)] run Inr by (simp add: wp_simps)
    qed (use wp_result [OF k run] run in \<open>simp add: wp_simps\<close>)
  qed (simp add: wp_simps)
  then show ?case by simp
qed (auto simp: wp_simps parse_char_def)

lemma value_parse_typed:
  assumes "wf_type (type_of v)" "has_type (type_of v) (store v)"
  shows "wp is_option_exn (value_parse text) (\<lambda>_ v'. \<exists>x. v' = v\<lparr>store := x\<rparr> \<and> has_type (type_of v) x) v"
  unfolding value_parse_def
  by (simp only: wp_simps) (rule wp_mono [OF parse_value_typed [OF assms]], auto)

subsection \<open>Entries\<close>

definition ov_inv :: "OptionDetails \<Rightarrow> OptionValue \<Rightarrow> bool" where
  "ov_inv d ov \<longleftrightarrow> (ov_value ov = None \<longleftrightarrow> ov_count ov = 0 \<and> \<not> ov_default ov)
     \<and> (\<forall>v. ov_value ov = Some v \<longrightarrow>
          type_of v = type_of (m_value d) \<and> has_type (type_of v) (store v))"

lemma ov_inv_new: "ov_inv d OptionValue_new"
  by (simp add: ov_inv_def OptionValue_new_def)

lemma wp_on_value [wp_simps]:
  "wp X (on_value m) Q ov =
     (case ov_value ov of
        None \<Rightarrow> X (Undefined ''null pointer'')
      | Some v \<Rightarrow> wp X m (\<lambda>x v'. Q x (ov\<lparr>ov_value := Some v'\<rparr>)) v)"
  by (simp add: wp_def on_value_def split: prod.split sum.split option.split)

lemma ensured:
  assumes "ov_inv d ov" "wf_type (type_of (m_value d))"
  obtains v where "ov_value (ensure_value d ov) = Some v" "type_of v = type_of (m_value d)"
    "has_type (type_of v) (store v)"
  using assms init_has_type that
  by (cases "ov_value ov") (auto simp: ov_inv_def ensure_value_def make_storage_def value_clone_def)

lemma ensure_same:
  "ov_count (ensure_value d ov) = ov_count ov" "ov_default (ensure_value d ov) = ov_default ov"
  by (simp_all add: ensure_value_def)

lemma ov_parse_typed:
  assumes "ov_inv d ov" "wf_type (type_of (m_value d))"
  shows "wp is_option_exn (ov_parse d text)
    (\<lambda>_ ov'. ov_inv d ov' \<and> ov_count ov' = ov_count ov + 1 \<and> ov_default ov' = ov_default ov) ov"
proof -
  obtain v where v: "ov_value (ensure_value d ov) = Some v" "type_of v = type_of (m_value d)"
    "has_type (type_of v) (store v)" by (rule ensured [OF assms])
  have "wf_type (type_of v)" using v(2) assms(2) by simp
  note p = value_parse_typed [OF this v(3)]
  show ?thesis
    unfolding ov_parse_def wp_simps
    by (simp add: v(1)) (rule wp_mono [OF p], auto simp: ov_inv_def v(2) ensure_same)
qed

lemma ov_parse_default_typed:
  assumes "ov_inv d ov" "wf_type (type_of (m_value d))"
  shows "wp is_option_exn (ov_parse_default d)
    (\<lambda>_ ov'. ov_inv d ov' \<and> ov_count ov' = ov_count ov \<and> ov_default ov') ov"
proof -
  obtain v where v: "ov_value (ensure_value d ov) = Some v" "type_of v = type_of (m_value d)"
    "has_type (type_of v) (store v)" by (rule ensured [OF assms])
  have "wf_type (type_of v)" using v(2) assms(2) by simp
  note p = value_parse_typed [OF this v(3)]
  show ?thesis
    unfolding ov_parse_default_def value_parse_default_def wp_simps
    by (simp add: v(1) wp_simps value_parse_default_def)
      (rule wp_mono [OF p], auto simp: ov_inv_def v(2) ensure_same)
qed

subsection \<open>The results\<close>

definition entry :: "ParseResult \<Rightarrow> nat \<Rightarrow> OptionValue" where
  "entry pr d = (case pr_results pr d of None \<Rightarrow> OptionValue_new | Some ov \<Rightarrow> ov)"

text \<open>The counts of the options with a long name add up to the number of its arguments.\<close>

definition with_long :: "OptionDetails list \<Rightarrow> string \<Rightarrow> nat set" where
  "with_long ds k = {d. d < length ds \<and> m_long (ds ! d) = k}"

definition tally :: "ParseResult \<Rightarrow> bool" where
  "tally pr \<longleftrightarrow> (\<forall>k. (\<Sum>d \<in> with_long (pr_details pr) k. ov_count (entry pr d))
     = length (filter (\<lambda>kv. kv_key kv = k) (pr_sequential pr)))"

text \<open>\<open>D\<close> is a set of options that have an entry, with their default if they have no other value.\<close>

definition pr_sound :: "Options \<Rightarrow> nat set \<Rightarrow> ParseResult \<Rightarrow> bool" where
  "pr_sound o1 D pr \<longleftrightarrow> pr_details pr = details o1 \<and> pr_options pr = option_map o1
     \<and> (\<forall>d ov. pr_results pr d = Some ov \<longrightarrow> ov_inv (details o1 ! d) ov)
     \<and> (\<forall>d \<in> D. \<exists>ov. pr_results pr d = Some ov
          \<and> (m_default (m_value (details o1 ! d)) \<longrightarrow> ov_value ov \<noteq> None))
     \<and> tally pr"

definition table_ok :: "Options \<Rightarrow> bool" where
  "table_ok o1 \<longleftrightarrow> (\<forall>(k, d) \<in> set (option_map o1). d < length (details o1))
     \<and> (\<forall>x \<in> set (details o1). wf_type (type_of (m_value x)))"

lemma table_find: "table_ok o1 \<Longrightarrow> map_of (option_map o1) n = Some d \<Longrightarrow> d < length (details o1)"
  by (auto simp: table_ok_def dest: map_of_SomeD)

lemma table_type: "table_ok o1 \<Longrightarrow> d < length (details o1) \<Longrightarrow> wf_type (type_of (m_value (details o1 ! d)))"
  by (simp add: table_ok_def)

lemma pr_sound_new: "pr_sound o1 {} (ParseResult_new o1)"
  by (simp add: pr_sound_def tally_def ParseResult_new_def entry_def OptionValue_new_def)

lemma wp_on_result [wp_simps]:
  "wp X (on_result d m) Q pr =
     wp X m (\<lambda>x ov. Q x (pr\<lparr>pr_results := (pr_results pr)(d \<mapsto> ov)\<rparr>)) (entry pr d)"
  by (simp add: wp_def on_result_def entry_def split: prod.split sum.split)

lemma wp_deref: "d < length (pr_details pr) \<Longrightarrow> wp X (deref_details d) Q pr = Q (pr_details pr ! d) pr"
  by (simp add: deref_details_def wp_simps)

lemma wp_find [wp_simps]: "wp X (find_option n) Q pr = Q (map_of (pr_options pr) n) pr"
  by (simp add: find_option_def wp_simps)

lemma pr_sound_basic:
  assumes "pr_sound o1 D pr"
  shows "pr_details pr = details o1" "pr_options pr = option_map o1" "ov_inv (details o1 ! d) (entry pr d)"
  using assms ov_inv_new by (auto simp: pr_sound_def entry_def split: option.split)

lemma sum_at:
  "finite S \<Longrightarrow> (\<Sum>x \<in> S. (f(d := f d + c)) x) = (\<Sum>x \<in> S. f x :: nat) + (if d \<in> S then c else 0)"
  by (induction S rule: finite_induct) auto

lemma entry_update: "entry (pr\<lparr>pr_results := (pr_results pr)(d \<mapsto> ov)\<rparr>) = (entry pr)(d := ov)"
  by (rule ext) (simp add: entry_def)

lemma finite_with_long: "finite (with_long ds k)"
  by (simp add: with_long_def)

lemma tally_update:
  assumes "tally pr" "ov_count ov = ov_count (entry pr d) + length kvs" "d < length (pr_details pr)"
    "\<forall>kv \<in> set kvs. kv_key kv = m_long (pr_details pr ! d)"
  shows "tally (pr\<lparr>pr_results := (pr_results pr)(d \<mapsto> ov), pr_sequential := pr_sequential pr @ kvs\<rparr>)"
proof -
  let ?f = "\<lambda>x. ov_count (entry pr x)"
  have f: "(\<lambda>x. ov_count (((entry pr)(d := ov)) x)) = ?f(d := ?f d + length kvs)"
    using assms(2) by auto
  have len: "length (filter (\<lambda>kv. kv_key kv = k) kvs)
      = (if d \<in> with_long (pr_details pr) k then length kvs else 0)" for k
    using assms(3,4) by (auto simp: with_long_def filter_id_conv filter_empty_conv)
  have "entry (pr\<lparr>pr_results := (pr_results pr)(d \<mapsto> ov), pr_sequential := x\<rparr>) = (entry pr)(d := ov)" for x
    by (rule ext) (simp add: entry_def)
  moreover have "(\<Sum>x \<in> with_long (pr_details pr) k. ov_count (((entry pr)(d := ov)) x))
      = sum ?f (with_long (pr_details pr) k) + length (filter (\<lambda>kv. kv_key kv = k) kvs)" for k
    unfolding len f by (rule sum_at [where f = ?f, OF finite_with_long])
  ultimately show ?thesis using assms(1) by (simp add: tally_def del: fun_upd_apply)
qed

lemma pr_sound_update:
  assumes "pr_sound o1 D pr" "d < length (details o1)" "ov_inv (details o1 ! d) ov"
    and "ov_count ov = ov_count (entry pr d) + length kvs" "\<forall>kv \<in> set kvs. kv_key kv = m_long (details o1 ! d)"
    and "ov_value ov = None \<longrightarrow> ov_value (entry pr d) = None"
  shows "pr_sound o1 D (pr\<lparr>pr_results := (pr_results pr)(d \<mapsto> ov), pr_sequential := pr_sequential pr @ kvs\<rparr>)"
  using assms tally_update [of pr ov d kvs] by (auto simp: pr_sound_def entry_def split: option.splits)

lemma pr_sound_touch:
  assumes "pr_sound o1 D pr" "d < length (details o1)"
  shows "pr_sound o1 D (pr\<lparr>pr_results := (pr_results pr)(d \<mapsto> entry pr d)\<rparr>)"
proof -
  have "pr\<lparr>pr_sequential := pr_sequential pr\<rparr> = pr" by simp
  then show ?thesis using pr_sound_update [OF assms pr_sound_basic(3) [OF assms(1)], of "[]"] by simp
qed

lemma entry_next: "entry (pr\<lparr>pr_next := n\<rparr>) = entry pr"
  by (rule ext) (simp add: entry_def)

lemma tally_next: "tally (pr\<lparr>pr_next := n\<rparr>) = tally pr"
  by (simp add: tally_def entry_next)

lemma pr_sound_next: "pr_sound o1 D pr \<Longrightarrow> pr_sound o1 D (pr\<lparr>pr_next := n\<rparr>)"
  by (simp add: pr_sound_def tally_next)

lemma valued:
  assumes "ov_inv d ov" "ov_count ov \<noteq> 0 \<or> ov_default ov"
  shows "ov_value ov \<noteq> None"
  using assms by (auto simp: ov_inv_def)

lemma pr_sound_parse_option:
  assumes "table_ok o1" "pr_sound o1 D pr" "d < length (details o1)"
  shows "wp is_option_exn (parse_option d a) (\<lambda>_. pr_sound o1 D) pr"
proof -
  note b = pr_sound_basic [OF assms(2)]
  note p = ov_parse_typed [OF b(3) table_type [OF assms(1,3)]]
  have "wp is_option_exn (ov_parse (details o1 ! d) a)
      (\<lambda>_ ov. pr_sound o1 D (pr\<lparr>pr_results := (pr_results pr)(d \<mapsto> ov),
         pr_sequential := pr_sequential pr @ [\<lparr>kv_key = m_long (details o1 ! d), kv_value = a\<rparr>]\<rparr>)) (entry pr d)"
    by (rule wp_mono [OF p], rule pr_sound_update [OF assms(2,3)]) (auto dest: valued)
  then show ?thesis
    by (simp add: parse_option_def wp_simps wp_deref b(1) assms(3))
qed

lemma pr_sound_add_to_option:
  assumes "table_ok o1" "pr_sound o1 D pr"
  shows "wp is_option_exn (add_to_option n a) (\<lambda>_. pr_sound o1 D) pr"
  using pr_sound_parse_option [OF assms] table_find [OF assms(1), of n] pr_sound_basic(2) [OF assms(2)]
  by (auto simp: add_to_option_def wp_simps split: option.split)

lemma pr_sound_consume:
  assumes "table_ok o1" "pr_sound o1 D pr"
  shows "wp is_option_exn (consume_positional a) (\<lambda>_. pr_sound o1 D) pr"
proof -
  have "pr_sound o1 D pr \<Longrightarrow> wp is_option_exn (consume_loop a ps) (\<lambda>_. pr_sound o1 D) pr" for ps pr
  proof (induction ps arbitrary: pr)
    case (Cons p ps)
    show ?case
    proof (cases "map_of (option_map o1) p")
      case (Some d)
      note d = table_find [OF assms(1) Some]
      note t = pr_sound_touch [OF Cons.prems d]
      have "wp is_option_exn (add_to_option p a) (\<lambda>_. wp is_option_exn (sq next_positional (ret True)) (\<lambda>_. pr_sound o1 D))
          (pr\<lparr>pr_results := (pr_results pr)(d \<mapsto> entry pr d)\<rparr>)"
        by (rule wp_mono [OF pr_sound_add_to_option [OF assms(1) t]]) (simp add: next_positional_def wp_simps pr_sound_next)
      moreover have "wp is_option_exn (sq (add_to_option p a) (ret True)) (\<lambda>_. pr_sound o1 D)
          (pr\<lparr>pr_results := (pr_results pr)(d \<mapsto> entry pr d)\<rparr>)"
        using pr_sound_add_to_option [OF assms(1) t] by (simp add: wp_simps)
      ultimately show ?thesis
        using Some pr_sound_basic(1,2) [OF Cons.prems] d Cons.IH [OF pr_sound_next [OF t]]
        by (simp add: wp_simps wp_deref next_positional_def)
    qed (use pr_sound_basic(2) [OF Cons.prems] in \<open>simp add: wp_simps\<close>)
  qed (simp add: wp_simps)
  then show ?thesis using assms(2) by (simp add: consume_positional_def wp_simps)
qed

lemma pr_sound_defaults:
  assumes "table_ok o1"
  shows "pr_sound o1 D pr \<Longrightarrow> \<forall>(k, d) \<in> set os. d < length (details o1) \<Longrightarrow>
    wp is_option_exn (parse_defaults os) (\<lambda>_. pr_sound o1 (D \<union> snd ` set os)) pr"
proof (induction os arbitrary: D pr)
  case (Cons x os)
  obtain k d where x: "x = (k, d)" by fastforce
  then have d: "d < length (details o1)" using Cons.prems(2) by auto
  let ?t = "pr\<lparr>pr_results := (pr_results pr)(d \<mapsto> entry pr d)\<rparr>"
  let ?o = "details o1 ! d"
  note t = pr_sound_touch [OF Cons.prems(1) d] and b = pr_sound_basic [OF Cons.prems(1)]
  have e: "entry ?t d = entry pr d" by (simp add: entry_update)
  have "wp is_option_exn (if m_default (m_value ?o) \<and> ov_count (entry pr d) = 0 \<and> \<not> ov_default (entry pr d)
      then parse_default d else ret ()) (\<lambda>_. pr_sound o1 (insert d D)) ?t"
  proof (cases "m_default (m_value ?o) \<and> ov_count (entry pr d) = 0 \<and> \<not> ov_default (entry pr d)")
    case True
    have "wp is_option_exn (ov_parse_default ?o)
        (\<lambda>_ ov. pr_sound o1 (insert d D) (?t\<lparr>pr_results := (pr_results ?t)(d \<mapsto> ov)\<rparr>)) (entry ?t d)"
    proof (rule wp_mono [OF ov_parse_default_typed])
      fix ov assume ov: "ov_inv ?o ov \<and> ov_count ov = ov_count (entry ?t d) \<and> ov_default ov"
      have "pr_sound o1 D (?t\<lparr>pr_results := (pr_results ?t)(d \<mapsto> ov), pr_sequential := pr_sequential ?t @ []\<rparr>)"
        by (rule pr_sound_update [OF t d]) (use ov valued [of ?o ov] in auto)
      then show "pr_sound o1 (insert d D) (?t\<lparr>pr_results := (pr_results ?t)(d \<mapsto> ov)\<rparr>)"
        using ov valued [of ?o ov] by (auto simp: pr_sound_def)
    qed (use b(3) e table_type [OF assms d] in simp_all)
    then show ?thesis using True d b(1) by (simp add: parse_default_def wp_simps wp_deref)
  next
    case False
    then have "m_default (m_value ?o) \<longrightarrow> ov_value (entry pr d) \<noteq> None" using valued [OF b(3)] by auto
    then show ?thesis using False t by (auto simp: wp_simps pr_sound_def)
  qed
  then have "wp is_option_exn (if m_default (m_value ?o) \<and> ov_count (entry pr d) = 0 \<and> \<not> ov_default (entry pr d)
      then parse_default d else ret ()) (\<lambda>_. wp is_option_exn (parse_defaults os) (\<lambda>_. pr_sound o1 (D \<union> snd ` set (x # os)))) ?t"
    by (rule wp_mono) (use Cons.IH [of "insert d D"] Cons.prems(2) x in simp)
  then show ?case using b(1) d by (simp add: x wp_simps wp_deref)
qed (simp add: wp_simps)

subsection \<open>The argument vector\<close>

text \<open>
  \<open>kept av n c p\<close>: the vector has its length, from \<open>n\<close> on it is as it was given, and the part that is kept
  is made of the arguments before \<open>n\<close>, in order; the current argument is not before \<open>c\<close>.
\<close>

definition kept :: "string list \<Rightarrow> nat \<Rightarrow> parsing \<Rightarrow> bool" where
  "kept av n p \<longleftrightarrow> length (argv p) = length av \<and> 1 \<le> nextKeep p \<and> nextKeep p \<le> n
     \<and> drop n (argv p) = drop n av \<and> subseq (take (nextKeep p) (argv p)) (take n av)
     \<and> take 1 (argv p) = take 1 av"

text \<open>Between two rounds, and within one after at most the current argument was kept.\<close>

definition at_head :: "Options \<Rightarrow> nat set \<Rightarrow> string list \<Rightarrow> nat \<Rightarrow> nat \<Rightarrow> parsing \<Rightarrow> bool" where
  "at_head o1 D av argc c p \<longleftrightarrow> pr_sound o1 D (result p) \<and> c \<le> current p \<and> current p \<le> argc
     \<and> kept av (current p) p"

definition in_round :: "Options \<Rightarrow> nat set \<Rightarrow> string list \<Rightarrow> nat \<Rightarrow> nat \<Rightarrow> parsing \<Rightarrow> bool" where
  "in_round o1 D av argc c p \<longleftrightarrow> pr_sound o1 D (result p) \<and> c \<le> current p \<and> current p < argc
     \<and> kept av (Suc (current p)) p"

lemma take_mono_subseq: "subseq xs (take n ys) \<Longrightarrow> n \<le> m \<Longrightarrow> subseq xs (take m ys)"
  by (metis subseq_order.trans prefix_imp_subseq take_is_prefix min.absorb1 take_take)

lemma kept_mono: "kept av n p \<Longrightarrow> n \<le> m \<Longrightarrow> kept av m p"
  unfolding kept_def by (auto simp: take_mono_subseq) (metis drop_drop le_add_diff_inverse2)

lemma kept_irrelevant [simp]:
  "kept av n (p\<lparr>result := r\<rparr>) = kept av n p" "kept av n (p\<lparr>current := k\<rparr>) = kept av n p"
  by (simp_all add: kept_def)

lemma kept_read: "kept av n p \<Longrightarrow> n \<le> i \<Longrightarrow> i < length av \<Longrightarrow> argv p ! i = av ! i"
  unfolding kept_def by (metis drop_drop hd_drop_conv_nth le_add_diff_inverse2)

lemma round_start: "at_head o1 D av argc c p \<Longrightarrow> current p \<noteq> argc \<Longrightarrow> in_round o1 D av argc c p"
  using kept_mono [of av "current p" p "Suc (current p)"] by (simp add: at_head_def in_round_def)

text \<open>\<open>++current\<close> at the end of a round, and within one.\<close>

lemma next_arg_head:
  "in_round o1 D av argc c p \<Longrightarrow> wp X next_arg (\<lambda>_. at_head o1 D av argc (Suc c)) p"
  by (simp add: next_arg_def wp_simps at_head_def in_round_def)

lemma next_arg_round:
  "in_round o1 D av argc c p \<Longrightarrow> current p + 1 < argc \<Longrightarrow> wp X next_arg (\<lambda>_. in_round o1 D av argc c) p"
  using kept_mono [of av "Suc (current p)" p "Suc (Suc (current p))"]
  by (simp add: next_arg_def wp_simps in_round_def)

lemma wp_on_res [wp_simps]:
  "wp X (on_res m) Q = (\<lambda>p. wp X m (\<lambda>x r. Q x (p\<lparr>result := r\<rparr>)) (result p))"
  by (simp add: on_res_def wp_simps)

lemma wp_read_arg: "i < length (argv p) \<Longrightarrow> wp X (read_arg i) Q p = Q (argv p ! i) p"
  by (simp add: read_arg_def wp_simps)

lemma keep_arg_round:
  assumes "at_head o1 D av argc c p" "current p \<noteq> argc" "argc \<le> length av"
  shows "wp X keep_arg (\<lambda>_. in_round o1 D av argc c) p"
proof -
  let ?i = "current p" and ?k = "nextKeep p" and ?a = "av ! current p"
  have p: "kept av ?i p" "c \<le> ?i" "?i < argc" "pr_sound o1 D (result p)"
    using assms(1,2) by (auto simp: at_head_def)
  then have k: "1 \<le> ?k" "?k \<le> ?i" "length (argv p) = length av" "take 1 (argv p) = take 1 av"
    "subseq (take ?k (argv p)) (take ?i av)" by (auto simp: kept_def)
  have a: "argv p ! ?i = ?a" using kept_read [OF p(1), of ?i] p(3) assms(3) by simp
  have "take (Suc ?k) ((argv p)[?k := ?a]) = take ?k (argv p) @ [?a]"
    using k p(3) assms(3) by (simp add: take_Suc_conv_app_nth)
  moreover have "take (Suc ?i) av = take ?i av @ [?a]"
    using p(3) assms(3) by (simp add: take_Suc_conv_app_nth)
  moreover have "drop (Suc ?i) (argv p) = drop (Suc ?i) av"
    using kept_mono [OF p(1), of "Suc ?i"] by (simp add: kept_def)
  ultimately have "kept av (Suc ?i) (p\<lparr>argv := (argv p)[?k := ?a], nextKeep := Suc ?k\<rparr>)"
    using k by (simp add: kept_def list_emb_append_mono)
  then show ?thesis
    using k p assms(3) by (simp add: keep_arg_def wp_simps wp_read_arg a in_round_def)
qed

lemma round_result:
  assumes "in_round o1 D av argc c p" "wp is_option_exn m (\<lambda>_. pr_sound o1 D) (result p)"
  shows "wp is_option_exn (on_res m) (\<lambda>_. in_round o1 D av argc c) p"
  using assms(1) by (simp add: wp_simps) (rule wp_mono [OF assms(2)], simp add: in_round_def)

lemma head_result:
  assumes "at_head o1 D av argc c p" "wp is_option_exn m (\<lambda>_. pr_sound o1 D') (result p)"
  shows "wp is_option_exn (on_res m) (\<lambda>_ p'. at_head o1 D' av argc c p' \<and> current p' = current p) p"
  using assms(1) by (simp add: wp_simps) (rule wp_mono [OF assms(2)], simp add: at_head_def)

lemma round_parse:
  assumes "table_ok o1" "in_round o1 D av argc c p" "d < length (details o1)"
  shows "wp is_option_exn (on_res (parse_option d a)) (\<lambda>_. in_round o1 D av argc c) p"
  using round_result [OF assms(2) pr_sound_parse_option [OF assms(1) _ assms(3)]] assms(2)
  by (simp add: in_round_def)

lemma checked_round:
  assumes "table_ok o1" "in_round o1 D av argc c p" "d < length (details o1)" "argc \<le> length av"
  shows "wp is_option_exn (checked_parse_arg argc d n) (\<lambda>_. in_round o1 D av argc c) p"
proof -
  note parse = round_parse [OF assms(1-3)]
  have b: "pr_details (result p) = details o1" "length (argv p) = length av"
    using assms(2) by (auto simp: in_round_def pr_sound_def kept_def)
  have "wp is_option_exn (sq (on_res (parse_option d a)) next_arg) (\<lambda>_. in_round o1 D av argc c) p"
    if "current p + 1 < argc" for a
  proof -
    have "wp is_option_exn (parse_option d a) (\<lambda>_. pr_sound o1 D) (result p)"
      using pr_sound_parse_option [OF assms(1) _ assms(3)] assms(2) by (simp add: in_round_def)
    then have "wp is_option_exn (parse_option d a)
        (\<lambda>_ r. wp is_option_exn next_arg (\<lambda>_. in_round o1 D av argc c) (p\<lparr>result := r\<rparr>)) (result p)"
      by (rule wp_mono) (use that assms(2) in \<open>auto intro!: next_arg_round simp: in_round_def\<close>)
    then show ?thesis by (simp add: wp_simps)
  qed
  then show ?thesis
    using parse b assms(3,4)
    by (simp add: checked_parse_arg_def Let_def wp_simps wp_deref wp_read_arg)
qed

lemma short_round:
  assumes "table_ok o1" "argc \<le> length av"
  shows "in_round o1 D av argc c p \<Longrightarrow>
    wp is_option_exn (parse_short argc cs) (\<lambda>_. in_round o1 D av argc c) p"
proof (induction cs arbitrary: p)
  case (Cons x cs)
  have b: "pr_details (result p) = details o1" "pr_options (result p) = option_map o1"
    using Cons.prems by (auto simp: in_round_def pr_sound_def)
  show ?case
  proof (cases "map_of (option_map o1) [x]")
    case None
    then show ?thesis using Cons b by (simp add: Let_def wp_simps)
  next
    case (Some d)
    note d = table_find [OF assms(1) Some]
    have "wp is_option_exn (if cs = [] then checked_parse_arg argc d [x]
        else bnd (on_res (deref_details d)) (\<lambda>o1.
          if m_implicit (m_value o1) then on_res (parse_option d (m_implicit_value (m_value o1)))
          else raise (OptionException (option_requires_argument_exception [x]))))
        (\<lambda>_. in_round o1 D av argc c) p"
      using checked_round [OF assms(1) Cons.prems d assms(2)] round_parse [OF assms(1) Cons.prems d] b d
      by (simp add: wp_simps wp_deref)
    then have "wp is_option_exn (if cs = [] then checked_parse_arg argc d [x]
        else bnd (on_res (deref_details d)) (\<lambda>o1.
          if m_implicit (m_value o1) then on_res (parse_option d (m_implicit_value (m_value o1)))
          else raise (OptionException (option_requires_argument_exception [x]))))
        (\<lambda>_. wp is_option_exn (parse_short argc cs) (\<lambda>_. in_round o1 D av argc c)) p"
      by (rule wp_mono) (rule Cons.IH)
    then show ?thesis using Some b by (simp add: Let_def wp_simps)
  qed
qed (simp add: wp_simps)

lemma long_round:
  assumes "table_ok o1" "argc \<le> length av" "at_head o1 D av argc c p" "current p \<noteq> argc"
  shows "wp is_option_exn (parse_long argc n arg) (\<lambda>_. in_round o1 D av argc c) p"
proof -
  note r = round_start [OF assms(3,4)]
  have b: "pr_options (result p) = option_map o1" using r by (auto simp: in_round_def pr_sound_def)
  show ?thesis
    using checked_round [OF assms(1) r _ assms(2)] round_parse [OF assms(1) r] table_find [OF assms(1)]
      keep_arg_round [OF assms(3,4,2)] b
    by (auto simp: parse_long_def wp_simps split: option.split)
qed

lemma other_round:
  assumes "table_ok o1" "argc \<le> length av" "at_head o1 D av argc c p" "current p \<noteq> argc"
  shows "wp is_option_exn (parse_other a) (\<lambda>_. in_round o1 D av argc c) p"
proof -
  have "wp is_option_exn (on_res (consume_positional a)) (\<lambda>x p'. at_head o1 D av argc c p' \<and> current p' = current p) p"
    by (rule head_result [OF assms(3) pr_sound_consume [OF assms(1)]]) (use assms(3) in \<open>simp add: at_head_def\<close>)
  then have "wp is_option_exn (on_res (consume_positional a))
      (\<lambda>x. wp is_option_exn (if x then ret () else keep_arg) (\<lambda>_. in_round o1 D av argc c)) p"
    by (rule wp_mono) (use keep_arg_round [OF _ _ assms(2)] round_start assms(4) in \<open>auto simp: wp_simps\<close>)
  then show ?thesis by (simp add: parse_other_def wp_simps)
qed

lemma step_head:
  assumes "table_ok o1" "argc \<le> length av" "at_head o1 D av argc c p" "current p \<noteq> argc"
  shows "wp is_option_exn (parse_step argc) (\<lambda>_. at_head o1 D av argc (Suc (current p))) p"
proof -
  let ?a = "argv p ! current p" and ?H = "at_head o1 D av argc (Suc (current p))"
  have h: "at_head o1 D av argc (current p) p" using assms(3) by (simp add: at_head_def)
  note r = round_start [OF h assms(4)]
  have len: "current p < length (argv p)" using r assms(2) by (auto simp: in_round_def kept_def)
  have n: "wp is_option_exn (sq next_arg (ret b)) (\<lambda>_. ?H) p'"
    if "in_round o1 D av argc (current p) p'" for p' b
    using next_arg_head [OF that] by (simp add: wp_simps)
  have "wp is_option_exn (case option_matcher ?a of No_match \<Rightarrow> parse_other ?a
      | Short s \<Rightarrow> parse_short argc s | Long name arg \<Rightarrow> parse_long argc name arg)
      (\<lambda>_. in_round o1 D av argc (current p)) p"
    using other_round [OF assms(1,2) h assms(4)] short_round [OF assms(1,2) r]
      long_round [OF assms(1,2) h assms(4)] by (simp split: arg_match.split)
  then have "wp is_option_exn (case option_matcher ?a of No_match \<Rightarrow> parse_other ?a
      | Short s \<Rightarrow> parse_short argc s | Long name arg \<Rightarrow> parse_long argc name arg)
      (\<lambda>_. wp is_option_exn (sq next_arg (ret False)) (\<lambda>_. ?H)) p"
    by (rule wp_mono) (rule n)
  then show ?thesis using n [OF r, of True] len by (simp add: parse_step_def wp_simps wp_read_arg)
qed

subsection \<open>The whole run\<close>

definition table_options :: "Options \<Rightarrow> nat set" where
  "table_options o1 = snd ` set (option_map o1)"

abbreviation finished :: "Options \<Rightarrow> string list \<Rightarrow> nat \<Rightarrow> parsing \<Rightarrow> bool" where
  "finished o1 av argc \<equiv> at_head o1 (table_options o1) av argc 1"

lemma main_loop_sound:
  assumes "table_ok o1" "argc \<le> length av" "at_head o1 D av argc 1 p" "argc < n"
  shows "wp is_option_exn (rounds n (\<lambda>p. current p \<noteq> argc) (parse_step argc))
    (\<lambda>b p. at_head o1 D av argc 1 p \<and> (b \<or> current p = argc)) p"
proof (rule wp_rounds [where I = "at_head o1 D av argc 1" and \<mu> = "\<lambda>p. argc - current p"])
  fix p assume p: "at_head o1 D av argc 1 p" "current p \<noteq> argc"
  show "wp is_option_exn (parse_step argc) (\<lambda>b p'. if b then at_head o1 D av argc 1 p' \<and> (True \<or> current p' = argc)
      else at_head o1 D av argc 1 p' \<and> argc - current p' < argc - current p) p"
    by (rule wp_mono [OF step_head [OF assms(1,2) p]]) (use p in \<open>auto simp: at_head_def\<close>)
qed (use assms(3,4) in \<open>auto simp: at_head_def\<close>)

lemma rest_step_head:
  assumes "table_ok o1" "argc \<le> length av" "at_head o1 D av argc 1 p" "current p < argc"
  shows "wp is_option_exn rest_step (\<lambda>b p'. at_head o1 D av argc 1 p' \<and> (b \<or> current p < current p')) p"
proof -
  let ?a = "argv p ! current p"
  have h: "at_head o1 D av argc (current p) p" using assms(3) by (simp add: at_head_def)
  have c: "1 \<le> current p" "current p < length (argv p)"
    using assms(2-4) by (auto simp: at_head_def kept_def)
  have "wp is_option_exn (on_res (consume_positional ?a)) (\<lambda>x p'. at_head o1 D av argc (current p) p' \<and> current p' = current p) p"
    by (rule head_result [OF h pr_sound_consume [OF assms(1)]]) (use assms(3) in \<open>simp add: at_head_def\<close>)
  then have "wp is_option_exn (on_res (consume_positional ?a))
      (\<lambda>x. wp is_option_exn (if x then sq next_arg (ret False) else ret True)
         (\<lambda>b p'. at_head o1 D av argc 1 p' \<and> (b \<or> current p < current p'))) p"
  proof (rule wp_mono)
    fix x p' assume p': "at_head o1 D av argc (current p) p' \<and> current p' = current p"
    have "wp is_option_exn next_arg (\<lambda>_. at_head o1 D av argc (Suc (current p))) p'"
      using next_arg_head [OF round_start] p' assms(4) by simp
    then have "wp is_option_exn next_arg (\<lambda>_ p'. at_head o1 D av argc 1 p' \<and> current p < current p') p'"
      by (rule wp_mono) (use c in \<open>simp add: at_head_def\<close>)
    then show "wp is_option_exn (if x then sq next_arg (ret False) else ret True)
         (\<lambda>b p'. at_head o1 D av argc 1 p' \<and> (b \<or> current p < current p')) p'"
      using p' c by (auto simp: wp_simps at_head_def)
  qed
  then show ?thesis using c by (simp add: rest_step_def wp_simps wp_read_arg)
qed

lemma rest_loop_sound:
  assumes "table_ok o1" "argc \<le> length av" "at_head o1 D av argc 1 p" "argc < n"
  shows "wp is_option_exn (rounds n (\<lambda>p. current p < argc) rest_step) (\<lambda>_. at_head o1 D av argc 1) p"
proof (rule wp_rounds [where I = "at_head o1 D av argc 1" and \<mu> = "\<lambda>p. argc - current p"])
  fix p assume p: "at_head o1 D av argc 1 p" "current p < argc"
  show "wp is_option_exn rest_step (\<lambda>b p'. if b then at_head o1 D av argc 1 p'
      else at_head o1 D av argc 1 p' \<and> argc - current p' < argc - current p) p"
    by (rule wp_mono [OF rest_step_head [OF assms(1,2) p]]) (use p in \<open>auto simp: at_head_def\<close>)
qed (use assms(3,4) in \<open>auto simp: at_head_def\<close>)

lemma keep_loop_sound:
  assumes "argc \<le> length av" "at_head o1 D av argc 1 p" "argc < n"
  shows "wp is_option_exn (rounds n (\<lambda>p. current p \<noteq> argc) keep_step)
    (\<lambda>_ p. at_head o1 D av argc 1 p \<and> current p = argc) p"
proof (rule wp_rounds [where I = "at_head o1 D av argc 1" and \<mu> = "\<lambda>p. argc - current p"])
  fix p assume p: "at_head o1 D av argc 1 p" "current p \<noteq> argc"
  then have h: "at_head o1 D av argc (current p) p" by (simp add: at_head_def)
  have "wp is_option_exn keep_arg (\<lambda>_. wp is_option_exn next_arg (\<lambda>_. at_head o1 D av argc (Suc (current p)))) p"
    by (rule wp_mono [OF keep_arg_round [OF h p(2) assms(1)]]) (rule next_arg_head)
  then have "wp is_option_exn keep_step (\<lambda>b p'. \<not> b \<and> at_head o1 D av argc (Suc (current p)) p') p"
    by (simp add: keep_step_def wp_simps)
  then show "wp is_option_exn keep_step (\<lambda>b p'. if b then at_head o1 D av argc 1 p' \<and> current p' = argc
      else at_head o1 D av argc 1 p' \<and> argc - current p' < argc - current p) p"
    by (rule wp_mono) (use p in \<open>auto simp: at_head_def\<close>)
qed (use assms(2,3) in \<open>auto simp: at_head_def\<close>)

lemma parse_sound:
  assumes "table_ok o1" "1 \<le> argc" "argc \<le> length av"
  shows "wp is_option_exn (ParseResult_parse argc)
    (\<lambda>n p. finished o1 av argc p \<and> n = nextKeep p) (parsing_new o1 av)"
proof -
  let ?n = "Suc (length av)" and ?p0 = "parsing_new o1 av" and ?W = "wp is_option_exn"
  let ?H = "\<lambda>D. at_head o1 D av argc 1"
  let ?tail = "\<lambda>b. if b then sq (rounds ?n (\<lambda>p. current p < argc) rest_step)
     (sq (rounds ?n (\<lambda>p. current p \<noteq> argc) keep_step) (ret ())) else ret ()"
  let ?Q = "\<lambda>n p. finished o1 av argc p \<and> n = nextKeep p"
  have n: "argc < ?n" using assms(3) by simp
  have 0: "?H {} ?p0"
    using pr_sound_new assms(2,3) by (simp add: at_head_def kept_def parsing_new_def take_mono_subseq)
  have D: "{} \<union> snd ` set (option_map o1) = table_options o1" by (simp add: table_options_def)
  have tail: "?W (?tail b) (\<lambda>_. finished o1 av argc) p" if p: "finished o1 av argc p" for b p
  proof (cases b)
    case True
    have "?W (rounds ?n (\<lambda>p. current p < argc) rest_step)
        (\<lambda>_. ?W (rounds ?n (\<lambda>p. current p \<noteq> argc) keep_step) (\<lambda>_. finished o1 av argc)) p"
      by (rule wp_mono [OF rest_loop_sound [OF assms(1,3) p n]])
        (rule wp_mono [OF keep_loop_sound [OF assms(3) _ n]], auto)
    then show ?thesis using True by (simp add: wp_simps)
  qed (use p in \<open>simp add: wp_simps\<close>)
  have rest: "?W (on_res (parse_defaults (option_map o1))) (\<lambda>_. ?W (?tail b) (\<lambda>_. ?W (reads nextKeep) ?Q)) p"
    if p: "?H {} p" for b p
  proof -
    have "?W (parse_defaults (option_map o1)) (\<lambda>_. pr_sound o1 (table_options o1)) (result p)"
      using pr_sound_defaults [OF assms(1), of "{}" "result p" "option_map o1"] p assms(1) unfolding D
      by (simp add: at_head_def table_ok_def)
    from head_result [OF p this] show ?thesis
      by (rule wp_mono) (rule wp_mono [OF tail], auto simp: wp_simps)
  qed
  have "?W (rounds ?n (\<lambda>p. current p \<noteq> argc) (parse_step argc))
      (\<lambda>b p. ?W (on_res (parse_defaults (pr_options (result p)))) (\<lambda>_. ?W (?tail b) (\<lambda>_. ?W (reads nextKeep) ?Q)) p) ?p0"
    by (rule wp_mono [OF main_loop_sound [OF assms(1,3) 0 n]]) (use rest in \<open>auto simp: at_head_def pr_sound_def\<close>)
  moreover have "argv ?p0 = av" by (simp add: parsing_new_def)
  ultimately show ?thesis unfolding ParseResult_parse_def wp_simps by (simp only:)
qed

text \<open>What the caller may rely on.\<close>

definition well_typed :: "Options \<Rightarrow> bool" where
  "well_typed o1 \<longleftrightarrow> (\<forall>x \<in> set (details o1). wf_type (type_of (m_value x)))"

lemma inv_table_ok: "opts_inv o1 \<Longrightarrow> well_typed o1 \<Longrightarrow> table_ok o1"
  by (auto simp: opts_inv_def table_ok_def well_typed_def)

lemma parse_run:
  assumes "opts_inv o1" "well_typed o1" "1 \<le> argc" "argc \<le> length av"
  shows "case Options_parse o1 argc av of
     Inl e \<Rightarrow> is_option_exn e
   | Inr (r, argc', av') \<Rightarrow>
       (\<exists>p. finished o1 av argc p \<and> result p = r \<and> nextKeep p = argc' \<and> argv p = av')"
proof -
  obtain x p where run: "ParseResult_parse argc (parsing_new o1 av) = (x, p)" by fastforce
  from wp_result [OF parse_sound [OF inv_table_ok [OF assms(1,2)] assms(3,4)] run] show ?thesis
    by (auto simp: Options_parse_def run split: sum.splits)
qed

lemma parse_success:
  assumes "opts_inv o1" "well_typed o1" "1 \<le> argc" "argc \<le> length av"
    and "Options_parse o1 argc av = Inr (r, argc', av')"
  shows "pr_sound o1 (table_options o1) r"
  using parse_run [OF assms(1-4)] assms(5) by (auto simp: at_head_def)

text \<open>
  C12. Parsing always ends and is never undefined. For every well-formed table of options and every
  argument vector that settings_hold at least the program's name, the parser returns or throws
  one of the exceptions of the library. If it returns, the new \<open>argc\<close> is between 1 and the old
  one, the vector keeps its length, the program's name and what is behind \<open>argc\<close>, and the
  arguments that are left are some of those given, in their order.
\<close>

theorem parse_terminates:
  assumes "opts_inv o1" "well_typed o1" "1 \<le> argc" "argc \<le> length av"
  shows "(\<exists>x. Options_parse o1 argc av = Inl (OptionException x))
    \<or> (\<exists>r argc' av'. Options_parse o1 argc av = Inr (r, argc', av')
        \<and> 1 \<le> argc' \<and> argc' \<le> argc \<and> length av' = length av
        \<and> take 1 av' = take 1 av \<and> drop argc av' = drop argc av
        \<and> subseq (take argc' av') (take argc av))"
proof (cases "Options_parse o1 argc av")
  case (Inl e)
  then show ?thesis using parse_run [OF assms] by (simp add: is_option_exn_def)
next
  case (Inr z)
  obtain r argc' av' where z: "z = (r, argc', av')" by (cases z)
  then obtain p where "finished o1 av argc p" "nextKeep p = argc'" "argv p = av'"
    using parse_run [OF assms] Inr by auto
  moreover from this have "kept av argc p" using kept_mono by (auto simp: at_head_def)
  ultimately have "1 \<le> argc' \<and> argc' \<le> argc \<and> length av' = length av \<and> take 1 av' = take 1 av
      \<and> drop argc av' = drop argc av \<and> subseq (take argc' av') (take argc av)"
    by (auto simp: kept_def)
  then show ?thesis using Inr z by blast
qed

text \<open>A table with a string option that has a default and an integer option.\<close>

definition sample_table :: Options where
  "sample_table = (Options_new ''test'' [])
     \<lparr>details := [OptionDetails_new ''d'' ''dir'' [] (default_value ''.'' (cxx_value T_string)),
                OptionDetails_new ''n'' ''number'' [] (cxx_value (T_int True 32))],
      option_map := [(''d'', 0), (''dir'', 0), (''n'', 1), (''number'', 1)]\<rparr>"

lemma sample_ok: "opts_inv sample_table" "well_typed sample_table"
  by (auto simp: sample_table_def opts_inv_def well_typed_def Options_new_def OptionDetails_new_def
      default_value_def cxx_value_def)

lemma sample_run:
  "\<exists>r. Options_parse sample_table 6 [''test'', ''file'', ''-n'', ''-5'', ''--number=7'', ''x''] =
     Inr (r, 3, [''test'', ''file'', ''x'', ''-5'', ''--number=7'', ''x''])"
proof -
  have "map_sum id snd (Options_parse sample_table 6 [''test'', ''file'', ''-n'', ''-5'', ''--number=7'', ''x''])
      = Inr (3, [''test'', ''file'', ''x'', ''-5'', ''--number=7'', ''x''])" by code_simp
  then show ?thesis
    by (cases "Options_parse sample_table 6 [''test'', ''file'', ''-n'', ''-5'', ''--number=7'', ''x'']") auto
qed

theorem parse_terminates_witness:
  "\<exists>r. Options_parse sample_table 6 [''test'', ''file'', ''-n'', ''-5'', ''--number=7'', ''x''] =
     Inr (r, 3, [''test'', ''file'', ''x'', ''-5'', ''--number=7'', ''x''])
   \<and> subseq [''test'', ''file'', ''x''] [''test'', ''file'', ''-n'', ''-5'', ''--number=7'', ''x'']"
  using sample_run parse_terminates [OF sample_ok, of 6 "[''test'', ''file'', ''-n'', ''-5'', ''--number=7'', ''x'']"]
  by auto

lemma pr_sound_entry:
  assumes "pr_sound o1 D r" "d \<in> D"
  obtains ov where "pr_results r d = Some ov" "ov_inv (details o1 ! d) ov"
    "m_default (m_value (details o1 ! d)) \<longrightarrow> ov_value ov \<noteq> None"
  using assms that unfolding pr_sound_def by metis

text \<open>
  C15. Types. After parsing, \<open>operator[]\<close> and \<open>count\<close> answer for every option of the table. If
  the option was given or has a default, \<open>as<T>()\<close> with the declared type yields a value
  of it, an integer being in its range; in any case \<open>as<T>()\<close> yields no value of another type, but
  throws \<open>std::bad_cast\<close>, or \<open>option_has_no_value_exception\<close> if there is no value.
\<close>

theorem parse_results_typed:
  assumes "opts_inv o1" "well_typed o1" "1 \<le> argc" "argc \<le> length av"
    and "Options_parse o1 argc av = Inr (r, argc', av')" "map_of (option_map o1) k = Some d"
  shows "\<exists>ov. result_index k r = Inr ov \<and> result_count k r = Inr (ov_count ov)
    \<and> (ov_count ov \<noteq> 0 \<or> m_default (m_value (details o1 ! d)) \<longrightarrow>
        (\<exists>x. ov_as (type_of (m_value (details o1 ! d))) ov = Inr x))
    \<and> (\<forall>t. case ov_as t ov of
          Inr x \<Rightarrow> t = type_of (m_value (details o1 ! d)) \<and> has_type t x
        | Inl e \<Rightarrow> e = BadCast \<and> t \<noteq> type_of (m_value (details o1 ! d))
            \<or> (\<exists>n. e = OptionException (option_has_no_value_exception n)))"
proof -
  note s = parse_success [OF assms(1-5)]
  have "d \<in> table_options o1" using assms(6) by (force simp: table_options_def dest: map_of_SomeD)
  then obtain ov where ov: "pr_results r d = Some ov" "ov_inv (details o1 ! d) ov"
    "m_default (m_value (details o1 ! d)) \<longrightarrow> ov_value ov \<noteq> None" by (rule pr_sound_entry [OF s])
  have "result_index k r = Inr ov" "result_count k r = Inr (ov_count ov)"
    using ov(1) pr_sound_basic(2) [OF s] assms(6)
    by (simp_all add: result_index_def result_count_def result_of_def)
  moreover have "ov_count ov \<noteq> 0 \<or> m_default (m_value (details o1 ! d)) \<longrightarrow> ov_value ov \<noteq> None"
    using ov(2,3) valued [OF ov(2)] by auto
  moreover have "ov_value ov \<noteq> None \<longrightarrow> (\<exists>x. ov_as (type_of (m_value (details o1 ! d))) ov = Inr x)"
    using ov(2) by (auto simp: ov_as_def ov_inv_def)
  moreover have "case ov_as t ov of
          Inr x \<Rightarrow> t = type_of (m_value (details o1 ! d)) \<and> has_type t x
        | Inl e \<Rightarrow> e = BadCast \<and> t \<noteq> type_of (m_value (details o1 ! d))
            \<or> (\<exists>n. e = OptionException (option_has_no_value_exception n))" for t
  proof (cases "ov_value ov")
    case (Some v)
    then have "type_of v = type_of (m_value (details o1 ! d))" "has_type (type_of v) (store v)"
      using ov(2) by (auto simp: ov_inv_def)
    then show ?thesis using Some by (auto simp: ov_as_def)
  qed (simp add: ov_as_def)
  ultimately show ?thesis by (intro exI [of _ ov] conjI allI) blast+
qed

theorem parse_results_typed_witness:
  "\<exists>r ov x. Options_parse sample_table 6 [''test'', ''file'', ''-n'', ''-5'', ''--number=7'', ''x''] =
     Inr (r, 3, [''test'', ''file'', ''x'', ''-5'', ''--number=7'', ''x''])
   \<and> result_index ''d'' r = Inr ov \<and> ov_as T_string ov = Inr x"
proof -
  obtain r where r: "Options_parse sample_table 6 [''test'', ''file'', ''-n'', ''-5'', ''--number=7'', ''x''] =
     Inr (r, 3, [''test'', ''file'', ''x'', ''-5'', ''--number=7'', ''x''])" using sample_run by blast
  have d: "map_of (option_map sample_table) ''d'' = Some 0"
    "m_default (m_value (details sample_table ! 0))" "type_of (m_value (details sample_table ! 0)) = T_string"
    by (simp_all add: sample_table_def OptionDetails_new_def default_value_def cxx_value_def)
  show ?thesis using parse_results_typed [OF sample_ok _ _ r d(1)] r d(2,3) by fastforce
qed

text \<open>
  The counts agree with \<open>arguments()\<close>. After parsing, for every text, the counts of the options
  with this long name add up to the number of the arguments recorded under it; so nothing is
  counted that is not recorded, and every recorded name is one of an option.
\<close>

theorem parse_counts:
  assumes "opts_inv o1" "well_typed o1" "1 \<le> argc" "argc \<le> length av"
    and "Options_parse o1 argc av = Inr (r, argc', av')"
  shows "(\<Sum>d \<in> {d. d < length (details o1) \<and> m_long (details o1 ! d) = k}.
      case pr_results r d of None \<Rightarrow> 0 | Some ov \<Rightarrow> ov_count ov)
    = length (filter (\<lambda>kv. kv_key kv = k) (pr_sequential r))"
proof -
  note s = parse_success [OF assms]
  have "(case pr_results r d of None \<Rightarrow> 0 | Some ov \<Rightarrow> ov_count ov) = ov_count (entry r d)" for d
    by (simp add: entry_def OptionValue_new_def split: option.split)
  moreover have "tally r" "pr_details r = details o1" using s by (simp_all add: pr_sound_def)
  ultimately show ?thesis by (simp add: tally_def with_long_def)
qed

theorem parse_counts_witness:
  "\<exists>r. Options_parse sample_table 6 [''test'', ''file'', ''-n'', ''-5'', ''--number=7'', ''x''] =
     Inr (r, 3, [''test'', ''file'', ''x'', ''-5'', ''--number=7'', ''x''])
   \<and> filter (\<lambda>kv. kv_key kv = ''other'') (pr_sequential r) = []"
proof -
  obtain r where r: "Options_parse sample_table 6 [''test'', ''file'', ''-n'', ''-5'', ''--number=7'', ''x''] =
     Inr (r, 3, [''test'', ''file'', ''x'', ''-5'', ''--number=7'', ''x''])" using sample_run by blast
  have "{d. d < length (details sample_table) \<and> m_long (details sample_table ! d) = ''other''} = {}"
    (is "?S = {}") by (auto simp: sample_table_def OptionDetails_new_def less_Suc_eq nth_Cons split: nat.splits)
  then have "length (filter (\<lambda>kv. kv_key kv = ''other'') (pr_sequential r)) = 0"
    using parse_counts [OF sample_ok _ _ r, of "''other''"] by (simp only: sum.empty) simp
  then show ?thesis using r by auto
qed

end
