(* ===== verification/Cxxopts_Settings.thy ===== *)
theory Cxxopts_Settings
  imports Cxxopts_Correct
begin

text \<open>
  What the argument parser computes: the language of its arguments, the values that a command
  line of settings gives to options that are strings, as the program's are, and the cases
  where it does what one would not expect.
\<close>

declare bnd_reads [simp del] bnd_modify [simp del] sq_modify [simp del]

subsection \<open>The language of the arguments\<close>

lemma name_word: "is_name n \<Longrightarrow> list_all is_word n"
  by (cases n) (auto simp: is_name_def is_word_def)

lemma equals_not_word: "\<not> is_word (CHR ''='')" "\<not> is_alnum (CHR ''-'')" "\<not> is_alnum (CHR ''='')"
  by (simp_all add: is_word_def is_alnum_def is_digit_def digit_val_def is_alpha_def)

lemma take_name:
  assumes "is_name n"
  shows "takeWhile is_word n = n" "dropWhile is_word n = []"
    "takeWhile is_word (n @ CHR ''='' # v) = n" "dropWhile is_word (n @ CHR ''='' # v) = CHR ''='' # v"
  using name_word [OF assms] equals_not_word(1)
  by (simp_all add: list_all_iff takeWhile_append2 dropWhile_append2)

lemma match_long_iff:
  "match_long t = Long n None \<longleftrightarrow> t = n \<and> is_name n \<and> 2 \<le> length n"
  "match_long t = Long n (Some v) \<longleftrightarrow> t = n @ CHR ''='' # v \<and> is_name n \<and> 2 \<le> length n \<and> \<not> list_ex line_end v"
  "match_long t \<noteq> Short s"
proof -
  have only: "t = n @ (case x of None \<Rightarrow> [] | Some v \<Rightarrow> CHR ''='' # v) \<and> is_name n \<and> 2 \<le> length n
      \<and> (\<forall>v. x = Some v \<longrightarrow> \<not> list_ex line_end v)" if "match_long t = Long n x" for x
  proof -
    have n: "n = takeWhile is_word t \<and> is_name n \<and> 2 \<le> length n" and
      r: "dropWhile is_word t = (case x of None \<Rightarrow> [] | Some v \<Rightarrow> CHR ''='' # v)"
      "\<forall>v. x = Some v \<longrightarrow> \<not> list_ex line_end v"
      using that by (auto simp: match_long_def Let_def split: list.splits if_splits)
    have "takeWhile is_word t @ dropWhile is_word t = t" by (rule takeWhile_dropWhile_id)
    then show ?thesis using n r by metis
  qed
  have "match_long n = Long n None" if "is_name n" "2 \<le> length n"
    using that by (simp add: match_long_def Let_def take_name)
  then show "match_long t = Long n None \<longleftrightarrow> t = n \<and> is_name n \<and> 2 \<le> length n"
    using only [of None] by auto
  have "match_long (n @ CHR ''='' # v) = Long n (Some v)" if "is_name n" "2 \<le> length n" "\<not> list_ex line_end v"
    using that by (simp add: match_long_def Let_def take_name)
  then show "match_long t = Long n (Some v) \<longleftrightarrow>
      t = n @ CHR ''='' # v \<and> is_name n \<and> 2 \<le> length n \<and> \<not> list_ex line_end v"
    using only [of "Some v"] by auto
  show "match_long t \<noteq> Short s" by (auto simp: match_long_def Let_def split: list.splits)
qed

lemma option_matcher_iff:
  "option_matcher s = Long n None \<longleftrightarrow> s = ''--'' @ n \<and> is_name n \<and> 2 \<le> length n"
  "option_matcher s = Long n (Some v) \<longleftrightarrow>
     s = ''--'' @ n @ ''='' @ v \<and> is_name n \<and> 2 \<le> length n \<and> (\<forall>c \<in> set v. c \<noteq> CHR 0x0A \<and> c \<noteq> CHR 0x0D)"
  "option_matcher s = Short cs \<longleftrightarrow> s = ''-'' @ cs \<and> cs \<noteq> [] \<and> list_all is_alnum cs"
proof -
  have "(option_matcher s = Long n None \<longleftrightarrow> s = ''--'' @ n \<and> is_name n \<and> 2 \<le> length n)
   \<and> (option_matcher s = Long n (Some v) \<longleftrightarrow>
        s = ''--'' @ n @ ''='' @ v \<and> is_name n \<and> 2 \<le> length n \<and> (\<forall>c \<in> set v. c \<noteq> CHR 0x0A \<and> c \<noteq> CHR 0x0D))
   \<and> (option_matcher s = Short cs \<longleftrightarrow> s = ''-'' @ cs \<and> cs \<noteq> [] \<and> list_all is_alnum cs)"
proof (cases "take 2 s = ''--''")
  case True
  then obtain t where s: "s = CHR ''-'' # CHR ''-'' # t" by (cases s rule: split_short.cases) auto
  then show ?thesis
    using match_long_iff [of t] equals_not_word(2)
    by (auto simp: option_matcher_def line_end_def list_ex_iff)
next
  case False
  then have "s \<noteq> CHR ''-'' # CHR ''-'' # t" for t by auto
  then show ?thesis using False
    by (cases s) (auto simp: option_matcher_def)
qed
  then show
    "option_matcher s = Long n None \<longleftrightarrow> s = ''--'' @ n \<and> is_name n \<and> 2 \<le> length n"
    "option_matcher s = Long n (Some v) \<longleftrightarrow>
     s = ''--'' @ n @ ''='' @ v \<and> is_name n \<and> 2 \<le> length n \<and> (\<forall>c \<in> set v. c \<noteq> CHR 0x0A \<and> c \<noteq> CHR 0x0D)"
    "option_matcher s = Short cs \<longleftrightarrow> s = ''-'' @ cs \<and> cs \<noteq> [] \<and> list_all is_alnum cs" by blast+
qed

text \<open>
  The matcher of arguments is the regular expression's language with its groups. A long
  option is two dashes and a name of at least two characters, with an optional equals sign and a
  text without a line break; short options are a dash and alphanumeric characters; nothing
  else is an option.
\<close>

theorem option_matcher_language:
  "(option_matcher s = Long n None \<longleftrightarrow> s = ''--'' @ n \<and> is_name n \<and> 2 \<le> length n)
   \<and> (option_matcher s = Long n (Some v) \<longleftrightarrow>
        s = ''--'' @ n @ ''='' @ v \<and> is_name n \<and> 2 \<le> length n \<and> list_all (\<lambda>c. c \<noteq> CHR 0x0A \<and> c \<noteq> CHR 0x0D) v)
   \<and> (option_matcher s = Short cs \<longleftrightarrow> s = ''-'' @ cs \<and> cs \<noteq> [] \<and> list_all is_alnum cs)"
  using option_matcher_iff [of s] by (simp add: list_all_iff)

subsection \<open>Settings\<close>

text \<open>A command line made of settings, written in the two ways there are, and of plain arguments.\<close>

datatype setting = By_eq string string | By_next string string | Plain string

fun args_of :: "setting \<Rightarrow> string list" where
  "args_of (By_eq n v) = [''--'' @ n @ ''='' @ v]"
| "args_of (By_next n v) = [(if length n = 1 then ''-'' else ''--'') @ n, v]"
| "args_of (Plain w) = [w]"

fun setting_of :: "setting \<Rightarrow> (string \<times> string) option" where
  "setting_of (By_eq n v) = Some (n, v)"
| "setting_of (By_next n v) = Some (n, v)"
| "setting_of (Plain w) = None"

fun plain_of :: "setting \<Rightarrow> string list" where
  "plain_of (Plain w) = [w]"
| "plain_of _ = []"

fun valid :: "Options \<Rightarrow> setting \<Rightarrow> bool" where
  "valid o1 (By_eq n v) \<longleftrightarrow> n \<in> names_of o1 \<and> is_name n \<and> 2 \<le> length n
     \<and> (\<forall>c \<in> set v. c \<noteq> CHR 0x0A \<and> c \<noteq> CHR 0x0D)"
| "valid o1 (By_next n v) \<longleftrightarrow> n \<in> names_of o1 \<and> is_name n"
| "valid o1 (Plain w) \<longleftrightarrow> w = ''-'' \<or> take 1 w \<noteq> ''-''"

definition plain_strings :: "Options \<Rightarrow> bool" where
  "plain_strings o1 \<longleftrightarrow> positional o1 = []
     \<and> (\<forall>x \<in> set (details o1). type_of (m_value x) = T_string \<and> \<not> m_implicit (m_value x))"

text \<open>What is set, and the texts that are given to an option.\<close>

definition settings :: "setting list \<Rightarrow> (string \<times> string) list" where
  "settings ps = List.map_filter setting_of ps"

definition texts :: "Options \<Rightarrow> (string \<times> string) list \<Rightarrow> nat \<Rightarrow> string list" where
  "texts o1 ss d = map snd (filter (\<lambda>s. map_of (option_map o1) (fst s) = Some d) ss)"

definition recorded :: "Options \<Rightarrow> (string \<times> string) list \<Rightarrow> KeyValue list" where
  "recorded o1 ss = map (\<lambda>(n, v). \<lparr>kv_key = m_long (details o1 ! the (map_of (option_map o1) n)), kv_value = v\<rparr>) ss"

lemma settings_snoc: "settings (ps @ [s]) = settings ps @ (case setting_of s of None \<Rightarrow> [] | Some x \<Rightarrow> [x])"
  by (simp add: settings_def List.map_filter_def split: option.split)

lemma settings_mem: "s \<in> set (settings ps) \<longleftrightarrow> (\<exists>x \<in> set ps. setting_of x = Some s)"
  unfolding settings_def by (induction ps) (auto simp: List.map_filter_simps split: option.split)

lemma setting_name: "valid o1 x \<Longrightarrow> setting_of x = Some s \<Longrightarrow> fst s \<in> names_of o1"
  by (cases x; cases s) simp_all

subsection \<open>Entries of string options\<close>

definition given :: "string list \<Rightarrow> OptionValue \<Rightarrow> bool" where
  "given vs ov \<longleftrightarrow> ov_count ov = length vs \<and> \<not> ov_default ov \<and> (vs = [] \<longrightarrow> ov = OptionValue_new)
     \<and> (vs \<noteq> [] \<longrightarrow> (\<exists>v. ov_value ov = Some v \<and> type_of v = T_string \<and> store v = V_string (last vs)))"

definition settled :: "OptionDetails \<Rightarrow> string list \<Rightarrow> OptionValue \<Rightarrow> bool" where
  "settled x vs ov \<longleftrightarrow> ov_count ov = length vs
     \<and> (if vs = [] \<and> \<not> m_default (m_value x) then ov = OptionValue_new
        else (vs = [] \<longrightarrow> ov_default ov) \<and> (\<exists>v. ov_value ov = Some v \<and> type_of v = T_string
          \<and> store v = V_string (if vs = [] then m_default_value (m_value x) else last vs)))"

text \<open>The options in \<open>D\<close> are settled, the others have what was given to them.\<close>

definition settings_hold :: "Options \<Rightarrow> nat set \<Rightarrow> (string \<times> string) list \<Rightarrow> ParseResult \<Rightarrow> bool" where
  "settings_hold o1 D ss pr \<longleftrightarrow> pr_details pr = details o1 \<and> pr_options pr = option_map o1
     \<and> pr_positional pr = [] \<and> pr_sequential pr = recorded o1 ss
     \<and> (\<forall>d < length (details o1). if d \<in> D then (\<exists>ov. pr_results pr d = Some ov \<and> settled (details o1 ! d) (texts o1 ss d) ov)
          else given (texts o1 ss d) (entry pr d))"

abbreviation runs :: "('s, 'a) comp \<Rightarrow> ('a \<Rightarrow> 's \<Rightarrow> bool) \<Rightarrow> 's \<Rightarrow> bool" where
  "runs \<equiv> wp (\<lambda>_. False)"

lemma runs_string:
  "type_of v = T_string \<Longrightarrow> runs (value_parse s) Q v = Q () (v\<lparr>store := V_string s\<rparr>)"
  by (simp add: value_parse_def wp_simps)

lemma ensured_string:
  assumes "ov_value ov = None \<or> (\<exists>v. ov_value ov = Some v \<and> type_of v = T_string)" "type_of (m_value x) = T_string"
    and "ov_value ov = None \<or> P (m_default_value (the (ov_value ov)))" "P (m_default_value (m_value x))"
  obtains v where "ov_value (ensure_value x ov) = Some v" "type_of v = T_string" "P (m_default_value v)"
  using assms that by (cases "ov_value ov") (auto simp: ensure_value_def make_storage_def value_clone_def)

lemma given_parse:
  assumes "given vs ov" "type_of (m_value x) = T_string"
  shows "runs (ov_parse x a) (\<lambda>_. given (vs @ [a])) ov"
proof -
  have "ov_value ov = None \<or> (\<exists>v. ov_value ov = Some v \<and> type_of v = T_string)"
    using assms(1) by (cases "vs = []") (auto simp: given_def OptionValue_new_def)
  then obtain v where v: "ov_value (ensure_value x ov) = Some v" "type_of v = T_string"
    using ensured_string [of ov x "\<lambda>_. True"] assms(2) by auto
  then show ?thesis
    using assms(1) by (simp add: ov_parse_def wp_simps runs_string given_def ensure_same)
qed

lemma settled_default:
  assumes "given [] ov" "type_of (m_value x) = T_string" "m_default (m_value x)"
  shows "runs (ov_parse_default x) (\<lambda>_. settled x []) ov"
proof -
  have "ov = OptionValue_new" using assms(1) by (simp add: given_def)
  then have "ov_value (ensure_value x ov) = Some (value_clone (m_value x))" "ov_count (ensure_value x ov) = 0"
    by (simp_all add: ensure_value_def OptionValue_new_def make_storage_def)
  then show ?thesis
    using assms(2,3)
    by (simp add: ov_parse_default_def value_parse_default_def wp_simps runs_string settled_def value_clone_def)
qed

lemma holds_parse_option:
  assumes "plain_strings o1" "settings_hold o1 {} ss pr" "map_of (option_map o1) n = Some d" "d < length (details o1)"
  shows "runs (parse_option d a) (\<lambda>_. settings_hold o1 {} (ss @ [(n, a)])) pr"
proof -
  have t: "type_of (m_value (details o1 ! d)) = T_string" using assms(1,4) by (simp add: plain_strings_def)
  have g: "given (texts o1 ss d) (entry pr d)" using assms(2,4) by (simp add: settings_hold_def)
  have "settings_hold o1 {} (ss @ [(n, a)]) (pr\<lparr>pr_results := (pr_results pr)(d \<mapsto> ov),
      pr_sequential := pr_sequential pr @ [\<lparr>kv_key = m_long (details o1 ! d), kv_value = a\<rparr>]\<rparr>)"
    if "given (texts o1 ss d @ [a]) ov" for ov
    using assms(2,3) that by (auto simp: settings_hold_def recorded_def texts_def entry_def)
  then have "runs (ov_parse (details o1 ! d) a) (\<lambda>_ ov. settings_hold o1 {} (ss @ [(n, a)]) (pr\<lparr>pr_results := (pr_results pr)(d \<mapsto> ov),
      pr_sequential := pr_sequential pr @ [\<lparr>kv_key = m_long (details o1 ! d), kv_value = a\<rparr>]\<rparr>)) (entry pr d)"
    by (rule wp_mono [OF given_parse [OF g t]])
  then show ?thesis using assms(2,4) by (simp add: parse_option_def wp_simps wp_deref settings_hold_def)
qed

subsection \<open>The main loop over settings\<close>

definition plains :: "setting list \<Rightarrow> string list" where
  "plains ps = concat (map plain_of ps)"

definition command_line :: "string \<Rightarrow> setting list \<Rightarrow> string list" where
  "command_line g ps = g # concat (map args_of ps)"

text \<open>The settings \<open>ps\<close> have been parsed.\<close>

definition parsed :: "Options \<Rightarrow> string \<Rightarrow> string list \<Rightarrow> setting list \<Rightarrow> parsing \<Rightarrow> bool" where
  "parsed o1 g av ps p \<longleftrightarrow> length (argv p) = length av \<and> current p = length (command_line g ps)
     \<and> drop (current p) (argv p) = drop (current p) av \<and> nextKeep p = Suc (length (plains ps))
     \<and> take (nextKeep p) (argv p) = g # plains ps \<and> settings_hold o1 {} (settings ps) (result p)"

lemma drop_ConsD: "drop i xs = x # ys \<Longrightarrow> i < length xs \<and> xs ! i = x \<and> drop (Suc i) xs = ys"
  by (metis drop_eq_Nil2 drop_Suc hd_drop_conv_nth list.distinct(1) list.sel(1,3) not_le tl_drop)

lemma plains_le: "length (plains ps) \<le> length (concat (map args_of ps))"
proof (induction ps)
  case (Cons s ps)
  then show ?case by (cases s) (simp_all add: plains_def)
qed (simp add: plains_def)

lemma command_line_snoc: "command_line g (ps @ qs) = command_line g ps @ concat (map args_of qs)"
  by (simp add: command_line_def)

lemma parsed_names:
  assumes "opts_inv o1" "n \<in> names_of o1"
  obtains d where "map_of (option_map o1) n = Some d" "d < length (details o1)"
proof -
  obtain d where d: "map_of (option_map o1) n = Some d"
    using assms(2) by (metis names_of_def map_of_eq_None_iff not_None_eq set_map)
  then have "d < length (details o1)" using assms(1) by (auto simp: opts_inv_def dest: map_of_SomeD)
  then show thesis using that d by blast
qed

text \<open>An option whose text is the next argument.\<close>

lemma checked_next:
  assumes "plain_strings o1" "settings_hold o1 {} ss (result p)" "map_of (option_map o1) n = Some d" "d < length (details o1)"
    and "drop (current p) (argv p) = a # v # rest" "length (argv p) = argc"
  shows "runs (checked_parse_arg argc d n)
    (\<lambda>_ p'. \<exists>r. p' = p\<lparr>current := Suc (current p), result := r\<rparr> \<and> settings_hold o1 {} (ss @ [(n, v)]) r) p"
proof -
  have v: "Suc (current p) < length (argv p)" "argv p ! Suc (current p) = v"
    using drop_ConsD [OF assms(5)] drop_ConsD [of "Suc (current p)" "argv p"] by auto
  have x: "\<not> m_implicit (m_value (details o1 ! d))" "pr_details (result p) = details o1"
    using assms(1,2,4) by (simp_all add: plain_strings_def settings_hold_def)
  have "runs (parse_option d v) (\<lambda>_ r. \<exists>r'. p\<lparr>result := r, current := Suc (current p)\<rparr>
      = p\<lparr>current := Suc (current p), result := r'\<rparr> \<and> settings_hold o1 {} (ss @ [(n, v)]) r') (result p)"
    by (rule wp_mono [OF holds_parse_option [OF assms(1-4)]], rule exI, rule conjI) simp_all
  then show ?thesis
    using v x assms(4,6)
    by (simp add: checked_parse_arg_def Let_def wp_simps wp_deref wp_read_arg next_arg_def)
qed

text \<open>One round: the setting, and the position of its last argument.\<close>

definition last_of :: "Options \<Rightarrow> string \<Rightarrow> string list \<Rightarrow> setting list \<Rightarrow> parsing \<Rightarrow> bool" where
  "last_of o1 g av ps p \<longleftrightarrow> parsed o1 g av ps (p\<lparr>current := Suc (current p)\<rparr>)"

lemma round_setting:
  assumes "opts_inv o1" "plain_strings o1" "valid o1 s" "parsed o1 g av ps p"
    and "av = command_line g (ps @ s # todo)" "argv p ! current p = a"
  shows "runs (case option_matcher a of No_match \<Rightarrow> parse_other a
      | Short cs \<Rightarrow> parse_short (length av) cs | Long n x \<Rightarrow> parse_long (length av) n x)
      (\<lambda>_. last_of o1 g av (ps @ [s])) p"
proof -
  have p: "length (argv p) = length av" "drop (current p) (argv p) = args_of s @ concat (map args_of todo)"
    "current p = length (command_line g ps)" "settings_hold o1 {} (settings ps) (result p)"
    "nextKeep p = Suc (length (plains ps))" "take (nextKeep p) (argv p) = g # plains ps"
    "pr_options (result p) = option_map o1"
    using assms(4) by (auto simp: parsed_def assms(5) command_line_snoc settings_hold_def)
  have tails: "drop (length (command_line g ps) + k) (argv p) = drop (length (command_line g ps) + k) av" for k
    using assms(4) p(3) by (metis parsed_def drop_drop add.commute)
  have result: "last_of o1 g av (ps @ [s]) (p\<lparr>current := current p + k, result := r\<rparr>)"
    if "settings_hold o1 {} (settings ps @ [(n, v)]) r" "setting_of s = Some (n, v)" "length (args_of s) = Suc k" for r n v k
    using p that tails [of "Suc k"]
    by (cases s) (auto simp: last_of_def parsed_def settings_snoc plains_def command_line_snoc)
  show ?thesis
  proof (cases s)
    case (By_eq n v)
    then obtain d where d: "map_of (option_map o1) n = Some d" "d < length (details o1)"
      using parsed_names [OF assms(1)] assms(3) by (metis valid.simps(1))
    have "a = ''--'' @ n @ ''='' @ v" using drop_ConsD [of "current p" "argv p"] p(2) By_eq assms(6) by simp
    then have m: "option_matcher a = Long n (Some v)"
      using option_matcher_iff(2) By_eq assms(3) by simp
    have "runs (parse_option d v) (\<lambda>_ r. last_of o1 g av (ps @ [s]) (p\<lparr>result := r\<rparr>)) (result p)"
      by (rule wp_mono [OF holds_parse_option [OF assms(2) p(4) d]]) (use result [of n v _ 0] By_eq in simp)
    then show ?thesis using d p(7) by (simp add: m parse_long_def wp_simps)
  next
    case (By_next n v)
    then obtain d where d: "map_of (option_map o1) n = Some d" "d < length (details o1)"
      using parsed_names [OF assms(1)] assms(3) by (metis valid.simps(2))
    have n: "is_name n" using By_next assms(3) by simp
    have args: "drop (current p) (argv p) = a # v # concat (map args_of todo)"
      "a = (if length n = 1 then ''-'' else ''--'') @ n"
      using drop_ConsD [of "current p" "argv p"] p(2) By_next assms(6) by auto
    have run: "runs (checked_parse_arg (length av) d n) (\<lambda>_. last_of o1 g av (ps @ [s])) p"
      by (rule wp_mono [OF checked_next [OF assms(2) p(4) d args(1) p(1)]]) (use result [of n v _ 1] By_next in auto)
    show ?thesis
    proof (cases "length n = 1")
      case True
      then obtain c where c: "n = [c]" by (cases n) auto
      then have "option_matcher a = Short [c]"
        using option_matcher_iff(3) [of a "[c]"] n args(2) True by (simp add: is_name_def)
      then show ?thesis using run d(1) p(7) c by (simp add: Let_def wp_simps)
    next
      case False
      then have "2 \<le> length n" using n by (cases n) (auto simp: is_name_def Suc_le_eq)
      then have "option_matcher a = Long n None"
        using option_matcher_iff(1) [of a n] n args(2) False by simp
      then show ?thesis using run d(1) p(7) by (simp add: parse_long_def wp_simps)
    qed
  next
    case (Plain w)
    have a: "a = w" "current p < length (argv p)" using drop_ConsD [of "current p" "argv p"] p(2) Plain assms(6) by auto
    have "\<not> (take 1 a = ''-'' \<and> tl a \<noteq> [])" using a assms(3) Plain by auto
    moreover have "option_matcher a = No_match"
      using calculation by (cases a rule: split_short.cases) (auto simp: option_matcher_def)
    moreover have "pr_positional (result p) = []" using p(4) by (simp add: settings_hold_def)
    moreover have k: "nextKeep p < length (argv p)"
      using p(3,5) plains_le [of ps] a(2) by (simp add: command_line_def)
    moreover have "last_of o1 g av (ps @ [s]) (p\<lparr>argv := (argv p)[nextKeep p := w], nextKeep := Suc (nextKeep p)\<rparr>)"
      using p tails [of 1] Plain k plains_le [of ps]
      by (simp add: last_of_def parsed_def settings_snoc command_line_snoc plains_def take_Suc_conv_app_nth command_line_def)
    ultimately show ?thesis
      using a assms(6) by (simp add: parse_other_def consume_positional_def keep_arg_def wp_simps wp_read_arg)
  qed
qed

lemma step_setting:
  assumes "opts_inv o1" "plain_strings o1" "valid o1 s" "parsed o1 g av ps p"
    and "av = command_line g (ps @ s # todo)"
  shows "runs (parse_step (length av)) (\<lambda>b p'. \<not> b \<and> parsed o1 g av (ps @ [s]) p') p"
proof -
  have d: "drop (current p) (argv p) = args_of s @ concat (map args_of todo)" "length (argv p) = length av"
    using assms(4) by (auto simp: parsed_def assms(5) command_line_snoc)
  then obtain a rest where a: "args_of s = a # rest" "current p < length (argv p)" "argv p ! current p = a"
    using drop_ConsD [of "current p" "argv p"] by (cases s) auto
  have "a \<noteq> ''--''" using a(1) assms(3) equals_not_word(2) by (cases s) (auto simp: is_name_def split: if_splits)
  moreover have "runs (case option_matcher a of No_match \<Rightarrow> parse_other a
      | Short cs \<Rightarrow> parse_short (length av) cs | Long n x \<Rightarrow> parse_long (length av) n x)
      (\<lambda>_. runs (sq next_arg (ret False)) (\<lambda>b p'. \<not> b \<and> parsed o1 g av (ps @ [s]) p')) p"
    by (rule wp_mono [OF round_setting [OF assms a(3)]]) (simp add: next_arg_def wp_simps last_of_def)
  ultimately show ?thesis
    unfolding parse_step_def wp_simps wp_read_arg [OF a(2)] a(3) by (simp only: if_False wp_simps)
qed

lemma loop_settings:
  assumes "opts_inv o1" "plain_strings o1" "\<forall>s \<in> set ps. valid o1 s" "length av < n"
    and "av = command_line g ps" "parsed o1 g av [] p"
  shows "runs (rounds n (\<lambda>p. current p \<noteq> length av) (parse_step (length av)))
    (\<lambda>b p. \<not> b \<and> parsed o1 g av ps p) p"
proof -
  let ?I = "\<lambda>p. \<exists>qs todo. ps = qs @ todo \<and> parsed o1 g av qs p"
  have pos: "args_of s \<noteq> []" for s by (cases s) auto
  show ?thesis
  proof (rule wp_rounds [where I = ?I and \<mu> = "\<lambda>p. length av - current p"])
    fix p assume I: "?I p" and c: "current p \<noteq> length av"
    then obtain qs todo where q: "ps = qs @ todo" "parsed o1 g av qs p" by blast
    then obtain s rest where t: "todo = s # rest"
      using c assms(5) by (cases todo) (auto simp: parsed_def)
    have "runs (parse_step (length av)) (\<lambda>b p'. \<not> b \<and> parsed o1 g av (qs @ [s]) p') p"
      by (rule step_setting [OF assms(1,2) _ q(2), where todo = rest]) (use assms(3,5) q(1) t in auto)
    then show "runs (parse_step (length av)) (\<lambda>b p'. if b then \<not> True \<and> parsed o1 g av ps p'
        else ?I p' \<and> length av - current p' < length av - current p) p"
    proof (rule wp_mono)
      fix b p' assume *: "\<not> b \<and> parsed o1 g av (qs @ [s]) p'"
      have "current p < current p'" "current p < length av"
        using * q pos [of s] assms(5) t by (auto simp: parsed_def command_line_snoc)
      moreover have "?I p'" using * q(1) t by (intro exI [of _ "qs @ [s]"] exI [of _ rest]) simp
      ultimately show "if b then \<not> True \<and> parsed o1 g av ps p'
        else ?I p' \<and> length av - current p' < length av - current p" using * by (simp add: diff_less_mono2)
    qed
  next
    fix p assume "?I p" "\<not> current p \<noteq> length av"
    then obtain qs todo where q: "ps = qs @ todo" "parsed o1 g av qs p" "current p = length av" by blast
    then have "concat (map args_of todo) = []"
      using assms(5) by (auto simp: parsed_def command_line_snoc)
    then have "todo = []" using pos by (cases todo) auto
    then show "\<not> False \<and> parsed o1 g av ps p" using q by simp
  next
    show "?I p" using assms(6) by (intro exI [of _ "[]"] exI [of _ ps]) simp
  qed (use assms(4) in simp)
qed

subsection \<open>Defaults\<close>

lemma given_settled:
  assumes "given vs ov" "\<not> (m_default (m_value x) \<and> ov_count ov = 0 \<and> \<not> ov_default ov)"
  shows "settled x vs ov"
  using assms by (cases "vs = []") (auto simp: given_def settled_def)

lemma settled_set:
  "settled x vs ov \<Longrightarrow> \<not> (m_default (m_value x) \<and> ov_count ov = 0 \<and> \<not> ov_default ov)"
  by (auto simp: settled_def split: if_splits)

lemma holds_settle:
  assumes "settings_hold o1 D ss pr" "d < length (details o1)" "settled (details o1 ! d) (texts o1 ss d) ov"
  shows "settings_hold o1 (insert d D) ss (pr\<lparr>pr_results := (pr_results pr)(d \<mapsto> ov)\<rparr>)"
  using assms by (auto simp: settings_hold_def entry_def)

lemma holdsD:
  assumes "settings_hold o1 D ss pr" "d < length (details o1)"
  shows "d \<in> D \<Longrightarrow> \<exists>ov. pr_results pr d = Some ov \<and> settled (details o1 ! d) (texts o1 ss d) ov"
    "d \<notin> D \<Longrightarrow> given (texts o1 ss d) (entry pr d)"
  using assms unfolding settings_hold_def by metis+

lemma defaults_settle:
  assumes "plain_strings o1"
  shows "settings_hold o1 D ss pr \<Longrightarrow> \<forall>(k, d) \<in> set os. d < length (details o1) \<Longrightarrow>
    runs (parse_defaults os) (\<lambda>_. settings_hold o1 (D \<union> snd ` set os) ss) pr"
proof (induction os arbitrary: D pr)
  case (Cons x os)
  obtain k d where x: "x = (k, d)" by fastforce
  then have d: "d < length (details o1)" using Cons.prems(2) by auto
  let ?x = "details o1 ! d" and ?e = "entry pr d"
  let ?t = "pr\<lparr>pr_results := (pr_results pr)(d \<mapsto> ?e)\<rparr>"
  let ?c = "m_default (m_value ?x) \<and> ov_count ?e = 0 \<and> \<not> ov_default ?e"
  have b: "pr_details pr = details o1" using Cons.prems(1) by (simp add: settings_hold_def)
  have t: "type_of (m_value ?x) = T_string" using assms d by (simp add: plain_strings_def)
  have e: "settled ?x (texts o1 ss d) ?e \<or> d \<notin> D \<and> given (texts o1 ss d) ?e"
    using holdsD [OF Cons.prems(1) d] by (cases "d \<in> D") (auto simp: entry_def)
  have "runs (if ?c then parse_default d else ret ()) (\<lambda>_. settings_hold o1 (insert d D) ss) ?t"
  proof (cases ?c)
    case True
    then have g: "given (texts o1 ss d) ?e" using e settled_set by blast
    then have n: "texts o1 ss d = []" using True by (simp add: given_def)
    have "runs (ov_parse_default ?x) (\<lambda>_ ov. settings_hold o1 (insert d D) ss (?t\<lparr>pr_results := (pr_results ?t)(d \<mapsto> ov)\<rparr>)) ?e"
      by (rule wp_mono [OF settled_default [OF g [unfolded n] t]])
        (use True n holds_settle [OF Cons.prems(1) d] in auto)
    moreover have "entry ?t d = ?e" by (simp add: entry_update)
    ultimately show ?thesis using True b d by (simp add: parse_default_def wp_simps wp_deref)
  next
    case False
    then have "settled ?x (texts o1 ss d) ?e" using e given_settled by blast
    then show ?thesis using False holds_settle [OF Cons.prems(1) d] by (auto simp: wp_simps)
  qed
  then have "runs (if ?c then parse_default d else ret ())
      (\<lambda>_. runs (parse_defaults os) (\<lambda>_. settings_hold o1 (D \<union> snd ` set (x # os)) ss)) ?t"
    by (rule wp_mono) (use Cons.IH [of "insert d D"] Cons.prems(2) x in simp)
  then show ?case using b d by (simp add: x wp_simps wp_deref)
qed (simp add: wp_simps)

lemma parse_settings:
  assumes "opts_inv o1" "plain_strings o1" "\<forall>s \<in> set ps. valid o1 s" "av = command_line g ps"
  shows "runs (ParseResult_parse (length av))
    (\<lambda>n p. settings_hold o1 (table_options o1) (settings ps) (result p) \<and> n = Suc (length (plains ps))
       \<and> length (argv p) = length av \<and> take n (argv p) = g # plains ps) (parsing_new o1 av)"
proof -
  let ?n = "Suc (length av)" and ?p0 = "parsing_new o1 av"
  let ?Q = "\<lambda>n p. settings_hold o1 (table_options o1) (settings ps) (result p) \<and> n = Suc (length (plains ps))
       \<and> length (argv p) = length av \<and> take n (argv p) = g # plains ps"
  let ?tail = "\<lambda>b. if b then sq (rounds ?n (\<lambda>p. current p < length av) rest_step)
     (sq (rounds ?n (\<lambda>p. current p \<noteq> length av) keep_step) (ret ())) else ret ()"
  have "given [] OptionValue_new" by (simp add: given_def OptionValue_new_def)
  then have "parsed o1 g av [] ?p0"
    using assms(2,4) by (simp add: parsed_def parsing_new_def command_line_def plains_def settings_def
        List.map_filter_def settings_hold_def ParseResult_new_def recorded_def texts_def plain_strings_def entry_def)
  from loop_settings [OF assms(1-3) _ assms(4) this, of ?n]
  have "runs (rounds ?n (\<lambda>p. current p \<noteq> length av) (parse_step (length av)))
      (\<lambda>b p. runs (on_res (parse_defaults (pr_options (result p)))) (\<lambda>_. runs (?tail b) (\<lambda>_. runs (reads nextKeep) ?Q)) p) ?p0"
  proof (rule wp_mono)
    fix b p assume p: "\<not> b \<and> parsed o1 g av ps p"
    then have h: "settings_hold o1 {} (settings ps) (result p)" "pr_options (result p) = option_map o1"
      by (simp_all add: parsed_def settings_hold_def)
    have "runs (parse_defaults (option_map o1)) (\<lambda>_. settings_hold o1 (table_options o1) (settings ps)) (result p)"
      using defaults_settle [OF assms(2) h(1), of "option_map o1"] assms(1)
      by (auto simp: table_options_def opts_inv_def)
    then show "runs (on_res (parse_defaults (pr_options (result p)))) (\<lambda>_. runs (?tail b) (\<lambda>_. runs (reads nextKeep) ?Q)) p"
      unfolding h(2) wp_simps by (rule wp_mono) (use p in \<open>auto simp: wp_simps parsed_def\<close>)
  qed simp
  moreover have "argv ?p0 = av" by (simp add: parsing_new_def)
  ultimately show ?thesis unfolding ParseResult_parse_def wp_simps by (simp only:)
qed

lemma settings_run:
  assumes "opts_inv o1" "plain_strings o1" "\<forall>s \<in> set ps. valid o1 s"
  obtains r av where "Options_parse o1 (length (command_line g ps)) (command_line g ps)
        = Inr (r, Suc (length (plains ps)), av)"
    "take (Suc (length (plains ps))) av = g # plains ps" "settings_hold o1 (table_options o1) (settings ps) r"
proof -
  obtain x p where run: "ParseResult_parse (length (command_line g ps)) (parsing_new o1 (command_line g ps)) = (x, p)"
    by fastforce
  have "x = Inr (Suc (length (plains ps)))" "settings_hold o1 (table_options o1) (settings ps) (result p)"
    "take (Suc (length (plains ps))) (argv p) = g # plains ps"
    using wp_result [OF parse_settings [OF assms refl] run] by (auto split: sum.splits)
  then show thesis using that run by (simp add: Options_parse_def)
qed

lemma settings_value:
  assumes "opts_inv o1" "settings_hold o1 (table_options o1) ss r" "map_of (option_map o1) k = Some d"
  shows "let vs = texts o1 ss d; v = m_value (details o1 ! d) in
    result_count k r = Inr (length vs)
    \<and> (\<exists>ov. result_index k r = Inr ov
        \<and> ov_as T_string ov =
           (if vs \<noteq> [] then Inr (V_string (last vs))
            else if m_default v then Inr (V_string (m_default_value v))
            else Inl (OptionException (option_has_no_value_exception []))))"
proof -
  have "d \<in> table_options o1" "d < length (details o1)"
    using assms(1,3) by (force simp: table_options_def opts_inv_def dest!: map_of_SomeD)+
  then obtain ov where ov: "pr_results r d = Some ov" "settled (details o1 ! d) (texts o1 ss d) ov"
    using holdsD(1) [OF assms(2), of d] by blast
  moreover have "pr_options r = option_map o1" using assms(2) by (simp add: settings_hold_def)
  ultimately show ?thesis
    using assms(3) by (auto simp: result_count_def result_index_def result_of_def ov_as_def settled_def
        OptionValue_new_def split: if_splits)
qed

text \<open>
  C13. Round trip of settings. Take any table of string options without implicit values and any list of
  settings of its options, each written as \<open>--name=text\<close>, \<open>--name text\<close> or \<open>-n text\<close>, with
  plain arguments between them. Parsing the command line records the settings in their order,
  leaves the plain arguments, and for every option yields the number of its settings and the last
  text it was set to, else its default, else \<open>option_has_no_value_exception\<close>. A text that is
  its own argument may be anything, also one that looks like an option.
\<close>

theorem settings_roundtrip:
  assumes "opts_inv o1" "plain_strings o1" "\<forall>s \<in> set ps. valid o1 s"
  shows "\<exists>r av. Options_parse o1 (length (command_line g ps)) (command_line g ps)
        = Inr (r, Suc (length (plains ps)), av)
    \<and> take (Suc (length (plains ps))) av = g # plains ps
    \<and> pr_sequential r = recorded o1 (settings ps)
    \<and> (\<forall>k d. map_of (option_map o1) k = Some d \<longrightarrow>
        (let vs = texts o1 (settings ps) d; v = m_value (details o1 ! d) in
         result_count k r = Inr (length vs)
         \<and> (\<exists>ov. result_index k r = Inr ov
             \<and> ov_as T_string ov =
                (if vs \<noteq> [] then Inr (V_string (last vs))
                 else if m_default v then Inr (V_string (m_default_value v))
                 else Inl (OptionException (option_has_no_value_exception []))))))"
proof -
  obtain r av where r: "Options_parse o1 (length (command_line g ps)) (command_line g ps)
        = Inr (r, Suc (length (plains ps)), av)"
    "take (Suc (length (plains ps))) av = g # plains ps" "settings_hold o1 (table_options o1) (settings ps) r"
    by (rule settings_run [OF assms])
  moreover have "pr_sequential r = recorded o1 (settings ps)" using r(3) by (simp add: settings_hold_def)
  ultimately show ?thesis
    using settings_value [OF assms(1) r(3)] by (intro exI [of _ r] exI [of _ av]) simp
qed

text \<open>A table with one string option that has a default, and a command line that sets it to an option.\<close>

definition name_table :: Options where
  "name_table = (Options_new ''test'' [])
     \<lparr>details := [OptionDetails_new ''n'' ''name'' [] (default_value ''me'' (cxx_value T_string))],
      option_map := [(''n'', 0), (''name'', 0)]\<rparr>"

lemma name_table_ok: "opts_inv name_table" "plain_strings name_table" "names_of name_table = {''n'', ''name''}"
  by (auto simp: name_table_def opts_inv_def plain_strings_def names_of_def Options_new_def OptionDetails_new_def
      default_value_def cxx_value_def)

theorem settings_roundtrip_witness:
  "\<exists>r av ov. Options_parse name_table 5 [''p'', ''-n'', ''--name'', ''file'', ''--name=a=b''] = Inr (r, 2, av)
    \<and> take 2 av = [''p'', ''file''] \<and> result_count ''n'' r = Inr 2
    \<and> result_index ''n'' r = Inr ov \<and> ov_as T_string ov = Inr (V_string ''a=b'')"
proof -
  let ?ps = "[By_next ''n'' ''--name'', Plain ''file'', By_eq ''name'' ''a=b'']"
  have v: "\<forall>s \<in> set ?ps. valid name_table s"
    by (simp add: name_table_ok is_name_def is_word_def is_alnum_def is_digit_def digit_val_def is_alpha_def)
  have d: "map_of (option_map name_table) ''n'' = Some 0" by (simp add: name_table_def)
  have t: "texts name_table (settings ?ps) 0 = [''--name'', ''a=b'']"
    "command_line ''p'' ?ps = [''p'', ''-n'', ''--name'', ''file'', ''--name=a=b'']" "plains ?ps = [''file'']"
    by (simp_all add: texts_def settings_def List.map_filter_def name_table_def command_line_def plains_def)
  obtain r av where r: "Options_parse name_table 5 [''p'', ''-n'', ''--name'', ''file'', ''--name=a=b''] = Inr (r, 2, av)"
    "take 2 av = [''p'', ''file'']" and
    *: "\<forall>k d. map_of (option_map name_table) k = Some d \<longrightarrow>
        (let vs = texts name_table (settings ?ps) d; v = m_value (details name_table ! d) in
         result_count k r = Inr (length vs)
         \<and> (\<exists>ov. result_index k r = Inr ov
             \<and> ov_as T_string ov =
                (if vs \<noteq> [] then Inr (V_string (last vs))
                 else if m_default v then Inr (V_string (m_default_value v))
                 else Inl (OptionException (option_has_no_value_exception [])))))"
    using settings_roundtrip [OF name_table_ok(1,2) v, of "''p''"] unfolding t by (auto simp: eval_nat_numeral)
  show ?thesis using r * [rule_format, OF d] t(1) by (auto simp: Let_def)
qed

subsection \<open>Surprises\<close>

text \<open>
  Defaults come too early and unknown short options vanish. A positional list option that has a default gets its
  default and then, behind it, the arguments after \<open>--\<close>, while the same arguments without \<open>--\<close>
  replace the default. Where unrecognised options are allowed, a long one is kept in
  the argument vector but a short one is neither kept nor reported.
\<close>

theorem default_before_rest:
  "let o1 = (Options_new ''test'' [])
         \<lparr>details := [OptionDetails_new [] ''files'' [] (default_value ''x'' (cxx_value (T_vector T_string)))],
          option_map := [(''files'', 0)], positional := [''files'']\<rparr>;
       values = (\<lambda>av. case Options_parse o1 (length av) av of
          Inl e \<Rightarrow> Inl e | Inr (r, n, av') \<Rightarrow>
            (case result_index ''files'' r of Inl e \<Rightarrow> Inl e | Inr ov \<Rightarrow> ov_as (T_vector T_string) ov));
       o2 = (Options_new ''test'' [])\<lparr>allow_unrecognised := True\<rparr>
   in values [''p'', ''a''] = Inr (V_vector [V_string ''a''])
    \<and> values [''p'', ''--'', ''a''] = Inr (V_vector [V_string ''x'', V_string ''a''])
    \<and> map_sum id snd (Options_parse o2 3 [''p'', ''-z'', ''--zz'']) = Inr (2, [''p'', ''--zz'', ''--zz''])"
  by code_simp

end
