(* ===== verification/Read_Options.thy ===== *)
theory Read_Options
  imports Cxxopts_Help Cxxopts_Settings
begin

text \<open>
  \<open>readOptions\<close> of \<open>main.cpp\<close>: the program's command line.
\<close>

text \<open>The program exits after printing the help text, or goes on with its download directory.\<close>

datatype options_outcome = Exit_0 string | Download_dir string

definition main_table :: "(Options, unit) comp" where
  "main_table = option_adder [] ''d,download_dir'' ''Photo download directory''
     (default_value ''.'' (cxx_value T_string)) []"

definition read_options :: "nat \<Rightarrow> string list \<Rightarrow> exn + options_outcome" where
  "read_options argc av =
     (case main_table (Options_new ''test'' ''A brief description'') of
        (Inl e, options) \<Rightarrow> Inl e
      | (Inr _, options) \<Rightarrow>
     (case Options_parse options argc av of
        Inl e \<Rightarrow> Inl e
      | Inr (res, argc', av') \<Rightarrow>
     (case result_count ''help'' res of
        Inl e \<Rightarrow> Inl e
      | Inr n \<Rightarrow>
          if n \<noteq> 0 then Inr (Exit_0 (Options_help [] options @ newline))
          else
     (case result_index ''download_dir'' res of
        Inl e \<Rightarrow> Inl e
      | Inr ov \<Rightarrow>
     (case ov_as T_string ov of
        Inl e \<Rightarrow> Inl e
      | Inr v \<Rightarrow> (case v of V_string s \<Rightarrow> Inr (Download_dir s) | _ \<Rightarrow> Inl BadCast))))))"

subsection \<open>The table\<close>

definition main_options :: Options where
  "main_options = (Options_new ''test'' ''A brief description'')
     \<lparr>details := [OptionDetails_new ''d'' ''download_dir'' ''Photo download directory''
        (default_value ''.'' (cxx_value T_string))],
      option_map := [(''d'', 0), (''download_dir'', 0)],
      help_map := [([], \<lparr>group_name = [], group_description = [],
        group_options = [help_details ''d'' ''download_dir'' ''Photo download directory''
          (default_value ''.'' (cxx_value T_string)) []]\<rparr>)]\<rparr>"

lemma main_specifier: "match_specifier (c_str ''d,download_dir'') = Some (''d'', ''download_dir'')"
  by code_simp

lemma main_table_result: "main_table (Options_new ''test'' ''A brief description'') = (Inr (), main_options)"
  by (simp add: main_table_def option_adder_def main_specifier option_names_def add_option_def add_one_option_def
      Options_new_def main_options_def comp_defs)

lemma main_options_ok:
  "opts_inv main_options" "well_typed main_options" "plain_strings main_options"
  "names_of main_options = {''d'', ''download_dir''}"
  by (auto simp: main_options_def opts_inv_def well_typed_def plain_strings_def names_of_def Options_new_def
      OptionDetails_new_def default_value_def cxx_value_def)

lemma main_find:
  "map_of (option_map main_options) ''download_dir'' = Some 0" "map_of (option_map main_options) ''help'' = None"
  "m_value (details main_options ! 0) = default_value ''.'' (cxx_value T_string)"
  by (simp_all add: main_options_def OptionDetails_new_def)

lemma read_options_parsed:
  assumes "Options_parse main_options argc av = Inr (r, argc', av')" "pr_options r = option_map main_options"
  shows "read_options argc av = (case result_index ''download_dir'' r of Inl e \<Rightarrow> Inl e | Inr ov \<Rightarrow>
     (case ov_as T_string ov of Inl e \<Rightarrow> Inl e
      | Inr v \<Rightarrow> (case v of V_string s \<Rightarrow> Inr (Download_dir s) | _ \<Rightarrow> Inl BadCast)))"
proof -
  have "result_count ''help'' r = Inr 0" using assms(2) main_find(2) by (simp add: result_count_def)
  then show ?thesis using assms(1) by (simp add: read_options_def main_table_result)
qed

subsection \<open>What it does\<close>

lemma read_options_safe:
  assumes "1 \<le> argc" "argc \<le> length av"
  shows "(\<exists>x. read_options argc av = Inl (OptionException x)) \<or> (\<exists>s. read_options argc av = Inr (Download_dir s))"
proof (cases "Options_parse main_options argc av")
  case (Inl e)
  then show ?thesis
    using parse_run [OF main_options_ok(1,2) assms] by (simp add: read_options_def main_table_result is_option_exn_def)
next
  case (Inr z)
  then obtain r argc' av' where z: "Options_parse main_options argc av = Inr (r, argc', av')" by (cases z) auto
  note s = parse_success [OF main_options_ok(1,2) assms z]
  have "0 \<in> table_options main_options" by (simp add: table_options_def main_options_def)
  then obtain ov where ov: "pr_results r 0 = Some ov" "ov_inv (details main_options ! 0) ov"
    "m_default (m_value (details main_options ! 0)) \<longrightarrow> ov_value ov \<noteq> None" by (rule pr_sound_entry [OF s])
  then obtain v where v: "ov_value ov = Some v" "type_of v = T_string" "has_type T_string (store v)"
    using main_find(3) by (auto simp: ov_inv_def default_value_def cxx_value_def)
  obtain x where x: "store v = V_string x" using v(3) by (cases "store v") auto
  have "result_index ''download_dir'' r = Inr ov"
    using ov(1) pr_sound_basic(2) [OF s] main_find(1) by (simp add: result_index_def result_of_def)
  then have "read_options argc av = Inr (Download_dir x)"
    using read_options_parsed [OF z pr_sound_basic(2) [OF s]] v x by (simp add: ov_as_def)
  then show ?thesis by blast
qed

text \<open>
  The program's download directory. For every command line made of settings of \<open>-d\<close> and
  \<open>--download_dir\<close>, in any of the three ways of writing them, and of other arguments that do not
  begin with a dash, \<open>readOptions\<close> yields the directory of the last setting, and \<open>.\<close> if there is none.
\<close>

theorem read_options_last_wins:
  assumes "\<forall>s \<in> set ps. valid main_options s"
  shows "read_options (length (command_line g ps)) (command_line g ps)
    = Inr (Download_dir (if settings ps = [] then ''.'' else snd (last (settings ps))))"
proof -
  obtain r av where r: "Options_parse main_options (length (command_line g ps)) (command_line g ps)
        = Inr (r, Suc (length (plains ps)), av)" "settings_hold main_options (table_options main_options) (settings ps) r"
    by (rule settings_run [OF main_options_ok(1,3) assms])
  have "fst s \<in> {''d'', ''download_dir''}" if s: "s \<in> set (settings ps)" for s
  proof -
    obtain x where x: "x \<in> set ps" "setting_of x = Some s"
      using s unfolding settings_mem by blast
    have "valid main_options x" by (rule bspec [OF assms x(1)])
    then have "fst s \<in> names_of main_options" using x(2) by (rule setting_name)
    then show ?thesis unfolding main_options_ok(4) .
  qed
  moreover have "map_of (option_map main_options) ''d'' = Some 0" by (simp add: main_options_def)
  ultimately have "\<forall>s \<in> set (settings ps). map_of (option_map main_options) (fst s) = Some 0"
    using main_find(1) by fastforce
  then have "texts main_options (settings ps) 0 = map snd (settings ps)"
    by (simp add: texts_def)
  moreover have "m_default (m_value (details main_options ! 0))"
    "m_default_value (m_value (details main_options ! 0)) = ''.''"
    by (simp_all add: main_find(3) default_value_def)
  ultimately obtain ov where "result_index ''download_dir'' r = Inr ov"
    "ov_as T_string ov = (if map snd (settings ps) \<noteq> [] then Inr (V_string (last (map snd (settings ps))))
      else Inr (V_string ''.''))"
    using settings_value [OF main_options_ok(1) r(2) main_find(1)] unfolding Let_def by metis
  then have "result_index ''download_dir'' r = Inr ov"
    "ov_as T_string ov = Inr (V_string (if settings ps = [] then ''.'' else snd (last (settings ps))))"
    by (simp_all add: last_map)
  moreover have "pr_options r = option_map main_options" using r(2) by (simp add: settings_hold_def)
  ultimately show ?thesis using read_options_parsed [OF r(1)] by simp
qed

theorem read_options_last_wins_witness:
  "read_options 5 [''prog'', ''-d'', ''a'', ''more'', ''--download_dir=b'']
    = Inr (Download_dir ''b'')"
proof -
  let ?ps = "[By_next ''d'' ''a'', Plain ''more'', By_eq ''download_dir'' ''b'']"
  have "\<forall>s \<in> set ?ps. valid main_options s"
    by (simp add: main_options_ok is_name_def is_word_def is_alnum_def is_digit_def digit_val_def is_alpha_def)
  from read_options_last_wins [OF this, of "''prog''"] show ?thesis
    by (simp add: command_line_def settings_def List.map_filter_def eval_nat_numeral)
qed

lemma help_not_parsed:
  "Options_parse main_options 2 [g, ''--help''] = Inl (OptionException (option_not_exists_exception ''help''))"
proof -
  have "option_matcher ''--help'' = Long ''help'' None" by code_simp
  then show ?thesis
    using main_find(2)
    by (simp add: Options_parse_def ParseResult_parse_def parsing_new_def ParseResult_new_def eval_nat_numeral
        parse_step_def read_arg_def parse_long_def on_res_def find_option_def main_options_def Options_new_def comp_defs)
qed

text \<open>
  \<open>readOptions\<close> never reaches its \<open>help\<close> branch and has no other end than these two: for every
  argument vector with the program's name it yields a download directory or throws an exception of the
  parser, which \<open>main\<close> does not catch; \<open>help\<close> is not an option of the table, and so \<open>--help\<close> throws
  \<open>option_not_exists_exception\<close>.
\<close>

theorem help_is_unreachable:
  assumes "1 \<le> argc" "argc \<le> length av"
  shows "((\<exists>x. read_options argc av = Inl (OptionException x)) \<or> (\<exists>s. read_options argc av = Inr (Download_dir s)))
    \<and> (\<forall>s. read_options argc av \<noteq> Inr (Exit_0 s))
    \<and> read_options 2 [g, ''--help''] = Inl (OptionException (option_not_exists_exception ''help''))"
proof -
  have "read_options 2 [g, ''--help''] = Inl (OptionException (option_not_exists_exception ''help''))"
    by (simp add: read_options_def main_table_result help_not_parsed)
  then show ?thesis using read_options_safe [OF assms] by auto
qed

theorem help_is_unreachable_witness:
  "\<forall>s. read_options 2 [''prog'', ''--help''] \<noteq> Inr (Exit_0 s)"
  using help_is_unreachable [of 2 "[''prog'', ''--help'']"] by simp

text \<open>The help text the program would print.\<close>

theorem main_help_text:
  "Options_help [] main_options = ''A brief description'' @ newline @ ''Usage:'' @ newline
     @ ''  test [OPTION...]'' @ newline @ newline
     @ ''  -d, --download_dir arg  Photo download directory (default: .)'' @ newline"
  by code_simp

end
