(* ===== verification/App_Main.thy ===== *)
theory App_Main
  imports Event_Sniffer Event_Injector Active_Object Event_Logger Controller_Events Read_Options
begin

text \<open>
  \<open>main.cpp\<close>: how the parts are put together and taken apart; \<open>readOptions\<close> is in theory
  \<open>Read_Options\<close>.
\<close>

subsection \<open>The program\<close>

text \<open>
  The sniffer's pointers, the life cycle of the three active objects, and the controller with
  the broker and the camera it refers to, which outlive it.
\<close>

record 'g app =
  sniffers :: "handler list"
  broker_ao :: ActiveObject
  injector_ao :: ActiveObject
  cc_ao :: ActiveObject
  cc_obj :: "'g controller"

text \<open>The broker once \<open>new EventSniffer(sEventBroker, &onEventReceived)\<close> has run.\<close>

definition sniffed_broker :: "handler EventBroker" where
  "sniffed_broker = snd (EventSniffer_new_all (\<lambda>i t. Sniffer t) EventBroker_new)"

definition app_init :: "'g gphoto \<Rightarrow> string \<Rightarrow> 'g \<Rightarrow> exn + 'g app" where
  "app_init E dir g =
     (let bao = snd (ao_start ActiveObject_new);
          iao = snd (ao_start ActiveObject_new);
          (ss, b) = EventSniffer_new_all (\<lambda>i t. Sniffer t) EventBroker_new;
          camera = CameraWrapper_new E g;
          (r, cc) = controller_init E (CameraController_new camera dir b)
      in case ss of Inl e \<Rightarrow> Inl e | Inr ss \<Rightarrow>
         (case r of Inl e \<Rightarrow> Inl e | Inr _ \<Rightarrow>
           Inr \<lparr>sniffers = ss, broker_ao = bao, injector_ao = iao,
                cc_ao = snd (ao_start ActiveObject_new), cc_obj = cc\<rparr>))"

text \<open>\<open>cleanUp\<close>; the joins in it are the subject of theory \<open>Active_Object\<close>.\<close>

definition cleanUp :: "'g gphoto \<Rightarrow> ('g app, unit) comp" where
  "cleanUp E =
     sq (on_member broker_ao broker_ao_update ao_stop)
     (sq (on_member injector_ao injector_ao_update ao_stop)
     (bnd (reads sniffers) (\<lambda>ss.
      sq (on_member cc_obj cc_obj_update (on_member broker broker_update (EventSniffer_delete ss)))
      (sq (on_member cc_ao cc_ao_update ao_stop)
      (sq (on_member cc_obj cc_obj_update (cam (disconnect E)))
      (on_member cc_obj cc_obj_update (cam (CameraWrapper_delete E))))))))"

text \<open>
  \<open>for (;;)\<close>: \<open>stopping k\<close> is what \<open>injector->isStopping()\<close> gives in the \<open>k\<close>-th iteration; the result
  is the number of sleeps when the loop is left.
\<close>

partial_function (option) main_loop :: "(nat \<Rightarrow> bool) \<Rightarrow> nat \<Rightarrow> nat \<Rightarrow> nat option" where
  "main_loop stopping k sleeps =
     (if \<not> stopping k then main_loop stopping (Suc k) (Suc sleeps)
      else main_loop stopping (Suc k) sleeps)"

text \<open>\<^const>\<open>None\<close>: it runs for ever. Otherwise it ends with an exception, by \<open>exit(0)\<close>, or returns.\<close>

definition app_main ::
    "'g gphoto \<Rightarrow> nat \<Rightarrow> string list \<Rightarrow> 'g \<Rightarrow> (nat \<Rightarrow> bool) \<Rightarrow> (exn + 'g app option) option" where
  "app_main E argc av g stopping =
     (case read_options argc av of
        Inl e \<Rightarrow> Some (Inl e)
      | Inr (Exit_0 s) \<Rightarrow> Some (Inr None)
      | Inr (Download_dir dir) \<Rightarrow>
     (case app_init E dir g of
        Inl e \<Rightarrow> Some (Inl e)
      | Inr a \<Rightarrow>
     (case main_loop stopping 0 0 of
        None \<Rightarrow> None
      | Some n \<Rightarrow>
          (case sq (on_member injector_ao injector_ao_update ao_stop) (cleanUp E) a of
             (Inl e, a') \<Rightarrow> Some (Inl e) | (Inr _, a') \<Rightarrow> Some (Inr (Some a'))))))"

subsection \<open>Wiring\<close>

lemma sniffed_subs: "subs_in sniffed_broker t = [Sniffer t]"
  using sniff_all_effect [of "\<lambda>i t. Sniffer t" "EventBroker_new :: handler EventBroker"]
  by (auto simp: sniffed_broker_def)

lemma sniffed_result:
  obtains ss where "EventSniffer_new_all (\<lambda>i t. Sniffer t) EventBroker_new = (Inr ss, sniffed_broker)"
    "set ss = range Sniffer"
  using that sniff_all_effect [of "\<lambda>i t. Sniffer t" "EventBroker_new :: handler EventBroker"]
  by (auto simp: sniffed_broker_def)

definition wired :: "u8 \<Rightarrow> handler list" where
  "wired t = [Sniffer t] @ (if t \<in> {TOPIC_CAMERA_CMD, TOPIC_CAMERA_EVENT} then [CC] else [])"

lemma subs_subs_in: "subs m t = subs_in (broker m) t"
  by (simp add: subs_def subs_in_def)

lemma controller_subs: "subs (CameraController_new c dir sniffed_broker) t = wired t"
  using sniffed_subs [of t]
  by (simp add: subs_def subs_in_def [symmetric] CameraController_new_def wired_def)

subsection \<open>Histories\<close>

text \<open>
  \<open>through\<close> is what the broker has delivered after a sequence of posts with the subscribers
  \<open>w\<close>. Every action of the controller delivers through posts only.
\<close>

definition through :: "(u8 \<Rightarrow> handler list) \<Rightarrow> (event \<times> u8) list \<Rightarrow> (handler \<times> event) list" where
  "through w posts = concat (map (\<lambda>(ev, t). map (\<lambda>h. (h, ev)) (w t)) posts)"

definition by_posts :: "(u8 \<Rightarrow> handler list) \<Rightarrow> 'g controller \<Rightarrow> bool" where
  "by_posts w m \<longleftrightarrow> subs m = w \<and> (\<exists>posts. delivered m = through w posts)"

lemma by_posts_cong [simp]:
  "by_posts w (m\<lparr>camera_obj := x1\<rparr>) = by_posts w m" "by_posts w (m\<lparr>camera_config := x2\<rparr>) = by_posts w m"
  "by_posts w (m\<lparr>to_download := x3\<rparr>) = by_posts w m" "by_posts w (m\<lparr>reconnect_attempts := x4\<rparr>) = by_posts w m"
  "by_posts w (m\<lparr>temp := x5\<rparr>) = by_posts w m" "by_posts w (m\<lparr>state := x6\<rparr>) = by_posts w m"
  "by_posts w (m\<lparr>eventList := x7\<rparr>) = by_posts w m" "by_posts w (m\<lparr>deferred_events := x8\<rparr>) = by_posts w m"
  by (simp_all add: by_posts_def subs_def fun_eq_iff)

lemma by_posts_post: "keeps (by_posts w) (broker_post ev t)"
proof -
  have "through w (ps @ [(ev, t)]) = through w ps @ map (\<lambda>h. (h, ev)) (w t)" for ps
    by (simp add: through_def)
  then show ?thesis
    unfolding keeps_def by_posts_def broker_post_run by (auto simp: subs_def fun_eq_iff) metis
qed

lemma by_posts_members:
  "keeps (by_posts w) (cam f)" "keeps (by_posts w) (on_member deferred_events deferred_events_update g)"
  by (simp_all add: keeps_def cam_def on_member_def split: prod.split)

lemmas by_posts_rules = keeps_catch keeps_bnd keeps_sq keeps_if keeps_prod keeps_sum keeps_basic
  by_posts_members by_posts_post

lemma by_posts_actions:
  "keeps (by_posts w) (controller_connect E)"
  "keeps (by_posts w) (controller_disconnect E)"
  "keeps (by_posts w) (setConfig E)"
  "keeps (by_posts w) (readStatus E)"
  "keeps (by_posts w) (readOptions E)"
  "keeps (by_posts w) (captureWired E)"
  unfolding controller_connect_def controller_disconnect_def setConfig_def readStatus_def
    readOptions_def captureWired_def postGPhotoError_def
  by (intro by_posts_rules)+

lemma by_posts_download: "keeps (by_posts w) (download E)"
  unfolding download_def Let_def
  by (intro keeps_try_catch by_posts_rules) (auto split: exn.splits intro: by_posts_post)

lemma by_posts_flush: "keeps (by_posts w) (flush_deferred n)"
proof (induction n)
  case (Suc n)
  then show ?case
    unfolding flush_deferred.simps postEvent_def by (intro by_posts_rules keeps_modify) simp_all
qed (simp add: keeps_basic)

lemma by_posts_enter:
  "keeps (by_posts w) (enter_Idle E)" "keeps (by_posts w) (enter_CaptureWired E)"
  "keeps (by_posts w) (enter_Downloading E)"
  unfolding enter_Idle_def enter_CaptureWired_def enter_Downloading_def
  by (intro by_posts_rules by_posts_actions by_posts_flush by_posts_download)+

lemma by_posts_default: "keeps (by_posts w) (connected_default E h ev)"
  unfolding connected_default_def
  by (intro by_posts_rules by_posts_actions keeps_modify) simp_all

lemma by_posts_react: "keeps (by_posts w) (react E h ev)"
  by (cases h; simp only: react.simps)
    (intro by_posts_rules by_posts_actions by_posts_enter by_posts_default keeps_modify; simp)+

lemma by_posts_flat: "keeps (by_posts w) (flat_handle E ev)"
  unfolding flat_handle_def settle_def
  by (intro by_posts_rules by_posts_react keeps_modify) simp_all

lemma by_posts_run:
  "ctl_inv m \<Longrightarrow> by_posts w m \<Longrightarrow> controller_run n E m = (r, m') \<Longrightarrow> by_posts w m'"
proof (rule run_keeps [where P = "by_posts w", OF by_posts_flat])
  show "by_posts w m = by_posts w m'" if "forget m = forget m'" for m m' :: "'g controller"
    using forget_sel [OF that] by (simp add: by_posts_def subs_def fun_eq_iff)
qed simp_all

subsection \<open>The running program\<close>

text \<open>
  The states of the controller, the broker and the camera after \<open>init\<close>: other threads post
  events, and the controller's thread takes events from its queue.
\<close>

inductive app_reach :: "'g gphoto \<Rightarrow> string \<Rightarrow> 'g \<Rightarrow> 'g controller \<Rightarrow> bool"
  for E :: "'g gphoto" and dir :: string and g :: 'g where
  started: "app_init E dir g = Inr a \<Longrightarrow> app_reach E dir g (cc_obj a)"
| posted: "app_reach E dir g m \<Longrightarrow> good_event ev \<Longrightarrow> app_reach E dir g (snd (broker_post ev t m))"
| handled: "app_reach E dir g m \<Longrightarrow> controller_run 1 E m = (Inr (), m') \<Longrightarrow> app_reach E dir g m'"

lemma app_init_result:
  "\<exists>ss. set ss = range Sniffer \<and> app_init E dir g = Inr
     \<lparr>sniffers = ss, broker_ao = snd (ao_start ActiveObject_new),
      injector_ao = snd (ao_start ActiveObject_new), cc_ao = snd (ao_start ActiveObject_new),
      cc_obj = (CameraController_new (CameraWrapper_new E g) dir sniffed_broker)
        \<lparr>state := Disconnected, temp := Disconnected\<rparr>\<rparr>"
proof -
  obtain ss where "EventSniffer_new_all (\<lambda>i t. Sniffer t) EventBroker_new = (Inr ss, sniffed_broker)"
    "set ss = range Sniffer" by (rule sniffed_result)
  then show ?thesis by (simp add: app_init_def controller_init_result)
qed

lemma app_starts:
  obtains a where "app_init E dir g = Inr a"
  using app_init_result [of E dir g] by (elim exE conjE)

lemma app_reach_inv:
  assumes "app_reach E dir g m"
  shows "ctl_inv m \<and> by_posts wired m"
  using assms
proof (induction rule: app_reach.induct)
  case (started a)
  have "subs (CameraController_new (CameraWrapper_new E g) dir sniffed_broker) = wired"
    by (rule ext) (rule controller_subs)
  moreover have "delivered (CameraController_new c d b) = through wired []" for c d b
    by (simp add: CameraController_new_def through_def)
  ultimately have "by_posts wired (CameraController_new (CameraWrapper_new E g) dir sniffed_broker)"
    unfolding by_posts_def by blast
  then have "by_posts wired (cc_obj a) \<and> ctl_inv (cc_obj a)"
    using started app_init_result [of E dir g] new_inv [of "CameraWrapper_new E g" dir sniffed_broker]
    by auto
  then show ?case by simp
next
  case (posted m ev t)
  have "ctl_inv (snd (broker_post ev t m))"
    using posted safe_post [of ev "\<lambda>_. True" t]
    by (auto simp: ctl_inv_def safe_def broker_post_run)
  then show ?case using posted keepsD [OF by_posts_post] by blast
next
  case (handled m m')
  then show ?case using by_posts_run run_safe by blast
qed

text \<open>The topics the controller subscribes to.\<close>

abbreviation cc_topic :: "handler \<Rightarrow> bool" where
  "cc_topic h \<equiv> h = Sniffer TOPIC_CAMERA_CMD \<or> h = Sniffer TOPIC_CAMERA_EVENT"

lemma through_wired:
  "map snd (filter (\<lambda>x. fst x = CC) (through wired ps))
   = map snd (filter (\<lambda>x. cc_topic (fst x)) (through wired ps))"
  by (induction ps) (auto simp: through_def wired_def)



subsection \<open>\<open>main\<close>\<close>



text \<open>
  \<open>cleanUp\<close>, were it reached, would leave nothing running: from every state of the running
  program all three active objects end stopped and without a thread, no sniffer is left in the
  broker, the camera is disconnected and its handle released; the deleted controller's pointer
  stays subscribed to its two topics.
\<close>

theorem cleanUp_stops_everything:
  assumes "app_init E dir g = Inr a" "app_reach E dir g m" "cleanUp E (a\<lparr>cc_obj := m\<rparr>) = (r, a')"
  shows "r = Inr ()
    \<and> isStopped (broker_ao a') \<and> isStopped (injector_ao a') \<and> isStopped (cc_ao a')
    \<and> \<not> has_thread (broker_ao a') \<and> \<not> has_thread (injector_ao a') \<and> \<not> has_thread (cc_ao a')
    \<and> camera (camera_obj (cc_obj a')) = nullptr \<and> \<not> connected (camera_obj (cc_obj a'))
    \<and> (\<forall>t. subs (cc_obj a') t =
        (if t \<in> {TOPIC_CAMERA_CMD, TOPIC_CAMERA_EVENT} then [CC] else []))"
proof -
  obtain ss where ss: "EventSniffer_new_all (\<lambda>i t. Sniffer t) EventBroker_new = (Inr ss, sniffed_broker)"
    "set ss = range Sniffer" by (rule sniffed_result)
  have sub: "subs_in (broker m) t = wired t" for t
    using app_reach_inv [OF assms(2)] unfolding by_posts_def subs_subs_in [symmetric] by simp
  obtain b where b: "EventSniffer_delete ss (broker m) = (Inr (), b)"
    "\<And>t. subs_in b t = filter (\<lambda>h. h \<notin> range Sniffer) (wired t)"
    using EventSniffer_delete_effect [of ss "broker m"] by (auto simp: ss(2) sub)
  let ?m = "m\<lparr>broker := b\<rparr>"
  obtain w where w: "snd (disconnect E (camera_obj m)) = w" "\<not> connected w"
    "\<exists>x. disconnect E (camera_obj m) = (Inr x, w)"
    using disconnect_effect [of E "camera_obj m"] by auto
  obtain w' where w': "CameraWrapper_delete E w = (Inr (), w')" "camera w' = nullptr" "\<not> connected w'"
    using delete_effect [of E w] w(2) by auto
  obtain s where stop: "ao_stop (snd (ao_start ActiveObject_new)) = (Inr (), s)" "isStopped s" "\<not> has_thread s"
    by (simp add: ao_simps ActiveObject_new_def isRunning_def isStopped_def)
  have a: "sniffers a = ss" "broker_ao a = snd (ao_start ActiveObject_new)"
    "injector_ao a = snd (ao_start ActiveObject_new)" "cc_ao a = snd (ao_start ActiveObject_new)"
    using assms(1) ss(1) by (auto simp: app_init_def controller_init_result)
  have "cleanUp E (a\<lparr>cc_obj := m\<rparr>) = (Inr (), a\<lparr>cc_obj := ?m\<lparr>camera_obj := w'\<rparr>,
      broker_ao := s, injector_ao := s, cc_ao := s\<rparr>)"
    using w(3) by (auto simp: cleanUp_def on_member_def sq_def bnd_def a stop(1) b(1) cam_def w'(1) run_simps)
  then show ?thesis
    using assms(3) stop(2,3) w'(2,3) b(2) by (auto simp: subs_def subs_in_def wired_def)
qed

theorem cleanUp_stops_everything_witness:
  "\<exists>a. app_init sim_lib [] sim0 = Inr a \<and> fst (cleanUp sim_lib a) = Inr ()
    \<and> \<not> has_thread (cc_ao (snd (cleanUp sim_lib a)))"
proof -
  obtain a where a: "app_init sim_lib [] sim0 = Inr a" by (rule app_starts)
  have "cleanUp sim_lib (a\<lparr>cc_obj := cc_obj a\<rparr>) = (fst (cleanUp sim_lib a), snd (cleanUp sim_lib a))"
    by simp
  note * = cleanUp_stops_everything [OF a app_reach.started [OF a] this]
  show ?thesis by (intro exI [of _ a] conjI a) (simp_all add: *)
qed

end
