(* ===== verification/Library_Policy.thy ===== *)
theory Library_Policy
  imports Camera_Wrapper
begin

text \<open>
  A contract between the camera classes and a library: a predicate on the library's state that
  every call keeps, where files are opened and directories created under allowed names only.
  Inside the locale every member function of the camera classes that the controller calls is
  shown to keep the predicate. Theory \<open>Camera_Files\<close> interprets it.
\<close>

subsection \<open>The contract\<close>

locale library_policy =
  fixes E :: "'g gphoto" and P :: "'g \<Rightarrow> bool"
    and may_open :: "string \<Rightarrow> bool" and may_create :: "string \<Rightarrow> bool"
  assumes cameras:
      "P g \<Longrightarrow> P (snd (gp_context_new E g))" "P g \<Longrightarrow> P (snd (gp_camera_new E c g))"
      "P g \<Longrightarrow> P (snd (gp_camera_init E c ctx g))" "P g \<Longrightarrow> P (gp_camera_exit E c ctx g)"
      "P g \<Longrightarrow> P (gp_camera_free E c g)" "P g \<Longrightarrow> P (snd (gp_camera_capture E c ctx g))"
      "P g \<Longrightarrow> P (snd (gp_camera_file_get E c f n file ctx g))"
      "P g \<Longrightarrow> P (snd (gp_camera_get_single_config E c n ctx g))"
      "P g \<Longrightarrow> P (snd (gp_camera_set_single_config E c n w ctx g))"
    and widgets:
      "P g \<Longrightarrow> P (gp_widget_free E w g)" "P g \<Longrightarrow> P (snd (gp_widget_get_type E w g))"
      "P g \<Longrightarrow> P (snd (gp_widget_get_name E w g))" "P g \<Longrightarrow> P (snd (gp_widget_get_readonly E w g))"
      "P g \<Longrightarrow> P (snd (gp_widget_count_choices E w g))"
      "P g \<Longrightarrow> P (snd (gp_widget_get_choice E w i g))"
      "P g \<Longrightarrow> P (snd (gp_widget_get_value_string E w g))"
      "P g \<Longrightarrow> P (snd (gp_widget_get_value_float E w g))"
      "P g \<Longrightarrow> P (gp_widget_set_value_string E w v g)"
      "P g \<Longrightarrow> P (gp_widget_set_value_float E w x g)"
      "P g \<Longrightarrow> P (snd (gp_widget_get_range E w g))"
    and files:
      "P g \<Longrightarrow> P (snd (gp_file_new_from_fd E fd g))" "P g \<Longrightarrow> P (gp_file_free E p g)"
      "P g \<Longrightarrow> P (snd (fileno E p g))" "P g \<Longrightarrow> P (fclose E p g)" "P g \<Longrightarrow> P (snd (fs_exists E n g))"
    and opens: "P g \<Longrightarrow> may_open n \<Longrightarrow> P (snd (fopen_w E n g))"
    and creates: "P g \<Longrightarrow> may_create n \<Longrightarrow> P (snd (create_directory E n g))"
begin

abbreviation (input) obeys :: "('g CameraWrapper, 'a) comp \<Rightarrow> bool" where
  "obeys \<equiv> keeps (\<lambda>s. P (lib s))"

lemma camera_calls:
  "obeys (call (gp_camera_new E c))" "obeys (call (gp_camera_init E c ctx))"
  "obeys (run (gp_camera_exit E c ctx))" "obeys (run (gp_camera_free E c))"
  "obeys (call (gp_camera_capture E c ctx))" "obeys (call (gp_camera_file_get E c f n file ctx))"
  "obeys (call (gp_camera_get_single_config E c n ctx))"
  "obeys (call (gp_camera_set_single_config E c n w ctx))"
  by (intro keeps_call keeps_run; simp add: cameras)+

lemma widget_calls:
  "obeys (call (gp_widget_get_type E w))" "obeys (call (gp_widget_get_name E w))"
  "obeys (call (gp_widget_get_readonly E w))" "obeys (call (gp_widget_count_choices E w))"
  "obeys (call (gp_widget_get_choice E w i))" "obeys (call (gp_widget_get_value_string E w))"
  "obeys (call (gp_widget_get_value_float E w))" "obeys (run (gp_widget_set_value_string E w v))"
  "obeys (run (gp_widget_set_value_float E w x))" "obeys (call (gp_widget_get_range E w))"
  by (intro keeps_call keeps_run; simp add: widgets)+

lemma file_calls:
  "obeys (call (gp_file_new_from_fd E fd))" "obeys (run (gp_file_free E p))"
  "obeys (call (fileno E p))" "obeys (run (fclose E p))" "obeys (call (fs_exists E n))"
  "may_open n \<Longrightarrow> obeys (call (fopen_w E n))" "may_create n \<Longrightarrow> obeys (call (create_directory E n))"
  by (intro keeps_call keeps_run; simp add: files opens creates)+

lemmas composed = keeps_bnd keeps_sq keeps_if keeps_option keeps_prod keeps_basic

subsubsection \<open>Widgets\<close>

lemma widget_ops:
  "obeys (CameraWidgetBase_new E n)" "obeys (getType E w)" "obeys (getName E w)" "obeys (isReadOnly E w)"
  "obeys (apply_widget E w)" "obeys (check_string E w)" "obeys (check_range E w)"
  "obeys (string_getValue E w)" "obeys (string_setValue E w v)"
  "obeys (range_getValue E w)" "obeys (range_setValue E w x)" "obeys (getRange E w)"
  unfolding CameraWidgetBase_new_def apply_widget_def check_string_def check_range_def getType_def
    getName_def isReadOnly_def string_getValue_def string_setValue_def range_getValue_def
    range_setValue_def getRange_def
  by (intro composed camera_calls widget_calls)+

lemma widget_choices: "obeys (getAvailableValues E w)"
proof -
  have "obeys (choices_loop E w n i cs)" for n i cs
    by (induction n arbitrary: i cs) (auto intro!: composed widget_calls)
  then show ?thesis unfolding getAvailableValues_def by (intro composed widget_calls)
qed

lemma widget_scopes:
  assumes "\<And>w. obeys (body w)"
  shows "obeys (with_CameraWidgetString E n body)" "obeys (with_CameraWidgetRange E n body)"
  unfolding with_CameraWidgetString_def with_CameraWidgetRange_def widget_scope_def
  by (intro composed keeps_with_destructor widget_ops assms;
      simp add: CameraWidgetBase_delete_def widgets)+

subsubsection \<open>The camera\<close>

lemmas widget_rules = composed widget_ops widget_choices widget_scopes

lemma camera_getters:
  "obeys (getSerialNumber E)" "obeys (getExposureTime E)" "obeys (getAperture E)" "obeys (getISO E)"
  "obeys (getTriggerMode E)" "obeys (getBatteryPercent E)" "obeys (getExposureProgram E)"
  "obeys (getFocalLength E)" "obeys (listExposureTimes E)" "obeys (listApertures E)"
  "obeys (listISOs E)" "obeys (listTriggerModes E)"
  unfolding getSerialNumber_def getExposureTime_def getAperture_def getISO_def getTriggerMode_def
    getBatteryPercent_def getExposureProgram_def getFocalLength_def listExposureTimes_def
    listApertures_def listISOs_def listTriggerModes_def
  by (intro widget_rules keeps_for_each)+

lemma camera_setters:
  "obeys (setExposureTime E i)" "obeys (setAperture E i)" "obeys (setISO E i)" "obeys (setTriggerMode E t)"
  unfolding setExposureTime_def setAperture_def setISO_def setTriggerMode_def
  by (intro widget_rules keeps_for_each)+

lemma camera_connection:
  "obeys (connect E)" "obeys (disconnect E)" "obeys (isResponsive E)"
proof -
  show "obeys (connect E)"
    unfolding connect_def by (intro composed keeps_modify camera_calls camera_getters) simp_all
  show "obeys (disconnect E)"
    unfolding disconnect_def freeCamera_def
    by (intro composed keeps_modify camera_calls) simp_all
  show "obeys (isResponsive E)"
    unfolding isResponsive_def
    by (intro composed keeps_try_catch camera_getters) (auto split: if_splits intro: composed)
qed

lemma camera_pictures:
  "obeys (wiredCapture E)" "may_open (c_str d) \<Longrightarrow> obeys (downloadFile E p d)"
  unfolding wiredCapture_def downloadFile_def downloadFile_out_def
  by (intro composed camera_calls file_calls; assumption)+

lemmas camera_rules = camera_getters camera_setters camera_connection camera_pictures file_calls(5,7)

lemma new_obeys: "P g \<Longrightarrow> P (lib (CameraWrapper_new E g))"
  using cameras(1) [of g] by (auto simp: CameraWrapper_new_def split: prod.split)

end

end
