(* ===== verification/Camera_Files.thy ===== *)
theory Camera_Files
  imports App_Main Library_Policy
begin

text \<open>
  Which files the program writes. \<open>spy E\<close> is the library \<open>E\<close> with a record of the names of the
  files it was asked to open for writing and of the directories it was asked to create. For
  every library \<open>E\<close> it satisfies the contract \<open>library_policy\<close> with the names that download
  commands give, and this carries over to all states of the running program.
\<close>

subsection \<open>The recording library\<close>

record 'g spied =
  spied_lib :: 'g
  opened :: "string list"
  created :: "string list"

definition watched :: "('g \<Rightarrow> 'a \<times> 'g) \<Rightarrow> 'g spied \<Rightarrow> 'a \<times> 'g spied" where
  "watched f b = (case f (spied_lib b) of (x, g) \<Rightarrow> (x, b\<lparr>spied_lib := g\<rparr>))"

definition watched_void :: "('g \<Rightarrow> 'g) \<Rightarrow> 'g spied \<Rightarrow> 'g spied" where
  "watched_void f b = b\<lparr>spied_lib := f (spied_lib b)\<rparr>"

definition spy :: "'g gphoto \<Rightarrow> 'g spied gphoto" where
  "spy E =
    \<lparr>GP_OK = GP_OK E,
     GP_ERROR_BAD_PARAMETERS = GP_ERROR_BAD_PARAMETERS E,
     folder_size = folder_size E,
     name_size = name_size E,
     gp_context_new = watched (gp_context_new E),
     gp_camera_new = (\<lambda>old. watched (gp_camera_new E old)),
     gp_camera_init = (\<lambda>c ctx. watched (gp_camera_init E c ctx)),
     gp_camera_exit = (\<lambda>c ctx. watched_void (gp_camera_exit E c ctx)),
     gp_camera_free = (\<lambda>c. watched_void (gp_camera_free E c)),
     gp_camera_capture = (\<lambda>c ctx. watched (gp_camera_capture E c ctx)),
     gp_camera_file_get = (\<lambda>c f n file ctx. watched (gp_camera_file_get E c f n file ctx)),
     gp_camera_get_single_config = (\<lambda>c n ctx. watched (gp_camera_get_single_config E c n ctx)),
     gp_camera_set_single_config = (\<lambda>c n w ctx. watched (gp_camera_set_single_config E c n w ctx)),
     gp_widget_free = (\<lambda>w. watched_void (gp_widget_free E w)),
     gp_widget_get_type = (\<lambda>w. watched (gp_widget_get_type E w)),
     gp_widget_get_name = (\<lambda>w. watched (gp_widget_get_name E w)),
     gp_widget_get_readonly = (\<lambda>w. watched (gp_widget_get_readonly E w)),
     gp_widget_count_choices = (\<lambda>w. watched (gp_widget_count_choices E w)),
     gp_widget_get_choice = (\<lambda>w i. watched (gp_widget_get_choice E w i)),
     gp_widget_get_value_string = (\<lambda>w. watched (gp_widget_get_value_string E w)),
     gp_widget_get_value_float = (\<lambda>w. watched (gp_widget_get_value_float E w)),
     gp_widget_set_value_string = (\<lambda>w v. watched_void (gp_widget_set_value_string E w v)),
     gp_widget_set_value_float = (\<lambda>w v. watched_void (gp_widget_set_value_float E w v)),
     gp_widget_get_range = (\<lambda>w. watched (gp_widget_get_range E w)),
     gp_file_new_from_fd = (\<lambda>fd. watched (gp_file_new_from_fd E fd)),
     gp_file_free = (\<lambda>p. watched_void (gp_file_free E p)),
     gp_result_as_string = gp_result_as_string E,
     fopen_w = (\<lambda>n b. watched (fopen_w E n) (b\<lparr>opened := opened b @ [n]\<rparr>)),
     fileno = (\<lambda>f. watched (fileno E f)),
     fclose = (\<lambda>f. watched_void (fclose E f)),
     errno = (\<lambda>b. errno E (spied_lib b)),
     fs_exists = (\<lambda>n. watched (fs_exists E n)),
     create_directory = (\<lambda>n b. watched (create_directory E n) (b\<lparr>created := created b @ [n]\<rparr>))\<rparr>"

lemma watched_simps [simp]:
  "opened (snd (watched f b)) = opened b" "created (snd (watched f b)) = created b"
  "opened (watched_void f' b) = opened b" "created (watched_void f' b) = created b"
  by (simp_all add: watched_def watched_void_def split: prod.split)

text \<open>\<open>A\<close> are the names that may be opened, \<open>dir\<close> the one directory that may be created.\<close>

definition confined :: "string \<Rightarrow> string set \<Rightarrow> 'g spied \<Rightarrow> bool" where
  "confined dir A g \<longleftrightarrow> set (opened g) \<subseteq> A \<and> set (created g) \<subseteq> {dir}"

interpretation spied: library_policy "spy E" "confined dir A" "\<lambda>n. n \<in> A" "\<lambda>n. n = dir"
  for E :: "'g gphoto" and dir A
  by unfold_locales (simp_all add: spy_def confined_def)

subsection \<open>The controller\<close>

text \<open>The names of the files that the download commands among the delivered events ask for.\<close>

definition targets :: "string \<Rightarrow> (handler \<times> event) list \<Rightarrow> string set" where
  "targets dir D = {c_str (path_append dir (name p)) | p. (CC, CameraDownloadEvent p) \<in> set D}"

lemma targets_mono: "set D \<subseteq> set D' \<Longrightarrow> targets dir D \<subseteq> targets dir D'"
  by (auto simp: targets_def)

text \<open>
  Files have been opened under names of \<open>A\<close> only, every event that the controller has queued or
  deferred was delivered to it, nothing delivered before is forgotten (\<open>D\<close>), and the picture to
  download is one of \<open>T\<close>.
\<close>

definition tidy ::
    "string \<Rightarrow> string set \<Rightarrow> (handler \<times> event) list \<Rightarrow> CameraPath set \<Rightarrow> 'g spied controller \<Rightarrow> bool" where
  "tidy dir A D T m \<longleftrightarrow> confined dir A (lib (camera_obj m)) \<and> download_dir m = dir
     \<and> to_download m \<in> T \<and> set D \<subseteq> set (delivered m) \<and> cb_inv (deferred_events m)
     \<and> (\<forall>p \<in> set (contents (deferred_events m)). \<exists>ev. p = Some ev \<and> (CC, ev) \<in> set (delivered m))
     \<and> (\<forall>ev \<in> set (eventList m). (CC, ev) \<in> set (delivered m))"

lemma tidy_cong [simp]:
  "tidy dir A D T (m\<lparr>camera_config := x1\<rparr>) = tidy dir A D T m"
  "tidy dir A D T (m\<lparr>reconnect_attempts := x2\<rparr>) = tidy dir A D T m"
  "tidy dir A D T (m\<lparr>temp := x3\<rparr>) = tidy dir A D T m" "tidy dir A D T (m\<lparr>state := x4\<rparr>) = tidy dir A D T m"
  by (simp_all add: tidy_def)

lemma tidy_cam: "keeps (\<lambda>s. confined dir A (lib s)) f \<Longrightarrow> keeps (tidy dir A D T) (cam f)"
  by (auto simp: keeps_def cam_run tidy_def split: prod.split)

lemma tidy_post: "keeps (tidy dir A D T) (broker_post ev t)"
  by (fastforce simp: keeps_def broker_post_run tidy_def count_list_0_iff)

lemma keeps_reads_value: "(\<And>s. P s \<Longrightarrow> keeps P (f (g s))) \<Longrightarrow> keeps P (bnd (reads g) f)"
  by (simp add: keeps_def)

lemma keeps_of_sum_value: "(\<And>x. r = Inr x \<Longrightarrow> keeps P (f x)) \<Longrightarrow> keeps P (bnd (of_sum r) f)"
  by (cases r) (simp_all add: keeps_def)

lemmas tidy_rules = keeps_catch keeps_bnd keeps_sq keeps_if keeps_prod keeps_sum keeps_basic
  tidy_cam tidy_post

lemma tidy_actions:
  "keeps (tidy dir A D T) (controller_connect (spy E))"
  "keeps (tidy dir A D T) (controller_disconnect (spy E))"
  "keeps (tidy dir A D T) (setConfig (spy E))"
  "keeps (tidy dir A D T) (readStatus (spy E))"
  "keeps (tidy dir A D T) (readOptions (spy E))"
  "keeps (tidy dir A D T) (captureWired (spy E))"
  unfolding controller_connect_def controller_disconnect_def setConfig_def readStatus_def
    readOptions_def captureWired_def postGPhotoError_def
  by (intro tidy_rules spied.camera_rules)+

text \<open>A download opens the one file, and creates the download directory only.\<close>

lemma tidy_download:
  assumes "\<And>p. p \<in> T \<Longrightarrow> c_str (path_append dir (name p)) \<in> A"
  shows "keeps (tidy dir A D T) (download (spy E))"
  unfolding download_def Let_def
proof (rule keeps_reads_value)
  fix m :: "'a spied controller"
  assume "tidy dir A D T m"
  then have m: "download_dir m = dir" "c_str (path_append dir (name (to_download m))) \<in> A"
    using assms by (simp_all add: tidy_def)
  show "keeps (tidy dir A D T) (case (download_dir m, to_download m) of (dir, td) \<Rightarrow>
    sq (bnd (cam (call (fs_exists (spy E) dir))) (\<lambda>ex.
        case ex of
          Inl c \<Rightarrow> raise (FilesystemError dir c)
        | Inr there \<Rightarrow>
            if \<not> there then
              bnd (cam (call (create_directory (spy E) dir))) (\<lambda>ok.
              if \<not> ok then broker_post (Event EV_CAMERA_DOWNLOAD_ERROR) TOPIC_CAMERA_EVENT else ret ())
            else ret ()))
    (try_catch
      (bnd (of_sum (toCameraFilePath (folder_size (spy E)) (name_size (spy E)) td)) (\<lambda>fp.
       sq (cam (downloadFile (spy E) fp (path_append dir (name td))))
       (broker_post (CameraDownloadSuccessEvent td (path_append dir (name td))) TOPIC_CAMERA_EVENT)))
      (\<lambda>e. case e of
         FilesystemError w c \<Rightarrow> Some (broker_post (Event EV_CAMERA_DOWNLOAD_ERROR) TOPIC_CAMERA_EVENT)
       | GPhotoError c \<Rightarrow>
           Some (broker_post (CameraErrorEvent EV_CAMERA_GENERIC_ERROR c) TOPIC_CAMERA_EVENT)
       | _ \<Rightarrow> None)))"
    unfolding prod.case m(1)
    by (intro keeps_try_catch tidy_rules spied.camera_rules refl m(2))
      (auto split: exn.splits intro: tidy_post)
qed

lemma tidy_defer:
  assumes "(CC, ev) \<in> set D"
  shows "keeps (tidy dir A D T) (modify (\<lambda>m. m\<lparr>deferred_events := cb_put (Some ev) (deferred_events m)\<rparr>))"
proof (rule keeps_modify)
  fix m :: "'a spied controller"
  assume m: "tidy dir A D T m"
  then have "set (contents (cb_put (Some ev) (deferred_events m)))
      \<subseteq> insert (Some ev) (set (contents (deferred_events m)))"
    by (auto simp: tidy_def cb_put_contents last_n_def dest!: in_set_dropD)
  moreover have "(CC, ev) \<in> set (delivered m)" using m assms by (auto simp: tidy_def)
  ultimately have "\<exists>e. p = Some e \<and> (CC, e) \<in> set (delivered m)"
    if "p \<in> set (contents (cb_put (Some ev) (deferred_events m)))" for p
    using that m by (auto simp: tidy_def)
  then show "tidy dir A D T (m\<lparr>deferred_events := cb_put (Some ev) (deferred_events m)\<rparr>)"
    using m by (simp add: tidy_def cb_put_inv)
qed

lemma tidy_flush: "keeps (tidy dir A D T) (flush_deferred n)"
proof (induction n)
  case (Suc n)
  have "tidy dir A D T (snd (flush_deferred (Suc n) m))" if m: "tidy dir A D T m" for m :: "'a spied controller"
  proof (cases "contents (deferred_events m)")
    case Nil
    then show ?thesis using m isEmpty_contents [of "deferred_events m"] by (simp add: tidy_def run_simps)
  next
    case (Cons p ps)
    let ?d = "deferred_events m"
    have inv: "cb_inv ?d" using m by (simp add: tidy_def)
    obtain ev where p: "p = Some ev" "(CC, ev) \<in> set (delivered m)" using m Cons by (auto simp: tidy_def)
    define d' where "d' = snd (cb_pop ?d)"
    have pop: "cb_pop ?d = (Inr p, d')" "contents d' = ps" "cb_inv d'"
      using ring.deq_Cons [OF inv Cons] by (simp_all add: d'_def prod_eq_iff)
    define u where "u = m\<lparr>deferred_events := d', eventList := eventList m @ [ev]\<rparr>"
    have "on_member deferred_events deferred_events_update cb_pop m = (Inr p, m\<lparr>deferred_events := d'\<rparr>)"
      using pop(1) by (simp add: on_member_def)
    then have "flush_deferred (Suc n) m = flush_deferred n u"
      using p(1) Cons isEmpty_contents [OF inv] by (simp add: bnd_Inr deref_def postEvent_def u_def)
    moreover have "tidy dir A D T u" using m p(2) Cons pop(2,3) by (auto simp: tidy_def u_def)
    ultimately show ?thesis using keepsD [OF Suc] by simp
  qed
  then show ?case by (simp add: keeps_def del: flush_deferred.simps)
qed (simp add: keeps_basic)

lemma tidy_enter:
  "keeps (tidy dir A D T) (enter_Idle (spy E))" "keeps (tidy dir A D T) (enter_CaptureWired (spy E))"
  "(\<And>p. p \<in> T \<Longrightarrow> c_str (path_append dir (name p)) \<in> A) \<Longrightarrow>
    keeps (tidy dir A D T) (enter_Downloading (spy E))"
  unfolding enter_Idle_def enter_CaptureWired_def enter_Downloading_def
  by (intro tidy_rules spied.camera_rules tidy_actions tidy_flush tidy_download; assumption)+

lemma tidy_start_download:
  assumes "c_str (path_append dir (name p)) \<in> A"
  shows "keeps (tidy dir A D UNIV) (sq (modify (\<lambda>m. m\<lparr>to_download := p\<rparr>)) (enter_Downloading (spy E)))"
  unfolding keeps_def
proof (intro allI impI)
  fix m :: "'a spied controller"
  assume "tidy dir A D UNIV m"
  then have "tidy dir A D {p} (m\<lparr>to_download := p\<rparr>)" by (simp add: tidy_def)
  moreover have "keeps (tidy dir A D {p}) (enter_Downloading (spy E))" using assms by (intro tidy_enter) simp
  ultimately show "tidy dir A D UNIV
      (snd (sq (modify (\<lambda>m. m\<lparr>to_download := p\<rparr>)) (enter_Downloading (spy E)) m))"
    by (simp add: keeps_def tidy_def)
qed

lemma tidy_default:
  "(CC, ev) \<in> set D \<Longrightarrow> keeps (tidy dir A D T) (connected_default (spy E) h ev)"
  unfolding connected_default_def by (intro tidy_rules tidy_actions tidy_defer)

lemma tidy_react:
  assumes ev: "(CC, ev) \<in> set D"
  shows "keeps (tidy dir (targets dir D) D UNIV) (react (spy E) h ev)"
proof -
  have start: "keeps (tidy dir (targets dir D) D UNIV)
      (bnd (of_sum (as_CameraDownloadEvent ev)) (\<lambda>p.
       sq (modify (\<lambda>m. m\<lparr>to_download := p\<rparr>)) (enter_Downloading (spy E))))"
  proof (rule keeps_of_sum_value)
    fix p assume "as_CameraDownloadEvent ev = Inr p"
    then have "ev = CameraDownloadEvent p" by (cases ev) simp_all
    then show "keeps (tidy dir (targets dir D) D UNIV)
        (sq (modify (\<lambda>m. m\<lparr>to_download := p\<rparr>)) (enter_Downloading (spy E)))"
      using ev by (intro tidy_start_download) (auto simp: targets_def)
  qed
  show ?thesis
    by (cases h; simp only: react.simps)
      (intro start tidy_rules tidy_actions tidy_enter(1,2) tidy_default [OF ev] keeps_modify; simp)+
qed

subsection \<open>The running program\<close>

lemma tidy_handle:
  assumes "good_event ev" "ctl_inv m" "(CC, ev) \<in> set D" "tidy dir (targets dir D) D UNIV m"
    and "controller_handle (spy E) ev m = (r, m')"
  shows "tidy dir (targets dir D) D UNIV m'"
proof -
  obtain m2 where flat: "flat_handle (spy E) ev m = (r, m2)" and eq: "forget m2 = forget m'"
    using assms(1,2,5) by (rule handle_flat)
  have "keeps (tidy dir (targets dir D) D UNIV) (flat_handle (spy E) ev)"
    unfolding flat_handle_def settle_def
    by (intro tidy_rules tidy_react assms(3) keeps_modify) simp
  then have "tidy dir (targets dir D) D UNIV m2" using flat assms(4) by (rule keepsE)
  then show ?thesis using forget_sel [OF eq] by (simp add: tidy_def)
qed

abbreviation (input) tidy_now :: "string \<Rightarrow> 'g spied controller \<Rightarrow> bool" where
  "tidy_now dir m \<equiv> tidy dir (targets dir (delivered m)) (delivered m) UNIV m"

lemma tidy_later: "tidy dir (targets dir D) D UNIV m \<Longrightarrow> tidy_now dir m"
  using targets_mono [of D "delivered m" dir] by (auto simp: tidy_def confined_def)

abbreviation unwatched :: "'g \<Rightarrow> 'g spied" where
  "unwatched g \<equiv> \<lparr>spied_lib = g, opened = [], created = []\<rparr>"

lemma app_reach_tidy:
  assumes "app_reach (spy E) dir (unwatched g) m"
  shows "tidy_now dir m"
  using assms
proof (induction rule: app_reach.induct)
  case (started a)
  have "confined dir {} (lib (CameraWrapper_new (spy E) (unwatched g)))"
    by (rule spied.new_obeys) (simp add: confined_def)
  then show ?case
    using started app_init_result [of "spy E" dir "unwatched g"]
    by (auto simp: tidy_def CameraController_new_def confined_def cb_new_inv cb_new_contents DEFERRED_SIZE_def)
next
  case (posted m ev t)
  then show ?case by (intro tidy_later [of _ "delivered m"]) (rule keepsD [OF tidy_post])
next
  case (handled m m')
  have inv: "ctl_inv m" using app_reach_inv [OF handled.hyps(1)] by simp
  show ?case
  proof (cases "eventList m")
    case Nil
    then show ?thesis using handled by (simp add: run_simps)
  next
    case (Cons ev rest)
    define u where "u = m\<lparr>eventList := rest\<rparr>"
    have run: "controller_handle (spy E) ev u = (Inr (), m')"
      using handled.hyps(2) Cons by (auto simp: u_def sq_def run_simps elim!: bnd_InrE)
    have "good_event ev" "ctl_inv u"
      using inv Cons by (auto simp: u_def ctl_inv_def ctl_data_def)
    moreover have "(CC, ev) \<in> set (delivered m)" "tidy dir (targets dir (delivered m)) (delivered m) UNIV u"
      using handled.IH Cons by (auto simp: u_def tidy_def)
    ultimately have "tidy dir (targets dir (delivered m)) (delivered m) UNIV m'"
      using run by (rule tidy_handle)
    then show ?thesis by (rule tidy_later)
  qed
qed



text \<open>
  The names are not confined to the directory: a download of a picture whose name begins
  with a slash opens that name for writing, wherever it is.
\<close>

interpretation seen: library_policy "spy E" "\<lambda>g. x \<in> set (opened g)" "\<lambda>_. True" "\<lambda>_. True"
  for E :: "'g gphoto" and x
  by unfold_locales (simp_all add: spy_def)

lemma bnd_establishes:
  assumes "\<And>s. \<exists>x t. m s = (Inr x, t) \<and> P t" "\<And>x. keeps P (f x)"
  shows "P (snd (bnd m f s))"
  using assms(1) [of s] keepsD [OF assms(2)] by (auto simp: bnd_Inr)

lemma downloadFile_opens: "c_str d \<in> set (opened (lib (snd (downloadFile (spy E) fp d s))))"
  unfolding downloadFile_def
proof (rule bnd_establishes)
  show "\<exists>f t. call (fopen_w (spy E) (c_str d)) s = (Inr f, t) \<and> c_str d \<in> set (opened (lib t))" for s
    by (cases "fopen_w (spy E) (c_str d) (lib s)")
      (auto simp: call_def spy_def watched_def split: prod.splits)
qed (unfold downloadFile_out_def, intro seen.composed seen.camera_calls seen.file_calls)

theorem absolute_name_escapes:
  assumes "name (to_download m) = CHR ''/'' # n"
    and "toCameraFilePath (folder_size E) (name_size E) (to_download m) = Inr fp"
    and "\<And>d g. fst (fs_exists E d g) = Inr True"
  shows "c_str (CHR ''/'' # n) \<in> set (opened (lib (camera_obj (snd (download (spy E) m)))))"
proof -
  obtain u where ex: "call (fs_exists (spy E) (download_dir m)) (camera_obj m) = (Inr (Inr True), u)"
    using assms(3) [of "download_dir m" "spied_lib (lib (camera_obj m))"]
    by (cases "fs_exists E (download_dir m) (spied_lib (lib (camera_obj m)))")
      (simp add: call_def spy_def watched_def)
  obtain r v where down: "downloadFile (spy E) fp (CHR ''/'' # n) u = (r, v)" by fastforce
  have "c_str (CHR ''/'' # n) \<in> set (opened (lib v))"
    using downloadFile_opens [of "CHR ''/'' # n" E fp u] down by simp
  moreover have sz: "folder_size (spy E) = folder_size E" "name_size (spy E) = name_size E"
    by (simp_all add: spy_def)
  ultimately show ?thesis
    using assms(1,2) ex down
    by (cases r)
      (auto simp: download_def Let_def path_append_def try_catch_def bnd_def sq_def cam_run
        broker_post_run run_simps split: exn.splits)
qed

end
