(* ===== verification/Restinio_Bytes.thy ===== *)
theory Restinio_Bytes
  imports Prelude
begin

unbundle bit_operations_syntax

text \<open>
  Bytes and bits for the parts of \<open>libs/restinio\<close>: a \<open>std::string\<close>, \<open>string_view_t\<close> or
  byte buffer is the list of its bytes, each read as \<open>unsigned char\<close>, as the code does before it
  computes with one. \<open>utils/impl/bitops.hpp\<close>, and facts about all bytes that are decided by
  evaluating them on each of the 256.
\<close>

type_synonym bytes = "u8 list"

subsection \<open>All bytes\<close>

lemma all_words_below:
  fixes w :: "'a::len word"
  assumes "list_all (\<lambda>n. P (word_of_nat n)) [0..<m]" "unat w < m"
  shows "P w"
proof -
  have "\<forall>n \<in> set [0..<m]. P (word_of_nat n)" using assms(1) by (simp only: list_all_iff)
  from bspec [OF this, of "unat w"] show ?thesis using assms(2) by simp
qed

lemma all_bytes:
  fixes b :: u8
  assumes "list_all (\<lambda>n. P (word_of_nat n :: u8)) [0..<256]"
  shows "P b"
  using assms by (rule all_words_below) (use unsigned_less [of b] in simp)

subsection \<open>\<open>bitops\<close>\<close>

fun bit_mask :: "nat \<Rightarrow> 'a::len word" where
  "bit_mask bits_to_extract =
     (if bits_to_extract \<le> 1 then 1 else push_bit 1 (bit_mask (bits_to_extract - 1)) OR 1)"

declare bit_mask.simps [simp del]

definition n_bits_from :: "nat \<Rightarrow> nat \<Rightarrow> 'f::len word \<Rightarrow> 't::len word" where
  "n_bits_from shift bits_to_extract value = ucast (drop_bit shift value) AND bit_mask bits_to_extract"

lemma bit_mask_eq: "0 < n \<Longrightarrow> bit_mask n = mask n"
proof (induction n rule: bit_mask.induct)
  case (1 n)
  show ?case
  proof (cases "n \<le> 1")
    case True
    then have "n = 1" using 1 by simp
    then show ?thesis by (simp add: bit_mask.simps [of "Suc 0"])
  next
    case False
    then have "bit_mask n = push_bit 1 (mask (n - 1) :: 'a word) OR 1"
      using 1 by (simp add: bit_mask.simps [of n])
    also have "\<dots> = mask (Suc (n - 1))" by (simp add: mask_Suc_double push_bit_Suc mult.commute or.commute)
    finally show ?thesis using False by simp
  qed
qed

lemma bit_n_bits_from:
  fixes v :: "'f::len word"
  assumes "0 < k"
  shows "bit (n_bits_from sh k v :: 't::len word) i \<longleftrightarrow> i < LENGTH('t) \<and> i < k \<and> bit v (sh + i)"
  using assms bit_imp_le_length [of v "sh + i"]
  by (auto simp: n_bits_from_def bit_mask_eq bit_simps)

end
