(* ===== verification/Restinio_Base64.thy ===== *)
theory Restinio_Base64
  imports Restinio_Bytes
begin

unbundle bit_operations_syntax

text \<open>
  \<open>utils/base64.hpp\<close> and its tables \<open>utils/base64_lut.ipp\<close>. \<open>std::uint_fast32_t\<close> has at least 32
  bits and only 24 are used. A read behind the end of a \<open>string_view\<close> is undefined.
\<close>

subsection \<open>Tables\<close>

definition is_base64_char_lut :: "u8 list" where
  "is_base64_char_lut =
   [    0, 0, 0, 0, 0, 0, 0, 0, 0, 0, 0, 0, 0, 0, 0, 0,
    0, 0, 0, 0, 0, 0, 0, 0, 0, 0, 0, 0, 0, 0, 0, 0,
    0, 0, 0, 0, 0, 0, 0, 0, 0, 0, 0, 1, 0, 0, 0, 1,
    1, 1, 1, 1, 1, 1, 1, 1, 1, 1, 0, 0, 0, 1, 0, 0,
    0, 1, 1, 1, 1, 1, 1, 1, 1, 1, 1, 1, 1, 1, 1, 1,
    1, 1, 1, 1, 1, 1, 1, 1, 1, 1, 1, 0, 0, 0, 0, 0,
    0, 1, 1, 1, 1, 1, 1, 1, 1, 1, 1, 1, 1, 1, 1, 1,
    1, 1, 1, 1, 1, 1, 1, 1, 1, 1, 1, 0, 0, 0, 0, 0,
    0, 0, 0, 0, 0, 0, 0, 0, 0, 0, 0, 0, 0, 0, 0, 0,
    0, 0, 0, 0, 0, 0, 0, 0, 0, 0, 0, 0, 0, 0, 0, 0,
    0, 0, 0, 0, 0, 0, 0, 0, 0, 0, 0, 0, 0, 0, 0, 0,
    0, 0, 0, 0, 0, 0, 0, 0, 0, 0, 0, 0, 0, 0, 0, 0,
    0, 0, 0, 0, 0, 0, 0, 0, 0, 0, 0, 0, 0, 0, 0, 0,
    0, 0, 0, 0, 0, 0, 0, 0, 0, 0, 0, 0, 0, 0, 0, 0,
    0, 0, 0, 0, 0, 0, 0, 0, 0, 0, 0, 0, 0, 0, 0, 0,
    0, 0, 0, 0, 0, 0, 0, 0, 0, 0, 0, 0, 0, 0, 0, 0]"

definition base64_alphabet :: "u8 list" where
  "base64_alphabet =
   [    65, 66, 67, 68, 69, 70, 71, 72, 73, 74, 75, 76, 77, 78, 79, 80,
    81, 82, 83, 84, 85, 86, 87, 88, 89, 90, 97, 98, 99, 100, 101, 102,
    103, 104, 105, 106, 107, 108, 109, 110, 111, 112, 113, 114, 115, 116, 117, 118,
    119, 120, 121, 122, 48, 49, 50, 51, 52, 53, 54, 55, 56, 57, 43, 47]"

definition base64_decode_lut :: "u8 list" where
  "base64_decode_lut =
   [    0, 0, 0, 0, 0, 0, 0, 0, 0, 0, 0, 0, 0, 0, 0, 0,
    0, 0, 0, 0, 0, 0, 0, 0, 0, 0, 0, 0, 0, 0, 0, 0,
    0, 0, 0, 0, 0, 0, 0, 0, 0, 0, 0, 62, 0, 0, 0, 63,
    52, 53, 54, 55, 56, 57, 58, 59, 60, 61, 0, 0, 0, 0, 0, 0,
    0, 0, 1, 2, 3, 4, 5, 6, 7, 8, 9, 10, 11, 12, 13, 14,
    15, 16, 17, 18, 19, 20, 21, 22, 23, 24, 25, 0, 0, 0, 0, 0,
    0, 26, 27, 28, 29, 30, 31, 32, 33, 34, 35, 36, 37, 38, 39, 40,
    41, 42, 43, 44, 45, 46, 47, 48, 49, 50, 51, 0, 0, 0, 0, 0,
    0, 0, 0, 0, 0, 0, 0, 0, 0, 0, 0, 0, 0, 0, 0, 0,
    0, 0, 0, 0, 0, 0, 0, 0, 0, 0, 0, 0, 0, 0, 0, 0,
    0, 0, 0, 0, 0, 0, 0, 0, 0, 0, 0, 0, 0, 0, 0, 0,
    0, 0, 0, 0, 0, 0, 0, 0, 0, 0, 0, 0, 0, 0, 0, 0,
    0, 0, 0, 0, 0, 0, 0, 0, 0, 0, 0, 0, 0, 0, 0, 0,
    0, 0, 0, 0, 0, 0, 0, 0, 0, 0, 0, 0, 0, 0, 0, 0,
    0, 0, 0, 0, 0, 0, 0, 0, 0, 0, 0, 0, 0, 0, 0, 0,
    0, 0, 0, 0, 0, 0, 0, 0, 0, 0, 0, 0, 0, 0, 0, 0]"

definition is_base64_char :: "u8 \<Rightarrow> bool" where
  "is_base64_char c \<longleftrightarrow> is_base64_char_lut ! unat c = 1"

text \<open>The character \<open>=\<close>.\<close>

abbreviation (input) EQ :: u8 where
  "EQ \<equiv> 61"

subsection \<open>Validation\<close>

datatype expected_type = b64ch | b64ch_or_padding | padding

fun valid_loop :: "expected_type \<Rightarrow> nat \<Rightarrow> nat \<Rightarrow> bytes \<Rightarrow> bool" where
  "valid_loop expects b64chars_found paddings_found [] = True"
| "valid_loop b64ch b64chars_found paddings_found (ch # str) =
     (if ch = EQ then False
      else if is_base64_char ch then
        valid_loop (if b64chars_found + 1 \<ge> 2 then b64ch_or_padding else b64ch)
          (b64chars_found + 1) paddings_found str
      else False)"
| "valid_loop b64ch_or_padding b64chars_found paddings_found (ch # str) =
     (if ch = EQ then valid_loop padding b64chars_found (paddings_found + 1) str
      else if is_base64_char ch then valid_loop b64ch_or_padding b64chars_found paddings_found str
      else False)"
| "valid_loop padding b64chars_found paddings_found (ch # str) =
     (if ch = EQ then
        (if paddings_found + 1 > 2 then False
         else valid_loop padding b64chars_found (paddings_found + 1) str)
      else False)"

definition is_valid_base64_string :: "bytes \<Rightarrow> bool" where
  "is_valid_base64_string str = (if length str < 4 then False else valid_loop b64ch 0 0 str)"

subsection \<open>Encoding\<close>

definition alphabet_char :: "u8 \<Rightarrow> u8" where
  "alphabet_char ch = base64_alphabet ! unat ch"

definition sixbits_char :: "nat \<Rightarrow> u32 \<Rightarrow> u8" where
  "sixbits_char shift bs = n_bits_from shift 6 bs"

definition uch :: "u8 \<Rightarrow> u32" where
  "uch ch = ucast ch"

text \<open>The loop over the groups of three, then the remaining one or two bytes.\<close>

fun base64_encode :: "bytes \<Rightarrow> bytes" where
  "base64_encode (a # b # c # str) =
     (let bs = push_bit 16 (uch a) OR push_bit 8 (uch b) OR uch c
      in [alphabet_char (sixbits_char 18 bs), alphabet_char (sixbits_char 12 bs),
          alphabet_char (sixbits_char 6 bs), alphabet_char (sixbits_char 0 bs)] @ base64_encode str)"
| "base64_encode [a] =
     (let bs = push_bit 16 (uch a)
      in [alphabet_char (sixbits_char 18 bs), alphabet_char (sixbits_char 12 bs), EQ, EQ])"
| "base64_encode [a, b] =
     (let bs = push_bit 16 (uch a) OR push_bit 8 (uch b)
      in [alphabet_char (sixbits_char 18 bs), alphabet_char (sixbits_char 12 bs),
          alphabet_char (sixbits_char 6 bs), EQ])"
| "base64_encode [] = []"

subsection \<open>Decoding\<close>

datatype decoding_error_t = invalid_base64_sequence

definition decode_table :: "u8 \<Rightarrow> u32" where
  "decode_table c = ucast (base64_decode_lut ! unat c)"

definition decode_group :: "u8 \<Rightarrow> u8 \<Rightarrow> u8 \<Rightarrow> u8 \<Rightarrow> bytes" where
  "decode_group c0 c1 c2 c3 =
     (let bs = decode_table c0;
          bs = push_bit 6 bs OR decode_table c1;
          bs = push_bit 6 bs;
          (bs, paddings_found) = (if c2 = EQ then (bs, 1) else (bs OR decode_table c2, 0 :: int));
          bs = push_bit 6 bs;
          (bs, paddings_found) = (if c3 = EQ then (bs, paddings_found + 1)
            else (bs OR decode_table c3, paddings_found))
      in [n_bits_from 16 8 bs] @ (if paddings_found < 2 then [n_bits_from 8 8 bs] else [])
         @ (if paddings_found < 1 then [n_bits_from 0 8 bs] else []))"

fun decode_loop :: "bytes \<Rightarrow> exn + bytes" where
  "decode_loop [] = Inr []"
| "decode_loop (c0 # c1 # c2 # c3 # str) =
     (case decode_loop str of Inl e \<Rightarrow> Inl e | Inr result \<Rightarrow> Inr (decode_group c0 c1 c2 c3 @ result))"
| "decode_loop _ = Inl (Undefined ''read behind the end of a string_view'')"

definition try_decode :: "bytes \<Rightarrow> exn + (decoding_error_t + bytes)" where
  "try_decode str =
     (if \<not> is_valid_base64_string str then Inr (Inl invalid_base64_sequence)
      else case decode_loop str of Inl e \<Rightarrow> Inl e | Inr result \<Rightarrow> Inr (Inr result))"

text \<open>The texts of the exception are built by \<open>fmt\<close> from the string, and are left out.\<close>

definition base64_decode :: "bytes \<Rightarrow> exn + bytes" where
  "base64_decode str =
     (case try_decode str of
        Inl e \<Rightarrow> Inl e
      | Inr (Inl _) \<Rightarrow> Inl (RestinioError ''invalid base64 string'')
      | Inr (Inr result) \<Rightarrow> Inr result)"

subsection \<open>Round trip\<close>

text \<open>The alphabet and the decoding table are inverse on the 64 digits.\<close>

lemma digit_table:
  assumes "unat v < 64"
  shows "decode_table (alphabet_char v) = ucast v" "is_base64_char (alphabet_char v)"
    "alphabet_char v \<noteq> EQ"
  using assms
  by (rule all_words_below [rotated, where m = 64], code_simp)+

lemma sixbits_less: "unat (sixbits_char sh bs) < 64"
proof -
  have "sixbits_char sh bs = take_bit 6 (sixbits_char sh bs)"
    by (rule bit_word_eqI) (auto simp: sixbits_char_def bit_n_bits_from bit_simps)
  then have "unat (sixbits_char sh bs) = take_bit 6 (unat (sixbits_char sh bs))"
    by (metis unsigned_take_bit_eq)
  moreover have "take_bit 6 (unat (sixbits_char sh bs)) < 2 ^ 6" by (rule take_bit_nat_less_exp)
  ultimately show ?thesis by simp
qed

lemmas sixbits_digit [simp] = digit_table [OF sixbits_less]

lemma bit_sixbits:
  "bit (ucast (sixbits_char sh bs) :: u32) i \<longleftrightarrow> i < 6 \<and> bit bs (sh + i)"
  by (auto simp: sixbits_char_def bit_n_bits_from bit_simps)

lemma bit_uch: "bit (uch a) i \<longleftrightarrow> i < 8 \<and> bit a i"
  using bit_imp_le_length [of a i] by (auto simp: uch_def bit_simps)

lemma Suc_Suc_minus_2: "2 \<le> n \<Longrightarrow> Suc (Suc (n - 2)) = n"
  by simp

lemma decode_group_digits:
  fixes a b c :: u8
  defines "bs1 \<equiv> push_bit 16 (uch a)" and "bs2 \<equiv> push_bit 16 (uch a) OR push_bit 8 (uch b)"
    and "bs3 \<equiv> push_bit 16 (uch a) OR push_bit 8 (uch b) OR uch c"
  shows "decode_group (alphabet_char (sixbits_char 18 bs1)) (alphabet_char (sixbits_char 12 bs1)) EQ EQ = [a]"
    "decode_group (alphabet_char (sixbits_char 18 bs2)) (alphabet_char (sixbits_char 12 bs2))
      (alphabet_char (sixbits_char 6 bs2)) EQ = [a, b]"
    "decode_group (alphabet_char (sixbits_char 18 bs3)) (alphabet_char (sixbits_char 12 bs3))
      (alphabet_char (sixbits_char 6 bs3)) (alphabet_char (sixbits_char 0 bs3)) = [a, b, c]"
  by (auto simp: decode_group_def Let_def bs1_def bs2_def bs3_def intro!: bit_word_eqI)
    (auto simp: bit_n_bits_from Suc_Suc_minus_2 bit_sixbits bit_or_iff bit_push_bit_iff bit_uch)

lemma decode_encode: "decode_loop (base64_encode s) = Inr s"
  by (induction s rule: base64_encode.induct)
    (simp_all add: Let_def decode_group_digits)

text \<open>Strings the validation accepts, stated without the counters.\<close>

definition base64_digits :: "bytes \<Rightarrow> bool" where
  "base64_digits s \<longleftrightarrow> list_all (\<lambda>c. is_base64_char c \<and> c \<noteq> EQ) s"

lemma valid_padding:
  "p \<le> 2 \<Longrightarrow> valid_loop padding k p s \<longleftrightarrow> (\<exists>n \<le> 2 - p. s = replicate n EQ)"
proof (induction s arbitrary: p)
  case (Cons c s)
  have "(\<exists>n \<le> 2 - p. c # s = replicate n EQ) \<longleftrightarrow> c = EQ \<and> p < 2 \<and> (\<exists>n \<le> 1 - p. s = replicate n EQ)"
  proof
    assume "\<exists>n \<le> 2 - p. c # s = replicate n EQ"
    then obtain n where n: "n \<le> 2 - p" "c # s = replicate n EQ" by blast
    then show "c = EQ \<and> p < 2 \<and> (\<exists>n \<le> 1 - p. s = replicate n EQ)"
      by (cases n) (auto intro!: exI [of _ "n - 1"])
  next
    assume "c = EQ \<and> p < 2 \<and> (\<exists>n \<le> 1 - p. s = replicate n EQ)"
    then obtain n where "c # s = replicate (Suc n) EQ" "Suc n \<le> 2 - p" by auto
    then show "\<exists>n \<le> 2 - p. c # s = replicate n EQ" by blast
  qed
  then show ?case using Cons.IH [of "p + 1"] Cons.prems by auto
qed simp

lemma valid_digits:
  "valid_loop b64ch_or_padding k 0 s \<longleftrightarrow> (\<exists>ds n. base64_digits ds \<and> n \<le> 2 \<and> s = ds @ replicate n EQ)"
proof (induction s)
  case (Cons c s)
  have "(\<exists>ds n. base64_digits ds \<and> n \<le> 2 \<and> c # s = ds @ replicate n EQ) \<longleftrightarrow>
    (if c = EQ then \<exists>n \<le> 1. s = replicate n EQ
     else is_base64_char c \<and> (\<exists>ds n. base64_digits ds \<and> n \<le> 2 \<and> s = ds @ replicate n EQ))"
    (is "?l \<longleftrightarrow> ?r")
  proof
    assume ?l
    then obtain ds n where *: "base64_digits ds" "n \<le> 2" "c # s = ds @ replicate n EQ" by blast
    show ?r
    proof (cases ds)
      case Nil
      then show ?thesis using * by (cases n) auto
    next
      case (Cons d ds')
      then have "base64_digits ds'" "s = ds' @ replicate n EQ" using *(1,3) by (auto simp: base64_digits_def)
      then show ?thesis using Cons * by (auto simp: base64_digits_def)
    qed
  next
    assume r: ?r
    show ?l
    proof (cases "c = EQ")
      case True
      then obtain n where "c # s = [] @ replicate (Suc n) EQ" "Suc n \<le> 2" using r by auto
      moreover have "base64_digits []" by (simp add: base64_digits_def)
      ultimately show ?thesis by blast
    next
      case False
      then obtain ds n where "is_base64_char c" "base64_digits ds" "n \<le> 2" "s = ds @ replicate n EQ"
        using r by auto
      then have "base64_digits (c # ds)" "c # s = (c # ds) @ replicate n EQ" "n \<le> 2"
        using False by (simp_all add: base64_digits_def)
      then show ?thesis by blast
    qed
  qed
  then show ?case using Cons valid_padding [of 1 k s] by simp
qed (simp add: base64_digits_def)

lemma valid_start:
  "valid_loop b64ch 0 0 (c0 # c1 # s) \<longleftrightarrow> base64_digits [c0, c1] \<and> valid_loop b64ch_or_padding 2 0 s"
  by (auto simp: base64_digits_def numeral_2_eq_2)

lemma valid_iff:
  "is_valid_base64_string s \<longleftrightarrow>
    4 \<le> length s \<and> (\<exists>ds n. base64_digits ds \<and> 2 \<le> length ds \<and> n \<le> 2 \<and> s = ds @ replicate n EQ)"
proof (cases "4 \<le> length s")
  case True
  then obtain c0 c1 t where s: "s = c0 # c1 # t" by (cases s; cases "tl s") auto
  have "(\<exists>ds n. base64_digits ds \<and> 2 \<le> length ds \<and> n \<le> 2 \<and> s = ds @ replicate n EQ) \<longleftrightarrow>
    base64_digits [c0, c1] \<and> (\<exists>ds n. base64_digits ds \<and> n \<le> 2 \<and> t = ds @ replicate n EQ)"
    (is "?l \<longleftrightarrow> ?r")
  proof
    assume ?l
    then obtain ds n where *: "base64_digits ds" "2 \<le> length ds" "n \<le> 2" "s = ds @ replicate n EQ" by blast
    then obtain d0 d1 ds' where "ds = d0 # d1 # ds'" by (cases ds; cases "tl ds") auto
    with * show ?r by (auto simp: s base64_digits_def)
  next
    assume ?r
    then obtain ds n where "base64_digits [c0, c1]" "base64_digits ds" "n \<le> 2" "t = ds @ replicate n EQ" by blast
    then show ?l by (intro exI [of _ "c0 # c1 # ds"] exI [of _ n]) (simp add: s base64_digits_def)
  qed
  then show ?thesis using True by (simp only: is_valid_base64_string_def s valid_start valid_digits) simp
qed (simp add: is_valid_base64_string_def)

lemma encode_shape:
  "\<exists>ds n. base64_digits ds \<and> n \<le> 2 \<and> base64_encode s = ds @ replicate n EQ
    \<and> length ds + n = 4 * ((length s + 2) div 3) \<and> (s \<noteq> [] \<longrightarrow> 2 \<le> length ds)"
proof (induction s rule: base64_encode.induct)
  case (1 a b c str)
  then obtain ds n where "base64_digits ds" "n \<le> 2" "base64_encode str = ds @ replicate n EQ"
    "length ds + n = 4 * ((length str + 2) div 3)" by blast
  moreover have "(length (a # b # c # str) + 2) div 3 = (length str + 2) div 3 + 1" by simp
  ultimately show ?case
    by (intro exI [of _ "take 4 (base64_encode (a # b # c # str)) @ ds"] exI [of _ n])
      (simp add: Let_def base64_digits_def)
next
  case (2 a)
  show ?case
    by (intro exI [of _ "take 2 (base64_encode [a])"] exI [of _ 2])
      (simp add: Let_def base64_digits_def numeral_2_eq_2)
next
  case (3 a b)
  show ?case
    by (intro exI [of _ "take 3 (base64_encode [a, b])"] exI [of _ 1])
      (simp add: Let_def base64_digits_def)
next
  case 4
  show ?case by (simp add: base64_digits_def)
qed

text \<open>
  C30. Base64 is invertible: decoding the encoding of a non-empty string of bytes gives it back. The
  encoding of the empty string is the empty string, which the decoder refuses.
\<close>

theorem base64_roundtrip:
  "try_decode (base64_encode s) = (if s = [] then Inr (Inl invalid_base64_sequence) else Inr (Inr s))"
proof (cases "s = []")
  case False
  obtain ds n where ds: "base64_digits ds" "n \<le> 2" "base64_encode s = ds @ replicate n EQ"
    "length ds + n = 4 * ((length s + 2) div 3)" "2 \<le> length ds"
    using encode_shape [of s] False by blast
  moreover have "4 \<le> length (base64_encode s)" using ds(3,4) False by (cases s) auto
  ultimately have "is_valid_base64_string (base64_encode s)" unfolding valid_iff by blast
  then show ?thesis using False by (simp add: try_decode_def decode_encode)
qed (simp add: try_decode_def is_valid_base64_string_def)

lemma decode_loop_undefined:
  "(\<exists>w. decode_loop s = Inl (Undefined w)) \<longleftrightarrow> length s mod 4 \<noteq> 0"
  "decode_loop s = Inl e \<Longrightarrow> \<exists>w. e = Undefined w"
  by (induction s rule: decode_loop.induct) (auto split: sum.splits)

text \<open>
  The validation does not look at the length: exactly on the strings that pass it and whose length
  is no multiple of four the decoder reads behind the end of its argument; on all others it
  returns the bytes or the error.
\<close>

theorem base64_reads_past_end:
  "(\<exists>e. try_decode s = Inl e) \<longleftrightarrow>
    length s mod 4 \<noteq> 0 \<and> 4 \<le> length s
    \<and> (\<exists>ds n. base64_digits ds \<and> 2 \<le> length ds \<and> n \<le> 2 \<and> s = ds @ replicate n EQ)"
proof -
  have "(\<exists>e. try_decode s = Inl e) \<longleftrightarrow> is_valid_base64_string s \<and> (\<exists>e. decode_loop s = Inl e)"
    by (auto simp: try_decode_def split: sum.splits)
  then show ?thesis using decode_loop_undefined [of s] unfolding valid_iff by blast
qed

end
