(* ===== verification/Restinio_Utf8.thy ===== *)
theory Restinio_Utf8
  imports Restinio_Bytes
begin

unbundle bit_operations_syntax

text \<open>
  \<open>utils/utf8_checker.hpp\<close>: the checker of UTF-8 sequences that is fed byte by byte, and its
  equivalence with the definition of UTF-8. \<open>reset\<close> leaves the checker's state as it is.
\<close>

subsection \<open>The checker\<close>

datatype utf8_state = Valid | Invalid | May_be_overlong | Overlong

record utf8_checker =
  m_current_symbol :: u32
  m_rest_bytes :: nat
  m_state :: utf8_state

definition utf8_checker_new :: utf8_checker where
  "utf8_checker_new = \<lparr>m_current_symbol = 0, m_rest_bytes = 0, m_state = Valid\<rparr>"

definition check_overlong :: "u8 \<Rightarrow> utf8_checker \<Rightarrow> utf8_checker" where
  "check_overlong byte s =
     (if m_rest_bytes s > 0 \<and> m_state s = May_be_overlong then
        s\<lparr>m_state :=
          (if m_rest_bytes s = 2 \<and> byte AND 0xE0 = 0x80 then Overlong
           else if m_rest_bytes s = 3 \<and> byte AND 0xF0 = 0x80 then Overlong
           else if m_rest_bytes s = 4 \<and> byte AND 0xF8 = 0x80 then Overlong
           else if m_rest_bytes s = 5 \<and> byte AND 0xFC = 0x80 then Overlong
           else Valid)\<rparr>
      else
        let s = (if byte = 0xC0 \<or> byte = 0xC1 then s\<lparr>m_state := Overlong\<rparr>
                 else if byte = 0xE0 then s\<lparr>m_state := May_be_overlong\<rparr>
                 else if byte = 0xF0 then s\<lparr>m_state := May_be_overlong\<rparr>
                 else s);
            s = (if byte = 0xF8 then s\<lparr>m_state := May_be_overlong\<rparr> else s)
        in if byte = 0xFC then s\<lparr>m_state := May_be_overlong\<rparr> else s)"

definition validate_current_symbol :: "utf8_checker \<Rightarrow> utf8_checker" where
  "validate_current_symbol s =
     (if 0xD800 \<le> m_current_symbol s \<and> m_current_symbol s \<le> 0xDFFF \<or> 0x110000 \<le> m_current_symbol s
      then s\<lparr>m_state := Invalid\<rparr> else s)"

definition utf8_process_byte :: "u8 \<Rightarrow> utf8_checker \<Rightarrow> bool \<times> utf8_checker" where
  "utf8_process_byte byte s =
     (let s = check_overlong byte s;
          s = (if m_rest_bytes s > 0 then
                 if byte AND 0xC0 = 0x80 then
                   let s = s\<lparr>m_current_symbol := push_bit 6 (m_current_symbol s) OR ucast (byte AND 0x3F),
                             m_rest_bytes := m_rest_bytes s - 1\<rparr>
                   in if m_rest_bytes s = 0 then validate_current_symbol s else s
                 else s\<lparr>m_state := Invalid\<rparr>
               else
                 let s = s\<lparr>m_current_symbol := 0\<rparr>;
                     (byte, s) =
                       (if byte AND 0x80 = 0x00 then (byte, s\<lparr>m_rest_bytes := 0\<rparr>)
                        else if byte AND 0xE0 = 0xC0 then (byte AND 0x1F, s\<lparr>m_rest_bytes := 1\<rparr>)
                        else if byte AND 0xF0 = 0xE0 then (byte AND 0xF, s\<lparr>m_rest_bytes := 2\<rparr>)
                        else if byte AND 0xF8 = 0xF0 then (byte AND 0x7, s\<lparr>m_rest_bytes := 3\<rparr>)
                        else if byte AND 0xFC = 0xF8 then (byte AND 0x3, s\<lparr>m_rest_bytes := 4\<rparr>)
                        else if byte AND 0xFE = 0xFC then (byte AND 0x1, s\<lparr>m_rest_bytes := 5\<rparr>)
                        else (byte, s\<lparr>m_state := Invalid\<rparr>))
                 in s\<lparr>m_current_symbol := ucast byte\<rparr>)
      in (m_state s = Valid \<or> m_state s = May_be_overlong, s))"

definition utf8_finalized :: "utf8_checker \<Rightarrow> bool" where
  "utf8_finalized s \<longleftrightarrow> m_rest_bytes s = 0"

definition utf8_reset :: "utf8_checker \<Rightarrow> utf8_checker" where
  "utf8_reset s = s\<lparr>m_current_symbol := 0, m_rest_bytes := 0\<rparr>"

text \<open>Feeding a string to the checker, as its callers do: up to the first byte it rejects.\<close>

fun utf8_accepts :: "utf8_checker \<Rightarrow> bytes \<Rightarrow> bool" where
  "utf8_accepts s [] = utf8_finalized s"
| "utf8_accepts s (byte # data) =
     (case utf8_process_byte byte s of (ok, s') \<Rightarrow> ok \<and> utf8_accepts s' data)"

subsection \<open>UTF-8\<close>

definition is_scalar :: "nat \<Rightarrow> bool" where
  "is_scalar c \<longleftrightarrow> c < 0xD800 \<or> 0xE000 \<le> c \<and> c < 0x110000"

definition utf8_encode :: "nat \<Rightarrow> bytes" where
  "utf8_encode c =
     map word_of_nat
       (if c < 0x80 then [c]
        else if c < 0x800 then [0xC0 + c div 64, 0x80 + c mod 64]
        else if c < 0x10000 then [0xE0 + c div 64 ^ 2, 0x80 + c div 64 mod 64, 0x80 + c mod 64]
        else [0xF0 + c div 64 ^ 3, 0x80 + c div 64 ^ 2 mod 64, 0x80 + c div 64 mod 64, 0x80 + c mod 64])"

definition valid_utf8 :: "bytes \<Rightarrow> bool" where
  "valid_utf8 data \<longleftrightarrow> (\<exists>cs. list_all is_scalar cs \<and> data = concat (map utf8_encode cs))"

subsection \<open>Steps of the checker on numbers\<close>

lemma unat_high_bits:
  fixes b :: u8
  assumes "k \<le> 8"
  shows "unat (b AND NOT (mask k)) = 2 ^ k * (unat b div 2 ^ k)"
proof -
  have "b AND NOT (mask k) = push_bit k (drop_bit k b)"
    by (rule bit_word_eqI) (auto simp: bit_simps)
  moreover have "2 ^ k * (unat b div 2 ^ k) < 256"
    using unsigned_less [of b, where 'a = nat] le_less_trans [OF times_div_less_eq_dividend] by simp
  moreover have "unat (push_bit k (drop_bit k b)) = take_bit 8 (2 ^ k * (unat b div 2 ^ k))"
    by (simp only: unsigned_push_bit_eq unsigned_drop_bit_eq)
      (use unsigned_less [of b, where 'a = nat] in
        \<open>simp add: push_bit_eq_mult drop_bit_eq_div mult.commute [of _ "2 ^ k"] take_bit_nat_eq_self\<close>)
  ultimately show ?thesis by (simp add: take_bit_nat_eq_self)
qed

lemma high_masks:
  "(0x80 :: u8) = NOT (mask 7)" "(0xC0 :: u8) = NOT (mask 6)" "(0xE0 :: u8) = NOT (mask 5)"
  "(0xF0 :: u8) = NOT (mask 4)" "(0xF8 :: u8) = NOT (mask 3)" "(0xFC :: u8) = NOT (mask 2)"
  "(0xFE :: u8) = NOT (mask 1)"
  by (simp_all add: mask_eq_exp_minus_1)

lemma and_high_mask:
  fixes b v :: u8
  assumes "k \<le> 8"
  shows "b AND NOT (mask k) = v \<longleftrightarrow> 2 ^ k * (unat b div 2 ^ k) = unat v"
  using unat_high_bits [OF assms, of b] by (metis word_unat_eq_iff)

lemma byte_masks:
  fixes b :: u8
  shows "b AND 0x80 = 0 \<longleftrightarrow> unat b < 0x80"
    "b AND 0xC0 = 0x80 \<longleftrightarrow> 0x80 \<le> unat b \<and> unat b < 0xC0"
    "b AND 0xE0 = 0x80 \<longleftrightarrow> 0x80 \<le> unat b \<and> unat b < 0xA0"
    "b AND 0xF0 = 0x80 \<longleftrightarrow> 0x80 \<le> unat b \<and> unat b < 0x90"
    "b AND 0xF8 = 0x80 \<longleftrightarrow> 0x80 \<le> unat b \<and> unat b < 0x88"
    "b AND 0xFC = 0x80 \<longleftrightarrow> 0x80 \<le> unat b \<and> unat b < 0x84"
    "b AND 0xE0 = 0xC0 \<longleftrightarrow> 0xC0 \<le> unat b \<and> unat b < 0xE0"
    "b AND 0xF0 = 0xE0 \<longleftrightarrow> 0xE0 \<le> unat b \<and> unat b < 0xF0"
    "b AND 0xF8 = 0xF0 \<longleftrightarrow> 0xF0 \<le> unat b \<and> unat b < 0xF8"
    "b AND 0xFC = 0xF8 \<longleftrightarrow> 0xF8 \<le> unat b \<and> unat b < 0xFC"
    "b AND 0xFE = 0xFC \<longleftrightarrow> 0xFC \<le> unat b \<and> unat b < 0xFE"
proof -
  note m = and_high_mask [where b = b and k = 7] and_high_mask [where b = b and k = 6]
    and_high_mask [where b = b and k = 5] and_high_mask [where b = b and k = 4]
    and_high_mask [where b = b and k = 3] and_high_mask [where b = b and k = 2]
    and_high_mask [where b = b and k = 1]
  show "b AND 0x80 = 0 \<longleftrightarrow> unat b < 0x80"
    using m(1) [where v = 0] by (simp add: high_masks(1) [symmetric]) arith
  show "b AND 0xC0 = 0x80 \<longleftrightarrow> 0x80 \<le> unat b \<and> unat b < 0xC0"
    using m(2) [where v = "0x80"] by (simp add: high_masks(2) [symmetric]) arith
  show "b AND 0xE0 = 0x80 \<longleftrightarrow> 0x80 \<le> unat b \<and> unat b < 0xA0"
    "b AND 0xE0 = 0xC0 \<longleftrightarrow> 0xC0 \<le> unat b \<and> unat b < 0xE0"
    using m(3) [where v = "0x80"] m(3) [where v = "0xC0"] by (simp_all add: high_masks(3) [symmetric]) arith+
  show "b AND 0xF0 = 0x80 \<longleftrightarrow> 0x80 \<le> unat b \<and> unat b < 0x90"
    "b AND 0xF0 = 0xE0 \<longleftrightarrow> 0xE0 \<le> unat b \<and> unat b < 0xF0"
    using m(4) [where v = "0x80"] m(4) [where v = "0xE0"] by (simp_all add: high_masks(4) [symmetric]) arith+
  show "b AND 0xF8 = 0x80 \<longleftrightarrow> 0x80 \<le> unat b \<and> unat b < 0x88"
    "b AND 0xF8 = 0xF0 \<longleftrightarrow> 0xF0 \<le> unat b \<and> unat b < 0xF8"
    using m(5) [where v = "0x80"] m(5) [where v = "0xF0"] by (simp_all add: high_masks(5) [symmetric]) arith+
  show "b AND 0xFC = 0x80 \<longleftrightarrow> 0x80 \<le> unat b \<and> unat b < 0x84"
    "b AND 0xFC = 0xF8 \<longleftrightarrow> 0xF8 \<le> unat b \<and> unat b < 0xFC"
    using m(6) [where v = "0x80"] m(6) [where v = "0xF8"] by (simp_all add: high_masks(6) [symmetric]) arith+
  show "b AND 0xFE = 0xFC \<longleftrightarrow> 0xFC \<le> unat b \<and> unat b < 0xFE"
    using m(7) [where v = "0xFC"] by (simp only: high_masks(7) [symmetric]) (simp, arith)
qed

lemma low_masks:
  "(0x3F :: u8) = mask 6" "(0x1F :: u8) = mask 5" "(0xF :: u8) = mask 4" "(0x7 :: u8) = mask 3"
  "(0x3 :: u8) = mask 2" "(0x1 :: u8) = mask 1"
  by (simp_all add: mask_eq_exp_minus_1)

lemma unat_low_bits: "unat ((b :: u8) AND mask k) = unat b mod 2 ^ k"
  by (simp only: take_bit_eq_mask [symmetric] unsigned_take_bit_eq) (simp add: take_bit_eq_mod)

lemma byte_parts:
  fixes b :: u8
  shows "unat (b AND 0x3F) = unat b mod 64" "unat (b AND 0x1F) = unat b mod 32"
    "unat (b AND 0xF) = unat b mod 16" "unat (b AND 0x7) = unat b mod 8"
    "unat (b AND 0x3) = unat b mod 4" "unat (b AND 0x1) = unat b mod 2"
  using unat_low_bits [of b 6] unat_low_bits [of b 5] unat_low_bits [of b 4] unat_low_bits [of b 3]
    unat_low_bits [of b 2] unat_low_bits [of b 1]
  by (simp_all only: low_masks [symmetric]) simp_all

lemma byte_eq: "(b :: u8) = numeral n \<longleftrightarrow> unat b = unat (numeral n :: u8)"
  by (simp add: word_unat_eq_iff)

text \<open>Six bits more.\<close>

lemma more_bits:
  fixes s :: u32 and b :: u8
  assumes "unat s < 2 ^ 26"
  shows "unat (push_bit 6 s OR ucast (b AND 0x3F)) = unat s * 64 + unat b mod 64"
proof -
  have "push_bit 6 s OR ucast (b AND 0x3F) = push_bit 6 s + ucast (b AND 0x3F)"
    unfolding low_masks(1) by (rule disjunctive_add [symmetric]) (auto simp: bit_simps)
  moreover have "unat (push_bit 6 s) = unat s * 64"
    using assms by (simp add: push_bit_eq_mult unat_word_ariths)
  moreover have "unat (ucast (b AND 0x3F) :: u32) = unat b mod 64"
    by (simp add: unsigned_ucast_eq byte_parts take_bit_nat_eq_self)
  ultimately show ?thesis using assms by (simp add: unat_word_ariths)
qed

subsection \<open>Acceptance\<close>

text \<open>
  The value of continuation bytes behind the bits \<open>s\<close>, and the checker between characters. The
  bits of the character before do not matter.
\<close>

fun cont_value :: "nat \<Rightarrow> bytes \<Rightarrow> nat" where
  "cont_value s [] = s"
| "cont_value s (b # bs) = cont_value (s * 64 + unat b mod 64) bs"

definition is_cont :: "u8 \<Rightarrow> bool" where
  "is_cont b \<longleftrightarrow> 0x80 \<le> unat b \<and> unat b < 0xC0"

abbreviation (input) at_start :: "bytes \<Rightarrow> bool" where
  "at_start \<equiv> utf8_accepts utf8_checker_new"

lemma cont_value_bounds:
  "s * 64 ^ length bs \<le> cont_value s bs" "cont_value s bs < (s + 1) * 64 ^ length bs"
proof (induction bs arbitrary: s)
  case (Cons b bs)
  have m: "unat b mod 64 < 64" by simp
  {
    case 1
    have "s * 64 * 64 ^ length bs \<le> (s * 64 + unat b mod 64) * 64 ^ length bs" by simp
    also have "\<dots> \<le> cont_value s (b # bs)" using Cons.IH(1) by simp
    finally show ?case by (simp add: ac_simps)
  next
    case 2
    have "cont_value s (b # bs) < (s * 64 + unat b mod 64 + 1) * 64 ^ length bs"
      using Cons.IH(2) by simp
    also have "\<dots> \<le> (s * 64 + 64) * 64 ^ length bs" using m by (intro mult_right_mono) simp_all
    finally show ?case by (simp add: algebra_simps)
  }
qed simp_all

lemma symbol_irrelevant:
  "utf8_accepts \<lparr>m_current_symbol = x, m_rest_bytes = 0, m_state = Valid\<rparr> bs = at_start bs"
  by (cases bs) (simp_all add: utf8_checker_new_def utf8_finalized_def utf8_process_byte_def
      check_overlong_def Let_def)

lemma scalar_word:
  "(0xD800 \<le> y \<and> y \<le> 0xDFFF \<or> 0x110000 \<le> y) \<longleftrightarrow> \<not> is_scalar (unat (y :: u32))"
  by (auto simp: is_scalar_def word_le_nat_alt)

lemma cont_plain:
  assumes "is_cont b"
  shows "b \<noteq> 0xC0" "b \<noteq> 0xC1" "b \<noteq> 0xE0" "b \<noteq> 0xF0" "b \<noteq> 0xF8" "b \<noteq> 0xFC"
  using assms by (auto simp: is_cont_def)

lemma check_overlong_keeps [simp]:
  "m_rest_bytes (check_overlong b s) = m_rest_bytes s"
  "m_current_symbol (check_overlong b s) = m_current_symbol s"
  by (simp_all add: check_overlong_def Let_def)

lemma needs_cont:
  assumes "\<not> is_cont b" "0 < m_rest_bytes s"
  shows "\<not> utf8_accepts s (b # bs)"
  using assms by (simp add: utf8_process_byte_def Let_def byte_masks(2) is_cont_def [symmetric])

text \<open>A continuation byte after the second byte, and a second byte.\<close>

lemma step_cont:
  fixes x :: u32 and b :: u8
  assumes "unat x < 2 ^ 26" "0 < k"
  defines "y \<equiv> push_bit 6 x OR ucast (b AND 0x3F)"
  shows "utf8_accepts \<lparr>m_current_symbol = x, m_rest_bytes = k, m_state = Valid\<rparr> (b # bs) \<longleftrightarrow>
    is_cont b \<and> (if k = 1 then is_scalar (unat x * 64 + unat b mod 64) \<and> at_start bs
       else utf8_accepts \<lparr>m_current_symbol = y, m_rest_bytes = k - 1, m_state = Valid\<rparr> bs)"
proof (cases "is_cont b")
  case True
  have y: "unat y = unat x * 64 + unat b mod 64" unfolding y_def by (rule more_bits [OF assms(1)])
  show ?thesis
    using True assms(2) cont_plain [OF True]
    by (auto simp: utf8_process_byte_def check_overlong_def validate_current_symbol_def Let_def
        byte_masks(2) is_cont_def [symmetric] y_def [symmetric] scalar_word y symbol_irrelevant)
next
  case False
  then show ?thesis using assms(2) needs_cont [of b "\<lparr>m_current_symbol = x, m_rest_bytes = k, m_state = Valid\<rparr>"] by simp
qed

lemma step_second:
  fixes x :: u32 and b :: u8
  assumes "unat x < 2 ^ 26" "k \<in> {2, 3, 4, 5}"
  defines "y \<equiv> push_bit 6 x OR ucast (b AND 0x3F)"
  shows "utf8_accepts \<lparr>m_current_symbol = x, m_rest_bytes = k, m_state = May_be_overlong\<rparr> (b # bs) \<longleftrightarrow>
    is_cont b \<and> 2 ^ (7 - k) \<le> unat b mod 64
    \<and> utf8_accepts \<lparr>m_current_symbol = y, m_rest_bytes = k - 1, m_state = Valid\<rparr> bs"
proof (cases "is_cont b")
  case True
  then have b: "0x80 \<le> unat b" "unat b < 0xC0" by (auto simp: is_cont_def)
  have co: "check_overlong b \<lparr>m_current_symbol = x, m_rest_bytes = k, m_state = May_be_overlong\<rparr> =
    \<lparr>m_current_symbol = x, m_rest_bytes = k,
     m_state = (if unat b < 128 + 2 ^ (7 - k) then Overlong else Valid)\<rparr>"
  proof -
    consider "k = 2" | "k = 3" | "k = 4" | "k = 5" using assms(2) by auto
    then show ?thesis by cases (simp_all add: check_overlong_def byte_masks b)
  qed
  have k: "k \<noteq> 0" "k \<noteq> 1" "k \<noteq> Suc 0" using assms(2) by auto
  have "unat b mod 64 = unat b - 128" using b by (simp add: mod_if)
  then have "unat b mod 64 + 128 = unat b" using b by linarith
  then have "\<not> unat b < 128 + 2 ^ (7 - k) \<longleftrightarrow> 2 ^ (7 - k) \<le> unat b mod 64" by linarith
  then show ?thesis
    using b k True
    by (auto simp: utf8_process_byte_def co byte_masks(2) Let_def y_def [symmetric])
next
  case False
  moreover have "0 < k" using assms(2) by auto
  ultimately show ?thesis
    using needs_cont [of b "\<lparr>m_current_symbol = x, m_rest_bytes = k, m_state = May_be_overlong\<rparr>" bs] by simp
qed

lemma accepts_rest:
  assumes "(unat x + 1) * 64 ^ k \<le> 2 ^ 26"
  shows "utf8_accepts \<lparr>m_current_symbol = x, m_rest_bytes = Suc k, m_state = Valid\<rparr> bs \<longleftrightarrow>
    (\<exists>cs ds. bs = cs @ ds \<and> length cs = Suc k \<and> list_all is_cont cs
      \<and> is_scalar (cont_value (unat x) cs) \<and> at_start ds)"
  using assms
proof (induction k arbitrary: x bs)
  case 0
  then have x: "unat x < 2 ^ 26" by simp
  show ?case
  proof (cases bs)
    case Nil
    then show ?thesis by (simp add: utf8_finalized_def)
  next
    case (Cons b bs')
    have "utf8_accepts \<lparr>m_current_symbol = x, m_rest_bytes = Suc 0, m_state = Valid\<rparr> (b # bs') \<longleftrightarrow>
      is_cont b \<and> is_scalar (unat x * 64 + unat b mod 64) \<and> at_start bs'"
      using step_cont [OF x, of "Suc 0" b bs'] by simp
    moreover have "(\<exists>cs ds. b # bs' = cs @ ds \<and> length cs = Suc 0 \<and> P cs ds) \<longleftrightarrow> P [b] bs'" for P
    proof
      assume "P [b] bs'"
      then show "\<exists>cs ds. b # bs' = cs @ ds \<and> length cs = Suc 0 \<and> P cs ds"
        by (intro exI [of _ "[b]"] exI [of _ bs']) simp
    qed (auto simp: length_Suc_conv)
    ultimately show ?thesis by (simp add: Cons)
  qed
next
  case (Suc k)
  have "(unat x + 1) * 1 \<le> (unat x + 1) * 64 ^ Suc k" by (rule mult_left_mono) simp_all
  from order_trans [OF this Suc.prems] have "unat x + 1 \<le> 2 ^ 26" by (simp only: mult_1_right)
  then have x: "unat x < 2 ^ 26" by simp
  show ?case
  proof (cases bs)
    case Nil
    then show ?thesis by (simp add: utf8_finalized_def)
  next
    case (Cons b bs')
    define y where "y = push_bit 6 x OR ucast (b AND 0x3F)"
    have y: "unat y = unat x * 64 + unat b mod 64" unfolding y_def by (rule more_bits [OF x])
    have "unat y + 1 \<le> (unat x + 1) * 64" using mod_less_divisor [of 64 "unat b"] by (simp add: y)
    then have "(unat y + 1) * 64 ^ k \<le> (unat x + 1) * 64 * 64 ^ k" by (rule mult_right_mono) simp
    also have "\<dots> = (unat x + 1) * 64 ^ Suc k" by (simp add: algebra_simps)
    finally have "(unat y + 1) * 64 ^ k \<le> 2 ^ 26" using Suc.prems by linarith
    note IH = Suc.IH [OF this, of bs']
    have "utf8_accepts \<lparr>m_current_symbol = x, m_rest_bytes = Suc (Suc k), m_state = Valid\<rparr> (b # bs') \<longleftrightarrow>
      is_cont b \<and> utf8_accepts \<lparr>m_current_symbol = y, m_rest_bytes = Suc k, m_state = Valid\<rparr> bs'"
      using step_cont [OF x, of "Suc (Suc k)" b bs'] by (simp add: y_def)
    also have "\<dots> \<longleftrightarrow> (\<exists>cs ds. b # bs' = (b # cs) @ ds \<and> length (b # cs) = Suc (Suc k) \<and> list_all is_cont (b # cs)
      \<and> is_scalar (cont_value (unat x) (b # cs)) \<and> at_start ds)"
      unfolding IH by (auto simp: y)
    also have "\<dots> \<longleftrightarrow> (\<exists>cs ds. b # bs' = cs @ ds \<and> length cs = Suc (Suc k) \<and> list_all is_cont cs
      \<and> is_scalar (cont_value (unat x) cs) \<and> at_start ds)"
    proof -
      have "\<exists>cs'. cs = b # cs'" if "b # bs' = cs @ ds" "length cs = Suc (Suc k)" for cs ds
        using that by (cases cs) auto
      then show ?thesis by blast
    qed
    finally show ?thesis by (simp only: Cons)
  qed
qed

text \<open>A leading byte decides how many bytes follow and which values they may give.\<close>

definition lead_rest :: "u8 \<Rightarrow> nat" where
  "lead_rest b =
     (if unat b < 0xE0 then 1 else if unat b < 0xF0 then 2 else if unat b < 0xF8 then 3
      else if unat b < 0xFC then 4 else 5)"

definition lead_bits :: "u8 \<Rightarrow> nat" where
  "lead_bits b = unat b mod 2 ^ (6 - lead_rest b)"

lemma check_new:
  "check_overlong b utf8_checker_new = utf8_checker_new\<lparr>m_state :=
     (if b = 0xC0 \<or> b = 0xC1 then Overlong
      else if b \<in> {0xE0, 0xF0, 0xF8, 0xFC} then May_be_overlong else Valid)\<rparr>"
  by (simp add: check_overlong_def utf8_checker_new_def)

lemma process_new:
  "utf8_process_byte b utf8_checker_new =
    (let s = check_overlong b utf8_checker_new
     in if unat b < 0x80 then (m_state s \<in> {Valid, May_be_overlong}, s\<lparr>m_current_symbol := ucast b\<rparr>)
        else if unat b < 0xC0 \<or> 0xFE \<le> unat b
        then (False, s\<lparr>m_current_symbol := ucast b, m_state := Invalid\<rparr>)
        else (m_state s \<in> {Valid, May_be_overlong},
              s\<lparr>m_current_symbol := word_of_nat (lead_bits b), m_rest_bytes := lead_rest b\<rparr>))"
proof -
  have new: "m_rest_bytes utf8_checker_new = 0" "m_current_symbol utf8_checker_new = 0"
    by (simp_all add: utf8_checker_new_def)
  have u: "ucast (b AND 0x1F) = (word_of_nat (unat b mod 32) :: u32)"
    "ucast (b AND 0xF) = (word_of_nat (unat b mod 16) :: u32)"
    "ucast (b AND 0x7) = (word_of_nat (unat b mod 8) :: u32)"
    "ucast (b AND 0x3) = (word_of_nat (unat b mod 4) :: u32)"
    "ucast (b AND 0x1) = (word_of_nat (unat b mod 2) :: u32)"
    by (metis byte_parts of_nat_unat)+
  consider "unat b < 0x80" | "0x80 \<le> unat b" "unat b < 0xC0" | "0xC0 \<le> unat b" "unat b < 0xE0"
    | "0xE0 \<le> unat b" "unat b < 0xF0" | "0xF0 \<le> unat b" "unat b < 0xF8"
    | "0xF8 \<le> unat b" "unat b < 0xFC" | "0xFC \<le> unat b" "unat b < 0xFE" | "0xFE \<le> unat b"
    by linarith
  then show ?thesis
    by cases (simp_all add: utf8_process_byte_def Let_def byte_masks new lead_rest_def lead_bits_def
        u)
qed

lemma byte_lead:
  "unat b < 0xC0 \<Longrightarrow> b \<notin> {0xC0, 0xC1, 0xE0, 0xF0, 0xF8, 0xFC}"
  "0xC2 \<le> unat b \<Longrightarrow> b \<notin> {0xC0, 0xC1}"
  "unat b = 0xC0 \<Longrightarrow> b = 0xC0" "unat b = 0xC1 \<Longrightarrow> b = 0xC1" for b :: u8
  by (auto simp: word_unat_eq_iff)

lemma accepts_ascii:
  assumes "unat b < 0x80"
  shows "at_start (b # bs) \<longleftrightarrow> at_start bs"
proof -
  have "check_overlong b utf8_checker_new = utf8_checker_new"
    using byte_lead(1) [of b] assms unfolding check_new by (simp add: utf8_checker_new_def)
  then show ?thesis
    using assms symbol_irrelevant by (simp add: process_new) (simp add: utf8_checker_new_def)
qed

lemma rejects_lead:
  assumes "0x80 \<le> unat b" "unat b < 0xC2 \<or> 0xFE \<le> unat b"
  shows "\<not> at_start (b # bs)"
proof (cases "unat b < 0xC0 \<or> 0xFE \<le> unat b")
  case True
  then show ?thesis using assms(1) by (auto simp: process_new Let_def)
next
  case False
  then have "unat b = 0xC0 \<or> unat b = 0xC1" using assms by linarith
  then have "m_state (check_overlong b utf8_checker_new) = Overlong"
    using byte_lead(3,4) [of b] by (auto simp: check_new)
  then show ?thesis using False assms(1) by (simp add: process_new Let_def)
qed

lemma accepts_lead:
  assumes "0xC2 \<le> unat b" "unat b < 0xFE"
  shows "at_start (b # bs) \<longleftrightarrow>
    utf8_accepts \<lparr>m_current_symbol = word_of_nat (lead_bits b), m_rest_bytes = lead_rest b,
      m_state = (if b \<in> {0xE0, 0xF0, 0xF8, 0xFC} then May_be_overlong else Valid)\<rparr> bs"
  using assms byte_lead(2) [OF assms(1)]
  by (simp add: process_new check_new Let_def) (simp add: utf8_checker_new_def)

text \<open>A character of more than one byte.\<close>

lemma lead_small:
  assumes "0xC2 \<le> unat b" "unat b < 0xFE"
  shows "unat (word_of_nat (lead_bits b) :: u32) = lead_bits b"
    "(lead_bits b + 1) * 64 ^ (lead_rest b - 1) \<le> 2 ^ 26" "lead_rest b \<in> {1, 2, 3, 4, 5}"
proof -
  have l: "lead_bits b < 2 ^ (6 - lead_rest b)" by (simp add: lead_bits_def)
  then have "lead_bits b < 2 ^ 32" by (auto simp: lead_rest_def split: if_splits)
  then show "unat (word_of_nat (lead_bits b) :: u32) = lead_bits b"
    by (simp add: unat_of_nat)
  show "lead_rest b \<in> {1, 2, 3, 4, 5}" by (simp add: lead_rest_def)
  then have "(lead_bits b + 1) * 64 ^ (lead_rest b - 1) \<le> 2 ^ (6 - lead_rest b) * 64 ^ (lead_rest b - 1)"
    using l by (intro mult_right_mono) simp_all
  also have "\<dots> \<le> 2 ^ 26" using \<open>lead_rest b \<in> {1, 2, 3, 4, 5}\<close> by auto
  finally show "(lead_bits b + 1) * 64 ^ (lead_rest b - 1) \<le> 2 ^ 26" .
qed

definition well_formed :: "u8 \<Rightarrow> bytes \<Rightarrow> bool" where
  "well_formed b cs \<longleftrightarrow> length cs = lead_rest b \<and> list_all is_cont cs
     \<and> is_scalar (cont_value (lead_bits b) cs)
     \<and> (b \<in> {0xE0, 0xF0, 0xF8, 0xFC} \<longrightarrow> 2 ^ (7 - lead_rest b) \<le> unat (hd cs) mod 64)"

lemma accepts_char:
  assumes b: "0xC2 \<le> unat b" "unat b < 0xFE"
  shows "at_start (b # bs) \<longleftrightarrow> (\<exists>cs ds. bs = cs @ ds \<and> well_formed b cs \<and> at_start ds)"
proof -
  note small = lead_small [OF b]
  let ?x = "word_of_nat (lead_bits b) :: u32"
  show ?thesis
  proof (cases "b \<in> {0xE0, 0xF0, 0xF8, 0xFC}")
    case False
    have k: "lead_rest b = Suc (lead_rest b - 1)" using small(3) by auto
    have "at_start (b # bs) \<longleftrightarrow>
      utf8_accepts \<lparr>m_current_symbol = ?x, m_rest_bytes = Suc (lead_rest b - 1), m_state = Valid\<rparr> bs"
      using accepts_lead [OF b, of bs] False k by auto
    also have "\<dots> \<longleftrightarrow> (\<exists>cs ds. bs = cs @ ds \<and> length cs = lead_rest b \<and> list_all is_cont cs
      \<and> is_scalar (cont_value (lead_bits b) cs) \<and> at_start ds)"
      using accepts_rest [of ?x "lead_rest b - 1" bs] small(1,2) k by (simp only:)
    finally show ?thesis using False unfolding well_formed_def by blast
  next
    case True
    then have r: "lead_rest b \<in> {2, 3, 4, 5}" by (auto simp: lead_rest_def)
    then have k: "lead_rest b = Suc (Suc (lead_rest b - 2))" by auto
    define k where "k = lead_rest b - 2"
    have k: "lead_rest b = Suc (Suc k)" using k by (simp add: k_def)
    have start: "at_start (b # bs) \<longleftrightarrow>
      utf8_accepts \<lparr>m_current_symbol = ?x, m_rest_bytes = lead_rest b, m_state = May_be_overlong\<rparr> bs"
      using accepts_lead [OF b, of bs] True by auto
    have bits: "(lead_bits b + 1) * 64 ^ Suc k \<le> 2 ^ 26" using small(2) k by simp
    have "(lead_bits b + 1) * 1 \<le> (lead_bits b + 1) * 64 ^ Suc k" by (rule mult_left_mono) simp_all
    from order_trans [OF this bits] have "lead_bits b + 1 \<le> 2 ^ 26" by (simp only: mult_1_right)
    then have x: "unat ?x < 2 ^ 26" by (simp add: small(1))
    show ?thesis
    proof (cases bs)
      case Nil
      then show ?thesis using start k by (auto simp: utf8_finalized_def well_formed_def)
    next
      case (Cons b2 bs')
      define y where "y = push_bit 6 ?x OR ucast (b2 AND 0x3F)"
      have y: "unat y = lead_bits b * 64 + unat b2 mod 64"
        unfolding y_def using more_bits [OF x] small(1) by simp
      have "unat y + 1 \<le> (lead_bits b + 1) * 64" using mod_less_divisor [of 64 "unat b2"] by (simp add: y)
      then have "(unat y + 1) * 64 ^ k \<le> (lead_bits b + 1) * 64 * 64 ^ k" by (rule mult_right_mono) simp
      also have "\<dots> = (lead_bits b + 1) * 64 ^ Suc k" by (simp add: algebra_simps)
      finally have "(unat y + 1) * 64 ^ k \<le> 2 ^ 26" using bits by linarith
      note rest = accepts_rest [OF this, of bs']
      have "at_start (b # bs) \<longleftrightarrow> is_cont b2 \<and> 2 ^ (7 - lead_rest b) \<le> unat b2 mod 64
        \<and> utf8_accepts \<lparr>m_current_symbol = y, m_rest_bytes = Suc k, m_state = Valid\<rparr> bs'"
        using step_second [OF x r, of b2 bs'] start k by (simp add: Cons y_def)
      also have "\<dots> \<longleftrightarrow> (\<exists>cs ds. bs = (b2 # cs) @ ds \<and> well_formed b (b2 # cs) \<and> at_start ds)"
        unfolding rest using True k by (auto simp: well_formed_def Cons y)
      also have "\<dots> \<longleftrightarrow> (\<exists>cs ds. bs = cs @ ds \<and> well_formed b cs \<and> at_start ds)"
      proof -
        have "\<exists>cs'. cs = b2 # cs'" if "bs = cs @ ds" "well_formed b cs" for cs ds
          using that k Cons by (cases cs) (auto simp: well_formed_def)
        then show ?thesis by blast
      qed
      finally show ?thesis .
    qed
  qed
qed

subsection \<open>Well-formed bytes are encodings\<close>

lemma cont_byte:
  assumes "is_cont b"
  obtains m where "m < 64" "unat b = 0x80 + m" "unat b mod 64 = m"
  by (rule that [of "unat b - 0x80"]) (use assms in \<open>auto simp: is_cont_def mod_if\<close>)

lemma word_of_unat: "unat b = n \<Longrightarrow> (word_of_nat n :: u8) = b"
  by auto

lemma div_64: "x div 64 ^ 2 = x div 64 div 64" "x div 64 ^ 3 = x div 64 div 64 div 64" for x :: nat
  by (simp_all add: div_mult2_eq [symmetric])

lemma div_digits:
  fixes a m2 m3 m4 :: nat
  assumes "m2 < 64" "m3 < 64" "m4 < 64"
  shows "(a * 64 + m2) div 64 = a" "(a * 64 + m2) mod 64 = m2"
    "((a * 64 + m2) * 64 + m3) div 64 ^ 2 = a" "((a * 64 + m2) * 64 + m3) div 64 mod 64 = m2"
    "(((a * 64 + m2) * 64 + m3) * 64 + m4) div 64 ^ 3 = a"
    "(((a * 64 + m2) * 64 + m3) * 64 + m4) div 64 ^ 2 mod 64 = m2"
    "(((a * 64 + m2) * 64 + m3) * 64 + m4) div 64 mod 64 = m3"
proof -
  have d: "(x * 64 + m) div 64 = x" "(x * 64 + m) mod 64 = m" if "m < 64" for x m :: nat
    using that by simp_all
  show "(a * 64 + m2) div 64 = a" "(a * 64 + m2) mod 64 = m2"
    "((a * 64 + m2) * 64 + m3) div 64 ^ 2 = a" "((a * 64 + m2) * 64 + m3) div 64 mod 64 = m2"
    "(((a * 64 + m2) * 64 + m3) * 64 + m4) div 64 ^ 3 = a"
    "(((a * 64 + m2) * 64 + m3) * 64 + m4) div 64 ^ 2 mod 64 = m2"
    "(((a * 64 + m2) * 64 + m3) * 64 + m4) div 64 mod 64 = m3"
    by (simp_all only: div_64 d assms)
qed

lemma encode_digits_3:
  assumes "0x800 \<le> (a * 64 + m2) * 64 + m3" "(a * 64 + m2) * 64 + m3 < 0x10000" "m2 < 64" "m3 < 64"
  shows "utf8_encode ((a * 64 + m2) * 64 + m3) = map word_of_nat [0xE0 + a, 0x80 + m2, 0x80 + m3]"
proof -
  define c where "c = (a * 64 + m2) * 64 + m3"
  have "c div 64 ^ 2 = a" "c div 64 mod 64 = m2" "c mod 64 = m3"
    using assms(3,4) div_digits [of m2 m3 m3 a] by (simp_all only: c_def div_digits(2))
  moreover have "\<not> c < 0x80" "\<not> c < 0x800" "c < 0x10000"
    using assms(1,2) unfolding c_def by linarith+
  ultimately show ?thesis by (simp only: utf8_encode_def if_False if_True flip: c_def)
qed

lemma encode_digits_4:
  assumes "0x10000 \<le> ((a * 64 + m2) * 64 + m3) * 64 + m4" "m2 < 64" "m3 < 64" "m4 < 64"
  shows "utf8_encode (((a * 64 + m2) * 64 + m3) * 64 + m4)
    = map word_of_nat [0xF0 + a, 0x80 + m2, 0x80 + m3, 0x80 + m4]"
proof -
  define c where "c = ((a * 64 + m2) * 64 + m3) * 64 + m4"
  have "c div 64 ^ 3 = a" "c div 64 ^ 2 mod 64 = m2" "c div 64 mod 64 = m3" "c mod 64 = m4"
    using assms(2-) div_digits [of m2 m3 m4 a] by (simp_all only: c_def div_digits(2))
  moreover have "\<not> c < 0x80" "\<not> c < 0x800" "\<not> c < 0x10000"
    using assms(1) unfolding c_def by linarith+
  ultimately show ?thesis by (simp only: utf8_encode_def if_False if_True flip: c_def)
qed

lemma encode_well_formed:
  assumes wf: "well_formed b cs" and b: "0xC2 \<le> unat b" "unat b < 0xFE"
  shows "utf8_encode (cont_value (lead_bits b) cs) = b # cs"
proof -
  note wf' = wf [unfolded well_formed_def]
  consider (1) "unat b < 0xE0" | (2) "0xE0 \<le> unat b" "unat b < 0xF0"
    | (3) "0xF0 \<le> unat b" "unat b < 0xF8" | (more) "0xF8 \<le> unat b" by linarith
  then show ?thesis
  proof cases
    case 1
    define a where "a = unat b - 0xC0"
    have a: "lead_rest b = 1" "lead_bits b = a" "unat b = 0xC0 + a" "2 \<le> a" "a < 32"
      using 1 b by (auto simp: lead_rest_def lead_bits_def a_def mod_if)
    then obtain b2 where cs: "cs = [b2]" "is_cont b2" using wf' by (auto simp: length_Suc_conv)
    obtain m2 where m2: "m2 < 64" "unat b2 = 0x80 + m2" "unat b2 mod 64 = m2"
      using cs(2) by (rule cont_byte)
    have "utf8_encode (a * 64 + m2) = map word_of_nat [0xC0 + a, 0x80 + m2]"
      using a(4,5) m2(1) div_digits [of m2 m2 m2 a] by (simp add: utf8_encode_def)
    also have "\<dots> = [b, b2]" by (simp only: list.map word_of_unat [OF a(3)] word_of_unat [OF m2(2)])
    finally show ?thesis using a(2) m2(3) cs(1) by simp
  next
    case 2
    define a where "a = unat b - 0xE0"
    have a: "lead_rest b = 2" "lead_bits b = a" "unat b = 0xE0 + a" "a < 16"
      using 2 by (auto simp: lead_rest_def lead_bits_def a_def mod_if)
    then obtain b2 b3 where cs: "cs = [b2, b3]" "is_cont b2" "is_cont b3"
      using wf' by (auto simp: length_Suc_conv numeral_2_eq_2)
    obtain m2 where m2: "m2 < 64" "unat b2 = 0x80 + m2" "unat b2 mod 64 = m2"
      using cs(2) by (rule cont_byte)
    obtain m3 where m3: "m3 < 64" "unat b3 = 0x80 + m3" "unat b3 mod 64 = m3"
      using cs(3) by (rule cont_byte)
    have "a = 0 \<Longrightarrow> b = 0xE0" using a(3) by (simp add: word_unat_eq_iff)
    then have "a = 0 \<longrightarrow> 32 \<le> m2" using wf' cs(1) a(1) m2(3) by auto
    then have "32 \<le> a * 64 + m2" by (cases "a = 0") simp_all
    then have "32 * 64 \<le> (a * 64 + m2) * 64" by (rule mult_le_mono1)
    then have "0x800 \<le> (a * 64 + m2) * 64 + m3" by simp
    moreover have "(a * 64 + m2) * 64 + m3 < 0x10000"
      using a(4) m2(1) m3(1) by (simp add: add_mult_distrib)
    ultimately have "utf8_encode ((a * 64 + m2) * 64 + m3) = map word_of_nat [0xE0 + a, 0x80 + m2, 0x80 + m3]"
      using m2(1) m3(1) by (rule encode_digits_3)
    also have "\<dots> = [b, b2, b3]"
      by (simp only: list.map word_of_unat [OF a(3)] word_of_unat [OF m2(2)] word_of_unat [OF m3(2)])
    finally show ?thesis using a(2) m2(3) m3(3) cs(1) by simp
  next
    case 3
    define a where "a = unat b - 0xF0"
    have a: "lead_rest b = 3" "lead_bits b = a" "unat b = 0xF0 + a" "a < 8"
      using 3 by (auto simp: lead_rest_def lead_bits_def a_def mod_if)
    then obtain b2 b3 b4 where cs: "cs = [b2, b3, b4]" "is_cont b2" "is_cont b3" "is_cont b4"
      using wf' by (auto simp: length_Suc_conv numeral_3_eq_3)
    obtain m2 where m2: "m2 < 64" "unat b2 = 0x80 + m2" "unat b2 mod 64 = m2"
      using cs(2) by (rule cont_byte)
    obtain m3 where m3: "m3 < 64" "unat b3 = 0x80 + m3" "unat b3 mod 64 = m3"
      using cs(3) by (rule cont_byte)
    obtain m4 where m4: "m4 < 64" "unat b4 = 0x80 + m4" "unat b4 mod 64 = m4"
      using cs(4) by (rule cont_byte)
    have "a = 0 \<Longrightarrow> b = 0xF0" using a(3) by (simp add: word_unat_eq_iff)
    then have "a = 0 \<longrightarrow> 16 \<le> m2" using wf' cs(1) a(1) m2(3) by auto
    then have "16 \<le> a * 64 + m2" by (cases "a = 0") simp_all
    then have "16 * 64 \<le> (a * 64 + m2) * 64" by (rule mult_le_mono1)
    then have "16 * 64 * 64 \<le> ((a * 64 + m2) * 64 + m3) * 64" by (intro mult_le_mono1) simp
    then have "0x10000 \<le> ((a * 64 + m2) * 64 + m3) * 64 + m4" by simp
    then have "utf8_encode (((a * 64 + m2) * 64 + m3) * 64 + m4)
        = map word_of_nat [0xF0 + a, 0x80 + m2, 0x80 + m3, 0x80 + m4]"
      using m2(1) m3(1) m4(1) by (rule encode_digits_4)
    also have "\<dots> = [b, b2, b3, b4]"
      by (simp only: list.map word_of_unat [OF a(3)] word_of_unat [OF m2(2)] word_of_unat [OF m3(2)]
          word_of_unat [OF m4(2)])
    finally show ?thesis using a(2) m2(3) m3(3) m4(3) cs(1) by simp
  next
    case more
    have "0x110000 \<le> cont_value (lead_bits b) cs"
    proof (cases "b \<in> {0xF8, 0xFC}")
      case True
      then have r: "lead_rest b \<in> {4, 5}" "lead_bits b = 0" by (auto simp: lead_rest_def lead_bits_def)
      then obtain b2 cs' where cs: "cs = b2 # cs'" using wf' by (cases cs) auto
      then have "2 ^ (7 - lead_rest b) \<le> unat b2 mod 64" "length cs' = lead_rest b - 1"
        using wf' True by auto
      then have "2 ^ (7 - lead_rest b) * 64 ^ (lead_rest b - 1) \<le> (unat b2 mod 64) * 64 ^ length cs'"
        by (intro mult_mono) simp_all
      also have "\<dots> \<le> cont_value (lead_bits b) cs" using cont_value_bounds(1) [of "unat b2 mod 64" cs'] r(2) cs by simp
      finally show ?thesis using r(1) by auto
    next
      case False
      then have r: "lead_rest b \<in> {4, 5}" and "unat b \<noteq> 0xF8" "unat b \<noteq> 0xFC"
        using more b by (auto simp: lead_rest_def word_unat_eq_iff)
      have "1 \<le> lead_bits b"
      proof (cases "unat b < 0xFC")
        case True
        then have "unat b \<in> {0xF9, 0xFA, 0xFB}" using more \<open>unat b \<noteq> 0xF8\<close> by simp linarith
        then show ?thesis by (auto simp: lead_bits_def lead_rest_def)
      next
        case False
        then have "unat b = 0xFD" using b \<open>unat b \<noteq> 0xFC\<close> by linarith
        then show ?thesis by (simp add: lead_bits_def lead_rest_def)
      qed
      then have "1 * 64 ^ lead_rest b \<le> lead_bits b * 64 ^ length cs" using wf' by (intro mult_mono) simp_all
      also have "\<dots> \<le> cont_value (lead_bits b) cs" by (rule cont_value_bounds)
      finally show ?thesis using r by auto
    qed
    then show ?thesis using wf' by (simp add: is_scalar_def)
  qed
qed

lemma scalar_encode_shape:
  assumes "is_scalar c" "0x80 \<le> c"
  shows "\<exists>b cs. utf8_encode c = b # cs \<and> 0xC2 \<le> unat b \<and> unat b < 0xFE \<and> well_formed b cs"
proof -
  define m where "m k = c div 64 ^ k mod 64" for k
  have m: "m k < 64" for k by (simp add: m_def)
  have u: "unat (word_of_nat n :: u8) = n" if "n < 256" for n using that by (simp add: unat_of_nat)
  have cont: "is_cont (word_of_nat (0x80 + m k))" "unat (word_of_nat (0x80 + m k) :: u8) mod 64 = m k" for k
    using m [of k] u [of "0x80 + m k"] by (simp_all add: is_cont_def mod_if)
  have c2: "c = c div 64 * 64 + m 0" by (simp add: m_def)
  moreover have "c div 64 = c div 64 ^ 2 * 64 + m 1" "c div 64 ^ 2 = c div 64 ^ 3 * 64 + m 2"
    by (simp_all only: m_def div_64 power_one_right div_mult_mod_eq)
  ultimately have digits: "c = c div 64 * 64 + m 0" "c = (c div 64 ^ 2 * 64 + m 1) * 64 + m 0"
    "c = ((c div 64 ^ 3 * 64 + m 2) * 64 + m 1) * 64 + m 0" by simp_all
  have lt: "c < 0x110000" using assms(1) by (auto simp: is_scalar_def)
  consider "c < 0x800" | "0x800 \<le> c" "c < 0x10000" | "0x10000 \<le> c" by linarith
  then show ?thesis
  proof cases
    case 1
    define a where "a = c div 64"
    have a: "2 \<le> a" "a < 32" using 1 assms(2) by (auto simp: a_def)
    define b where "b = (word_of_nat (0xC0 + a) :: u8)"
    have b: "unat b = 0xC0 + a" unfolding b_def using a by (intro u) simp
    have l: "lead_rest b = 1" "lead_bits b = a" using a b by (simp_all add: lead_rest_def lead_bits_def mod_if)
    have "utf8_encode c = [b, word_of_nat (0x80 + m 0)]"
      using 1 assms(2) by (simp only: utf8_encode_def b_def a_def m_def) simp
    moreover have "well_formed b [word_of_nat (0x80 + m 0)]"
      using l cont [of 0] digits(1) assms(1) b a by (simp add: well_formed_def a_def [symmetric] word_unat_eq_iff)
    ultimately show ?thesis using a b by (intro exI conjI) (assumption | simp)+
  next
    case 2
    define a where "a = c div 64 ^ 2"
    have c: "c = (a * 64 + m 1) * 64 + m 0" using digits(2) by (simp only: a_def)
    have sc: "is_scalar ((a * 64 + m 1) * 64 + m 0)" by (subst c [symmetric]) (rule assms(1))
    have "a * 4096 \<le> c" using c by simp
    then have a1: "a < 16" using 2 by linarith
    have "32 \<le> m 1" if "a = 0" using that 2 c m [of 0] by simp
    note a = a1 this
    define b where "b = (word_of_nat (0xE0 + a) :: u8)"
    have b: "unat b = 0xE0 + a" unfolding b_def using a(1) by (intro u) simp
    have l: "lead_rest b = 2" "lead_bits b = a" using a(1) b by (simp_all add: lead_rest_def lead_bits_def mod_if)
    have nb: "b = 0xE0 \<longleftrightarrow> a = 0" "b \<noteq> 0xF0" "b \<noteq> 0xF8" "b \<noteq> 0xFC"
      using a(1) b by (simp_all add: word_unat_eq_iff)
    have "utf8_encode c = [b, word_of_nat (0x80 + m 1), word_of_nat (0x80 + m 0)]"
      using 2 by (simp only: utf8_encode_def b_def a_def m_def) simp
    moreover have "well_formed b [word_of_nat (0x80 + m 1), word_of_nat (0x80 + m 0)]"
      using l cont sc nb a(2) by (auto simp: well_formed_def)
    ultimately show ?thesis using a(1) b by (intro exI conjI) (assumption | simp)+
  next
    case 3
    define a where "a = c div 64 ^ 3"
    have c: "c = ((a * 64 + m 2) * 64 + m 1) * 64 + m 0" using digits(3) by (simp only: a_def)
    have sc: "is_scalar (((a * 64 + m 2) * 64 + m 1) * 64 + m 0)"
      by (subst c [symmetric]) (rule assms(1))
    have "a * 262144 \<le> c" using c by simp
    then have a1: "a < 5" using lt by linarith
    have "16 \<le> m 2" if "a = 0" using that 3 c m [of 0] m [of 1] by simp
    note a = a1 this
    define b where "b = (word_of_nat (0xF0 + a) :: u8)"
    have b: "unat b = 0xF0 + a" unfolding b_def using a(1) by (intro u) simp
    have l: "lead_rest b = 3" "lead_bits b = a" using a(1) b by (simp_all add: lead_rest_def lead_bits_def mod_if)
    have nb: "b = 0xF0 \<longleftrightarrow> a = 0" "b \<noteq> 0xE0" "b \<noteq> 0xF8" "b \<noteq> 0xFC"
      using a(1) b by (simp_all add: word_unat_eq_iff)
    have "utf8_encode c = [b, word_of_nat (0x80 + m 2), word_of_nat (0x80 + m 1), word_of_nat (0x80 + m 0)]"
      using 3 by (simp only: utf8_encode_def b_def a_def m_def) simp
    moreover have "well_formed b [word_of_nat (0x80 + m 2), word_of_nat (0x80 + m 1), word_of_nat (0x80 + m 0)]"
      using l cont sc nb a(2) by (auto simp: well_formed_def)
    ultimately show ?thesis using a(1) b by (intro exI conjI) (assumption | simp)+
  qed
qed

lemma encode_ascii: "c < 0x80 \<Longrightarrow> utf8_encode c = [word_of_nat c]"
  by (simp add: utf8_encode_def)

lemma at_start_char:
  "at_start (b # bs) \<longleftrightarrow> (\<exists>c ds. is_scalar c \<and> b # bs = utf8_encode c @ ds \<and> at_start ds)"
  (is "?l \<longleftrightarrow> ?r")
proof
  assume ?l
  consider "unat b < 0x80" | "0x80 \<le> unat b" "unat b < 0xC2 \<or> 0xFE \<le> unat b"
    | "0xC2 \<le> unat b" "unat b < 0xFE" by linarith
  then show ?r
  proof cases
    case 1
    then show ?thesis using \<open>?l\<close> accepts_ascii [OF 1]
      by (intro exI [of _ "unat b"] exI [of _ bs]) (simp add: encode_ascii is_scalar_def)
  next
    case 2
    then show ?thesis using \<open>?l\<close> rejects_lead by blast
  next
    case 3
    then obtain cs ds where "bs = cs @ ds" "well_formed b cs" "at_start ds"
      using \<open>?l\<close> accepts_char by blast
    then show ?thesis using encode_well_formed [of b cs] 3
      by (intro exI [of _ "cont_value (lead_bits b) cs"] exI [of _ ds]) (simp add: well_formed_def)
  qed
next
  assume ?r
  then obtain c ds where c: "is_scalar c" "b # bs = utf8_encode c @ ds" "at_start ds" by blast
  show ?l
  proof (cases "c < 0x80")
    case True
    then have "unat b < 0x80" "bs = ds"
      using c(2) by (auto simp: encode_ascii unat_of_nat)
    then show ?thesis using c(3) accepts_ascii by blast
  next
    case False
    then obtain cs where "bs = cs @ ds" "0xC2 \<le> unat b" "unat b < 0xFE" "well_formed b cs"
      using scalar_encode_shape [OF c(1)] c(2) by auto
    then show ?thesis using c(3) accepts_char by blast
  qed
qed

lemma utf8_checker_decides: "utf8_accepts utf8_checker_new data \<longleftrightarrow> valid_utf8 data"
proof (induction "length data" arbitrary: data rule: less_induct)
  case less
  show ?case
  proof (cases data)
    case Nil
    have "valid_utf8 []" unfolding valid_utf8_def by (intro exI [of _ "[]"]) simp
    then show ?thesis by (simp add: Nil utf8_finalized_def utf8_checker_new_def)
  next
    case (Cons b bs)
    have shorter: "at_start ds \<longleftrightarrow> valid_utf8 ds" if "b # bs = utf8_encode c @ ds" for c ds
    proof -
      have "utf8_encode c \<noteq> []" by (simp add: utf8_encode_def)
      then have "length ds < length data" using arg_cong [OF that, of length] by (simp add: Cons)
      then show ?thesis by (rule less)
    qed
    have "valid_utf8 (b # bs) \<longleftrightarrow> (\<exists>c ds. is_scalar c \<and> b # bs = utf8_encode c @ ds \<and> valid_utf8 ds)"
      (is "?l \<longleftrightarrow> ?r")
    proof
      assume ?l
      then obtain cs where cs: "list_all is_scalar cs" "b # bs = concat (map utf8_encode cs)"
        by (auto simp: valid_utf8_def)
      then obtain c cs' where "cs = c # cs'" by (cases cs) auto
      then show ?r using cs by (auto simp: valid_utf8_def)
    next
      assume ?r
      then obtain c ds cs where "is_scalar c" "b # bs = utf8_encode c @ ds" "list_all is_scalar cs"
        "ds = concat (map utf8_encode cs)" by (auto simp: valid_utf8_def)
      then show ?l unfolding valid_utf8_def by (intro exI [of _ "c # cs"]) simp
    qed
    then show ?thesis unfolding Cons at_start_char using shorter by blast
  qed
qed

text \<open>
  C29. The checker decides UTF-8: fed from its initial state, it accepts every byte of a string and ends
  between characters exactly if the string is a sequence of encodings of Unicode scalar values
  (none overlong, none of a surrogate, none above U+10FFFF).
\<close>

theorem utf8_checker_correct: "utf8_accepts utf8_checker_new data \<longleftrightarrow> valid_utf8 data"
  by (rule utf8_checker_decides)

subsection \<open>Feeding a text in pieces\<close>

text \<open>The checker after a piece of which it accepted every byte.\<close>

fun utf8_feed :: "bytes \<Rightarrow> utf8_checker \<Rightarrow> utf8_checker option" where
  "utf8_feed [] s = Some s"
| "utf8_feed (byte # data) s =
     (case utf8_process_byte byte s of (ok, s') \<Rightarrow> if ok then utf8_feed data s' else None)"

lemma utf8_feed_append: "utf8_feed (xs @ ys) s = Option.bind (utf8_feed xs s) (utf8_feed ys)"
  by (induction xs arbitrary: s) (simp_all split: prod.split)

lemma utf8_accepts_feed: "utf8_accepts s data \<longleftrightarrow> (\<exists>s'. utf8_feed data s = Some s' \<and> utf8_finalized s')"
  by (induction data arbitrary: s) (auto split: prod.split)

text \<open>A checker that has rejected nothing: between characters its state is \<open>Valid\<close>.\<close>

definition utf8_sound :: "utf8_checker \<Rightarrow> bool" where
  "utf8_sound s \<longleftrightarrow> m_state s = Valid \<or> m_state s = May_be_overlong \<and> 0 < m_rest_bytes s"

lemma utf8_sound_new: "utf8_sound utf8_checker_new"
  by (simp add: utf8_sound_def utf8_checker_new_def)

lemma utf8_sound_byte:
  assumes "utf8_sound s" "utf8_process_byte b s = (True, s')"
  shows "utf8_sound s'"
proof (cases "m_rest_bytes s = 0")
  case True
  then show ?thesis using assms
    by (auto simp: utf8_sound_def utf8_process_byte_def check_overlong_def Let_def split: if_splits)
next
  case False
  have "m_state s' = Valid \<or> m_state s' = May_be_overlong"
    using assms(2) by (auto simp: utf8_process_byte_def Let_def)
  moreover have "m_state s' \<noteq> May_be_overlong"
    using assms False
    by (auto simp: utf8_sound_def utf8_process_byte_def check_overlong_def validate_current_symbol_def Let_def
        split: if_splits)
  ultimately show ?thesis by (simp add: utf8_sound_def)
qed

lemma utf8_sound_feed: "utf8_feed data s = Some s' \<Longrightarrow> utf8_sound s \<Longrightarrow> utf8_sound s'"
  by (induction data arbitrary: s) (auto split: prod.splits if_splits dest: utf8_sound_byte)

lemma utf8_reset_sound: "utf8_sound s \<Longrightarrow> utf8_finalized s \<Longrightarrow> utf8_reset s = utf8_checker_new"
  by (simp add: utf8_sound_def utf8_finalized_def utf8_reset_def utf8_checker_new_def)

end
