(* ===== verification/Restinio_Frames.thy ===== *)
theory Restinio_Frames
  imports Restinio_Bytes
begin

unbundle bit_operations_syntax

text \<open>
  WebSocket frame headers: \<open>websocket/message.hpp\<close> (opcodes and status codes) and
  \<open>websocket/impl/ws_parser.hpp\<close> (the incremental header parser \<open>ws_parser_t\<close>, the writer
  \<open>write_message_details\<close> and the masking of a payload). A \<open>raw_data_t\<close> is a list of bytes; a
  \<open>size_t\<close> that counts bytes of a buffer is a \<open>nat\<close>, lengths that are fields of a frame are words of
  their width.

  The parser reads back what the writer wrote (\<open>parse_written_header\<close>), however the bytes are
  split over calls (\<open>parser_split\<close>), and never throws (\<open>parser_never_throws\<close>); masking is its own
  inverse.
\<close>

subsection \<open>\<open>message.hpp\<close>\<close>

text \<open>\<open>enum class opcode_t : std::uint8_t\<close>: any byte is a value of it, the named ones are:\<close>

type_synonym opcode_t = u8

definition continuation_frame :: opcode_t where "continuation_frame = 0x00"
definition text_frame :: opcode_t where "text_frame = 0x01"
definition binary_frame :: opcode_t where "binary_frame = 0x02"
definition connection_close_frame :: opcode_t where "connection_close_frame = 0x08"
definition ping_frame :: opcode_t where "ping_frame = 0x09"
definition pong_frame :: opcode_t where "pong_frame = 0x0A"
definition unknown_frame :: opcode_t where "unknown_frame = 0x0F"

lemmas opcodes = continuation_frame_def text_frame_def binary_frame_def connection_close_frame_def
  ping_frame_def pong_frame_def unknown_frame_def

definition opcode_to_string :: "opcode_t \<Rightarrow> string" where
  "opcode_to_string op =
     (if op = continuation_frame then ''continuation_frame''
      else if op = text_frame then ''text_frame''
      else if op = binary_frame then ''binary_frame''
      else if op = connection_close_frame then ''connection_close_frame''
      else if op = ping_frame then ''ping_frame''
      else if op = pong_frame then ''pong_frame''
      else ''unknown_frame'')"

definition is_valid_opcode :: "opcode_t \<Rightarrow> bool" where
  "is_valid_opcode op \<longleftrightarrow>
     op = continuation_frame \<or> op = text_frame \<or> op = binary_frame
     \<or> op = connection_close_frame \<or> op = ping_frame \<or> op = pong_frame"

text \<open>\<open>enum class status_code_t : std::uint16_t\<close>; the conversions to and from the wire.\<close>

type_synonym status_code_t = u16

definition status_code_to_bin :: "status_code_t \<Rightarrow> bytes" where
  "status_code_to_bin code = [n_bits_from 8 8 code, n_bits_from 0 8 code]"

definition status_code_from_bin :: "bytes \<Rightarrow> status_code_t" where
  "status_code_from_bin data =
     (if 2 \<le> length data then push_bit 8 (0 OR ucast (data ! 0)) OR ucast (data ! 1) else 0)"

datatype final_frame_flag_t = final_frame | not_final_frame

text \<open>\<open>message_t\<close>, the message handed to the user's handler and by it to the connection.\<close>

record message_t =
  msg_final_flag :: final_frame_flag_t
  msg_opcode :: opcode_t
  msg_payload :: bytes

definition message_new :: message_t where
  "message_new = \<lparr>msg_final_flag = final_frame, msg_opcode = continuation_frame, msg_payload = []\<rparr>"

definition is_final :: "message_t \<Rightarrow> bool" where
  "is_final m \<longleftrightarrow> final_frame = msg_final_flag m"

subsection \<open>\<open>message_details_t\<close>\<close>

definition websocket_first_two_bytes_size :: nat where "websocket_first_two_bytes_size = 2"
definition websocket_max_payload_size_without_ext :: nat where
  "websocket_max_payload_size_without_ext = 125"
definition websocket_short_ext_payload_length :: nat where "websocket_short_ext_payload_length = 2"
definition websocket_long_ext_payload_length :: nat where "websocket_long_ext_payload_length = 8"
definition websocket_short_ext_len_code :: u8 where "websocket_short_ext_len_code = 126"
definition websocket_long_ext_len_code :: u8 where "websocket_long_ext_len_code = 127"
definition websocket_masking_key_size :: nat where "websocket_masking_key_size = 4"
definition bit_flag_7 :: u8 where "bit_flag_7 = 0x80"
definition bit_flag_6 :: u8 where "bit_flag_6 = 0x40"
definition bit_flag_5 :: u8 where "bit_flag_5 = 0x20"
definition bit_flag_4 :: u8 where "bit_flag_4 = 0x10"
definition opcode_mask :: u8 where "opcode_mask = 0x0F"
definition payload_len_mask :: u8 where "payload_len_mask = 0x7F"

lemmas frame_consts = websocket_first_two_bytes_size_def websocket_max_payload_size_without_ext_def
  websocket_short_ext_payload_length_def websocket_long_ext_payload_length_def
  websocket_short_ext_len_code_def websocket_long_ext_len_code_def websocket_masking_key_size_def
  bit_flag_7_def bit_flag_6_def bit_flag_5_def bit_flag_4_def opcode_mask_def payload_len_mask_def

record message_details_t =
  m_final_flag :: bool
  m_rsv1_flag :: bool
  m_rsv2_flag :: bool
  m_rsv3_flag :: bool
  m_opcode :: opcode_t
  m_mask_flag :: bool
  m_payload_len :: u8
  m_ext_payload_len :: u64
  m_masking_key :: u32

definition message_details_new :: message_details_t where
  "message_details_new =
     \<lparr>m_final_flag = True, m_rsv1_flag = False, m_rsv2_flag = False, m_rsv3_flag = False,
      m_opcode = continuation_frame, m_mask_flag = False, m_payload_len = 0,
      m_ext_payload_len = 0, m_masking_key = 0\<rparr>"

definition init_payload_len :: "u64 \<Rightarrow> message_details_t \<Rightarrow> message_details_t" where
  "init_payload_len payload_len m =
     (if unat payload_len > websocket_max_payload_size_without_ext then
        m\<lparr>m_payload_len := (if payload_len > 0xFFFF then websocket_long_ext_len_code
                            else websocket_short_ext_len_code),
          m_ext_payload_len := payload_len\<rparr>
      else m\<lparr>m_payload_len := ucast payload_len\<rparr>)"

definition message_details :: "final_frame_flag_t \<Rightarrow> opcode_t \<Rightarrow> u64 \<Rightarrow> message_details_t" where
  "message_details final_flag opcode payload_len =
     init_payload_len payload_len
       (message_details_new\<lparr>m_final_flag := (final_frame = final_flag), m_opcode := opcode\<rparr>)"

definition message_details_masked ::
    "final_frame_flag_t \<Rightarrow> opcode_t \<Rightarrow> u64 \<Rightarrow> u32 \<Rightarrow> message_details_t" where
  "message_details_masked final_flag opcode payload_len masking_key =
     init_payload_len payload_len
       (message_details_new\<lparr>m_final_flag := (final_frame = final_flag), m_opcode := opcode,
          m_mask_flag := True, m_masking_key := masking_key\<rparr>)"

text \<open>The member function \<open>payload_len()\<close>; \<open>set_masking_key\<close>.\<close>

definition details_payload_len :: "message_details_t \<Rightarrow> u64" where
  "details_payload_len m =
     (if unat (m_payload_len m) > websocket_max_payload_size_without_ext then m_ext_payload_len m
      else ucast (m_payload_len m))"

definition set_masking_key :: "u32 \<Rightarrow> message_details_t \<Rightarrow> message_details_t" where
  "set_masking_key v m = m\<lparr>m_masking_key := v, m_mask_flag := True\<rparr>"

subsection \<open>\<open>expected_data_t\<close> and numbers in network byte order\<close>

record expected_data_t =
  m_expected_size :: nat
  m_loaded_data :: bytes

definition expected_data :: "nat \<Rightarrow> expected_data_t" where
  "expected_data sz = \<lparr>m_expected_size = sz, m_loaded_data = []\<rparr>"

definition all_bytes_loaded :: "expected_data_t \<Rightarrow> bool" where
  "all_bytes_loaded d \<longleftrightarrow> length (m_loaded_data d) = m_expected_size d"

definition add_byte_and_check_size :: "u8 \<Rightarrow> (expected_data_t, bool) comp" where
  "add_byte_and_check_size byte = (\<lambda>d.
     if length (m_loaded_data d) = m_expected_size d
     then (Inl (RestinioError ''Cannot add one more bytes to expected data.''), d)
     else (let d' = d\<lparr>m_loaded_data := m_loaded_data d @ [byte]\<rparr>
           in (Inr (all_bytes_loaded d'), d')))"

definition expected_data_reset :: "nat \<Rightarrow> expected_data_t \<Rightarrow> expected_data_t" where
  "expected_data_reset expected_size d =
     d\<lparr>m_expected_size := expected_size, m_loaded_data := []\<rparr>"

definition read_number_from_big_endian_bytes :: "bytes \<Rightarrow> 'a::len word" where
  "read_number_from_big_endian_bytes data =
     foldl (\<lambda>number byte. push_bit 8 number OR ucast byte) 0 data"

definition write_number_to_big_endian_bytes :: "nat \<Rightarrow> u64 \<Rightarrow> bytes \<Rightarrow> bytes" where
  "write_number_to_big_endian_bytes n number data =
     foldl (\<lambda>data i. data @ [ucast (drop_bit ((n - i - 1) * 8) number AND 0xFF)]) data [0..<n]"

subsection \<open>\<open>ws_parser_t\<close>\<close>

datatype parser_state_t =
    waiting_for_first_2_bytes
  | waiting_for_ext_len
  | waiting_for_mask_key
  | header_parsed_state

record ws_parser_t =
  m_expected_data :: expected_data_t
  m_current_msg :: message_details_t
  m_current_state :: parser_state_t

definition ws_parser_new :: ws_parser_t where
  "ws_parser_new =
     \<lparr>m_expected_data = expected_data websocket_first_two_bytes_size,
      m_current_msg = message_details_new, m_current_state = waiting_for_first_2_bytes\<rparr>"

definition header_parsed :: "ws_parser_t \<Rightarrow> bool" where
  "header_parsed p \<longleftrightarrow> m_current_state p = header_parsed_state"

definition ws_parser_reset :: "ws_parser_t \<Rightarrow> ws_parser_t" where
  "ws_parser_reset p =
     p\<lparr>m_current_state := waiting_for_first_2_bytes, m_current_msg := message_details_new,
       m_expected_data := expected_data_reset websocket_first_two_bytes_size (m_expected_data p)\<rparr>"

definition parse_first_2_bytes :: "bytes \<Rightarrow> message_details_t \<Rightarrow> message_details_t" where
  "parse_first_2_bytes data m =
     m\<lparr>m_final_flag := (data ! 0 AND bit_flag_7 \<noteq> 0),
       m_rsv1_flag := (data ! 0 AND bit_flag_6 \<noteq> 0),
       m_rsv2_flag := (data ! 0 AND bit_flag_5 \<noteq> 0),
       m_rsv3_flag := (data ! 0 AND bit_flag_4 \<noteq> 0),
       m_opcode := data ! 0 AND opcode_mask,
       m_mask_flag := (data ! 1 AND bit_flag_7 \<noteq> 0),
       m_payload_len := data ! 1 AND payload_len_mask\<rparr>"

definition parse_ext_payload_len :: "u8 \<Rightarrow> bytes \<Rightarrow> message_details_t \<Rightarrow> message_details_t" where
  "parse_ext_payload_len payload_len data m =
     (if payload_len = websocket_short_ext_len_code then
        m\<lparr>m_ext_payload_len := read_number_from_big_endian_bytes data\<rparr>
      else if payload_len = websocket_long_ext_len_code then
        m\<lparr>m_ext_payload_len := read_number_from_big_endian_bytes data\<rparr>
      else m)"

definition parse_masking_key :: "bool \<Rightarrow> bytes \<Rightarrow> message_details_t \<Rightarrow> message_details_t" where
  "parse_masking_key mask_flag data m =
     (if mask_flag then m\<lparr>m_masking_key := read_number_from_big_endian_bytes data\<rparr> else m)"

definition expect :: "nat \<Rightarrow> parser_state_t \<Rightarrow> ws_parser_t \<Rightarrow> ws_parser_t" where
  "expect sz st p = p\<lparr>m_expected_data := expected_data_reset sz (m_expected_data p), m_current_state := st\<rparr>"

definition process_first_2_bytes :: "ws_parser_t \<Rightarrow> ws_parser_t" where
  "process_first_2_bytes p =
     (let p' = p\<lparr>m_current_msg := parse_first_2_bytes (m_loaded_data (m_expected_data p)) (m_current_msg p)\<rparr>;
          payload_len = m_payload_len (m_current_msg p')
      in if unat payload_len > websocket_max_payload_size_without_ext then
           expect (if payload_len = websocket_short_ext_len_code then websocket_short_ext_payload_length
                   else websocket_long_ext_payload_length) waiting_for_ext_len p'
         else if m_mask_flag (m_current_msg p') then
           expect websocket_masking_key_size waiting_for_mask_key p'
         else expect (unat payload_len) header_parsed_state p')"

definition process_extended_length :: "ws_parser_t \<Rightarrow> ws_parser_t" where
  "process_extended_length p =
     (let p' = p\<lparr>m_current_msg := parse_ext_payload_len (m_payload_len (m_current_msg p))
                   (m_loaded_data (m_expected_data p)) (m_current_msg p)\<rparr>
      in if m_mask_flag (m_current_msg p') then
           expect websocket_masking_key_size waiting_for_mask_key p'
         else p'\<lparr>m_current_state := header_parsed_state\<rparr>)"

definition process_masking_key :: "ws_parser_t \<Rightarrow> ws_parser_t" where
  "process_masking_key p =
     p\<lparr>m_current_msg := parse_masking_key (m_mask_flag (m_current_msg p))
         (m_loaded_data (m_expected_data p)) (m_current_msg p),
       m_current_state := header_parsed_state\<rparr>"

definition all_loaded :: "ws_parser_t \<Rightarrow> ws_parser_t" where
  "all_loaded p = (case m_current_state p of
     waiting_for_first_2_bytes \<Rightarrow> process_first_2_bytes p
   | waiting_for_ext_len \<Rightarrow> process_extended_length p
   | waiting_for_mask_key \<Rightarrow> process_masking_key p
   | header_parsed_state \<Rightarrow> p)"

definition parser_process_byte :: "u8 \<Rightarrow> (ws_parser_t, unit) comp" where
  "parser_process_byte byte =
     bnd (on_member m_expected_data m_expected_data_update (add_byte_and_check_size byte))
       (\<lambda>all. if all then modify all_loaded else ret ())"

fun parser_execute_loop :: "bytes \<Rightarrow> nat \<Rightarrow> (ws_parser_t, nat) comp" where
  "parser_execute_loop [] parsed_bytes = ret parsed_bytes"
| "parser_execute_loop (b # bs) parsed_bytes = (\<lambda>p.
     if m_current_state p \<noteq> header_parsed_state
     then sq (parser_process_byte b) (parser_execute_loop bs (parsed_bytes + 1)) p
     else ret parsed_bytes p)"

definition parser_execute :: "bytes \<Rightarrow> (ws_parser_t, nat) comp" where
  "parser_execute data = parser_execute_loop data 0"

subsection \<open>Masking and writing\<close>

definition mask_bytes :: "u32 \<Rightarrow> bytes" where
  "mask_bytes masking_key =
     [n_bits_from 24 8 masking_key, n_bits_from 16 8 masking_key,
      n_bits_from 8 8 masking_key, n_bits_from 0 8 masking_key]"

function mask_group :: "bytes \<Rightarrow> nat \<Rightarrow> nat \<Rightarrow> bytes \<Rightarrow> nat \<times> bytes" where
  "mask_group msk j i payload =
     (if j < websocket_masking_key_size \<and> i < length payload
      then mask_group msk (j + 1) (i + 1) (payload[i := payload ! i XOR msk ! j])
      else (i, payload))"
  by auto
termination
  by (relation "measure (\<lambda>(msk, j, i, payload). length payload - i)") auto

declare mask_group.simps [simp del]

lemma mask_group_bounds:
  "mask_group msk j i payload = (k, q) \<Longrightarrow> length q = length payload \<and> i \<le> k"
proof (induction msk j i payload arbitrary: k q rule: mask_group.induct)
  case (1 msk j i payload)
  show ?case
    using 1 mask_group.simps [of msk j i payload] by (auto split: if_splits)
qed

function mask_unmask_loop :: "bytes \<Rightarrow> nat \<Rightarrow> bytes \<Rightarrow> bytes" where
  "mask_unmask_loop msk i payload =
     (if i < length payload
      then (case mask_group msk 0 i payload of (k, q) \<Rightarrow> mask_unmask_loop msk k q)
      else payload)"
  by auto
termination
proof (relation "measure (\<lambda>(msk, i, payload). length payload - i)", goal_cases)
  case (2 msk i payload k q)
  from 2 have g: "mask_group msk 0 i payload = (k, q)" by simp
  then have "mask_group msk 1 (i + 1) (payload[i := payload ! i XOR msk ! 0]) = (k, q)"
    using 2(1) by (simp add: mask_group.simps [of msk 0] websocket_masking_key_size_def)
  from mask_group_bounds [OF this] have "length q = length payload" "i < k" by simp_all
  then show ?case using 2(1) by (simp add: diff_less_mono2)
qed simp

declare mask_unmask_loop.simps [simp del]

definition mask_unmask_payload :: "u32 \<Rightarrow> bytes \<Rightarrow> bytes" where
  "mask_unmask_payload masking_key payload = mask_unmask_loop (mask_bytes masking_key) 0 payload"

definition write_flags :: "message_details_t \<Rightarrow> u8" where
  "write_flags m =
     (if m_final_flag m then bit_flag_7 else 0) OR (if m_rsv1_flag m then bit_flag_6 else 0)
     OR (if m_rsv2_flag m then bit_flag_5 else 0) OR (if m_rsv3_flag m then bit_flag_4 else 0)
     OR (m_opcode m AND opcode_mask)"

definition write_length :: "message_details_t \<Rightarrow> bytes \<Rightarrow> bytes" where
  "write_length m result =
     (let byte = (if m_mask_flag m then bit_flag_7 else 0); len = m_payload_len m
      in if len < websocket_short_ext_len_code then result @ [byte OR len]
         else if len = websocket_short_ext_len_code then
           write_number_to_big_endian_bytes websocket_short_ext_payload_length (m_ext_payload_len m)
             (result @ [byte OR websocket_short_ext_len_code])
         else if len = websocket_long_ext_len_code then
           write_number_to_big_endian_bytes websocket_long_ext_payload_length (m_ext_payload_len m)
             (result @ [byte OR websocket_long_ext_len_code])
         else result)"

definition write_message_details :: "message_details_t \<Rightarrow> bytes" where
  "write_message_details m =
     (let result = write_length m [write_flags m]
      in if m_mask_flag m then result @ mask_bytes (m_masking_key m) else result)"


subsection \<open>Masking: byte \<open>n\<close> with key byte \<open>n mod 4\<close>\<close>

lemma mask_group_nth:
  "mask_group msk j i p = (k, q) \<Longrightarrow> j \<le> 4 \<Longrightarrow> i \<le> length p \<Longrightarrow>
     k = i + min (4 - j) (length p - i) \<and> length q = length p
     \<and> (\<forall>n < length p. q ! n = (if i \<le> n \<and> n < k then p ! n XOR msk ! (j + (n - i)) else p ! n))"
proof (induction msk j i p arbitrary: k q rule: mask_group.induct)
  case (1 msk j i p)
  show ?case
  proof (cases "j < 4 \<and> i < length p")
    case True
    let ?p = "p[i := p ! i XOR msk ! j]"
    have r: "mask_group msk (j + 1) (i + 1) ?p = (k, q)"
      using 1(2) True by (simp add: mask_group.simps [of msk j] websocket_masking_key_size_def)
    have ih: "k = i + 1 + min (4 - (j + 1)) (length p - (i + 1))" "length q = length p"
      "\<forall>n < length p. q ! n = (if i + 1 \<le> n \<and> n < k then ?p ! n XOR msk ! (j + 1 + (n - (i + 1))) else ?p ! n)"
      using 1(1) [OF _ r] True by (simp_all add: websocket_masking_key_size_def)
    have k: "k = i + min (4 - j) (length p - i)"
      using ih(1) True by (simp add: min_def) linarith
    moreover have "q ! n = (if i \<le> n \<and> n < k then p ! n XOR msk ! (j + (n - i)) else p ! n)"
      if n: "n < length p" for n
    proof (cases "n = i")
      case True
      then show ?thesis using ih(3) n k \<open>j < 4 \<and> i < length p\<close> by simp
    next
      case False
      then have "j + 1 + (n - (i + 1)) = j + (n - i)" if "i \<le> n" using that by simp
      with False show ?thesis using ih(3) n by auto
    qed
    ultimately show ?thesis using ih(2) by simp
  next
    case False
    then show ?thesis using 1(2-) by (auto simp: mask_group.simps [of msk j] websocket_masking_key_size_def)
  qed
qed

lemma mask_loop_nth:
  "i \<le> length p \<Longrightarrow> length (mask_unmask_loop msk i p) = length p
     \<and> (\<forall>n < length p. mask_unmask_loop msk i p ! n
          = (if i \<le> n then p ! n XOR msk ! ((n - i) mod 4) else p ! n))"
proof (induction msk i p rule: mask_unmask_loop.induct)
  case (1 msk i p)
  show ?case
  proof (cases "i < length p")
    case False
    then show ?thesis by (simp add: mask_unmask_loop.simps [of msk i])
  next
    case True
    obtain k q where g: "mask_group msk 0 i p = (k, q)" by fastforce
    then have q: "k = i + min 4 (length p - i)" "length q = length p"
      "\<And>n. n < length p \<Longrightarrow> q ! n = (if i \<le> n \<and> n < k then p ! n XOR msk ! (n - i) else p ! n)"
      using mask_group_nth [OF g] True by auto
    have step: "mask_unmask_loop msk i p = mask_unmask_loop msk k q"
      using True g by (simp add: mask_unmask_loop.simps [of msk i])
    have "k \<le> length q" using q(1,2) True by simp
    then have ih: "length (mask_unmask_loop msk k q) = length p"
      "\<And>n. n < length p \<Longrightarrow> mask_unmask_loop msk k q ! n = (if k \<le> n then q ! n XOR msk ! ((n - k) mod 4) else q ! n)"
      using 1(1) [OF True g [symmetric]] q(2) by simp_all
    have "(n - k) mod 4 = (n - i) mod 4" if "k \<le> n" "n < length p" for n
    proof -
      have "k = i + 4" using q(1) that True by simp
      then have "n - i = (n - k) + 4" using that by simp
      then show ?thesis by simp
    qed
    moreover have "(n - i) mod 4 = n - i" if "i \<le> n" "n < k" for n using q(1) that by simp
    moreover have "i \<le> k" using q(1) by simp
    ultimately show ?thesis unfolding step using ih q(3) by auto
  qed
qed

lemma mask_unmask_eq:
  "mask_unmask_payload key p = map (\<lambda>n. p ! n XOR mask_bytes key ! (n mod 4)) [0..<length p]"
  using mask_loop_nth [of 0 p "mask_bytes key"] unfolding mask_unmask_payload_def
  by (intro nth_equalityI) simp_all

text \<open>
  Masking a payload is its own inverse: what a client masked with a key is recovered by
  masking it again with the same key, for payloads of every length.\<close>

theorem mask_unmask_involution: "mask_unmask_payload key (mask_unmask_payload key p) = p"
  by (rule nth_equalityI) (simp_all add: mask_unmask_eq xor.assoc)

subsection \<open>The parser step by step\<close>

text \<open>Between calls, either the header is complete or at least one more byte is expected.\<close>

definition parser_ok :: "ws_parser_t \<Rightarrow> bool" where
  "parser_ok p \<longleftrightarrow> header_parsed p \<or> length (m_loaded_data (m_expected_data p)) < m_expected_size (m_expected_data p)"

lemma expect_simps [simp]:
  "m_current_state (expect n st p) = st" "m_current_msg (expect n st p) = m_current_msg p"
  "m_expected_size (m_expected_data (expect n st p)) = n" "m_loaded_data (m_expected_data (expect n st p)) = []"
  by (simp_all add: expect_def expected_data_reset_def)

lemma parser_ok_expect: "0 < n \<Longrightarrow> parser_ok (expect n st p)" "parser_ok (expect n header_parsed_state p)"
  by (simp_all add: parser_ok_def header_parsed_def)

lemma all_loaded_ok: "parser_ok p \<or> \<not> header_parsed p \<Longrightarrow> parser_ok (all_loaded p)"
  by (auto simp: all_loaded_def process_first_2_bytes_def process_extended_length_def process_masking_key_def
      Let_def parser_ok_expect frame_consts header_parsed_def split: parser_state_t.splits)
    (simp_all add: parser_ok_def header_parsed_def)

definition load :: "bytes \<Rightarrow> ws_parser_t \<Rightarrow> ws_parser_t" where
  "load bs p = p\<lparr>m_expected_data := (m_expected_data p)\<lparr>m_loaded_data := m_loaded_data (m_expected_data p) @ bs\<rparr>\<rparr>"

lemma load_simps [simp]:
  "m_current_state (load bs p) = m_current_state p" "m_current_msg (load bs p) = m_current_msg p"
  "m_expected_size (m_expected_data (load bs p)) = m_expected_size (m_expected_data p)"
  "m_loaded_data (m_expected_data (load bs p)) = m_loaded_data (m_expected_data p) @ bs"
  "load bs (load as p) = load (as @ bs) p"
  by (simp_all add: load_def)

lemma process_byte_step:
  assumes "length (m_loaded_data (m_expected_data p)) < m_expected_size (m_expected_data p)"
  shows "parser_process_byte b p =
    (Inr (), if length (m_loaded_data (m_expected_data p)) + 1 = m_expected_size (m_expected_data p)
             then all_loaded (load [b] p) else load [b] p)"
  using assms
  by (auto simp: parser_process_byte_def comp_defs add_byte_and_check_size_def Let_def all_bytes_loaded_def
      load_def)

lemma process_byte_ok:
  assumes "parser_ok p" "\<not> header_parsed p"
  shows "\<exists>p'. parser_process_byte b p = (Inr (), p') \<and> parser_ok p'"
proof -
  have l: "length (m_loaded_data (m_expected_data p)) < m_expected_size (m_expected_data p)"
    using assms by (simp add: parser_ok_def)
  have "parser_ok (all_loaded (load [b] p))"
    using assms(2) by (intro all_loaded_ok) (simp add: header_parsed_def)
  moreover have "parser_ok (load [b] p)"
    if "length (m_loaded_data (m_expected_data p)) + 1 \<noteq> m_expected_size (m_expected_data p)"
    using l that by (simp add: parser_ok_def)
  ultimately show ?thesis by (auto simp: process_byte_step [OF l])
qed

lemma execute_loop_ok:
  "parser_ok p \<Longrightarrow> \<exists>k p'. parser_execute_loop bs n p = (Inr k, p') \<and> parser_ok p' \<and> n \<le> k
     \<and> k \<le> n + length bs \<and> (k < n + length bs \<longrightarrow> header_parsed p')"
proof (induction bs arbitrary: n p)
  case (Cons b bs)
  show ?case
  proof (cases "header_parsed p")
    case True
    then show ?thesis using Cons.prems by (simp add: header_parsed_def ret_apply)
  next
    case False
    obtain p' where p': "parser_process_byte b p = (Inr (), p')" "parser_ok p'"
      using process_byte_ok [OF Cons.prems False] by blast
    then show ?thesis using Cons.IH [OF p'(2), of "n + 1"] False
      by (fastforce simp: header_parsed_def sq_Inr)
  qed
qed (simp add: ret_apply)

inductive parser_reachable :: "ws_parser_t \<Rightarrow> bool" where
  reachable_new: "parser_reachable ws_parser_new"
| reachable_reset: "parser_reachable p \<Longrightarrow> parser_reachable (ws_parser_reset p)"
| reachable_execute: "parser_reachable p \<Longrightarrow> parser_reachable (snd (parser_execute data p))"

lemma parser_reachable_ok: "parser_reachable p \<Longrightarrow> parser_ok p"
proof (induction rule: parser_reachable.induct)
  case (reachable_execute p data)
  then show ?case using execute_loop_ok [of p data 0] by (auto simp: parser_execute_def)
qed (simp_all add: parser_ok_def ws_parser_new_def ws_parser_reset_def expected_data_def
      expected_data_reset_def frame_consts)

text \<open>
  C32. In whatever way a parser was used before, \<open>parser_execute\<close> never throws (the
  exception of \<open>expected_data_t\<close> is unreachable), it takes at most the bytes it was given, and if
  it leaves some, the header is complete.\<close>

theorem parser_never_throws:
  assumes "parser_reachable p"
  shows "\<exists>n p'. parser_execute data p = (Inr n, p') \<and> n \<le> length data
    \<and> (n < length data \<longrightarrow> header_parsed p')"
  using execute_loop_ok [OF parser_reachable_ok [OF assms], of data 0]
  by (auto simp: parser_execute_def)

theorem parser_never_throws_witness:
  "parser_reachable (ws_parser_reset ws_parser_new)
   \<and> (\<exists>n p'. parser_execute [0x81, 0x02, 0x61] (ws_parser_reset ws_parser_new) = (Inr n, p') \<and> n \<le> 3
        \<and> (n < 3 \<longrightarrow> header_parsed p'))"
  using parser_never_throws [of "ws_parser_reset ws_parser_new" "[0x81, 0x02, 0x61]"]
  by (simp add: parser_reachable.intros numeral_3_eq_3)

lemma execute_loop_offset:
  "parser_execute_loop bs (k + n) p
     = (case parser_execute_loop bs n p of (r, p') \<Rightarrow> (map_sum id ((+) k) r, p'))"
proof (induction bs arbitrary: n p)
  case (Cons b bs)
  then show ?case using Cons.IH [of "n + 1"]
    by (auto simp: comp_defs split: prod.splits sum.splits)
qed (simp add: ret_apply)

lemma execute_loop_append:
  "parser_execute_loop (xs @ ys) n = bnd (parser_execute_loop xs n) (parser_execute_loop ys)"
proof (induction xs arbitrary: n)
  case (Cons x xs)
  show ?case
  proof (rule ext)
    fix p
    have parsed: "parser_execute_loop ys n p = (Inr n, p)" if "m_current_state p = header_parsed_state"
      using that by (cases ys) (simp_all add: ret_apply)
    show "parser_execute_loop ((x # xs) @ ys) n p
        = bnd (parser_execute_loop (x # xs) n) (parser_execute_loop ys) p"
      using Cons.IH parsed
      by (cases "m_current_state p = header_parsed_state")
        (auto simp: comp_defs split: prod.splits sum.splits)
  qed
qed simp

text \<open>
  How the input is cut into pieces does not matter: parsing \<open>xs @ ys\<close> in one call is
  parsing \<open>xs\<close> and then \<open>ys\<close>, with the counts of consumed bytes added and the same parser
  afterwards.\<close>

theorem parser_split:
  "parser_execute (xs @ ys) =
     bnd (parser_execute xs) (\<lambda>n. bnd (parser_execute ys) (\<lambda>k. ret (n + k)))"
proof -
  have "parser_execute_loop ys n = bnd (parser_execute_loop ys 0) (\<lambda>k. ret (n + k))" for n
  proof (rule ext)
    fix p
    obtain r p' where r: "parser_execute_loop ys 0 p = (r, p')" by fastforce
    have "parser_execute_loop ys (n + 0) p = (map_sum id ((+) n) r, p')"
      by (simp only: execute_loop_offset [of ys n 0 p] r prod.case)
    then have "parser_execute_loop ys n p = (map_sum id ((+) n) r, p')" by (simp only: add_0_right)
    then show "parser_execute_loop ys n p = bnd (parser_execute_loop ys 0) (\<lambda>k. ret (n + k)) p"
      by (cases r) (simp_all add: bnd_def ret_def r)
  qed
  then have "parser_execute_loop ys = (\<lambda>n. bnd (parser_execute_loop ys 0) (\<lambda>k. ret (n + k)))"
    by (rule ext)
  then show ?thesis unfolding parser_execute_def execute_loop_append by (rule arg_cong)
qed

subsection \<open>Reading back a written header\<close>

lemma execute_load:
  assumes "\<not> header_parsed p" "bs \<noteq> []"
    "length (m_loaded_data (m_expected_data p)) + length bs = m_expected_size (m_expected_data p)"
  shows "parser_execute_loop (bs @ rest) n p = parser_execute_loop rest (n + length bs) (all_loaded (load bs p))"
  using assms
proof (induction bs arbitrary: n p)
  case (Cons b bs)
  then have l: "length (m_loaded_data (m_expected_data p)) < m_expected_size (m_expected_data p)" by simp
  have head: "parser_execute_loop ((b # bs) @ rest) n p = parser_execute_loop (bs @ rest) (n + 1) p'"
    if "parser_process_byte b p = (Inr (), p')" for p'
    using Cons.prems(1) that by (simp add: header_parsed_def sq_def bnd_def)
  show ?case
  proof (cases "bs = []")
    case True
    then have "parser_process_byte b p = (Inr (), all_loaded (load [b] p))"
      using Cons.prems(3) process_byte_step [OF l] by simp
    from head [OF this] show ?thesis using True by simp
  next
    case False
    then have "length bs \<noteq> 0" by simp
    then have "length (m_loaded_data (m_expected_data p)) + 1 \<noteq> m_expected_size (m_expected_data p)"
      using Cons.prems(3) unfolding list.size by linarith
    then have "parser_process_byte b p = (Inr (), load [b] p)" using process_byte_step [OF l] by simp
    then have "parser_execute_loop ((b # bs) @ rest) n p = parser_execute_loop (bs @ rest) (n + 1) (load [b] p)"
      by (rule head)
    also have "\<dots> = parser_execute_loop rest (n + 1 + length bs) (all_loaded (load bs (load [b] p)))"
      using Cons.prems False by (intro Cons.IH) (simp_all add: header_parsed_def)
    finally show ?thesis by simp
  qed
qed simp

definition be_bytes :: "nat \<Rightarrow> 'a::len word \<Rightarrow> bytes" where
  "be_bytes n v = map (\<lambda>i. ucast (drop_bit ((n - i - 1) * 8) v)) [0..<n]"

lemma length_be_bytes [simp]: "length (be_bytes n v) = n"
  by (simp add: be_bytes_def)

lemma be_bytes_Suc: "be_bytes (Suc n) v = be_bytes n (drop_bit 8 v) @ [ucast v]"
proof -
  have "(Suc n - i - 1) * 8 = (n - i - 1) * 8 + 8" if "i < n" for i using that by simp
  then show ?thesis by (simp add: be_bytes_def drop_bit_drop_bit)
qed

lemma read_be_bytes: "read_number_from_big_endian_bytes (be_bytes n v) = take_bit (8 * n) v"
proof (induction n arbitrary: v)
  case 0
  then show ?case by (simp add: be_bytes_def read_number_from_big_endian_bytes_def)
next
  case (Suc n)
  have "read_number_from_big_endian_bytes (be_bytes (Suc n) v)
      = push_bit 8 (take_bit (8 * n) (drop_bit 8 v)) OR ucast (ucast v :: u8)"
    using Suc [of "drop_bit 8 v"] by (simp add: be_bytes_Suc read_number_from_big_endian_bytes_def)
  also have "\<dots> = take_bit (8 * Suc n) v"
    by (rule bit_word_eqI) (auto simp: bit_simps)
  finally show ?case .
qed

lemma take_all: "take_bit 32 (k :: u32) = k" "take_bit 64 (l :: u64) = l"
  using take_bit_length_eq [of k] take_bit_length_eq [of l] by simp_all

lemma take_low: "take_bit n w = w" if "unat w < 2 ^ n" for w :: "'a::len word"
proof -
  have "unat (take_bit n w) = unat w" using that by (simp only: unsigned_take_bit_eq take_bit_nat_eq_self)
  then show ?thesis by (simp only: word_unat_eq_iff)
qed

lemma foldl_snoc_map: "foldl (\<lambda>xs i. xs @ [f i]) xs is = xs @ map f is"
  by (induction "is" arbitrary: xs) simp_all

lemma ucast_and_255: "(ucast (w AND 0xFF :: u64) :: u8) = ucast w"
proof -
  have "w AND 0xFF = w AND mask 8" by (simp add: mask_eq_exp_minus_1)
  then show ?thesis by (simp add: bit_eq_iff bit_simps)
qed

lemma write_be_bytes: "write_number_to_big_endian_bytes n v data = data @ be_bytes n v"
  by (simp add: write_number_to_big_endian_bytes_def foldl_snoc_map be_bytes_def ucast_and_255)

lemma mask_bytes_be: "mask_bytes key = be_bytes 4 key"
  by (simp add: mask_bytes_def be_bytes_def n_bits_from_def upt_rec bit_mask_eq bit_eq_iff bit_simps)

text \<open>
  The headers the writer can write without loss: an opcode of four bits, a payload length code of
  seven bits with an extended length only under its code and within its width, a key only with the
  mask flag. The constructors make such headers.
\<close>

definition details_ok :: "message_details_t \<Rightarrow> bool" where
  "details_ok m \<longleftrightarrow> m_opcode m AND opcode_mask = m_opcode m \<and> m_payload_len m \<le> 127
     \<and> (m_payload_len m < 126 \<longrightarrow> m_ext_payload_len m = 0)
     \<and> (m_payload_len m = 126 \<longrightarrow> m_ext_payload_len m \<le> 0xFFFF)
     \<and> (m_mask_flag m \<or> m_masking_key m = 0)"

definition length_byte :: "message_details_t \<Rightarrow> u8" where
  "length_byte m = (if m_mask_flag m then bit_flag_7 else 0) OR m_payload_len m"

definition ext_bytes :: "message_details_t \<Rightarrow> bytes" where
  "ext_bytes m = (if m_payload_len m = 126 then be_bytes 2 (m_ext_payload_len m)
                  else if m_payload_len m = 127 then be_bytes 8 (m_ext_payload_len m) else [])"

definition key_bytes :: "message_details_t \<Rightarrow> bytes" where
  "key_bytes m = (if m_mask_flag m then be_bytes 4 (m_masking_key m) else [])"

lemma len_cases: "(w :: u8) \<le> 127 \<Longrightarrow> w < 126 \<or> w = 126 \<or> w = 127"
  by (auto simp: word_le_nat_alt word_less_nat_alt word_unat_eq_iff)

lemma write_details_eq:
  assumes "details_ok m"
  shows "write_message_details m = [write_flags m, length_byte m] @ ext_bytes m @ key_bytes m"
  using len_cases [of "m_payload_len m"] assms
  by (auto simp: details_ok_def write_message_details_def write_length_def Let_def mask_bytes_be
      write_be_bytes length_byte_def ext_bytes_def key_bytes_def frame_consts)

lemma test_bit_flags:
  "w AND 0x80 \<noteq> 0 \<longleftrightarrow> bit w 7" "w AND 0x40 \<noteq> 0 \<longleftrightarrow> bit w 6" "w AND 0x20 \<noteq> 0 \<longleftrightarrow> bit w 5"
  "w AND 0x10 \<noteq> 0 \<longleftrightarrow> bit w 4" for w :: u8
  using bit_iff_and_push_bit_not_eq_0 [of w 7] bit_iff_and_push_bit_not_eq_0 [of w 6]
    bit_iff_and_push_bit_not_eq_0 [of w 5] bit_iff_and_push_bit_not_eq_0 [of w 4]
  by (simp_all add: push_bit_eq_mult)

lemma low_bits: "bit (0x0F :: u8) n \<longleftrightarrow> n < 4" "bit (0x7F :: u8) n \<longleftrightarrow> n < 7"
proof -
  have m: "(0x0F :: u8) = mask 4" "(0x7F :: u8) = mask 7" by (simp_all add: mask_eq_exp_minus_1)
  show "bit (0x0F :: u8) n \<longleftrightarrow> n < 4" unfolding m(1) bit_mask_iff by auto
  show "bit (0x7F :: u8) n \<longleftrightarrow> n < 7" unfolding m(2) bit_mask_iff by auto
qed

lemma len_bits:
  assumes "(w :: u8) \<le> 127"
  shows "w AND 0x7F = w" "\<not> bit w 7"
proof -
  have t: "take_bit 7 w = w" using assms by (intro take_low) (simp add: word_le_nat_alt)
  have "(0x7F :: u8) = mask 7" by (simp add: mask_eq_exp_minus_1)
  with t show "w AND 0x7F = w" by (simp add: take_bit_eq_mask)
  have "bit (take_bit 7 w) 7 \<longleftrightarrow> False" by (simp add: bit_simps)
  with t show "\<not> bit w 7" by simp
qed

lemma parse_written_first_2:
  assumes "details_ok m"
  shows "parse_first_2_bytes [write_flags m, length_byte m] message_details_new
    = m\<lparr>m_ext_payload_len := 0, m_masking_key := 0\<rparr>"
proof -
  note ok = assms [unfolded details_ok_def]
  have hi: "bit (m_opcode m AND 0x0F) n = False" if "4 \<le> n" for n using that by (simp only: bit_and_iff low_bits) simp
  have "write_flags m AND 0x0F = m_opcode m AND 0x0F"
    by (simp add: write_flags_def frame_consts bit.conj_disj_distrib2 and.assoc)
  then have "write_flags m AND opcode_mask = m_opcode m" using ok by (simp add: frame_consts)
  moreover have "write_flags m AND bit_flag_7 \<noteq> 0 \<longleftrightarrow> m_final_flag m"
    "write_flags m AND bit_flag_6 \<noteq> 0 \<longleftrightarrow> m_rsv1_flag m"
    "write_flags m AND bit_flag_5 \<noteq> 0 \<longleftrightarrow> m_rsv2_flag m"
    "write_flags m AND bit_flag_4 \<noteq> 0 \<longleftrightarrow> m_rsv3_flag m"
    unfolding frame_consts test_bit_flags using hi by (simp_all add: write_flags_def frame_consts bit_or_iff)
  moreover have "length_byte m AND bit_flag_7 \<noteq> 0 \<longleftrightarrow> m_mask_flag m"
    unfolding frame_consts test_bit_flags using len_bits(2) [of "m_payload_len m"] ok
    by (simp add: length_byte_def frame_consts bit_or_iff)
  moreover have "length_byte m AND payload_len_mask = m_payload_len m"
    using len_bits(1) [of "m_payload_len m"] ok
    by (simp add: length_byte_def frame_consts bit.conj_disj_distrib2)
  ultimately show ?thesis by (simp add: parse_first_2_bytes_def message_details_new_def)
qed



lemma all_loaded_first_2:
  "m_current_state p = waiting_for_first_2_bytes \<Longrightarrow> all_loaded p = process_first_2_bytes p"
  "m_current_state p = waiting_for_ext_len \<Longrightarrow> all_loaded p = process_extended_length p"
  "m_current_state p = waiting_for_mask_key \<Longrightarrow> all_loaded p = process_masking_key p"
  by (simp_all add: all_loaded_def)

lemma execute_parsed: "header_parsed p \<Longrightarrow> parser_execute_loop bs n p = (Inr n, p)"
  by (cases bs) (simp_all add: header_parsed_def ret_apply)

text \<open>The stages of reading a header: what is left to read, and what the message then is.\<close>

lemma read_key:
  assumes "m_current_msg p = m\<lparr>m_masking_key := 0\<rparr>" "m_mask_flag m"
    "m_current_state p = waiting_for_mask_key"
    "m_loaded_data (m_expected_data p) = []" "m_expected_size (m_expected_data p) = 4"
  shows "\<exists>p'. parser_execute_loop (key_bytes m @ rest) n p = (Inr (n + 4), p')
    \<and> header_parsed p' \<and> m_current_msg p' = m"
proof -
  let ?p = "all_loaded (load (be_bytes 4 (m_masking_key m)) p)"
  have r: "read_number_from_big_endian_bytes (be_bytes 4 (m_masking_key m)) = m_masking_key m"
    by (simp add: read_be_bytes take_all)
  have "?p = process_masking_key (load (be_bytes 4 (m_masking_key m)) p)"
    using assms(3) by (intro all_loaded_first_2) simp
  then have p': "header_parsed ?p" "m_current_msg ?p = m"
    using assms(1,2,4) r
    by (simp_all add: process_masking_key_def parse_masking_key_def header_parsed_def)
  have "parser_execute_loop (be_bytes 4 (m_masking_key m) @ rest) n p = parser_execute_loop rest (n + 4) ?p"
    using assms by (subst execute_load) (auto simp: header_parsed_def be_bytes_def)
  then show ?thesis using p' execute_parsed [OF p'(1)] assms(2) by (simp add: key_bytes_def)
qed

lemma read_key_if:
  assumes "m_current_msg p = m\<lparr>m_masking_key := 0\<rparr>" "m_mask_flag m \<or> m_masking_key m = 0"
    "q = (if m_mask_flag m then expect 4 waiting_for_mask_key p else p')"
    "header_parsed p'" "m_current_msg p' = m_current_msg p"
  shows "\<exists>q'. parser_execute_loop (key_bytes m @ rest) n q = (Inr (n + length (key_bytes m)), q')
    \<and> header_parsed q' \<and> m_current_msg q' = m"
proof (cases "m_mask_flag m")
  case True
  then show ?thesis using read_key [of "expect 4 waiting_for_mask_key p" m rest n] assms(1,3)
    by (simp add: key_bytes_def)
next
  case False
  then have "m_current_msg p' = m" using assms(1,2,5) by simp
  then show ?thesis using False assms(3,4) execute_parsed [OF assms(4)] by (simp add: key_bytes_def)
qed

lemma read_ext:
  assumes "m_current_msg p = m\<lparr>m_ext_payload_len := 0, m_masking_key := 0\<rparr>" "details_ok m"
    "m_payload_len m = 126 \<or> m_payload_len m = 127"
    "m_current_state p = waiting_for_ext_len" "m_loaded_data (m_expected_data p) = []"
    "m_expected_size (m_expected_data p) = (if m_payload_len m = 126 then 2 else 8)"
  shows "\<exists>p'. parser_execute_loop (ext_bytes m @ key_bytes m @ rest) n p
      = (Inr (n + length (ext_bytes m) + length (key_bytes m)), p')
    \<and> header_parsed p' \<and> m_current_msg p' = m"
proof -
  let ?p = "load (ext_bytes m) p"
  have "take_bit 16 (m_ext_payload_len m) = m_ext_payload_len m" if "m_ext_payload_len m \<le> 0xFFFF"
    using that by (intro take_low) (simp add: word_le_nat_alt)
  then have r: "read_number_from_big_endian_bytes (ext_bytes m) = m_ext_payload_len m"
    using assms(2,3) by (auto simp: ext_bytes_def read_be_bytes details_ok_def take_all)
  have "ext_bytes m \<noteq> []" "length (ext_bytes m) = m_expected_size (m_expected_data p)"
    using assms(3,6) by (auto simp: ext_bytes_def be_bytes_def)
  then have step: "parser_execute_loop (ext_bytes m @ key_bytes m @ rest) n p
      = parser_execute_loop (key_bytes m @ rest) (n + length (ext_bytes m)) (all_loaded ?p)"
    using assms(4,5) by (intro execute_load) (simp_all add: header_parsed_def)
  define p1 where "p1 = ?p\<lparr>m_current_msg := m\<lparr>m_masking_key := 0\<rparr>\<rparr>"
  have "all_loaded ?p = process_extended_length ?p" using assms(4) by (intro all_loaded_first_2) simp
  also have "\<dots> = (if m_mask_flag m then expect 4 waiting_for_mask_key p1
      else p1\<lparr>m_current_state := header_parsed_state\<rparr>)"
    using assms(1,3,5) r
    by (auto simp: process_extended_length_def parse_ext_payload_len_def p1_def Let_def frame_consts)
  finally have "all_loaded ?p = \<dots>" .
  moreover have "m_current_msg p1 = m\<lparr>m_masking_key := 0\<rparr>" by (simp add: p1_def)
  moreover have "m_mask_flag m \<or> m_masking_key m = 0" using assms(2) by (simp add: details_ok_def)
  ultimately show ?thesis unfolding step
    using read_key_if [of p1 m "all_loaded ?p" "p1\<lparr>m_current_state := header_parsed_state\<rparr>" rest
        "n + length (ext_bytes m)"]
    by (simp add: header_parsed_def)
qed

text \<open>
  C16. The header \<open>write_message_details\<close> writes is the header the parser reads: whatever the
  parser was used for before its reset and whatever bytes follow (the payload), it consumes exactly
  the bytes written and its current message has every field of the one written. This holds of every
  header the writer can represent: four bits of opcode, a seven-bit length code with the extended
  length only under its code and within its width, a key only with the mask flag.\<close>

theorem parse_written_header:
  assumes "details_ok m"
  shows "\<exists>p. parser_execute (write_message_details m @ rest) (ws_parser_reset q)
      = (Inr (length (write_message_details m)), p) \<and> header_parsed p \<and> m_current_msg p = m"
proof -
  let ?q = "ws_parser_reset q" and ?bs = "[write_flags m, length_byte m]"
  let ?m1 = "m\<lparr>m_ext_payload_len := 0, m_masking_key := 0\<rparr>"
  have len: "m_payload_len m < 126 \<or> m_payload_len m = 126 \<or> m_payload_len m = 127"
    using assms by (intro len_cases) (simp add: details_ok_def)
  have q: "m_current_state ?q = waiting_for_first_2_bytes" "m_current_msg ?q = message_details_new"
    "m_loaded_data (m_expected_data ?q) = []" "m_expected_size (m_expected_data ?q) = 2"
    by (simp_all add: ws_parser_reset_def expected_data_reset_def frame_consts)
  define p1 where "p1 = (load ?bs ?q)\<lparr>m_current_msg := ?m1\<rparr>"
  have "parser_execute (write_message_details m @ rest) ?q
      = parser_execute_loop (?bs @ ext_bytes m @ key_bytes m @ rest) 0 ?q"
    by (simp only: parser_execute_def write_details_eq [OF assms] append.assoc)
  also have "\<dots> = parser_execute_loop (ext_bytes m @ key_bytes m @ rest) (0 + length ?bs)
      (all_loaded (load ?bs ?q))"
    using q by (intro execute_load) (simp_all add: header_parsed_def)
  also have "all_loaded (load ?bs ?q) = process_first_2_bytes (load ?bs ?q)"
    using q by (intro all_loaded_first_2) simp
  finally have step: "parser_execute (write_message_details m @ rest) ?q
    = parser_execute_loop (ext_bytes m @ key_bytes m @ rest) 2 (process_first_2_bytes (load ?bs ?q))"
    by (simp add: numeral_2_eq_2)
  have first: "process_first_2_bytes (load ?bs ?q) =
    (if 125 < unat (m_payload_len m) then expect (if m_payload_len m = 126 then 2 else 8) waiting_for_ext_len p1
     else if m_mask_flag m then expect 4 waiting_for_mask_key p1
     else expect (unat (m_payload_len m)) header_parsed_state p1)"
    using q parse_written_first_2 [OF assms]
    by (simp add: process_first_2_bytes_def Let_def frame_consts p1_def)
  show ?thesis
  proof (cases "m_payload_len m < 126")
    case True
    then have l: "\<not> 125 < unat (m_payload_len m)" "ext_bytes m = []" "m_ext_payload_len m = 0"
      using assms by (auto simp: word_less_nat_alt ext_bytes_def details_ok_def)
    then have "m_current_msg p1 = m\<lparr>m_masking_key := 0\<rparr>" by (simp add: p1_def)
    then show ?thesis using l step first assms
      read_key_if [of p1 m _ "expect (unat (m_payload_len m)) header_parsed_state p1" rest 2]
      by (simp add: header_parsed_def details_ok_def write_details_eq)
  next
    case False
    then have l: "m_payload_len m = 126 \<or> m_payload_len m = 127" using len by simp
    then have "125 < unat (m_payload_len m)" by auto
    then have "process_first_2_bytes (load ?bs ?q)
      = expect (if m_payload_len m = 126 then 2 else 8) waiting_for_ext_len p1" by (simp only: first if_True)
    then show ?thesis
      using step read_ext [of "expect (if m_payload_len m = 126 then 2 else 8) waiting_for_ext_len p1" m rest 2]
        assms l
      by (simp add: p1_def write_details_eq)
  qed
qed

theorem parse_written_header_witness:
  "details_ok (message_details_masked final_frame text_frame 300 0x01020304)
   \<and> (\<exists>p. parser_execute (write_message_details (message_details_masked final_frame text_frame 300 0x01020304) @ [0x61])
         (ws_parser_reset ws_parser_new)
       = (Inr (length (write_message_details (message_details_masked final_frame text_frame 300 0x01020304))), p)
     \<and> header_parsed p \<and> m_current_msg p = message_details_masked final_frame text_frame 300 0x01020304)"
proof
  show ok: "details_ok (message_details_masked final_frame text_frame 300 0x01020304)"
    by (simp add: details_ok_def message_details_masked_def init_payload_len_def message_details_new_def
        opcodes frame_consts)
  show "\<exists>p. parser_execute (write_message_details (message_details_masked final_frame text_frame 300 0x01020304) @ [0x61])
         (ws_parser_reset ws_parser_new)
       = (Inr (length (write_message_details (message_details_masked final_frame text_frame 300 0x01020304))), p)
     \<and> header_parsed p \<and> m_current_msg p = message_details_masked final_frame text_frame 300 0x01020304"
    by (rule parse_written_header [OF ok])
qed

lemma message_details_ok:
  assumes "op AND opcode_mask = op"
  shows "details_ok (message_details ff op n)" "details_ok (message_details_masked ff op n key)"
    "details_payload_len (message_details ff op n) = n"
    "details_payload_len (message_details_masked ff op n key) = n"
proof -
  have u: "unat (ucast n :: u8) = unat n" if "unat n \<le> 125"
  proof -
    have "unat (ucast n :: u8) = unat (take_bit 8 n)" by (simp add: unsigned_ucast_eq unsigned_take_bit_eq)
    also have "take_bit 8 n = n" using that by (intro take_low) simp
    finally show ?thesis .
  qed
  moreover have "ucast (ucast n :: u8) = n" if "unat n \<le> 125"
  proof -
    have "ucast (ucast n :: u8) = take_bit 8 n" by (rule bit_word_eqI) (auto simp: bit_simps)
    also have "\<dots> = n" using that by (intro take_low) simp
    finally show ?thesis .
  qed
  ultimately show "details_ok (message_details ff op n)" "details_ok (message_details_masked ff op n key)"
    "details_payload_len (message_details ff op n) = n"
    "details_payload_len (message_details_masked ff op n key) = n"
    using assms
    by (auto simp: message_details_def message_details_masked_def message_details_new_def
        init_payload_len_def details_ok_def details_payload_len_def frame_consts
        word_le_nat_alt word_less_nat_alt word_unat_eq_iff)
qed

subsection \<open>Status codes\<close>

text \<open>
  A close status code survives the wire: what \<open>status_code_from_bin\<close> reads from the two
  bytes of \<open>status_code_to_bin\<close>, with any reason text behind them, is the code.\<close>

theorem status_code_roundtrip: "status_code_from_bin (status_code_to_bin code @ reason) = code"
  by (rule bit_word_eqI)
    (auto simp: status_code_from_bin_def status_code_to_bin_def bit_simps bit_n_bits_from)

end
