(* ===== verification/Restinio_Validator.thy ===== *)
theory Restinio_Validator
  imports Restinio_Utf8 Restinio_Frames
begin

unbundle bit_operations_syntax

text \<open>
  \<open>websocket/impl/ws_protocol_validator.hpp\<close>: \<open>unmasker_t\<close> and \<open>ws_protocol_validator_t\<close>, which
  checks the headers, the order and the payload of the frames of a WebSocket connection and unmasks
  the payload.

  A fragmented, masked text message that arrives in arbitrary pieces is accepted exactly if the text
  it carries is UTF-8 (\<open>text_message_verdict\<close>); a header exactly if it obeys the rules of RFC 6455
  the code checks (\<open>frame_header_verdict\<close>). A ping between two fragments of a text that is split
  within a character is rejected, and \<open>reset\<close> does not make a validator usable again that has seen
  an invalid byte.
\<close>

subsection \<open>Verdicts\<close>

datatype validation_state_t =
    initial_state
  | frame_header_is_valid
  | payload_part_is_valid
  | frame_is_valid
  | invalid_opcode
  | empty_mask_from_client_side
  | non_final_control_frame
  | non_zero_rsv_flags
  | payload_len_is_too_big
  | continuation_frame_without_data_frame
  | new_data_frame_without_finishing_previous
  | invalid_close_code
  | incorrect_utf8_data

definition validation_state_str :: "validation_state_t \<Rightarrow> string" where
  "validation_state_str state = (case state of
     initial_state \<Rightarrow> ''initial_state''
   | frame_header_is_valid \<Rightarrow> ''frame_header_is_valid''
   | payload_part_is_valid \<Rightarrow> ''payload_part_is_valid''
   | frame_is_valid \<Rightarrow> ''frame_is_valid''
   | invalid_opcode \<Rightarrow> ''invalid_opcode''
   | empty_mask_from_client_side \<Rightarrow> ''empty_mask_from_client_side''
   | non_final_control_frame \<Rightarrow> ''non_final_control_frame''
   | non_zero_rsv_flags \<Rightarrow> ''non_zero_rsv_flags''
   | payload_len_is_too_big \<Rightarrow> ''payload_len_is_too_big''
   | continuation_frame_without_data_frame \<Rightarrow> ''continuation_frame_without_data_frame''
   | new_data_frame_without_finishing_previous \<Rightarrow> ''new_data_frame_without_finishing_previous''
   | invalid_close_code \<Rightarrow> ''invalid_close_code''
   | incorrect_utf8_data \<Rightarrow> ''incorrect_utf8_data'')"

definition is_control_frame :: "opcode_t \<Rightarrow> bool" where
  "is_control_frame op \<longleftrightarrow> op = connection_close_frame \<or> op = ping_frame \<or> op = pong_frame"

definition is_data_frame :: "opcode_t \<Rightarrow> bool" where
  "is_data_frame op \<longleftrightarrow> op = text_frame \<or> op = binary_frame"

subsection \<open>\<open>unmasker_t\<close>\<close>

text \<open>\<open>m_mask\<close> of a default-constructed unmasker is not initialised; its contents are an argument.\<close>

record unmasker_t =
  m_mask :: bytes
  m_processed_bytes_count :: u64

definition unmasker_new :: "bytes \<Rightarrow> unmasker_t" where
  "unmasker_new garbage = \<lparr>m_mask = garbage, m_processed_bytes_count = 0\<rparr>"

definition unmasker :: "u32 \<Rightarrow> unmasker_t" where
  "unmasker masking_key = \<lparr>m_mask = mask_bytes masking_key, m_processed_bytes_count = 0\<rparr>"

definition unmask_byte :: "u8 \<Rightarrow> unmasker_t \<Rightarrow> u8 \<times> unmasker_t" where
  "unmask_byte masked_byte u =
     (masked_byte XOR m_mask u ! unat (m_processed_bytes_count u mod 4),
      u\<lparr>m_processed_bytes_count := m_processed_bytes_count u + 1\<rparr>)"

definition unmasker_reset :: "u32 \<Rightarrow> unmasker_t \<Rightarrow> unmasker_t" where
  "unmasker_reset masking_key u = u\<lparr>m_processed_bytes_count := 0, m_mask := mask_bytes masking_key\<rparr>"

subsection \<open>\<open>ws_protocol_validator_t\<close>\<close>

datatype working_state_t = empty_state | processing_frame

datatype previous_data_frame_t = pdf_none | pdf_text | pdf_binary

record ws_validator =
  m_validation_state :: validation_state_t
  m_working_state :: working_state_t
  m_previous_data_frame :: previous_data_frame_t
  m_current_frame :: message_details_t
  m_expected_close_code :: expected_data_t
  m_utf8_checker :: utf8_checker
  m_unmask_flag :: bool
  m_unmasker :: unmasker_t

definition ws_validator_new :: "bool \<Rightarrow> bytes \<Rightarrow> ws_validator" where
  "ws_validator_new do_unmask garbage =
     \<lparr>m_validation_state = initial_state, m_working_state = empty_state,
      m_previous_data_frame = pdf_none, m_current_frame = message_details_new,
      m_expected_close_code = expected_data 0, m_utf8_checker = utf8_checker_new,
      m_unmask_flag = do_unmask, m_unmasker = unmasker_new garbage\<rparr>"

definition set_validation_state :: "validation_state_t \<Rightarrow> ws_validator \<Rightarrow> ws_validator" where
  "set_validation_state state v = v\<lparr>m_validation_state := state\<rparr>"

definition is_state_still_valid :: "ws_validator \<Rightarrow> bool" where
  "is_state_still_valid v \<longleftrightarrow>
     m_validation_state v = initial_state \<or> m_validation_state v = frame_header_is_valid
     \<or> m_validation_state v = payload_part_is_valid \<or> m_validation_state v = frame_is_valid"

definition validate_frame_header :: "message_details_t \<Rightarrow> ws_validator \<Rightarrow> bool \<times> ws_validator" where
  "validate_frame_header frame v =
     (let v = set_validation_state frame_header_is_valid v;
          v = (if \<not> is_valid_opcode (m_opcode frame) then set_validation_state invalid_opcode v
               else if is_control_frame (m_opcode frame) \<and> \<not> m_final_flag frame
                 then set_validation_state non_final_control_frame v
               else if \<not> m_mask_flag frame then set_validation_state empty_mask_from_client_side v
               else if m_rsv1_flag frame \<or> m_rsv2_flag frame \<or> m_rsv3_flag frame
                 then set_validation_state non_zero_rsv_flags v
               else if is_control_frame (m_opcode frame)
                   \<and> unat (details_payload_len frame) > websocket_max_payload_size_without_ext
                 then set_validation_state payload_len_is_too_big v
               else v)
      in (frame_header_is_valid = m_validation_state v, v))"

definition check_previous_frame_type :: "opcode_t \<Rightarrow> ws_validator \<Rightarrow> bool \<times> ws_validator" where
  "check_previous_frame_type op v =
     (if m_previous_data_frame v = pdf_none \<and> op = continuation_frame
      then (False, set_validation_state continuation_frame_without_data_frame v)
      else if m_previous_data_frame v \<noteq> pdf_none \<and> is_data_frame op
      then (False, set_validation_state new_data_frame_without_finishing_previous v)
      else (True, v))"

definition process_new_frame :: "message_details_t \<Rightarrow> (ws_validator, validation_state_t) comp" where
  "process_new_frame frame = (\<lambda>v.
     if m_working_state v \<noteq> empty_state then (Inl (RestinioError ''another frame is processing now''), v)
     else
       let (header_ok, v) = validate_frame_header frame v;
           (ok, v) = (if header_ok then check_previous_frame_type (m_opcode frame) v else (False, v));
           v = (if ok then
                  let v = (if m_opcode frame = text_frame then
                             (if \<not> m_final_flag frame then v\<lparr>m_previous_data_frame := pdf_text\<rparr> else v)
                           else if m_opcode frame = binary_frame then
                             (if \<not> m_final_flag frame then v\<lparr>m_previous_data_frame := pdf_binary\<rparr> else v)
                           else if m_opcode frame = connection_close_frame then
                             v\<lparr>m_expected_close_code := expected_data_reset 2 (m_expected_close_code v)\<rparr>
                           else v);
                      v = v\<lparr>m_current_frame := frame, m_working_state := processing_frame\<rparr>
                  in if m_unmask_flag v
                     then v\<lparr>m_unmasker := unmasker_reset (m_masking_key frame) (m_unmasker v)\<rparr> else v
                else v)
       in (Inr (m_validation_state v), v))"

definition validate_close_code :: "u16 \<Rightarrow> ws_validator \<Rightarrow> ws_validator" where
  "validate_close_code close_code v =
     (if close_code < 1000 \<or> close_code > 1011 \<and> close_code < 3000 \<or> close_code > 4999
      then set_validation_state invalid_close_code v
      else if close_code = 1004 \<or> close_code = 1005 \<or> close_code = 1006
      then set_validation_state invalid_close_code v
      else v)"

text \<open>The call of the UTF-8 checker in \<open>process_payload_byte\<close>, made in two places.\<close>

definition check_utf8_byte :: "u8 \<Rightarrow> ws_validator \<Rightarrow> ws_validator" where
  "check_utf8_byte byte v =
     (case utf8_process_byte byte (m_utf8_checker v) of (ok, c) \<Rightarrow>
        let v = v\<lparr>m_utf8_checker := c\<rparr>
        in if \<not> ok then set_validation_state incorrect_utf8_data v else v)"

definition process_payload_byte :: "u8 \<Rightarrow> (ws_validator, u8) comp" where
  "process_payload_byte byte = (\<lambda>v.
     let (byte, v) = (if m_unmask_flag v
                      then (case unmask_byte byte (m_unmasker v) of (b, u) \<Rightarrow> (b, v\<lparr>m_unmasker := u\<rparr>))
                      else (byte, v))
     in sq
       (if m_opcode (m_current_frame v) = text_frame
          \<or> m_opcode (m_current_frame v) = continuation_frame \<and> m_previous_data_frame v = pdf_text
        then modify (check_utf8_byte byte)
        else if m_opcode (m_current_frame v) = connection_close_frame then
          if \<not> all_bytes_loaded (m_expected_close_code v) then
            bnd (on_member m_expected_close_code m_expected_close_code_update (add_byte_and_check_size byte))
              (\<lambda>loaded. if loaded
                 then modify (\<lambda>v. validate_close_code
                        (read_number_from_big_endian_bytes (m_loaded_data (m_expected_close_code v))) v)
                 else ret ())
          else modify (check_utf8_byte byte)
        else ret ())
       (ret byte) v)"

text \<open>
  The loop over a part of the payload: each byte is replaced by the byte processed from it, up to the
  first that changes the verdict.
\<close>

fun payload_loop :: "bytes \<Rightarrow> (ws_validator, bytes) comp" where
  "payload_loop [] = ret []"
| "payload_loop (b # data) =
     bnd (process_payload_byte b) (\<lambda>c.
       bnd (reads m_validation_state) (\<lambda>state.
         if state \<noteq> payload_part_is_valid then ret (c # data)
         else bnd (payload_loop data) (\<lambda>ds. ret (c # ds))))"

definition process_and_unmask_next_payload_part ::
    "bytes \<Rightarrow> (ws_validator, validation_state_t \<times> bytes) comp" where
  "process_and_unmask_next_payload_part data = (\<lambda>v.
     if m_working_state v = empty_state then (Inl (RestinioError ''current state is empty''), v)
     else if is_state_still_valid v then
       bnd (payload_loop data) (\<lambda>data'. bnd (reads m_validation_state) (\<lambda>state. ret (state, data')))
         (set_validation_state payload_part_is_valid v)
     else (Inr (m_validation_state v, data), v))"

text \<open>The variant that leaves the data as they are has the same loop without the assignment.\<close>

definition process_next_payload_part :: "bytes \<Rightarrow> (ws_validator, validation_state_t) comp" where
  "process_next_payload_part data = (\<lambda>v.
     if m_working_state v = empty_state then (Inl (RestinioError ''current state is empty''), v)
     else if is_state_still_valid v then
       bnd (payload_loop data) (\<lambda>_. reads m_validation_state) (set_validation_state payload_part_is_valid v)
     else (Inr (m_validation_state v), v))"

definition finish_frame :: "ws_validator \<Rightarrow> validation_state_t \<times> ws_validator" where
  "finish_frame v =
     (let v = (if is_state_still_valid v then set_validation_state frame_is_valid v else v);
          v = (if m_final_flag (m_current_frame v) then
                 let v = (if \<not> utf8_finalized (m_utf8_checker v)
                          then set_validation_state incorrect_utf8_data v else v)
                 in v\<lparr>m_utf8_checker := utf8_reset (m_utf8_checker v)\<rparr>
               else v);
          v = v\<lparr>m_working_state := empty_state\<rparr>;
          v = (if m_previous_data_frame v \<noteq> pdf_none
                 \<and> \<not> is_control_frame (m_opcode (m_current_frame v)) \<and> m_final_flag (m_current_frame v)
               then v\<lparr>m_previous_data_frame := pdf_none\<rparr> else v)
      in (m_validation_state v, v\<lparr>m_validation_state := initial_state\<rparr>))"

definition ws_validator_reset :: "ws_validator \<Rightarrow> ws_validator" where
  "ws_validator_reset v =
     v\<lparr>m_validation_state := initial_state, m_working_state := empty_state,
       m_previous_data_frame := pdf_none, m_utf8_checker := utf8_reset (m_utf8_checker v)\<rparr>"

subsection \<open>Unmasking in pieces\<close>

text \<open>The byte of the key for the next byte, and the unmasker after some bytes.\<close>

definition unmask_bytes :: "bytes \<Rightarrow> unmasker_t \<Rightarrow> bytes" where
  "unmask_bytes data u = map (\<lambda>n. data ! n XOR m_mask u ! ((unat (m_processed_bytes_count u) + n) mod 4)) [0..<length data]"

definition unmasker_after :: "nat \<Rightarrow> unmasker_t \<Rightarrow> unmasker_t" where
  "unmasker_after n u = u\<lparr>m_processed_bytes_count := m_processed_bytes_count u + of_nat n\<rparr>"

lemma unmasker_after_0 [simp]: "unmasker_after 0 u = u"
  by (simp add: unmasker_after_def)

lemma unmasker_after_add: "unmasker_after m (unmasker_after n u) = unmasker_after (n + m) u"
  by (simp add: unmasker_after_def add.assoc)

lemma unat_mod4: "unat ((w :: u64) mod 4) = unat w mod 4"
  by (simp add: unat_mod)

lemma count_mod4: "unat ((c :: u64) + of_nat n) mod 4 = (unat c + n) mod 4"
proof -
  have "unat (c + of_nat n) = (unat c + unat (of_nat n :: u64)) mod 2 ^ 64"
    by (simp add: unat_word_ariths)
  also have "\<dots> = (unat c + n) mod 2 ^ 64" by (simp add: unat_of_nat mod_add_right_eq)
  finally have "unat (c + of_nat n) mod 4 = (unat c + n) mod 2 ^ 64 mod 4" by simp
  also have "\<dots> = (unat c + n) mod 4" by (rule mod_mod_cancel) simp
  finally show ?thesis .
qed

lemma unmask_byte_eq:
  "unmask_byte b u = (b XOR m_mask u ! (unat (m_processed_bytes_count u) mod 4), unmasker_after 1 u)"
  by (simp add: unmask_byte_def unmasker_after_def unat_mod4)

lemma unmask_bytes_Cons:
  "unmask_bytes (b # data) u = fst (unmask_byte b u) # unmask_bytes data (unmasker_after 1 u)"
proof (rule nth_equalityI)
  fix i assume "i < length (unmask_bytes (b # data) u)"
  then show "unmask_bytes (b # data) u ! i = (fst (unmask_byte b u) # unmask_bytes data (unmasker_after 1 u)) ! i"
    using count_mod4 [of "m_processed_bytes_count u" 1]
      mod_add_cong [OF count_mod4 [of "m_processed_bytes_count u" 1] refl [of "(i - 1) mod 4"]]
    by (cases i) (simp_all add: unmask_bytes_def unmask_byte_eq unmasker_after_def mod_simps add_ac
        del: upt_Suc)
qed (simp add: unmask_bytes_def)

lemma unmask_bytes_append:
  "unmask_bytes (xs @ ys) u = unmask_bytes xs u @ unmask_bytes ys (unmasker_after (length xs) u)"
proof (induction xs arbitrary: u)
  case (Cons x xs)
  then show ?case by (simp add: unmask_bytes_Cons unmasker_after_add)
qed (simp add: unmask_bytes_def)

lemma unmask_all: "unmask_bytes data (unmasker_reset key u) = mask_unmask_payload key data"
  by (simp add: unmask_bytes_def unmasker_reset_def mask_unmask_eq)


subsection \<open>Headers\<close>

lemma set_validation_state_simps [simp]:
  "m_validation_state (set_validation_state s v) = s"
  "m_working_state (set_validation_state s v) = m_working_state v"
  "m_previous_data_frame (set_validation_state s v) = m_previous_data_frame v"
  "m_current_frame (set_validation_state s v) = m_current_frame v"
  "m_expected_close_code (set_validation_state s v) = m_expected_close_code v"
  "m_utf8_checker (set_validation_state s v) = m_utf8_checker v"
  "m_unmask_flag (set_validation_state s v) = m_unmask_flag v"
  "m_unmasker (set_validation_state s v) = m_unmasker v"
  "set_validation_state s (set_validation_state t v) = set_validation_state s v"
  by (simp_all add: set_validation_state_def)

text \<open>
  The rules of RFC 6455 for the header of a frame from a client, given whether a fragmented message
  is under way: a defined opcode, masked, no reserved bit, control frames whole and short, a data
  frame starts a message and a continuation frame continues one.
\<close>

definition header_obeys_rfc :: "bool \<Rightarrow> message_details_t \<Rightarrow> bool" where
  "header_obeys_rfc fragmented md \<longleftrightarrow>
     unat (m_opcode md) \<in> {0, 1, 2, 8, 9, 10} \<and> m_mask_flag md
     \<and> \<not> m_rsv1_flag md \<and> \<not> m_rsv2_flag md \<and> \<not> m_rsv3_flag md
     \<and> (8 \<le> unat (m_opcode md) \<longrightarrow> m_final_flag md \<and> unat (details_payload_len md) \<le> 125)
     \<and> (unat (m_opcode md) < 8 \<longrightarrow> (m_opcode md = 0 \<longleftrightarrow> fragmented))"

lemma opcode_unat:
  "op = continuation_frame \<longleftrightarrow> unat op = 0" "op = text_frame \<longleftrightarrow> unat op = 1"
  "op = binary_frame \<longleftrightarrow> unat op = 2" "op = connection_close_frame \<longleftrightarrow> unat op = 8"
  "op = ping_frame \<longleftrightarrow> unat op = 9" "op = pong_frame \<longleftrightarrow> unat op = 10"
  by (simp_all add: opcodes word_unat_eq_iff)

lemma header_check:
  "fst (validate_frame_header md v) \<and> fst (check_previous_frame_type (m_opcode md) w)
    \<longleftrightarrow> header_obeys_rfc (m_previous_data_frame w \<noteq> pdf_none) md"
proof -
  have 1: "fst (validate_frame_header md v) \<longleftrightarrow> is_valid_opcode (m_opcode md)
      \<and> (is_control_frame (m_opcode md) \<longrightarrow> m_final_flag md) \<and> m_mask_flag md
      \<and> \<not> m_rsv1_flag md \<and> \<not> m_rsv2_flag md \<and> \<not> m_rsv3_flag md
      \<and> (is_control_frame (m_opcode md) \<longrightarrow> unat (details_payload_len md) \<le> 125)"
    by (auto simp: validate_frame_header_def Let_def frame_consts)
  have 2: "fst (check_previous_frame_type (m_opcode md) w) \<longleftrightarrow>
      (if m_previous_data_frame w = pdf_none then m_opcode md \<noteq> continuation_frame
       else \<not> is_data_frame (m_opcode md))"
    by (simp add: check_previous_frame_type_def)
  have 3: "m_opcode md = 0 \<longleftrightarrow> unat (m_opcode md) = 0" by (simp add: word_unat_eq_iff)
  note defs = header_obeys_rfc_def is_valid_opcode_def is_control_frame_def is_data_frame_def opcode_unat
  consider (valid) "unat (m_opcode md) \<in> {0, 1, 2, 8, 9, 10}"
    | (other) "unat (m_opcode md) \<notin> {0, 1, 2, 8, 9, 10}" by blast
  then show ?thesis
  proof cases
    case valid
    then consider "unat (m_opcode md) = 0" | "unat (m_opcode md) = 1" | "unat (m_opcode md) = 2"
      | "unat (m_opcode md) = 8" | "unat (m_opcode md) = 9" | "unat (m_opcode md) = 10" by auto
    then show ?thesis unfolding 1 2 3 defs by cases (simp_all, blast+)
  next
    case other
    then show ?thesis unfolding 1 2 3 defs by simp
  qed
qed

lemma header_steps:
  "snd (validate_frame_header md v) = set_validation_state (m_validation_state (snd (validate_frame_header md v))) v"
  "fst (validate_frame_header md v) \<longleftrightarrow> m_validation_state (snd (validate_frame_header md v)) = frame_header_is_valid"
  "snd (check_previous_frame_type op v) = (if fst (check_previous_frame_type op v) then v
     else set_validation_state (m_validation_state (snd (check_previous_frame_type op v))) v)"
  "\<not> fst (check_previous_frame_type op v) \<Longrightarrow> m_validation_state (snd (check_previous_frame_type op v)) \<noteq> frame_header_is_valid"
  by (auto simp: validate_frame_header_def check_previous_frame_type_def Let_def)

definition accept_frame :: "message_details_t \<Rightarrow> ws_validator \<Rightarrow> ws_validator" where
  "accept_frame md v =
     v\<lparr>m_validation_state := frame_header_is_valid, m_working_state := processing_frame, m_current_frame := md,
       m_previous_data_frame :=
         (if m_opcode md = text_frame \<and> \<not> m_final_flag md then pdf_text
          else if m_opcode md = binary_frame \<and> \<not> m_final_flag md then pdf_binary
          else m_previous_data_frame v),
       m_expected_close_code :=
         (if m_opcode md = connection_close_frame then expected_data_reset 2 (m_expected_close_code v)
          else m_expected_close_code v),
       m_unmasker := (if m_unmask_flag v then unmasker_reset (m_masking_key md) (m_unmasker v) else m_unmasker v)\<rparr>"

lemma process_new_frame_eq:
  assumes "m_working_state v = empty_state"
  shows "header_obeys_rfc (m_previous_data_frame v \<noteq> pdf_none) md \<Longrightarrow>
      process_new_frame md v = (Inr frame_header_is_valid, accept_frame md v)"
    "\<not> header_obeys_rfc (m_previous_data_frame v \<noteq> pdf_none) md \<Longrightarrow>
      \<exists>s. s \<noteq> frame_header_is_valid \<and> process_new_frame md v = (Inr s, set_validation_state s v)"
proof -
  obtain b1 v1 where 1: "validate_frame_header md v = (b1, v1)" by fastforce
  obtain b2 v2 where 2: "check_previous_frame_type (m_opcode md) v1 = (b2, v2)" by fastforce
  have v1: "v1 = set_validation_state (m_validation_state v1) v" "b1 \<longleftrightarrow> m_validation_state v1 = frame_header_is_valid"
    using header_steps(1,2) [of md v] 1 by simp_all
  have p: "m_previous_data_frame v1 = m_previous_data_frame v" by (subst v1(1)) simp
  have ok: "b1 \<and> b2 \<longleftrightarrow> header_obeys_rfc (m_previous_data_frame v \<noteq> pdf_none) md"
    using header_check [of md v v1] 1 2 p by simp
  note ops = opcodes text_frame_def binary_frame_def connection_close_frame_def
  {
    assume "header_obeys_rfc (m_previous_data_frame v \<noteq> pdf_none) md"
    then have b: "b1" "b2" using ok by auto
    then have "v2 = set_validation_state frame_header_is_valid v"
      using header_steps(3) [of "m_opcode md" v1] 2 v1 by simp
    then show "process_new_frame md v = (Inr frame_header_is_valid, accept_frame md v)"
      using assms 1 2 b
      by (auto simp: process_new_frame_def accept_frame_def Let_def set_validation_state_def ops)
  next
    assume "\<not> header_obeys_rfc (m_previous_data_frame v \<noteq> pdf_none) md"
    then consider "\<not> b1" | "b1" "\<not> b2" using ok by auto
    then show "\<exists>s. s \<noteq> frame_header_is_valid \<and> process_new_frame md v = (Inr s, set_validation_state s v)"
    proof cases
      case 1
      then show ?thesis using assms \<open>validate_frame_header md v = (b1, v1)\<close> v1
        by (intro exI [of _ "m_validation_state v1"]) (simp add: process_new_frame_def)
    next
      case 2
      then have "v2 = set_validation_state (m_validation_state v2) v1" "m_validation_state v2 \<noteq> frame_header_is_valid"
        using header_steps(3,4) [of "m_opcode md" v1] \<open>check_previous_frame_type (m_opcode md) v1 = (b2, v2)\<close> by simp_all
      moreover from this(1) have "v2 = set_validation_state (m_validation_state v2) v"
        using v1(1) by (metis set_validation_state_simps(9))
      ultimately show ?thesis using assms 2 \<open>validate_frame_header md v = (b1, v1)\<close>
          \<open>check_previous_frame_type (m_opcode md) v1 = (b2, v2)\<close>
        by (intro exI [of _ "m_validation_state v2"]) (simp add: process_new_frame_def)
    qed
  }
qed

text \<open>
  A frame header is accepted exactly if it obeys the rules of RFC 6455 for a client's frame
  (in the state the previous frames left); otherwise only the verdict changes, so the validator
  stays ready for the next header.\<close>

theorem frame_header_verdict:
  assumes "m_working_state v = empty_state"
  shows "\<exists>s v'. process_new_frame md v = (Inr s, v')
    \<and> (s = frame_header_is_valid \<longleftrightarrow> header_obeys_rfc (m_previous_data_frame v \<noteq> pdf_none) md)
    \<and> (s \<noteq> frame_header_is_valid \<longrightarrow> v' = set_validation_state s v)"
  using process_new_frame_eq [OF assms, of md]
  by (cases "header_obeys_rfc (m_previous_data_frame v \<noteq> pdf_none) md") auto

theorem frame_header_verdict_witness:
  "m_working_state (ws_validator_new True []) = empty_state
   \<and> (\<exists>s v'. process_new_frame (message_details final_frame ping_frame 0) (ws_validator_new True []) = (Inr s, v')
     \<and> (s = frame_header_is_valid \<longleftrightarrow>
          header_obeys_rfc (m_previous_data_frame (ws_validator_new True []) \<noteq> pdf_none)
            (message_details final_frame ping_frame 0))
     \<and> (s \<noteq> frame_header_is_valid \<longrightarrow> v' = set_validation_state s (ws_validator_new True [])))"
proof
  show w: "m_working_state (ws_validator_new True []) = empty_state" by (simp add: ws_validator_new_def)
  show "\<exists>s v'. process_new_frame (message_details final_frame ping_frame 0) (ws_validator_new True []) = (Inr s, v')
     \<and> (s = frame_header_is_valid \<longleftrightarrow>
          header_obeys_rfc (m_previous_data_frame (ws_validator_new True []) \<noteq> pdf_none)
            (message_details final_frame ping_frame 0))
     \<and> (s \<noteq> frame_header_is_valid \<longrightarrow> v' = set_validation_state s (ws_validator_new True []))"
    by (rule frame_header_verdict [OF w])
qed

subsection \<open>Payload of a text frame\<close>

definition text_mode :: "ws_validator \<Rightarrow> bool" where
  "text_mode v \<longleftrightarrow> m_unmask_flag v \<and> (m_opcode (m_current_frame v) = text_frame
     \<or> m_opcode (m_current_frame v) = continuation_frame \<and> m_previous_data_frame v = pdf_text)"

lemma process_text_byte:
  assumes "text_mode v" "unmask_byte b (m_unmasker v) = (b', u)"
  shows "process_payload_byte b v = (Inr b', check_utf8_byte b' (v\<lparr>m_unmasker := u\<rparr>))"
  using assms by (auto simp: process_payload_byte_def text_mode_def Let_def comp_defs)

lemma payload_loop_text:
  assumes "text_mode v" "m_validation_state v = payload_part_is_valid"
  shows "case utf8_feed (unmask_bytes data (m_unmasker v)) (m_utf8_checker v) of
      Some c \<Rightarrow> payload_loop data v = (Inr (unmask_bytes data (m_unmasker v)),
        v\<lparr>m_utf8_checker := c, m_unmasker := unmasker_after (length data) (m_unmasker v)\<rparr>)
    | None \<Rightarrow> \<exists>ds v'. payload_loop data v = (Inr ds, v') \<and> m_validation_state v' = incorrect_utf8_data"
  using assms
proof (induction data arbitrary: v)
  case Nil
  then show ?case by (simp add: unmask_bytes_def ret_apply)
next
  case (Cons b data)
  obtain b' where b: "unmask_byte b (m_unmasker v) = (b', unmasker_after 1 (m_unmasker v))"
    by (simp add: unmask_byte_eq)
  obtain ok c where c: "utf8_process_byte b' (m_utf8_checker v) = (ok, c)" by fastforce
  note step = process_text_byte [OF Cons.prems(1) b]
  show ?case
  proof (cases ok)
    case False
    then show ?thesis using c b
      by (simp add: unmask_bytes_Cons step bnd_def check_utf8_byte_def ret_apply)
  next
    case True
    let ?v = "v\<lparr>m_unmasker := unmasker_after 1 (m_unmasker v), m_utf8_checker := c\<rparr>"
    have s: "process_payload_byte b v = (Inr b', ?v)" using c True by (simp add: step check_utf8_byte_def)
    have loop: "payload_loop (b # data) v = bnd (payload_loop data) (\<lambda>ds. ret (b' # ds)) ?v"
      using Cons.prems(2) s by (simp add: bnd_def)
    have "text_mode ?v" "m_validation_state ?v = payload_part_is_valid"
      using Cons.prems by (simp_all add: text_mode_def)
    note ih = Cons.IH [OF this]
    show ?thesis
    proof (cases "utf8_feed (unmask_bytes data (unmasker_after 1 (m_unmasker v))) c")
      case None
      then obtain ds v' where "payload_loop data ?v = (Inr ds, v')" "m_validation_state v' = incorrect_utf8_data"
        using ih by auto
      then show ?thesis unfolding loop using None c True b
        by (simp add: unmask_bytes_Cons bnd_def ret_apply)
    next
      case (Some c')
      then show ?thesis unfolding loop using ih c True b
        by (simp add: unmask_bytes_Cons bnd_def ret_apply unmasker_after_add)
    qed
  qed
qed

text \<open>A frame's payload as the connection feeds it: part by part, up to the first bad verdict.\<close>

fun check_parts :: "bytes list \<Rightarrow> (ws_validator, bool) comp" where
  "check_parts [] = ret True"
| "check_parts (p # ps) =
     bnd (process_and_unmask_next_payload_part p) (\<lambda>r.
       if fst r \<noteq> payload_part_is_valid then ret False else check_parts ps)"

definition check_frame :: "message_details_t \<Rightarrow> bytes list \<Rightarrow> (ws_validator, bool) comp" where
  "check_frame md parts =
     bnd (process_new_frame md) (\<lambda>state.
       if state \<noteq> frame_header_is_valid then ret False
       else bnd (check_parts parts) (\<lambda>ok.
         if \<not> ok then ret False
         else (\<lambda>v. case finish_frame v of (state, v') \<Rightarrow> (Inr (state = frame_is_valid), v'))))"

fun check_message :: "(message_details_t \<times> bytes list) list \<Rightarrow> (ws_validator, bool) comp" where
  "check_message [] = ret True"
| "check_message ((md, parts) # frames) =
     bnd (check_frame md parts) (\<lambda>ok. if \<not> ok then ret False else check_message frames)"

lemma check_parts_text:
  assumes "text_mode v" "m_working_state v = processing_frame"
    "m_validation_state v \<in> {frame_header_is_valid, payload_part_is_valid}"
  shows "case utf8_feed (unmask_bytes (concat parts) (m_unmasker v)) (m_utf8_checker v) of
      Some c \<Rightarrow> \<exists>s \<in> {frame_header_is_valid, payload_part_is_valid}. check_parts parts v = (Inr True,
        v\<lparr>m_validation_state := s, m_utf8_checker := c,
          m_unmasker := unmasker_after (length (concat parts)) (m_unmasker v)\<rparr>)
    | None \<Rightarrow> \<exists>v'. check_parts parts v = (Inr False, v')"
  using assms
proof (induction parts arbitrary: v)
  case Nil
  then show ?case by (auto simp: unmask_bytes_def ret_apply)
next
  case (Cons p ps)
  let ?v = "set_validation_state payload_part_is_valid v"
  have valid: "is_state_still_valid v" using Cons.prems(3) by (auto simp: is_state_still_valid_def)
  have part: "process_and_unmask_next_payload_part p v
      = bnd (payload_loop p) (\<lambda>data'. bnd (reads m_validation_state) (\<lambda>state. ret (state, data'))) ?v"
    using Cons.prems(2) valid by (simp add: process_and_unmask_next_payload_part_def)
  have "text_mode ?v" "m_validation_state ?v = payload_part_is_valid"
    using Cons.prems(1) by (simp_all add: text_mode_def)
  note loop = payload_loop_text [OF this, of p]
  show ?case
  proof (cases "utf8_feed (unmask_bytes p (m_unmasker v)) (m_utf8_checker v)")
    case None
    then obtain ds v' where "payload_loop p ?v = (Inr ds, v')" "m_validation_state v' = incorrect_utf8_data"
      using loop by auto
    then have "\<exists>v'. check_parts (p # ps) v = (Inr False, v')" by (simp add: part bnd_def ret_apply)
    then show ?thesis using None by (simp add: unmask_bytes_append utf8_feed_append)
  next
    case (Some c)
    let ?w = "v\<lparr>m_validation_state := payload_part_is_valid, m_utf8_checker := c,
      m_unmasker := unmasker_after (length p) (m_unmasker v)\<rparr>"
    have "payload_loop p ?v = (Inr (unmask_bytes p (m_unmasker v)), ?w)"
      using loop Some by (simp add: set_validation_state_def)
    then have parts: "check_parts (p # ps) v = check_parts ps ?w" by (simp add: part bnd_def ret_apply)
    have "text_mode ?w" "m_working_state ?w = processing_frame"
      "m_validation_state ?w \<in> {frame_header_is_valid, payload_part_is_valid}"
      using Cons.prems(1,2) by (simp_all add: text_mode_def)
    from Cons.IH [OF this] show ?thesis
      unfolding parts using Some
      by (simp add: unmask_bytes_append utf8_feed_append unmasker_after_add add.commute split: option.splits)
  qed
qed


subsection \<open>Text messages\<close>

text \<open>A masked frame of a message, and the frames of a text message: a text frame and continuation
  frames, of which the last and only the last is final.\<close>

definition plain_header :: "opcode_t \<Rightarrow> message_details_t \<Rightarrow> bool" where
  "plain_header op md \<longleftrightarrow> m_opcode md = op \<and> m_mask_flag md
     \<and> \<not> m_rsv1_flag md \<and> \<not> m_rsv2_flag md \<and> \<not> m_rsv3_flag md"

fun text_frames :: "opcode_t \<Rightarrow> (message_details_t \<times> bytes list) list \<Rightarrow> bool" where
  "text_frames op [] = False"
| "text_frames op ((md, parts) # frames) =
     (plain_header op md \<and>
      (if m_final_flag md then frames = [] else text_frames continuation_frame frames))"

definition frame_text :: "message_details_t \<times> bytes list \<Rightarrow> bytes" where
  "frame_text f = mask_unmask_payload (m_masking_key (fst f)) (concat (snd f))"

text \<open>Between messages, with nothing remembered; and before the next frame of a message.\<close>

definition between_frames :: "opcode_t \<Rightarrow> utf8_checker \<Rightarrow> ws_validator \<Rightarrow> bool" where
  "between_frames op c v \<longleftrightarrow> m_working_state v = empty_state \<and> m_unmask_flag v
     \<and> m_previous_data_frame v = (if op = text_frame then pdf_none else pdf_text) \<and> m_utf8_checker v = c"

definition between_messages :: "ws_validator \<Rightarrow> bool" where
  "between_messages v \<longleftrightarrow> between_frames text_frame utf8_checker_new v"

lemma text_header_ok:
  assumes "plain_header op md" "op \<in> {text_frame, continuation_frame}" "between_frames op c v"
  shows "header_obeys_rfc (m_previous_data_frame v \<noteq> pdf_none) md"
  using assms by (auto simp: plain_header_def between_frames_def header_obeys_rfc_def opcodes)

lemma accepted_text_mode:
  assumes "plain_header op md" "op \<in> {text_frame, continuation_frame}" "between_frames op c v"
  shows "text_mode (accept_frame md v)" "m_working_state (accept_frame md v) = processing_frame"
    "m_validation_state (accept_frame md v) = frame_header_is_valid"
    "m_unmasker (accept_frame md v) = unmasker_reset (m_masking_key md) (m_unmasker v)"
    "m_utf8_checker (accept_frame md v) = c" "m_current_frame (accept_frame md v) = md"
    "m_previous_data_frame (accept_frame md v)
      = (if op = text_frame \<and> m_final_flag md then pdf_none else pdf_text)" "m_unmask_flag (accept_frame md v)"
  using assms by (auto simp: accept_frame_def text_mode_def plain_header_def between_frames_def opcodes)

lemma finish_text:
  assumes "m_validation_state v \<in> {frame_header_is_valid, payload_part_is_valid}"
    "m_current_frame v = md" "plain_header op md" "op \<in> {text_frame, continuation_frame}" "m_unmask_flag v"
    "m_previous_data_frame v = (if op = text_frame \<and> m_final_flag md then pdf_none else pdf_text)"
  shows "\<not> m_final_flag md \<Longrightarrow> fst (finish_frame v) = frame_is_valid
      \<and> between_frames continuation_frame (m_utf8_checker v) (snd (finish_frame v))"
    "m_final_flag md \<Longrightarrow> (fst (finish_frame v) = frame_is_valid \<longleftrightarrow> utf8_finalized (m_utf8_checker v))
      \<and> between_frames text_frame (utf8_reset (m_utf8_checker v)) (snd (finish_frame v))"
  using assms
  by (auto simp: finish_frame_def Let_def is_state_still_valid_def between_frames_def plain_header_def
      is_control_frame_def opcodes)

lemma check_frame_text:
  assumes "plain_header op md" "op \<in> {text_frame, continuation_frame}" "between_frames op c v"
  shows "case utf8_feed (frame_text (md, parts)) c of
      Some c' \<Rightarrow> \<exists>v'. check_frame md parts v = (Inr (\<not> m_final_flag md \<or> utf8_finalized c'), v')
        \<and> (if m_final_flag md then between_frames text_frame (utf8_reset c') v'
            else between_frames continuation_frame c' v')
    | None \<Rightarrow> \<exists>v'. check_frame md parts v = (Inr False, v')"
proof -
  let ?v = "accept_frame md v"
  note acc = accepted_text_mode [OF assms]
  have "m_working_state v = empty_state" using assms(3) by (simp add: between_frames_def)
  note new = process_new_frame_eq(1) [OF this text_header_ok [OF assms]]
  have unmasked: "unmask_bytes (concat parts) (m_unmasker ?v) = frame_text (md, parts)"
    by (simp add: acc(4) unmask_all frame_text_def)
  have "m_validation_state ?v \<in> {frame_header_is_valid, payload_part_is_valid}" by (simp add: acc(3))
  note cp = check_parts_text [OF acc(1,2) this, of parts, unfolded unmasked acc(5)]
  show ?thesis
  proof (cases "utf8_feed (frame_text (md, parts)) c")
    case None
    then show ?thesis using cp new by (auto simp: check_frame_def bnd_def ret_apply)
  next
    case (Some c')
    then obtain s where s: "s \<in> {frame_header_is_valid, payload_part_is_valid}"
      "check_parts parts ?v = (Inr True, ?v\<lparr>m_validation_state := s, m_utf8_checker := c',
          m_unmasker := unmasker_after (length (concat parts)) (m_unmasker ?v)\<rparr>)"
      using cp by auto
    define w where "w = ?v\<lparr>m_validation_state := s, m_utf8_checker := c',
          m_unmasker := unmasker_after (length (concat parts)) (m_unmasker ?v)\<rparr>"
    have "m_validation_state w \<in> {frame_header_is_valid, payload_part_is_valid}" "m_current_frame w = md"
      "m_unmask_flag w"
      "m_previous_data_frame w = (if op = text_frame \<and> m_final_flag md then pdf_none else pdf_text)"
      "m_utf8_checker w = c'"
      using s(1) acc by (simp_all add: w_def)
    note fin = finish_text [OF this(1,2) assms(1,2) this(3,4), unfolded this(5)]
    have "check_frame md parts v = (Inr (fst (finish_frame w) = frame_is_valid), snd (finish_frame w))"
      using new s(2) by (simp add: check_frame_def bnd_def w_def [symmetric] split: prod.split)
    then show ?thesis using Some fin by (cases "m_final_flag md") simp_all
  qed
qed

lemma check_text_frames:
  assumes "text_frames op frames" "op \<in> {text_frame, continuation_frame}" "between_frames op c v" "utf8_sound c"
  shows "\<exists>v'. check_message frames v = (Inr (utf8_accepts c (concat (map frame_text frames))), v')
    \<and> (utf8_accepts c (concat (map frame_text frames)) \<longrightarrow> between_messages v')"
  using assms
proof (induction frames arbitrary: op c v)
  case (Cons f frames)
  obtain md parts where f: "f = (md, parts)" by fastforce
  have h: "plain_header op md" using Cons.prems(1) f by simp
  note frame = check_frame_text [OF h Cons.prems(2,3), of parts]
  show ?case
  proof (cases "utf8_feed (frame_text f) c")
    case None
    then show ?thesis using frame by (auto simp: f utf8_accepts_feed utf8_feed_append bnd_def ret_apply)
  next
    case (Some c')
    then have sound: "utf8_sound c'" using Cons.prems(4) by (rule utf8_sound_feed)
    show ?thesis
    proof (cases "m_final_flag md")
      case True
      then have "frames = []" using Cons.prems(1) f by simp
      moreover from True obtain v' where "check_frame md parts v = (Inr (utf8_finalized c'), v')"
        "between_frames text_frame (utf8_reset c') v'" using frame Some f by auto
      ultimately show ?thesis using Some True utf8_reset_sound [OF sound]
        by (auto simp: f utf8_accepts_feed utf8_feed_append bnd_def ret_apply between_messages_def)
    next
      case False
      then obtain v' where v': "check_frame md parts v = (Inr True, v')" "between_frames continuation_frame c' v'"
        using frame Some f by auto
      have "text_frames continuation_frame frames" using Cons.prems(1) f False by simp
      from Cons.IH [OF this _ v'(2) sound] show ?thesis
        using v'(1) Some by (simp add: f utf8_accepts_feed utf8_feed_append bnd_def)
    qed
  qed
qed simp

text \<open>
  C17. The verdict on a text message: however it is fragmented into frames, masked with whatever
  keys, and cut into parts on arrival, the validator accepts it exactly if the text its frames
  carry, unmasked and joined, is UTF-8; and after an accepted message it is again between
  messages, so the theorem applies to the next one.\<close>

theorem text_message_verdict:
  assumes "between_messages v" "text_frames text_frame frames"
  shows "\<exists>v'. check_message frames v = (Inr (valid_utf8 (concat (map frame_text frames))), v')
    \<and> (valid_utf8 (concat (map frame_text frames)) \<longrightarrow> between_messages v')"
  using check_text_frames [of text_frame frames utf8_checker_new v] assms utf8_sound_new
  by (simp add: between_messages_def utf8_checker_decides)

definition sample_frames :: "(message_details_t \<times> bytes list) list" where
  "sample_frames =
     [(message_details_masked not_final_frame text_frame 1 0x01020304, [[0xC3 XOR 0x01]]),
      (message_details_masked final_frame continuation_frame 2 0x05060708, [[0xA9 XOR 0x05], [0x21 XOR 0x06]])]"

theorem text_message_verdict_witness:
  "between_messages (ws_validator_new True []) \<and> text_frames text_frame sample_frames
   \<and> (\<exists>v'. check_message sample_frames (ws_validator_new True [])
         = (Inr (valid_utf8 (concat (map frame_text sample_frames))), v')
       \<and> (valid_utf8 (concat (map frame_text sample_frames)) \<longrightarrow> between_messages v'))"
proof -
  have 1: "between_messages (ws_validator_new True [])"
    by (simp add: between_messages_def between_frames_def ws_validator_new_def)
  have 2: "text_frames text_frame sample_frames"
    by (simp add: sample_frames_def plain_header_def message_details_masked_def init_payload_len_def
        message_details_new_def frame_consts)
  show ?thesis using 1 2 text_message_verdict [OF 1 2] by (intro conjI)
qed

subsection \<open>Close codes\<close>

text \<open>
  The close codes the validator accepts are those of RFC 6455 7.4 that may stand in a close
  frame (1000 to 1003 and 1007 to 1011) and the ranges for libraries and applications (3000 to
  4999); any other sets the verdict to \<open>invalid_close_code\<close>, and nothing else changes.\<close>

theorem close_code_verdict:
  "validate_close_code code v =
     (if unat code \<in> {1000..1003} \<union> {1007..1011} \<union> {3000..4999} then v
      else v\<lparr>m_validation_state := invalid_close_code\<rparr>)"
proof -
  have "(code < 1000 \<or> code > 1011 \<and> code < 3000 \<or> code > 4999) \<or> code = 1004 \<or> code = 1005 \<or> code = 1006
      \<longleftrightarrow> \<not> (unat code \<in> {1000..1003} \<union> {1007..1011} \<union> {3000..4999})"
    by (simp add: word_less_nat_alt word_unat_eq_iff) arith
  then show ?thesis by (auto simp: validate_close_code_def set_validation_state_def)
qed

subsection \<open>What goes wrong\<close>

text \<open>
  A control frame between two fragments of a text message: RFC 6455 allows it anywhere, but
  when the first fragment ended within a character (the checker is not finalized), even an empty ping
  gets the verdict \<open>incorrect_utf8_data\<close>, and the checker forgets the character.\<close>

theorem ping_within_split_character:
  assumes "m_working_state v = empty_state" "\<not> utf8_finalized (m_utf8_checker v)"
    "header_obeys_rfc (m_previous_data_frame v \<noteq> pdf_none) md" "8 \<le> unat (m_opcode md)"
  shows "\<exists>v'. process_new_frame md v = (Inr frame_header_is_valid, v')
    \<and> fst (finish_frame v') = incorrect_utf8_data
    \<and> m_rest_bytes (m_utf8_checker (snd (finish_frame v'))) = 0"
proof -
  have final: "m_final_flag md" using assms(3,4) by (simp add: header_obeys_rfc_def)
  note new = process_new_frame_eq(1) [OF assms(1,3)]
  have "m_current_frame (accept_frame md v) = md" "m_utf8_checker (accept_frame md v) = m_utf8_checker v"
    by (simp_all add: accept_frame_def)
  then have "fst (finish_frame (accept_frame md v)) = incorrect_utf8_data"
    "m_rest_bytes (m_utf8_checker (snd (finish_frame (accept_frame md v)))) = 0"
    using final assms(2) by (simp_all add: finish_frame_def Let_def utf8_reset_def)
  then show ?thesis using new by blast
qed

definition mid_character :: ws_validator where
  "mid_character = (ws_validator_new True [])\<lparr>m_previous_data_frame := pdf_text,
     m_utf8_checker := \<lparr>m_current_symbol = 3, m_rest_bytes = 1, m_state = Valid\<rparr>\<rparr>"

theorem ping_within_split_character_witness:
  "m_working_state mid_character = empty_state \<and> \<not> utf8_finalized (m_utf8_checker mid_character)
   \<and> header_obeys_rfc (m_previous_data_frame mid_character \<noteq> pdf_none)
       (message_details_masked final_frame ping_frame 0 0) \<and> 8 \<le> unat (m_opcode (message_details_masked final_frame ping_frame 0 0))
   \<and> (\<exists>v'. process_new_frame (message_details_masked final_frame ping_frame 0 0) mid_character
         = (Inr frame_header_is_valid, v')
       \<and> fst (finish_frame v') = incorrect_utf8_data
       \<and> m_rest_bytes (m_utf8_checker (snd (finish_frame v'))) = 0)"
proof -
  let ?md = "message_details_masked final_frame ping_frame 0 0"
  have 1: "m_working_state mid_character = empty_state" by (simp add: mid_character_def ws_validator_new_def)
  have 2: "\<not> utf8_finalized (m_utf8_checker mid_character)" by (simp add: mid_character_def utf8_finalized_def)
  have 3: "header_obeys_rfc (m_previous_data_frame mid_character \<noteq> pdf_none) ?md" "8 \<le> unat (m_opcode ?md)"
    by (simp_all add: header_obeys_rfc_def message_details_masked_def init_payload_len_def message_details_new_def
        frame_consts opcodes details_payload_len_def)
  show ?thesis using 1 2 3 ping_within_split_character [OF 1 2 3] by (intro conjI)
qed

text \<open>
  \<open>reset()\<close> after a frame with an invalid byte does not make the validator usable: its UTF-8
  checker stays in its rejecting state, so whatever byte the next text frame starts with, except the
  first byte of a three or four byte character (or \<open>0xF8\<close>, \<open>0xFC\<close>), is rejected, although a
  newly made validator would accept it.\<close>

theorem reset_keeps_rejecting:
  assumes "m_state (m_utf8_checker v) \<in> {Invalid, Overlong}" "b \<notin> {0xE0, 0xF0, 0xF8, 0xFC}"
  shows "fst (utf8_process_byte b (m_utf8_checker (ws_validator_reset v))) = False"
  using assms
  by (auto simp: ws_validator_reset_def utf8_reset_def utf8_process_byte_def check_overlong_def Let_def)

theorem reset_keeps_rejecting_witness:
  "(\<exists>v. m_state (m_utf8_checker v) \<in> {Invalid, Overlong}
     \<and> fst (utf8_process_byte 0x61 (m_utf8_checker (ws_validator_reset v))) = False)"
  by (rule exI [of _ "(ws_validator_new True [])\<lparr>m_utf8_checker := \<lparr>m_current_symbol = 0, m_rest_bytes = 0, m_state = Invalid\<rparr>\<rparr>"])
    (use reset_keeps_rejecting [of "(ws_validator_new True [])\<lparr>m_utf8_checker := \<lparr>m_current_symbol = 0, m_rest_bytes = 0, m_state = Invalid\<rparr>\<rparr>" "0x61"] in simp)

end
