(* ===== verification/Restinio_Buffers.thy ===== *)
theory Restinio_Buffers
  imports Restinio_Bytes
begin

text \<open>
  What restinio writes to a socket: write groups (\<open>buffers.hpp\<close>), the context that turns the
  current group into write operations (\<open>impl/write_group_output_ctx.hpp\<close>) and the input buffer
  (\<open>impl/fixed_buffer.hpp\<close>).

  A writable item is a buffer of bytes or a file operation of an opaque type \<open>'f\<close>; an after-write
  notificator is user code, of an opaque type \<open>'n\<close>. Its calls are recorded in a log, and an argument
  \<open>cb\<close> tells whether a call throws.
\<close>

subsection \<open>\<open>write_group_t\<close>\<close>

datatype 'f writable_item = Trivial_item bytes | File_item 'f

definition is_trivial :: "'f writable_item \<Rightarrow> bool" where
  "is_trivial item = (case item of Trivial_item _ \<Rightarrow> True | File_item _ \<Rightarrow> False)"

definition item_buf :: "'f writable_item \<Rightarrow> bytes" where
  "item_buf item = (case item of Trivial_item bs \<Rightarrow> bs | File_item _ \<Rightarrow> [])"

record ('f, 'n) write_group =
  m_items :: "'f writable_item list"
  m_status_line_size :: nat
  m_after_write_notificator :: "'n option"

definition write_group :: "'f writable_item list \<Rightarrow> ('f, 'n) write_group" where
  "write_group items = \<lparr>m_items = items, m_status_line_size = 0, m_after_write_notificator = None\<rparr>"

definition set_status_line_size :: "nat \<Rightarrow> (('f, 'n) write_group, unit) comp" where
  "set_status_line_size n = (\<lambda>wg.
     if n \<noteq> 0 then
       if m_items wg = [] then
         (Inl (RestinioError ''cannot set status line size for empty write group''), wg)
       else if \<not> is_trivial (hd (m_items wg)) then
         (Inl (RestinioError (''cannot set status line size for write group: first writable item must be '' @ [CHR 0x27]
           @ ''trivial_write_operation'' @ [CHR 0x27])), wg)
       else if length (item_buf (hd (m_items wg))) < n then
         (Inl (RestinioError ''cannot set status line size for write group: first writable item size is less than provided value''), wg)
       else (Inr (), wg\<lparr>m_status_line_size := n\<rparr>)
     else (Inr (), wg))"

definition set_after_write_notificator :: "'n option \<Rightarrow> ('f, 'n) write_group \<Rightarrow> ('f, 'n) write_group" where
  "set_after_write_notificator notificator wg = wg\<lparr>m_after_write_notificator := notificator\<rparr>"

definition has_after_write_notificator :: "('f, 'n) write_group \<Rightarrow> bool" where
  "has_after_write_notificator wg \<longleftrightarrow> m_after_write_notificator wg \<noteq> None"

text \<open>The error codes a notificator gets, and the log of the calls.\<close>

datatype io_status =
    no_error
  | system_error int
  | write_was_not_executed
  | write_group_destroyed_passively

type_synonym 'n notices = "('n \<times> io_status) list"

definition invoke_after_write_notificator_if_exists ::
    "('n \<Rightarrow> io_status \<Rightarrow> exn option) \<Rightarrow> io_status \<Rightarrow> (('f, 'n) write_group \<times> 'n notices, unit) comp" where
  "invoke_after_write_notificator_if_exists cb ec = (\<lambda>(wg, log).
     case m_after_write_notificator wg of
       None \<Rightarrow> (Inr (), wg, log)
     | Some n \<Rightarrow>
         let wg = wg\<lparr>m_after_write_notificator := None\<rparr>; log = log @ [(n, ec)]
         in (case cb n ec of None \<Rightarrow> (Inr (), wg, log) | Some e \<Rightarrow> (Inl e, wg, log)))"

text \<open>The destructor: a notificator that was never called is told so; what it throws is suppressed.\<close>

definition write_group_destroy :: "('f, 'n) write_group \<Rightarrow> 'n notices \<Rightarrow> 'n notices" where
  "write_group_destroy wg log =
     (case m_after_write_notificator wg of None \<Rightarrow> log | Some n \<Rightarrow> log @ [(n, write_group_destroyed_passively)])"

definition write_group_reset :: "('f, 'n) write_group \<Rightarrow> ('f, 'n) write_group" where
  "write_group_reset wg = wg\<lparr>m_items := [], m_status_line_size := 0, m_after_write_notificator := None\<rparr>"

definition write_group_merge :: "('f, 'n) write_group \<Rightarrow> ('f, 'n) write_group \<Rightarrow> ('f, 'n) write_group" where
  "write_group_merge second wg =
     wg\<lparr>m_items := m_items wg @ m_items second, m_after_write_notificator := m_after_write_notificator second\<rparr>"

subsection \<open>\<open>write_group_output_ctx_t\<close>\<close>

text \<open>\<open>asio_ns::detail::max_iov_len\<close> depends on the platform and is an argument.\<close>

definition max_iov_len :: "nat \<Rightarrow> nat" where
  "max_iov_len asio_max_iov_len = min asio_max_iov_len 64"

record ('f, 'n) write_output_ctx =
  m_current_wg :: "('f, 'n) write_group option"
  m_next_writable_item_index :: nat
  m_asio_bufs :: "bytes list"

definition write_output_ctx_new :: "('f, 'n) write_output_ctx" where
  "write_output_ctx_new = \<lparr>m_current_wg = None, m_next_writable_item_index = 0, m_asio_bufs = []\<rparr>"

datatype 'f write_operation =
    none_write_operation
  | trivial_write_operation "bytes list" nat
  | file_write_operation 'f

definition transmitting :: "('f, 'n) write_output_ctx \<Rightarrow> bool" where
  "transmitting ctx \<longleftrightarrow> m_current_wg ctx \<noteq> None"

definition start_next_write_group ::
    "('f, 'n) write_group option \<Rightarrow> ('f, 'n) write_output_ctx \<Rightarrow> ('f, 'n) write_output_ctx" where
  "start_next_write_group next_wg ctx = ctx\<lparr>m_current_wg := next_wg\<rparr>"

text \<open>The loop of \<open>prepare_trivial_buffers_wo\<close>: the index, the buffers and their total size.\<close>

function gather_trivial :: "nat \<Rightarrow> 'f writable_item list \<Rightarrow> nat \<Rightarrow> bytes list \<Rightarrow> nat \<Rightarrow> nat \<times> bytes list \<times> nat" where
  "gather_trivial max_len items i bufs total_size =
     (if i < length items \<and> is_trivial (items ! i) \<and> max_len > length bufs
      then gather_trivial max_len items (i + 1) (bufs @ [item_buf (items ! i)])
             (total_size + length (item_buf (items ! i)))
      else (i, bufs, total_size))"
  by auto
termination
  by (relation "measure (\<lambda>(max_len, items, i, bufs, total_size). length items - i)") auto

declare gather_trivial.simps [simp del]

definition prepare_trivial_buffers_wo ::
    "nat \<Rightarrow> ('f, 'n) write_group \<Rightarrow> (('f, 'n) write_output_ctx, 'f write_operation) comp" where
  "prepare_trivial_buffers_wo asio_max wg = (\<lambda>ctx.
     case gather_trivial (max_iov_len asio_max) (m_items wg) (m_next_writable_item_index ctx) [] 0 of
       (i, bufs, total_size) \<Rightarrow>
         let ctx = ctx\<lparr>m_next_writable_item_index := i, m_asio_bufs := bufs\<rparr>
         in if bufs = [] then (Inl AssertionFailed, ctx)
            else (Inr (trivial_write_operation bufs total_size), ctx))"

definition extract_next_write_operation ::
    "nat \<Rightarrow> (('f, 'n) write_output_ctx, 'f write_operation) comp" where
  "extract_next_write_operation asio_max = (\<lambda>ctx.
     case m_current_wg ctx of
       None \<Rightarrow> (Inl AssertionFailed, ctx)
     | Some wg \<Rightarrow>
         if m_next_writable_item_index ctx < length (m_items wg) then
           (case m_items wg ! m_next_writable_item_index ctx of
              Trivial_item _ \<Rightarrow> prepare_trivial_buffers_wo asio_max wg ctx
            | File_item f \<Rightarrow>
                (Inr (file_write_operation f),
                 ctx\<lparr>m_next_writable_item_index := m_next_writable_item_index ctx + 1\<rparr>))
         else (Inr none_write_operation, ctx))"

definition reset_write_group :: "('f, 'n) write_output_ctx \<Rightarrow> ('f, 'n) write_output_ctx" where
  "reset_write_group ctx = ctx\<lparr>m_current_wg := None, m_next_writable_item_index := 0\<rparr>"

text \<open>What the notificator throws is rethrown as restinio's exception (the message is the one the
  library formats; the text of the caught exception is not modelled).\<close>

definition invoke_after_write_notificator_if_necessary ::
    "('n \<Rightarrow> io_status \<Rightarrow> exn option) \<Rightarrow> io_status \<Rightarrow> (('f, 'n) write_output_ctx \<times> 'n notices, unit) comp" where
  "invoke_after_write_notificator_if_necessary cb ec = (\<lambda>(ctx, log).
     case m_current_wg ctx of
       None \<Rightarrow> (Inl AssertionFailed, ctx, log)
     | Some wg \<Rightarrow>
         (case invoke_after_write_notificator_if_exists cb ec (wg, log) of
            (Inr _, wg, log) \<Rightarrow> (Inr (), ctx\<lparr>m_current_wg := Some wg\<rparr>, log)
          | (Inl _, wg, log) \<Rightarrow>
              (Inl (RestinioError ''after write callback failed''), reset_write_group ctx, log)))"

definition fail_write_group ::
    "('n \<Rightarrow> io_status \<Rightarrow> exn option) \<Rightarrow> io_status \<Rightarrow> (('f, 'n) write_output_ctx \<times> 'n notices, unit) comp" where
  "fail_write_group cb ec =
     sq (invoke_after_write_notificator_if_necessary cb ec)
        (modify (\<lambda>(ctx, log). (ctx\<lparr>m_current_wg := None\<rparr>, log)))"

definition finish_write_group ::
    "('n \<Rightarrow> io_status \<Rightarrow> exn option) \<Rightarrow> (('f, 'n) write_output_ctx \<times> 'n notices, unit) comp" where
  "finish_write_group cb =
     sq (invoke_after_write_notificator_if_necessary cb no_error)
        (modify (\<lambda>(ctx, log). (reset_write_group ctx, log)))"

subsection \<open>\<open>fixed_buffer_t\<close>\<close>

text \<open>The capacity, the bytes of the buffer, and the window of the bytes not yet consumed.\<close>

record fixed_buffer =
  m_buf :: bytes
  m_ready_pos :: nat
  m_ready_length :: nat

definition fixed_buffer :: "nat \<Rightarrow> fixed_buffer" where
  "fixed_buffer sz = \<lparr>m_buf = replicate sz 0, m_ready_pos = 0, m_ready_length = 0\<rparr>"

text \<open>What the socket reads is stored at the front of the buffer, then \<open>obtained_bytes\<close> is called.\<close>

definition store_read :: "bytes \<Rightarrow> fixed_buffer \<Rightarrow> fixed_buffer" where
  "store_read data b = b\<lparr>m_buf := data @ drop (length data) (m_buf b)\<rparr>"

definition obtained_bytes :: "nat \<Rightarrow> fixed_buffer \<Rightarrow> fixed_buffer" where
  "obtained_bytes n b = b\<lparr>m_ready_length := n, m_ready_pos := 0\<rparr>"

definition consumed_bytes :: "nat \<Rightarrow> fixed_buffer \<Rightarrow> fixed_buffer" where
  "consumed_bytes n b = b\<lparr>m_ready_length := m_ready_length b - n, m_ready_pos := m_ready_pos b + n\<rparr>"

definition buffer_length :: "fixed_buffer \<Rightarrow> nat" where
  "buffer_length b = m_ready_length b"

definition buffer_bytes :: "fixed_buffer \<Rightarrow> bytes" where
  "buffer_bytes b = take (m_ready_length b) (drop (m_ready_pos b) (m_buf b))"

lemma buffer_obtained:
  "buffer_bytes (obtained_bytes (length data) (store_read data b)) = data"
  "buffer_length (obtained_bytes n b) = n"
  by (simp_all add: buffer_bytes_def obtained_bytes_def store_read_def buffer_length_def)

lemma buffer_consumed:
  assumes "n \<le> buffer_length b"
  shows "buffer_bytes (consumed_bytes n b) = drop n (buffer_bytes b)"
    "buffer_length (consumed_bytes n b) = buffer_length b - n"
  using assms by (simp_all add: buffer_bytes_def consumed_bytes_def buffer_length_def drop_take add.commute)

subsection \<open>Writing a group completely\<close>

text \<open>The write operations of the current group, extracted until there is none left.\<close>

lemma gather_trivial_eq:
  "gather_trivial m items i bufs sz =
     (let part = take (m - length bufs) (takeWhile is_trivial (drop i items))
      in (i + length part, bufs @ map item_buf part, sz + sum_list (map (length \<circ> item_buf) part)))"
proof (induction m items i bufs sz rule: gather_trivial.induct)
  case (1 m items i bufs sz)
  show ?case
  proof (cases "i < length items \<and> is_trivial (items ! i) \<and> m > length bufs")
    case True
    then have "drop i items = items ! i # drop (i + 1) items" by (simp add: Cons_nth_drop_Suc)
    moreover have "m - length bufs = Suc (m - length (bufs @ [item_buf (items ! i)]))"
      using True by (auto simp: Suc_diff_Suc)
    ultimately have part: "take (m - length bufs) (takeWhile is_trivial (drop i items)) =
        items ! i # take (m - length (bufs @ [item_buf (items ! i)])) (takeWhile is_trivial (drop (i + 1) items))"
      using True by simp
    show ?thesis
      using 1 True by (simp add: gather_trivial.simps [of m items i] Let_def part del: length_append)
  next
    case False
    then consider "length items \<le> i" | "i < length items" "\<not> is_trivial (items ! i)" | "m \<le> length bufs"
      by linarith
    then have part: "take (m - length bufs) (takeWhile is_trivial (drop i items)) = []"
      by cases (simp_all flip: Cons_nth_drop_Suc)
    have "gather_trivial m items i bufs sz = (i, bufs, sz)"
      by (subst gather_trivial.simps) (simp only: False if_False)
    then show ?thesis by (simp only: part) (simp add: Let_def)
  qed
qed

text \<open>The items an operation writes.\<close>

fun operation_items :: "'f write_operation \<Rightarrow> 'f writable_item list" where
  "operation_items none_write_operation = []"
| "operation_items (trivial_write_operation bufs n) = map Trivial_item bufs"
| "operation_items (file_write_operation f) = [File_item f]"

lemma trivial_items: "list_all is_trivial items \<Longrightarrow> map (Trivial_item \<circ> item_buf) items = items"
  by (induction items) (auto simp: is_trivial_def item_buf_def split: writable_item.splits)

lemma takeWhile_trivial: "list_all is_trivial (take n (takeWhile is_trivial items))"
  by (auto simp: list_all_iff dest!: in_set_takeD set_takeWhileD)

lemma extract_step:
  assumes "m_current_wg ctx = Some wg" "0 < asio_max" "m_next_writable_item_index ctx < length (m_items wg)"
  shows "\<exists>op ctx'. extract_next_write_operation asio_max ctx = (Inr op, ctx') \<and> op \<noteq> none_write_operation
    \<and> m_current_wg ctx' = Some wg
    \<and> drop (m_next_writable_item_index ctx) (m_items wg)
        = operation_items op @ drop (m_next_writable_item_index ctx') (m_items wg)
    \<and> m_next_writable_item_index ctx < m_next_writable_item_index ctx'
    \<and> (\<forall>bufs n. op = trivial_write_operation bufs n \<longrightarrow>
         bufs \<noteq> [] \<and> length bufs \<le> 64 \<and> n = length (concat bufs))"
proof -
  let ?i = "m_next_writable_item_index ctx" and ?items = "m_items wg"
  have d: "drop ?i ?items = ?items ! ?i # drop (?i + 1) ?items" using assms(3) by (simp add: Cons_nth_drop_Suc)
  show ?thesis
  proof (cases "?items ! ?i")
    case (File_item f)
    then show ?thesis using assms d by (simp add: extract_next_write_operation_def)
  next
    case (Trivial_item bs)
    define part where "part = take (max_iov_len asio_max) (takeWhile is_trivial (drop ?i ?items))"
    have "0 < max_iov_len asio_max" using assms(2) by (simp add: max_iov_len_def)
    moreover have "is_trivial (?items ! ?i)" by (simp add: Trivial_item is_trivial_def)
    ultimately have ne: "part \<noteq> []" by (simp add: part_def d)
    have len: "length part \<le> 64" by (simp add: part_def max_iov_len_def)
    have t: "map Trivial_item (map item_buf part) = part"
      using trivial_items [OF takeWhile_trivial] by (simp add: part_def)
    have "takeWhile is_trivial (drop ?i ?items) @ dropWhile is_trivial (drop ?i ?items) = drop ?i ?items" by simp
    then have "part = take (length part) (drop ?i ?items)"
      by (metis part_def append_take_drop_id append.assoc append_eq_conv_conj)
    then have rest: "drop ?i ?items = part @ drop (?i + length part) ?items"
      by (metis append_take_drop_id drop_drop add.commute)
    have sz: "sum_list (map (length \<circ> item_buf) part) = length (concat (map item_buf part))"
      by (induction part) simp_all
    have "extract_next_write_operation asio_max ctx =
      (Inr (trivial_write_operation (map item_buf part) (length (concat (map item_buf part)))),
       ctx\<lparr>m_next_writable_item_index := ?i + length part, m_asio_bufs := map item_buf part\<rparr>)"
      using assms Trivial_item ne sz
      by (simp add: extract_next_write_operation_def prepare_trivial_buffers_wo_def gather_trivial_eq Let_def
          part_def)
    then show ?thesis using assms(1) ne len t rest by simp
  qed
qed

fun extract_all :: "nat \<Rightarrow> nat \<Rightarrow> ('f, 'n) write_output_ctx \<Rightarrow> 'f write_operation list option" where
  "extract_all 0 asio_max ctx = None"
| "extract_all (Suc fuel) asio_max ctx =
     (case extract_next_write_operation asio_max ctx of
        (Inr op, ctx') \<Rightarrow>
          if op = none_write_operation then Some []
          else map_option (Cons op) (extract_all fuel asio_max ctx')
      | (Inl _, _) \<Rightarrow> None)"

fun gathered :: "'f write_operation \<Rightarrow> bool" where
  "gathered none_write_operation = False"
| "gathered (trivial_write_operation bufs n) = (bufs \<noteq> [] \<and> length bufs \<le> 64 \<and> n = length (concat bufs))"
| "gathered (file_write_operation f) = True"

lemma extract_all_from:
  assumes "m_current_wg ctx = Some wg" "0 < asio_max"
    "length (m_items wg) - m_next_writable_item_index ctx < fuel"
  shows "\<exists>ops. extract_all fuel asio_max ctx = Some ops
    \<and> concat (map operation_items ops) = drop (m_next_writable_item_index ctx) (m_items wg) \<and> list_all gathered ops"
  using assms
proof (induction fuel arbitrary: ctx)
  case (Suc fuel)
  show ?case
  proof (cases "m_next_writable_item_index ctx < length (m_items wg)")
    case True
    obtain op ctx' where op: "extract_next_write_operation asio_max ctx = (Inr op, ctx')"
      "op \<noteq> none_write_operation" "m_current_wg ctx' = Some wg"
      "drop (m_next_writable_item_index ctx) (m_items wg)
        = operation_items op @ drop (m_next_writable_item_index ctx') (m_items wg)"
      "m_next_writable_item_index ctx < m_next_writable_item_index ctx'"
      "\<forall>bufs n. op = trivial_write_operation bufs n \<longrightarrow> bufs \<noteq> [] \<and> length bufs \<le> 64 \<and> n = length (concat bufs)"
      using extract_step [OF Suc.prems(1,2) True] by blast
    have "length (m_items wg) - m_next_writable_item_index ctx' < fuel" using op(5) Suc.prems(3) True by linarith
    from Suc.IH [OF op(3) Suc.prems(2) this] obtain ops where
      "extract_all fuel asio_max ctx' = Some ops" "list_all gathered ops"
      "concat (map operation_items ops) = drop (m_next_writable_item_index ctx') (m_items wg)" by blast
    moreover have "gathered op" using op(2,6) by (cases op) simp_all
    ultimately show ?thesis using op(1,2,4) by simp
  next
    case False
    then show ?thesis using Suc.prems(1) by (simp add: extract_next_write_operation_def)
  qed
qed simp

text \<open>
  Writing a group: the operations extracted from a freshly started group are as many as
  needed and then none, they write its items completely and in order, every gather write has between
  one and 64 buffers and announces their total size (for every limit of the platform that allows a
  buffer at all).\<close>

theorem extract_writes_group:
  "\<exists>ops. extract_all (length (m_items wg) + 1) (Suc k) (start_next_write_group (Some wg) write_output_ctx_new) = Some ops
    \<and> concat (map operation_items ops) = m_items wg \<and> list_all gathered ops"
  using extract_all_from [of "start_next_write_group (Some wg) write_output_ctx_new" wg "Suc k"
      "length (m_items wg) + 1"]
  by (simp add: start_next_write_group_def write_output_ctx_new_def)

text \<open>
  \<open>fail_write_group\<close> forgets the group but not the index of its next item (\<open>finish_write_group\<close>
  resets it): when the next group is started in the same context, as many of its items as were
  already taken from the failed group are never written.\<close>

theorem failed_group_skips_items:
  assumes "m_current_wg ctx = Some failed" "m_after_write_notificator failed = None"
    "fail_write_group cb ec (ctx, log) = (Inr (), ctx', log')"
  shows "\<exists>ops. extract_all (length (m_items wg) + 1) (Suc k) (start_next_write_group (Some wg) ctx') = Some ops
    \<and> concat (map operation_items ops) = drop (m_next_writable_item_index ctx) (m_items wg)"
proof -
  have "m_next_writable_item_index ctx' = m_next_writable_item_index ctx"
    using assms by (auto simp: fail_write_group_def invoke_after_write_notificator_if_necessary_def
        invoke_after_write_notificator_if_exists_def comp_defs)
  moreover have "\<exists>ops. extract_all (length (m_items wg) + 1) (Suc k) (start_next_write_group (Some wg) ctx') = Some ops
    \<and> concat (map operation_items ops)
        = drop (m_next_writable_item_index (start_next_write_group (Some wg) ctx')) (m_items wg)
    \<and> list_all gathered ops"
    by (rule extract_all_from) (simp_all add: start_next_write_group_def less_Suc_eq_le)
  ultimately show ?thesis by (auto simp: start_next_write_group_def simp del: extract_all.simps)
qed

theorem failed_group_skips_items_witness:
  "\<exists>ops. extract_all 3 8 (start_next_write_group (Some (write_group [Trivial_item [1], Trivial_item [2]] :: (nat, nat) write_group))
      (write_output_ctx_new\<lparr>m_next_writable_item_index := 1\<rparr>)) = Some ops
    \<and> concat (map operation_items ops) = [Trivial_item [2]]"
proof -
  let ?failed = "write_group [Trivial_item [1]] :: (nat, nat) write_group"
  let ?ctx = "write_output_ctx_new\<lparr>m_current_wg := Some ?failed, m_next_writable_item_index := 1\<rparr>"
  have "fail_write_group (\<lambda>_ _. None) (system_error 104) (?ctx, [])
      = (Inr (), write_output_ctx_new\<lparr>m_next_writable_item_index := 1\<rparr>, [])"
    by (simp add: fail_write_group_def invoke_after_write_notificator_if_necessary_def
        invoke_after_write_notificator_if_exists_def comp_defs write_group_def write_output_ctx_new_def)
  from failed_group_skips_items [OF _ _ this, of ?failed "write_group [Trivial_item [1], Trivial_item [2]]" 7]
  show ?thesis by (simp add: write_group_def numeral_3_eq_3 del: extract_all.simps)
qed

end
