(* ===== verification/Restinio_Coordinator.thy ===== *)
theory Restinio_Coordinator
  imports Restinio_Buffers Std_Strings
begin

text \<open>
  \<open>impl/response_coordinator.hpp\<close>: the responses to pipelined HTTP requests. A ring of contexts
  holds the unsent write groups of the outstanding requests; handlers append parts of any of them in
  any order, the connection pops what may be written next.

  The ring is a queue of contexts (\<open>window\<close>), and whatever handlers do, what is written is in the
  order of the requests, each response complete before the next starts (\<open>responses_in_order\<close>), as
  long as no more than \<open>2 ^ 32\<close> requests arrive on a connection: request ids are 32 bits, and when
  they wrap around the coordinator loses requests (\<open>wrapped_id_is_lost\<close>).
\<close>

subsection \<open>\<open>common_types.hpp\<close>\<close>

type_synonym request_id_t = u32

datatype response_parts_attr_t = not_final_parts | final_parts

datatype response_connection_attr_t = connection_keepalive | connection_close

record response_output_flags_t =
  m_response_parts :: response_parts_attr_t
  m_response_connection :: response_connection_attr_t

definition response_connection_attr :: "bool \<Rightarrow> response_connection_attr_t" where
  "response_connection_attr should_keep_alive =
     (if should_keep_alive then connection_keepalive else connection_close)"

definition keepalive_not_final :: response_output_flags_t where
  "keepalive_not_final = \<lparr>m_response_parts = not_final_parts, m_response_connection = connection_keepalive\<rparr>"

subsection \<open>\<open>response_context_t\<close>\<close>

record ('f, 'n) response_context =
  m_request_id :: request_id_t
  m_write_groups :: "('f, 'n) write_group list"
  m_response_output_flags :: response_output_flags_t

definition response_context_new :: "('f, 'n) response_context" where
  "response_context_new =
     \<lparr>m_request_id = 0, m_write_groups = [], m_response_output_flags = keepalive_not_final\<rparr>"

definition reinit :: "request_id_t \<Rightarrow> ('f, 'n) response_context \<Rightarrow> ('f, 'n) response_context" where
  "reinit request_id ctx =
     ctx\<lparr>m_request_id := request_id, m_response_output_flags := keepalive_not_final\<rparr>"

definition enqueue_group :: "('f, 'n) write_group \<Rightarrow> ('f, 'n) response_context \<Rightarrow> ('f, 'n) response_context" where
  "enqueue_group wg ctx =
     (if m_write_groups ctx \<noteq> [] \<and> \<not> has_after_write_notificator (last (m_write_groups ctx))
         \<and> 0 = m_status_line_size wg
      then ctx\<lparr>m_write_groups := butlast (m_write_groups ctx) @ [write_group_merge wg (last (m_write_groups ctx))]\<rparr>
      else ctx\<lparr>m_write_groups := m_write_groups ctx @ [wg]\<rparr>)"

definition context_empty :: "('f, 'n) response_context \<Rightarrow> bool" where
  "context_empty ctx \<longleftrightarrow> m_write_groups ctx = []"

definition dequeue_group :: "(('f, 'n) response_context, ('f, 'n) write_group) comp" where
  "dequeue_group = (\<lambda>ctx. case m_write_groups ctx of
     [] \<Rightarrow> (Inl AssertionFailed, ctx)
   | wg # wgs \<Rightarrow> (Inr wg, ctx\<lparr>m_write_groups := wgs\<rparr>))"

definition is_complete :: "('f, 'n) response_context \<Rightarrow> bool" where
  "is_complete ctx \<longleftrightarrow> m_write_groups ctx = []
     \<and> final_parts = m_response_parts (m_response_output_flags ctx)"

subsection \<open>\<open>response_context_table_t\<close>\<close>

record ('f, 'n) context_table =
  m_contexts :: "('f, 'n) response_context list"
  m_first_element_index :: nat
  m_elements_exists :: nat

definition context_table :: "nat \<Rightarrow> ('f, 'n) context_table" where
  "context_table max_elements_count =
     \<lparr>m_contexts = replicate max_elements_count response_context_new,
      m_first_element_index = 0, m_elements_exists = 0\<rparr>"

definition table_empty :: "('f, 'n) context_table \<Rightarrow> bool" where
  "table_empty t \<longleftrightarrow> m_elements_exists t = 0"

definition table_is_full :: "('f, 'n) context_table \<Rightarrow> bool" where
  "table_is_full t \<longleftrightarrow> length (m_contexts t) = m_elements_exists t"

definition front_index :: "('f, 'n) context_table \<Rightarrow> nat" where
  "front_index t = m_first_element_index t"

text \<open>\<open>back()\<close> is only called on a table that is not empty.\<close>

definition back_index :: "('f, 'n) context_table \<Rightarrow> nat" where
  "back_index t = (m_first_element_index t + (m_elements_exists t - 1)) mod length (m_contexts t)"

definition get_real_index :: "request_id_t \<Rightarrow> ('f, 'n) context_table \<Rightarrow> nat" where
  "get_real_index req_id t =
     (m_first_element_index t + unat (req_id - m_request_id (m_contexts t ! front_index t)))
       mod length (m_contexts t)"

text \<open>The pointer \<open>get_by_req_id\<close> returns is the index of the context.\<close>

definition get_by_req_id :: "request_id_t \<Rightarrow> ('f, 'n) context_table \<Rightarrow> nat option" where
  "get_by_req_id req_id t =
     (if table_empty t \<or> req_id < m_request_id (m_contexts t ! front_index t)
         \<or> req_id > m_request_id (m_contexts t ! back_index t)
      then None else Some (get_real_index req_id t))"

definition push_response_context :: "request_id_t \<Rightarrow> (('f, 'n) context_table, unit) comp" where
  "push_response_context req_id = (\<lambda>t.
     if table_is_full t then
       (Inl (RestinioError ''unable to insert context because response_context_table is full''), t)
     else
       let i = (m_first_element_index t + m_elements_exists t) mod length (m_contexts t)
       in (Inr (), t\<lparr>m_contexts := (m_contexts t)[i := reinit req_id (m_contexts t ! i)],
                     m_elements_exists := m_elements_exists t + 1\<rparr>))"

definition pop_response_context_nonchecked :: "('f, 'n) context_table \<Rightarrow> ('f, 'n) context_table" where
  "pop_response_context_nonchecked t =
     (let t = t\<lparr>m_elements_exists := m_elements_exists t - 1,
                m_first_element_index := m_first_element_index t + 1\<rparr>
      in if length (m_contexts t) = m_first_element_index t then t\<lparr>m_first_element_index := 0\<rparr> else t)"

definition pop_response_context :: "(('f, 'n) context_table, unit) comp" where
  "pop_response_context = (\<lambda>t.
     if table_empty t then
       (Inl (RestinioError ''unable to pop context because response_context_table is empty''), t)
     else (Inr (), pop_response_context_nonchecked t))"

subsection \<open>\<open>response_coordinator_t\<close>\<close>

record ('f, 'n) coordinator =
  m_request_id_counter :: request_id_t
  m_connection_closed_response_occured :: bool
  m_context_table :: "('f, 'n) context_table"

definition coordinator_new :: "nat \<Rightarrow> ('f, 'n) coordinator" where
  "coordinator_new max_req_count =
     \<lparr>m_request_id_counter = 0, m_connection_closed_response_occured = False,
      m_context_table = context_table max_req_count\<rparr>"

definition closed :: "('f, 'n) coordinator \<Rightarrow> bool" where
  "closed co = m_connection_closed_response_occured co"

definition is_able_to_get_more_messages :: "('f, 'n) coordinator \<Rightarrow> bool" where
  "is_able_to_get_more_messages co \<longleftrightarrow> \<not> closed co \<and> \<not> table_is_full (m_context_table co)"

definition register_new_request :: "(('f, 'n) coordinator, request_id_t) comp" where
  "register_new_request =
     sq (\<lambda>co. on_member m_context_table m_context_table_update
                (push_response_context (m_request_id_counter co)) co)
       (\<lambda>co. (Inr (m_request_id_counter co),
              co\<lparr>m_request_id_counter := m_request_id_counter co + 1\<rparr>))"

definition append_response ::
    "request_id_t \<Rightarrow> response_output_flags_t \<Rightarrow> ('f, 'n) write_group \<Rightarrow> (('f, 'n) coordinator, unit) comp" where
  "append_response req_id flags wg = (\<lambda>co.
     if closed co then
       (Inl (RestinioError ''unable to append response parts, response coordinator is closed''), co)
     else case get_by_req_id req_id (m_context_table co) of
       None \<Rightarrow> (Inl (RestinioError (''no context associated with request '' @ to_string (uint req_id))), co)
     | Some i \<Rightarrow>
         let ctx = m_contexts (m_context_table co) ! i
         in if final_parts = m_response_parts (m_response_output_flags ctx) then
              (Inl (RestinioError ''unable to append response, it marked as complete''), co)
            else
              let ctx = enqueue_group wg (ctx\<lparr>m_response_output_flags := flags\<rparr>)
              in (Inr (), co\<lparr>m_context_table := (m_context_table co)\<lparr>m_contexts :=
                    (m_contexts (m_context_table co))[i := ctx]\<rparr>\<rparr>))"

definition pop_ready_buffers ::
    "(('f, 'n) coordinator, (('f, 'n) write_group \<times> request_id_t) option) comp" where
  "pop_ready_buffers = (\<lambda>co.
     if closed co then
       (Inl (RestinioError ''unable to prepare output buffers, response coordinator is closed''), co)
     else if table_empty (m_context_table co) then (Inr None, co)
     else
       let i = front_index (m_context_table co); ctx = m_contexts (m_context_table co) ! i
       in if context_empty ctx then (Inr None, co)
          else (case dequeue_group ctx of
            (Inl e, _) \<Rightarrow> (Inl e, co)
          | (Inr wg, ctx') \<Rightarrow>
              let co = co\<lparr>m_context_table := (m_context_table co)\<lparr>m_contexts :=
                         (m_contexts (m_context_table co))[i := ctx']\<rparr>\<rparr>
              in if is_complete ctx' then
                   let co = co\<lparr>m_connection_closed_response_occured :=
                     (final_parts = m_response_parts (m_response_output_flags ctx')
                      \<and> connection_close = m_response_connection (m_response_output_flags ctx'))\<rparr>
                   in sq (on_member m_context_table m_context_table_update pop_response_context)
                         (ret (Some (wg, m_request_id ctx'))) co
                 else (Inr (Some (wg, m_request_id ctx')), co)))"

text \<open>
  \<open>reset\<close>: the notificators of everything unsent are told, whatever they throw; each group is gone
  afterwards.
\<close>

definition notify_not_written :: "('n \<Rightarrow> io_status \<Rightarrow> exn option) \<Rightarrow> ('f, 'n) write_group \<Rightarrow> 'n notices \<Rightarrow> 'n notices" where
  "notify_not_written cb wg log =
     snd (snd (invoke_after_write_notificator_if_exists cb write_was_not_executed (wg, log)))"

fun reset_loop :: "('n \<Rightarrow> io_status \<Rightarrow> exn option) \<Rightarrow> nat \<Rightarrow> ('f, 'n) context_table \<Rightarrow> 'n notices \<Rightarrow>
    ('f, 'n) context_table \<times> 'n notices" where
  "reset_loop cb 0 t log = (t, log)"
| "reset_loop cb (Suc n) t log =
     (let i = front_index t; ctx = m_contexts t ! i;
          log = fold (notify_not_written cb) (m_write_groups ctx) log;
          t = t\<lparr>m_contexts := (m_contexts t)[i := ctx\<lparr>m_write_groups := []\<rparr>]\<rparr>
      in reset_loop cb n (pop_response_context_nonchecked t) log)"

definition coordinator_reset ::
    "('n \<Rightarrow> io_status \<Rightarrow> exn option) \<Rightarrow> ('f, 'n) coordinator \<times> 'n notices \<Rightarrow> ('f, 'n) coordinator \<times> 'n notices" where
  "coordinator_reset cb = (\<lambda>(co, log).
     case reset_loop cb (m_elements_exists (m_context_table co)) (m_context_table co) log of
       (t, log) \<Rightarrow> (co\<lparr>m_context_table := t\<rparr>, log))"

subsection \<open>The ring as a queue of contexts\<close>

definition ring :: "('f, 'n) context_table \<Rightarrow> ('f, 'n) response_context list" where
  "ring t = rotate (m_first_element_index t) (m_contexts t)"

definition window :: "('f, 'n) context_table \<Rightarrow> ('f, 'n) response_context list" where
  "window t = take (m_elements_exists t) (ring t)"

definition table_ok :: "('f, 'n) context_table \<Rightarrow> bool" where
  "table_ok t \<longleftrightarrow> m_elements_exists t \<le> length (m_contexts t)
     \<and> (m_contexts t \<noteq> [] \<longrightarrow> m_first_element_index t < length (m_contexts t))
     \<and> list_all context_empty (drop (m_elements_exists t) (ring t))"

lemma length_ring [simp]: "length (ring t) = length (m_contexts t)"
  by (simp add: ring_def)

lemma length_window: "table_ok t \<Longrightarrow> length (window t) = m_elements_exists t"
  by (simp add: window_def table_ok_def)

lemma ring_nth: "i < length (m_contexts t) \<Longrightarrow>
  ring t ! i = m_contexts t ! ((m_first_element_index t + i) mod length (m_contexts t))"
  by (simp add: ring_def nth_rotate)

lemma rotate_update:
  assumes "i < length xs"
  shows "rotate f (xs[(f + i) mod length xs := x]) = (rotate f xs)[i := x]"
proof (rule nth_equalityI)
  fix k assume "k < length (rotate f (xs[(f + i) mod length xs := x]))"
  then have k: "k < length xs" by simp
  have "(f + i) mod length xs = (f + k) mod length xs \<longleftrightarrow> k = i"
    using mod_add_inj [OF assms k] by auto
  moreover have "(f + k) mod length xs < length xs" using k by (intro mod_less_divisor) linarith
  ultimately show "rotate f (xs[(f + i) mod length xs := x]) ! k = (rotate f xs)[i := x] ! k"
    using k assms by (simp add: nth_rotate nth_list_update)
qed simp

lemma ring_update:
  assumes "i < length (m_contexts t)"
  shows "ring (t\<lparr>m_contexts := (m_contexts t)[(m_first_element_index t + i) mod length (m_contexts t) := x]\<rparr>)
    = (ring t)[i := x]"
  using rotate_update [OF assms] by (simp add: ring_def)

lemma table_ok_front:
  assumes "table_ok t" "\<not> table_empty t"
  shows "m_contexts t \<noteq> []" "m_first_element_index t < length (m_contexts t)"
    "front_index t = (m_first_element_index t + 0) mod length (m_contexts t)"
    "m_contexts t ! front_index t = hd (window t)" "window t \<noteq> []"
proof -
  show c: "m_contexts t \<noteq> []" using assms by (auto simp: table_ok_def table_empty_def)
  then show f: "m_first_element_index t < length (m_contexts t)" using assms by (simp add: table_ok_def)
  then show "front_index t = (m_first_element_index t + 0) mod length (m_contexts t)" by (simp add: front_index_def)
  show ne: "window t \<noteq> []" using assms by (simp add: window_def table_empty_def ring_def c)
  have "hd (window t) = ring t ! 0" using ne by (simp add: hd_conv_nth window_def)
  then show "m_contexts t ! front_index t = hd (window t)"
    using c f by (simp add: ring_nth front_index_def)
qed

lemma window_new [simp]: "window (context_table n) = []" "table_ok (context_table n)"
  by (simp_all add: window_def context_table_def table_ok_def ring_def list_all_iff response_context_new_def
      context_empty_def)

lemma push_window:
  assumes "table_ok t"
  shows "table_is_full t \<longleftrightarrow> length (window t) = length (m_contexts t)"
    "\<not> table_is_full t \<Longrightarrow> \<exists>t' ctx. push_response_context req_id t = (Inr (), t') \<and> table_ok t'
      \<and> window t' = window t @ [ctx] \<and> ctx = \<lparr>m_request_id = req_id, m_write_groups = [],
        m_response_output_flags = keepalive_not_final\<rparr> \<and> length (m_contexts t') = length (m_contexts t)"
proof -
  show "table_is_full t \<longleftrightarrow> length (window t) = length (m_contexts t)"
    using length_window [OF assms] by (auto simp: table_is_full_def)
  assume "\<not> table_is_full t"
  then have n: "m_elements_exists t < length (m_contexts t)"
    using assms by (simp add: table_is_full_def table_ok_def)
  let ?n = "m_elements_exists t"
  let ?i = "(m_first_element_index t + ?n) mod length (m_contexts t)"
  let ?c = "reinit req_id (ring t ! ?n)"
  define t' where "t' = t\<lparr>m_contexts := (m_contexts t)[?i := ?c], m_elements_exists := ?n + 1\<rparr>"
  have n': "m_elements_exists t' = Suc ?n" by (simp add: t'_def)
  have r: "ring t' = (ring t)[?n := ?c]" using ring_update [OF n, of ?c] by (simp add: t'_def ring_def)
  have e: "context_empty (ring t ! ?n)" "list_all context_empty (drop (?n + 1) (ring t))"
    using assms n by (simp_all add: table_ok_def list_all_iff Cons_nth_drop_Suc [symmetric])
  have "push_response_context req_id t = (Inr (), t')"
    using \<open>\<not> table_is_full t\<close> n by (simp add: push_response_context_def t'_def Let_def ring_nth)
  moreover have "window t' = window t @ [?c]"
    using n n' by (simp add: window_def r take_Suc_conv_app_nth)
  moreover have "table_ok t'"
    using assms n e(2) by (auto simp: table_ok_def r) (simp_all add: t'_def)
  moreover have "?c = \<lparr>m_request_id = req_id, m_write_groups = [], m_response_output_flags = keepalive_not_final\<rparr>"
    using e(1) by (simp add: reinit_def context_empty_def)
  ultimately show "\<exists>t' ctx. push_response_context req_id t = (Inr (), t') \<and> table_ok t'
      \<and> window t' = window t @ [ctx] \<and> ctx = \<lparr>m_request_id = req_id, m_write_groups = [],
        m_response_output_flags = keepalive_not_final\<rparr> \<and> length (m_contexts t') = length (m_contexts t)"
    by (intro exI [of _ t'] exI [of _ ?c]) (simp add: t'_def)
qed

definition update_at :: "nat \<Rightarrow> ('f, 'n) response_context \<Rightarrow> ('f, 'n) context_table \<Rightarrow> ('f, 'n) context_table" where
  "update_at i ctx t =
     t\<lparr>m_contexts := (m_contexts t)[(m_first_element_index t + i) mod length (m_contexts t) := ctx]\<rparr>"

lemma update_window:
  assumes "table_ok t" "i < m_elements_exists t"
  shows "table_ok (update_at i ctx t)" "window (update_at i ctx t) = (window t)[i := ctx]"
    "m_elements_exists (update_at i ctx t) = m_elements_exists t"
proof -
  have i: "i < length (m_contexts t)" using assms(1,2) by (simp add: table_ok_def)
  have r: "ring (update_at i ctx t) = (ring t)[i := ctx]" using ring_update [OF i, of ctx] by (simp add: update_at_def)
  show e: "m_elements_exists (update_at i ctx t) = m_elements_exists t" by (simp add: update_at_def)
  show "window (update_at i ctx t) = (window t)[i := ctx]"
    using assms(2) by (simp add: window_def r take_update_swap e)
  show "table_ok (update_at i ctx t)"
    using assms(1,2) by (auto simp: table_ok_def r) (simp_all add: update_at_def)
qed

lemma pop_window:
  assumes "table_ok t" "\<not> table_empty t" "context_empty (hd (window t))"
  shows "table_ok (pop_response_context_nonchecked t)"
    "window (pop_response_context_nonchecked t) = tl (window t)"
    "pop_response_context t = (Inr (), pop_response_context_nonchecked t)"
    "m_contexts (pop_response_context_nonchecked t) = m_contexts t"
proof -
  note f = table_ok_front [OF assms(1,2)]
  let ?t = "pop_response_context_nonchecked t" and ?n = "m_elements_exists t"
  have first: "m_first_element_index ?t = (m_first_element_index t + 1) mod length (m_contexts t)"
    using f(1,2) by (auto simp: pop_response_context_nonchecked_def Let_def mod_Suc)
  show c: "m_contexts ?t = m_contexts t" by (simp add: pop_response_context_nonchecked_def Let_def)
  have "ring ?t = rotate ((m_first_element_index t + 1) mod length (m_contexts t)) (m_contexts t)"
    by (simp add: ring_def first c)
  also have "\<dots> = rotate (m_first_element_index t + 1) (m_contexts t)" by (rule rotate_conv_mod [symmetric])
  finally have r: "ring ?t = rotate1 (ring t)" by (simp add: ring_def)
  have "ring t \<noteq> []" using f(1) by (simp add: ring_def)
  then obtain x xs where xs: "ring t = x # xs" by (cases "ring t") auto
  have n: "m_elements_exists ?t = ?n - 1" "0 < ?n" "?n \<le> Suc (length xs)"
    using assms(1,2) xs length_ring [of t]
    by (auto simp: pop_response_context_nonchecked_def Let_def table_empty_def table_ok_def)
  then have w: "window t = x # take (?n - 1) xs" by (simp add: window_def xs take_Cons')
  show "window ?t = tl (window t)" using n w by (simp add: window_def r xs)
  have "context_empty x" "list_all context_empty (drop (?n - 1) xs)" "?n \<le> length (m_contexts t)"
    using assms(1,3) n w by (simp_all add: table_ok_def xs drop_Cons')
  then show "table_ok ?t" using n f(1) by (simp add: table_ok_def r xs c first)
  show "pop_response_context t = (Inr (), ?t)" using assms(2) by (simp add: pop_response_context_def)
qed


lemma window_nth:
  assumes "table_ok t" "i < m_elements_exists t"
  shows "m_contexts t ! ((m_first_element_index t + i) mod length (m_contexts t)) = window t ! i"
  using assms ring_nth [of i t] by (simp add: window_def table_ok_def)

subsection \<open>Request ids\<close>

text \<open>The outstanding requests are the last of the \<open>n\<close> registered ones, with consecutive ids.\<close>

definition ids_ok :: "nat \<Rightarrow> ('f, 'n) context_table \<Rightarrow> bool" where
  "ids_ok n t \<longleftrightarrow> m_elements_exists t \<le> n
     \<and> map m_request_id (window t) = map of_nat [n - m_elements_exists t..<n]"

lemma unat_id: "n \<le> 2 ^ 32 \<Longrightarrow> i < n \<Longrightarrow> unat (of_nat i :: request_id_t) = i"
  by (simp add: unat_of_nat)

lemma window_id:
  assumes "ids_ok n t" "i < m_elements_exists t" "table_ok t"
  shows "m_request_id (window t ! i) = of_nat (n - m_elements_exists t + i)"
proof -
  have "m_request_id (window t ! i) = map m_request_id (window t) ! i"
    using assms by (simp add: length_window)
  also have "\<dots> = map of_nat [n - m_elements_exists t..<n] ! i" using assms(1) by (simp only: ids_ok_def)
  also have "\<dots> = of_nat ([n - m_elements_exists t..<n] ! i)"
    using assms(1,2) by (intro nth_map) (simp add: ids_ok_def)
  also have "[n - m_elements_exists t..<n] ! i = n - m_elements_exists t + i"
    using assms(1,2) unfolding ids_ok_def by (intro nth_upt) linarith
  finally show ?thesis .
qed

lemma get_by_req_id_window:
  assumes "table_ok t" "ids_ok n t" "n \<le> 2 ^ 32"
  defines "a \<equiv> n - m_elements_exists t"
  shows "get_by_req_id r t =
    (if a \<le> unat r \<and> unat r < n
     then Some ((m_first_element_index t + (unat r - a)) mod length (m_contexts t)) else None)"
proof (cases "table_empty t")
  case True
  then show ?thesis by (auto simp: get_by_req_id_def table_empty_def a_def)
next
  case False
  let ?k = "m_elements_exists t"
  have k: "0 < ?k" "?k \<le> n" using False assms(2) by (simp_all add: table_empty_def ids_ok_def)
  have fr: "m_request_id (m_contexts t ! front_index t) = of_nat a"
    using window_nth [OF assms(1), of 0] window_id [OF assms(2) _ assms(1), of 0] k
      table_ok_front(3) [OF assms(1) False] by (simp add: a_def)
  have bk: "m_request_id (m_contexts t ! back_index t) = of_nat (n - 1)"
    using window_nth [OF assms(1), of "?k - 1"] window_id [OF assms(2) _ assms(1), of "?k - 1"] k
    by (simp add: back_index_def)
  have u: "unat (of_nat a :: request_id_t) = a" "unat (of_nat (n - 1) :: request_id_t) = n - 1"
    using k by (intro unat_id [OF assms(3)]; simp add: a_def)+
  have d: "unat (r - of_nat a) = unat r - a" if "a \<le> unat r"
    using that u by (simp add: unat_sub word_le_nat_alt)
  have lt: "r < of_nat a \<longleftrightarrow> unat r < a" "of_nat (n - 1) < r \<longleftrightarrow> n - 1 < unat r"
    using u by (simp_all add: word_less_nat_alt)
  have "n - 1 < unat r \<longleftrightarrow> \<not> unat r < n" using k by linarith
  then show ?thesis
    using False d unfolding get_by_req_id_def get_real_index_def fr bk lt
    by (cases "a \<le> unat r"; cases "unat r < n") simp_all
qed

subsection \<open>What is written\<close>

text \<open>A group as the sequence of what it writes and whom it then notifies; merging groups keeps it.\<close>

datatype ('f, 'n) token = Item "'f writable_item" | Notify 'n

definition group_tokens :: "('f, 'n) write_group \<Rightarrow> ('f, 'n) token list" where
  "group_tokens wg = map Item (m_items wg)
     @ (case m_after_write_notificator wg of None \<Rightarrow> [] | Some n \<Rightarrow> [Notify n])"

definition pending :: "('f, 'n) response_context \<Rightarrow> ('f, 'n) token list" where
  "pending ctx = concat (map group_tokens (m_write_groups ctx))"

lemma pending_enqueue: "pending (enqueue_group wg (ctx\<lparr>m_response_output_flags := fl\<rparr>)) = pending ctx @ group_tokens wg"
proof (cases "m_write_groups ctx = []")
  case False
  then have "concat (map group_tokens (m_write_groups ctx))
      = concat (map group_tokens (butlast (m_write_groups ctx))) @ group_tokens (last (m_write_groups ctx))"
    by (subst append_butlast_last_id [symmetric, of "m_write_groups ctx"]) (simp_all del: append_butlast_last_id)
  then show ?thesis
    by (simp add: pending_def enqueue_group_def)
      (simp add: group_tokens_def write_group_merge_def has_after_write_notificator_def)
qed (simp add: pending_def enqueue_group_def)

text \<open>A history: requests arrive, handlers append parts, the connection takes what it may write.
  The record keeps what was appended for each request and what was written.\<close>

datatype ('f, 'n) pipeline_op =
    Register
  | Append request_id_t response_output_flags_t "('f, 'n) write_group"
  | Pop

record ('f, 'n) pipeline =
  pl_coordinator :: "('f, 'n) coordinator"
  pl_registered :: nat
  pl_appended :: "nat \<Rightarrow> ('f, 'n) token list"
  pl_written :: "(nat \<times> ('f, 'n) token) list"

definition pipeline_new :: "nat \<Rightarrow> ('f, 'n) pipeline" where
  "pipeline_new max_req_count =
     \<lparr>pl_coordinator = coordinator_new max_req_count, pl_registered = 0, pl_appended = (\<lambda>_. []), pl_written = []\<rparr>"

fun pipeline_step :: "('f, 'n) pipeline_op \<Rightarrow> ('f, 'n) pipeline \<Rightarrow> ('f, 'n) pipeline" where
  "pipeline_step Register p =
     (case register_new_request (pl_coordinator p) of
        (Inl _, co) \<Rightarrow> p\<lparr>pl_coordinator := co\<rparr>
      | (Inr _, co) \<Rightarrow> p\<lparr>pl_coordinator := co, pl_registered := pl_registered p + 1\<rparr>)"
| "pipeline_step (Append r fl wg) p =
     (case append_response r fl wg (pl_coordinator p) of
        (Inl _, co) \<Rightarrow> p\<lparr>pl_coordinator := co\<rparr>
      | (Inr _, co) \<Rightarrow> p\<lparr>pl_coordinator := co,
          pl_appended := (pl_appended p)(unat r := pl_appended p (unat r) @ group_tokens wg)\<rparr>)"
| "pipeline_step Pop p =
     (case pop_ready_buffers (pl_coordinator p) of
        (Inr (Some (wg, r)), co) \<Rightarrow> p\<lparr>pl_coordinator := co,
          pl_written := pl_written p @ map (Pair (unat r)) (group_tokens wg)\<rparr>
      | (_, co) \<Rightarrow> p\<lparr>pl_coordinator := co\<rparr>)"

definition run_pipeline :: "('f, 'n) pipeline_op list \<Rightarrow> ('f, 'n) pipeline \<Rightarrow> ('f, 'n) pipeline" where
  "run_pipeline ops p = fold pipeline_step ops p"

text \<open>The complete responses in the order of the requests.\<close>

definition in_order :: "(nat \<Rightarrow> ('f, 'n) token list) \<Rightarrow> nat \<Rightarrow> (nat \<times> ('f, 'n) token) list" where
  "in_order h n = concat (map (\<lambda>i. map (Pair i) (h i)) [0..<n])"

lemma in_order_Suc: "in_order h (Suc n) = in_order h n @ map (Pair n) (h n)"
  by (simp add: in_order_def)

lemma in_order_cong: "(\<And>i. i < n \<Longrightarrow> h i = h' i) \<Longrightarrow> in_order h n = in_order h' n"
  unfolding in_order_def by (intro arg_cong [where f = concat] map_cong refl) simp

lemma in_order_split: "a \<le> n \<Longrightarrow> in_order h n = in_order h a @ concat (map (\<lambda>i. map (Pair i) (h i)) [a..<n])"
proof -
  assume "a \<le> n"
  then have "[0..<n] = [0..<a] @ [a..<n]" using upt_add_eq_append [of 0 a "n - a"] by simp
  then show ?thesis by (simp add: in_order_def)
qed

text \<open>The invariant: \<open>sent\<close> is what was written of the oldest outstanding response.\<close>

definition pipeline_inv :: "('f, 'n) token list \<Rightarrow> ('f, 'n) pipeline \<Rightarrow> bool" where
  "pipeline_inv sent p \<longleftrightarrow>
     (let t = m_context_table (pl_coordinator p); n = pl_registered p; k = m_elements_exists t
      in table_ok t \<and> ids_ok n t \<and> m_request_id_counter (pl_coordinator p) = of_nat n
       \<and> pl_written p = in_order (pl_appended p) (n - k) @ map (Pair (n - k)) sent
       \<and> (k = 0 \<longrightarrow> sent = [])
       \<and> (\<forall>i < k. pl_appended p (n - k + i) = (if i = 0 then sent else []) @ pending (window t ! i))
       \<and> (\<forall>i \<ge> n. pl_appended p i = []))"

lemma pipeline_new_inv: "pipeline_inv [] (pipeline_new m)"
  by (simp add: pipeline_inv_def pipeline_new_def coordinator_new_def in_order_def ids_ok_def Let_def)
    (simp add: context_table_def)


lemma register_inv:
  assumes "pipeline_inv sent p" "pl_registered p < 2 ^ 32"
  shows "pipeline_inv sent (pipeline_step Register p)"
proof -
  let ?co = "pl_coordinator p" and ?t = "m_context_table (pl_coordinator p)" and ?n = "pl_registered p"
  let ?k = "m_elements_exists ?t"
  note inv = assms(1) [unfolded pipeline_inv_def Let_def]
  have ok: "table_ok ?t" and ids: "ids_ok ?n ?t" using inv by simp_all
  show ?thesis
  proof (cases "table_is_full ?t")
    case True
    then have "pipeline_step Register p = p"
      by (simp add: register_new_request_def push_response_context_def comp_defs)
    then show ?thesis using assms(1) by simp
  next
    case False
    obtain t' ctx where t': "push_response_context (of_nat ?n) ?t = (Inr (), t')" "table_ok t'"
      "window t' = window ?t @ [ctx]"
      "ctx = \<lparr>m_request_id = of_nat ?n, m_write_groups = [], m_response_output_flags = keepalive_not_final\<rparr>"
      using push_window(2) [OF ok False] by blast
    have step: "pipeline_step Register p = p\<lparr>pl_coordinator := ?co\<lparr>m_context_table := t',
        m_request_id_counter := of_nat ?n + 1\<rparr>, pl_registered := ?n + 1\<rparr>"
      using t'(1) inv by (simp add: register_new_request_def comp_defs)
    have k': "m_elements_exists t' = Suc ?k"
      using length_window [OF t'(2)] length_window [OF ok] t'(3) by simp
    have "ids_ok (Suc ?n) t'"
      using ids t'(4) by (simp add: ids_ok_def k' t'(3))
    moreover have "pl_appended p (?n - ?k + i) = (if i = 0 then sent else []) @ pending (window t' ! i)"
      if "i < Suc ?k" for i
    proof (cases "i = ?k")
      case True
      then have "window t' ! i = ctx" using length_window [OF ok] by (simp add: t'(3) nth_append)
      moreover have "?n - ?k + i = ?n" using True ids by (simp add: ids_ok_def)
      ultimately show ?thesis using inv True t'(4) by (auto simp: pending_def)
    next
      case False
      then have "i < ?k" using that by simp
      then show ?thesis using inv length_window [OF ok] by (simp add: t'(3) nth_append)
    qed
    ultimately show ?thesis using inv t'(2)
      unfolding step by (simp add: pipeline_inv_def Let_def k')
  qed
qed

lemma append_inv:
  assumes "pipeline_inv sent p" "pl_registered p \<le> 2 ^ 32"
  shows "pipeline_inv sent (pipeline_step (Append r fl wg) p)"
proof -
  let ?co = "pl_coordinator p" and ?t = "m_context_table (pl_coordinator p)" and ?n = "pl_registered p"
  let ?k = "m_elements_exists ?t"
  note inv = assms(1) [unfolded pipeline_inv_def Let_def]
  have ok: "table_ok ?t" and ids: "ids_ok ?n ?t" using inv by simp_all
  define i where "i = unat r - (?n - ?k)"
  show ?thesis
  proof (cases "fst (append_response r fl wg ?co)")
    case (Inl e)
    then have "snd (append_response r fl wg ?co) = ?co"
      by (auto simp: append_response_def Let_def split: if_splits option.splits)
    with Inl have "append_response r fl wg ?co = (Inl e, ?co)" by (cases "append_response r fl wg ?co") simp
    then show ?thesis using assms(1) by simp
  next
    case (Inr u)
    then have r: "?n - ?k \<le> unat r" "unat r < ?n" "\<not> closed ?co"
      using get_by_req_id_window [OF ok ids assms(2), of r]
      by (auto simp: append_response_def split: if_splits)
    have i: "i < ?k" using r(1,2) ids by (simp add: ids_ok_def i_def)
    let ?j = "(m_first_element_index ?t + i) mod length (m_contexts ?t)"
    let ?c = "enqueue_group wg ((window ?t ! i)\<lparr>m_response_output_flags := fl\<rparr>)"
    have "get_by_req_id r ?t = Some ?j" using get_by_req_id_window [OF ok ids assms(2), of r] r by (simp add: i_def)
    then have ap: "append_response r fl wg ?co = (Inr (), ?co\<lparr>m_context_table := update_at i ?c ?t\<rparr>)"
      using Inr r(3) window_nth [OF ok i]
      by (auto simp: append_response_def Let_def update_at_def split: if_splits)
    define h where "h = (pl_appended p)(unat r := pl_appended p (unat r) @ group_tokens wg)"
    have step: "pipeline_step (Append r fl wg) p = p\<lparr>pl_coordinator := ?co\<lparr>m_context_table := update_at i ?c ?t\<rparr>,
        pl_appended := h\<rparr>"
      by (simp add: ap h_def)
    note u = update_window [OF ok i, of ?c]
    have c: "m_request_id ?c = m_request_id (window ?t ! i)" by (simp add: enqueue_group_def)
    have "map m_request_id ((window ?t)[i := ?c]) = map m_request_id (window ?t)"
      using i length_window [OF ok] by (simp add: map_update c list_update_same_conv)
    then have "ids_ok ?n (update_at i ?c ?t)" using ids by (simp add: ids_ok_def u)
    moreover have h: "h (?n - ?k + j)
        = (if j = 0 then sent else []) @ pending (window (update_at i ?c ?t) ! j)" if "j < ?k" for j
    proof (cases "j = i")
      case True
      then have "?n - ?k + j = unat r" using r(1) by (simp add: i_def)
      moreover have "window (update_at i ?c ?t) ! j = ?c" using True i length_window [OF ok] by (simp add: u)
      moreover have "pl_appended p (?n - ?k + j) = (if j = 0 then sent else []) @ pending (window ?t ! j)"
        using inv that by blast
      ultimately show ?thesis using True by (simp add: pending_enqueue h_def)
    next
      case False
      then have "?n - ?k + j \<noteq> unat r" using r(1) by (simp add: i_def)
      then show ?thesis using inv that False by (simp add: u h_def)
    qed
    moreover have "in_order h (?n - ?k)
      = in_order (pl_appended p) (?n - ?k)"
      using r(1) by (intro in_order_cong) (simp add: h_def)
    moreover have "\<forall>i \<ge> ?n. h i = []" using inv r(2) by (simp add: h_def)
    ultimately show ?thesis using inv u(1)
      unfolding step pipeline_inv_def Let_def by (simp add: u(3))
  qed
qed

lemma pop_inv:
  assumes "pipeline_inv sent p" "pl_registered p \<le> 2 ^ 32"
  shows "\<exists>sent'. pipeline_inv sent' (pipeline_step Pop p)"
proof -
  let ?co = "pl_coordinator p" and ?t = "m_context_table (pl_coordinator p)" and ?n = "pl_registered p"
  let ?k = "m_elements_exists ?t"
  note inv = assms(1) [unfolded pipeline_inv_def Let_def]
  have ok: "table_ok ?t" and ids: "ids_ok ?n ?t" using inv by simp_all
  show ?thesis
  proof (cases "closed ?co \<or> table_empty ?t \<or> context_empty (hd (window ?t))")
    case True
    then have "pipeline_step Pop p = p"
      using table_ok_front(4) [OF ok]
      by (cases "closed ?co"; cases "table_empty ?t") (auto simp: pop_ready_buffers_def Let_def)
    then show ?thesis using assms(1) by auto
  next
    case False
    then have ne: "\<not> table_empty ?t" by simp
    note fr = table_ok_front [OF ok ne]
    have k: "0 < ?k" "?k \<le> ?n" using ne ids by (simp_all add: table_empty_def ids_ok_def)
    let ?ctx = "hd (window ?t)"
    have ctx: "?ctx = window ?t ! 0" using fr(5) by (simp add: hd_conv_nth)
    obtain wg wgs where wg: "m_write_groups ?ctx = wg # wgs"
      using False by (cases "m_write_groups ?ctx") (auto simp: context_empty_def)
    let ?c = "?ctx\<lparr>m_write_groups := wgs\<rparr>" and ?t' = "update_at 0 (?ctx\<lparr>m_write_groups := wgs\<rparr>) ?t"
    note u = update_window [OF ok k(1), of ?c]
    have id: "unat (m_request_id ?ctx) = ?n - ?k"
      using window_id [OF ids k(1) ok] k unat_id [OF assms(2), of "?n - ?k"] by (simp add: ctx)
    have pend: "pending ?ctx = group_tokens wg @ pending ?c" by (simp add: pending_def wg)
    have upd: "?t\<lparr>m_contexts := (m_contexts ?t)[front_index ?t := ?c]\<rparr> = ?t'"
      using fr(3) by (simp add: update_at_def)
    have w': "window ?t' = ?c # tl (window ?t)" using fr(5) u(2) by (cases "window ?t") simp_all
    have app: "pl_appended p (?n - ?k) = sent @ group_tokens wg @ pending ?c"
      "\<And>i. 0 < i \<Longrightarrow> i < ?k \<Longrightarrow> pl_appended p (?n - ?k + i) = pending (window ?t ! i)"
      using inv k(1) pend ctx by auto
    have ids': "ids_ok ?n ?t'"
    proof -
      have "map m_request_id (window ?t') = map m_request_id (window ?t)"
        unfolding w' using fr(5) by (cases "window ?t") simp_all
      then show ?thesis using ids by (simp add: ids_ok_def u(3))
    qed
    show ?thesis
    proof (cases "is_complete ?c")
      case False
      then have "pipeline_step Pop p = p\<lparr>pl_coordinator := ?co\<lparr>m_context_table := ?t'\<rparr>,
          pl_written := pl_written p @ map (Pair (?n - ?k)) (group_tokens wg)\<rparr>"
        using \<open>\<not> (_ \<or> _ \<or> _)\<close> fr(4) wg upd id
        by (simp add: pop_ready_buffers_def Let_def dequeue_group_def)
      moreover have "pl_appended p (?n - ?k + i) = (if i = 0 then sent @ group_tokens wg else [])
          @ pending (window ?t' ! i)" if "i < ?k" for i
        using app that by (cases "i = 0") (auto simp: w' nth_Cons' nth_tl length_window [OF ok])
      ultimately show ?thesis using inv u(1) ids' k(1)
        by (intro exI [of _ "sent @ group_tokens wg"]) (simp add: pipeline_inv_def Let_def u(3))
    next
      case True
      then have nil: "wgs = []" by (simp add: is_complete_def)
      have ne': "\<not> table_empty ?t'" using k(1) unfolding table_empty_def u(3) by simp
      have em: "context_empty (hd (window ?t'))" unfolding w' by (simp add: context_empty_def nil)
      note pw = pop_window [OF u(1) ne' em]
      let ?p = "pop_response_context_nonchecked ?t'"
      have kp: "m_elements_exists ?p = ?k - 1"
        using length_window [OF pw(1)] pw(2) length_window [OF u(1)] by (simp add: u(3))
      define cl where "cl \<longleftrightarrow> final_parts = m_response_parts (m_response_output_flags ?ctx)
        \<and> connection_close = m_response_connection (m_response_output_flags ?ctx)"
      have "pipeline_step Pop p = p\<lparr>pl_coordinator := ?co\<lparr>m_context_table := ?p,
            m_connection_closed_response_occured := cl\<rparr>,
          pl_written := pl_written p @ map (Pair (?n - ?k)) (group_tokens wg)\<rparr>"
        using \<open>\<not> (_ \<or> _ \<or> _)\<close> fr(4) wg upd id True pw(3)
        by (simp add: pop_ready_buffers_def Let_def dequeue_group_def comp_defs cl_def)
      moreover have "ids_ok ?n ?p"
      proof -
        have "map m_request_id (window ?p) = tl (map m_request_id (window ?t'))" by (simp add: pw(2) map_tl)
        also have "\<dots> = tl (map of_nat [?n - ?k..<?n])" using ids' by (simp add: ids_ok_def u(3))
        also have "\<dots> = map of_nat [Suc (?n - ?k)..<?n]" by (simp only: map_tl tl_upt flip: map_tl)
        also have "Suc (?n - ?k) = ?n - (?k - 1)" using k by linarith
        finally show ?thesis using k by (simp add: ids_ok_def kp)
      qed
      moreover have "pl_written p @ map (Pair (?n - ?k)) (group_tokens wg)
          = in_order (pl_appended p) (?n - (?k - 1)) @ map (Pair (?n - (?k - 1))) []"
      proof -
        have "?n - (?k - 1) = Suc (?n - ?k)" using k by linarith
        then show ?thesis using inv app(1) nil by (simp add: in_order_Suc pending_def)
      qed
      moreover have "pl_appended p (?n - (?k - 1) + i) = [] @ pending (window ?p ! i)" if "i < ?k - 1" for i
      proof -
        have "?n - (?k - 1) + i = ?n - ?k + Suc i" using k that by linarith
        moreover have "window ?p ! i = window ?t ! Suc i"
          using that length_window [OF ok] by (simp add: pw(2) w' nth_tl)
        ultimately show ?thesis using app(2) [of "Suc i"] that by simp
      qed
      ultimately show ?thesis using inv pw(1)
        by (intro exI [of _ "[]"]) (simp add: pipeline_inv_def Let_def kp)
    qed
  qed
qed


lemma registered_step: "pl_registered (pipeline_step op p) \<le> Suc (pl_registered p)"
  by (cases op) (auto split: prod.splits sum.splits option.splits)

lemma run_inv:
  assumes "pipeline_inv sent p" "pl_registered p + length ops \<le> 2 ^ 32"
  shows "\<exists>sent'. pipeline_inv sent' (run_pipeline ops p) \<and> pl_registered (run_pipeline ops p) \<le> 2 ^ 32"
  using assms
proof (induction ops arbitrary: p sent)
  case Nil
  then show ?case by (auto simp: run_pipeline_def)
next
  case (Cons op ops)
  have le: "pl_registered p < 2 ^ 32" "pl_registered p \<le> 2 ^ 32" using Cons.prems(2) by simp_all
  have "\<exists>sent'. pipeline_inv sent' (pipeline_step op p)"
    using register_inv [OF Cons.prems(1) le(1)] append_inv [OF Cons.prems(1) le(2)] pop_inv [OF Cons.prems(1) le(2)]
    by (cases op) blast+
  then obtain sent' where "pipeline_inv sent' (pipeline_step op p)" by blast
  moreover have "pl_registered (pipeline_step op p) + length ops \<le> 2 ^ 32"
    using Cons.prems(2) registered_step [of op p] by simp
  ultimately show ?case using Cons.IH by (simp add: run_pipeline_def)
qed


definition sample_ops :: "(nat, nat) pipeline_op list" where
  "sample_ops = [Register, Register,
     Append 1 \<lparr>m_response_parts = final_parts, m_response_connection = connection_keepalive\<rparr> (write_group [Trivial_item [2]]),
     Pop,
     Append 0 \<lparr>m_response_parts = final_parts, m_response_connection = connection_keepalive\<rparr> (write_group [Trivial_item [1]]),
     Pop, Pop]"


text \<open>
  When nothing can be popped, nothing of the oldest outstanding response is left unsent: if a
  coordinator that is not closed answers \<open>pop_ready_buffers\<close> with nothing, everything appended for
  every request before the oldest outstanding one and for that request itself has been written (for
  all requests if none is outstanding). The connection never waits on data it could send.\<close>

theorem pop_leaves_nothing:
  assumes "length ops \<le> 2 ^ 32" "p = run_pipeline ops (pipeline_new m)"
    "pop_ready_buffers (pl_coordinator p) = (Inr None, co)"
  shows "pl_written p = in_order (pl_appended p)
    (if table_empty (m_context_table (pl_coordinator p)) then pl_registered p
     else pl_registered p - m_elements_exists (m_context_table (pl_coordinator p)) + 1)"
proof -
  let ?n = "pl_registered p" and ?t = "m_context_table (pl_coordinator p)"
  let ?k = "m_elements_exists ?t"
  have "pl_registered (pipeline_new m) + length ops \<le> 2 ^ 32" using assms(1) by (simp add: pipeline_new_def)
  from run_inv [OF pipeline_new_inv this] obtain sent where "pipeline_inv sent p"
    unfolding assms(2) by blast
  note inv = this [unfolded pipeline_inv_def Let_def]
  show ?thesis
  proof (cases "table_empty ?t")
    case True
    then show ?thesis using inv by (simp add: table_empty_def)
  next
    case False
    have ok: "table_ok ?t" using inv by simp
    note fr = table_ok_front [OF ok False]
    have k: "0 < ?k" using False by (simp add: table_empty_def)
    have "context_empty (hd (window ?t))"
      using assms(3) False fr(4)
      by (auto simp: pop_ready_buffers_def Let_def dequeue_group_def comp_defs pop_response_context_def
          split: if_splits list.splits)
    then have "pending (window ?t ! 0) = []"
      using fr(5) by (simp add: hd_conv_nth context_empty_def pending_def)
    moreover have "\<forall>i < ?k. pl_appended p (?n - ?k + i) = (if i = 0 then sent else []) @ pending (window ?t ! i)"
      using inv by blast
    from this [rule_format, OF k] have "pl_appended p (?n - ?k) = sent @ pending (window ?t ! 0)" by simp
    ultimately have "pl_appended p (?n - ?k) = sent" by simp
    then show ?thesis using inv False by (simp add: in_order_Suc)
  qed
qed

theorem pop_leaves_nothing_witness:
  "\<exists>(p :: (nat, nat) pipeline) co. p = run_pipeline [Register] (pipeline_new 2)
    \<and> pop_ready_buffers (pl_coordinator p) = (Inr None, co)
    \<and> pl_written p = in_order (pl_appended p)
        (if table_empty (m_context_table (pl_coordinator p)) then pl_registered p
         else pl_registered p - m_elements_exists (m_context_table (pl_coordinator p)) + 1)"
proof -
  let ?p = "run_pipeline [Register] (pipeline_new 2) :: (nat, nat) pipeline"
  have "pop_ready_buffers (pl_coordinator ?p) = (Inr None, pl_coordinator ?p)"
    by (simp add: run_pipeline_def pipeline_new_def coordinator_new_def context_table_def register_new_request_def
        push_response_context_def table_is_full_def comp_defs numeral_2_eq_2 pop_ready_buffers_def closed_def
        table_empty_def front_index_def context_empty_def reinit_def response_context_new_def Let_def)
  with pop_leaves_nothing [OF _ refl this] show ?thesis by (intro exI [of _ ?p] exI [of _ "pl_coordinator ?p"]) simp
qed

text \<open>
  Ids wrap around: with the last id \<open>0xFFFFFFFF\<close> outstanding, the next request gets id 0, and
  no part of its response is accepted: \<open>append_response\<close> throws "no context associated with
  request 0", although the request is registered and occupies a slot.\<close>

theorem wrapped_id_is_lost:
  assumes "table_ok (m_context_table co)" "table_empty (m_context_table co)" "\<not> closed co"
    "m_request_id_counter co = 0xFFFFFFFF" "2 \<le> length (m_contexts (m_context_table co))"
  shows "\<exists>co1 co2. register_new_request co = (Inr 0xFFFFFFFF, co1) \<and> register_new_request co1 = (Inr 0, co2)
    \<and> append_response 0 fl wg co2 = (Inl (RestinioError (''no context associated with request '' @ to_string 0)), co2)"
proof -
  let ?t = "m_context_table co"
  have n: "m_elements_exists ?t = 0" using assms(2) by (simp add: table_empty_def)
  then have w: "window ?t = []" using length_window [OF assms(1)] by simp
  have "\<not> table_is_full ?t" using n assms(5) by (auto simp: table_is_full_def)
  from push_window(2) [OF assms(1) this, of "0xFFFFFFFF"] obtain t1 where t1:
    "push_response_context 0xFFFFFFFF ?t = (Inr (), t1)" "table_ok t1"
    "window t1 = [\<lparr>m_request_id = 0xFFFFFFFF, m_write_groups = [], m_response_output_flags = keepalive_not_final\<rparr>]"
    "length (m_contexts t1) = length (m_contexts ?t)" by (auto simp: w)
  have "\<not> table_is_full t1" using push_window(1) [OF t1(2)] t1(3,4) assms(5) by simp
  from push_window(2) [OF t1(2) this, of 0] obtain t2 where t2:
    "push_response_context 0 t1 = (Inr (), t2)" "table_ok t2"
    "window t2 = [\<lparr>m_request_id = 0xFFFFFFFF, m_write_groups = [], m_response_output_flags = keepalive_not_final\<rparr>,
       \<lparr>m_request_id = 0, m_write_groups = [], m_response_output_flags = keepalive_not_final\<rparr>]"
    by (auto simp: t1(3))
  have ne: "\<not> table_empty t2" using length_window [OF t2(2)] t2(3) by (simp add: table_empty_def)
  have "m_request_id (m_contexts t2 ! front_index t2) = 0xFFFFFFFF"
    using table_ok_front(4) [OF t2(2) ne] t2(3) by simp
  then have lost: "get_by_req_id 0 t2 = None" by (simp add: get_by_req_id_def)
  define co1 where "co1 = co\<lparr>m_context_table := t1, m_request_id_counter := 0\<rparr>"
  define co2 where "co2 = co1\<lparr>m_context_table := t2, m_request_id_counter := 1\<rparr>"
  have "register_new_request co = (Inr 0xFFFFFFFF, co1)"
    using t1(1) assms(4) by (simp add: register_new_request_def comp_defs co1_def)
  moreover have "register_new_request co1 = (Inr 0, co2)"
    using t2(1) by (simp add: register_new_request_def comp_defs co2_def) (simp add: co1_def)
  moreover have "append_response 0 fl wg co2
      = (Inl (RestinioError (''no context associated with request '' @ to_string 0)), co2)"
    using assms(3) lost by (simp add: append_response_def co2_def co1_def closed_def)
  ultimately show ?thesis by blast
qed

theorem wrapped_id_is_lost_witness:
  "\<exists>co co1 co2 :: (nat, nat) coordinator. register_new_request co = (Inr 0xFFFFFFFF, co1)
    \<and> register_new_request co1 = (Inr 0, co2)
    \<and> append_response 0 keepalive_not_final (write_group [Trivial_item [1]]) co2
        = (Inl (RestinioError (''no context associated with request '' @ to_string 0)), co2)"
  using wrapped_id_is_lost [of "(coordinator_new 2)\<lparr>m_request_id_counter := 0xFFFFFFFF\<rparr>" keepalive_not_final
      "write_group [Trivial_item [1]] :: (nat, nat) write_group"]
  by (simp add: coordinator_new_def closed_def table_empty_def context_table_def) 
    (use window_new(2) [of 2] in \<open>simp add: context_table_def; blast\<close>)

end
