(* ===== verification/Restinio_Ws_Connection.thy ===== *)
theory Restinio_Ws_Connection
  imports Restinio_Validator Restinio_Buffers
begin

text \<open>
  \<open>websocket/impl/ws_connection.hpp\<close> and \<open>websocket/websocket.hpp\<close>: the WebSocket connection
  \<open>ws_connection_t\<close>, which composes the parser, the validator and the output context with the socket,
  the user's message handler and the timers, and the user's handle \<open>ws_t\<close>.

  An asynchronous operation is a pending operation of the state, its completion an event; all
  handlers of a connection run on one strand, so each event is one step. The socket is represented by
  what it was asked: whether it is open, the pending read, whether a write is pending, and the
  buffers written while it was open. The user's handler is an argument, a function that may call back
  into the connection (\<open>dispatch\<close> on the strand runs such a call at once); the exceptions it throws
  are caught by the code. \<open>clock\<close> is the reading of the steady clock.

  \<open>accepted\<close> and \<open>delivered\<close> are not members of the class: they record what was put into the output
  queue, and what was given to the user's handler, and nothing reads them.
\<close>

subsection \<open>State\<close>

datatype write_state_t = write_enabled | write_disabled

datatype read_state_t = read_any_frame | read_only_close_frame | read_nothing

text \<open>
  The user's \<open>ws_t\<close> is represented by whether somebody still owns it (\<open>websocket_held\<close>) and whether its
  member \<open>m_ws_connection_handle\<close> has not been moved from; the weak pointer to it by whether it was set.

  A pending \<open>async_read_some\<close>: into the input buffer, or into the payload at an offset, with the
  number of bytes still missing and whether they are to be validated.\<close>

datatype pending_read = Read_header | Read_payload nat nat bool

record ('f, 'n) ws_conn =
  m_parser :: ws_parser_t
  m_in_buf :: fixed_buffer
  m_payload :: bytes
  m_protocol_validator :: ws_validator
  m_write_output_ctx :: "('f, 'n) write_output_ctx"
  m_outgoing_data :: "('f, 'n) write_group list"
  m_write_state :: write_state_t
  m_read_state :: read_state_t
  m_close_frame_to_user :: bool
  m_close_frame_to_peer :: bool
  m_close_impl :: bool
  m_websocket_weak_handle :: bool
  m_write_operation_timeout_after :: int
  m_close_frame_from_peer_timeout_after :: "int option"
  m_timer_scheduled :: bool
  m_ws_connection_handle :: bool
  websocket_held :: bool
  socket_open :: bool
  pending_read :: "pending_read option"
  pending_write :: bool
  sent :: "bytes list"
  notified :: "'n notices"
  clock :: int
  accepted :: "(bool \<times> 'f writable_item list) list"
  delivered :: "message_t list"

text \<open>The surroundings: the user's handler, whether a string of a length can be allocated, what a
  notificator throws, and the settings.\<close>

record ('f, 'n) ws_env =
  on_message :: "message_t \<Rightarrow> ('f, 'n) ws_conn \<Rightarrow> ('f, 'n) ws_conn"
  can_alloc :: "nat \<Rightarrow> bool"
  notificator_throws :: "'n \<Rightarrow> io_status \<Rightarrow> exn option"
  asio_max_iov_len :: nat
  write_timelimit :: int
  read_timelimit :: int

definition websocket_header_max_size :: nat where
  "websocket_header_max_size = 14"

text \<open>The constructor; what the default constructor of the validator's unmasker leaves is an argument.\<close>

definition ws_conn_new :: "bytes \<Rightarrow> int \<Rightarrow> ('f, 'n) ws_conn" where
  "ws_conn_new garbage t =
     \<lparr>m_parser = ws_parser_new, m_in_buf = fixed_buffer websocket_header_max_size, m_payload = [],
      m_protocol_validator = ws_validator_new True garbage, m_write_output_ctx = write_output_ctx_new,
      m_outgoing_data = [], m_write_state = write_enabled, m_read_state = read_nothing,
      m_close_frame_to_user = True, m_close_frame_to_peer = True, m_close_impl = True,
      m_websocket_weak_handle = False, m_write_operation_timeout_after = 0,
      m_close_frame_from_peer_timeout_after = None, m_timer_scheduled = False,
      m_ws_connection_handle = True, websocket_held = True, socket_open = True, pending_read = None, pending_write = False, sent = [], notified = [],
      clock = t, accepted = [], delivered = []\<rparr>"

definition normal_closure :: status_code_t where "normal_closure = 1000"
definition protocol_error :: status_code_t where "protocol_error = 1002"
definition connection_lost :: status_code_t where "connection_lost = 1006"
definition invalid_message_data :: status_code_t where "invalid_message_data = 1007"
definition unexpected_condition :: status_code_t where "unexpected_condition = 1011"

subsection \<open>Closing and the user\<close>

text \<open>\<open>one_shot_action_t::run_if_first\<close>, on a flag of the connection.\<close>

definition run_if_first ::
    "(('f, 'n) ws_conn \<Rightarrow> bool) \<Rightarrow> ((bool \<Rightarrow> bool) \<Rightarrow> ('f, 'n) ws_conn \<Rightarrow> ('f, 'n) ws_conn) \<Rightarrow>
      (('f, 'n) ws_conn \<Rightarrow> ('f, 'n) ws_conn) \<Rightarrow> ('f, 'n) ws_conn \<Rightarrow> ('f, 'n) ws_conn" where
  "run_if_first flag flag_update action c =
     (if flag c then action (flag_update (\<lambda>_. False) c) else c)"

definition close_impl :: "('f, 'n) ws_conn \<Rightarrow> ('f, 'n) ws_conn" where
  "close_impl = run_if_first m_close_impl m_close_impl_update (\<lambda>c. c\<lparr>socket_open := False\<rparr>)"

definition call_message_handler :: "('f, 'n) ws_env \<Rightarrow> message_t \<Rightarrow> ('f, 'n) ws_conn \<Rightarrow> ('f, 'n) ws_conn" where
  "call_message_handler E msg c =
     (if m_websocket_weak_handle c \<and> websocket_held c then on_message E msg (c\<lparr>delivered := delivered c @ [msg]\<rparr>) else c)"

definition call_close_handler_if_necessary ::
    "('f, 'n) ws_env \<Rightarrow> status_code_t \<Rightarrow> ('f, 'n) ws_conn \<Rightarrow> ('f, 'n) ws_conn" where
  "call_close_handler_if_necessary E status =
     run_if_first m_close_frame_to_user m_close_frame_to_user_update
       (call_message_handler E \<lparr>msg_final_flag = final_frame, msg_opcode = connection_close_frame,
          msg_payload = status_code_to_bin status\<rparr>)"

definition trigger_error_and_close ::
    "('f, 'n) ws_env \<Rightarrow> status_code_t \<Rightarrow> ('f, 'n) ws_conn \<Rightarrow> ('f, 'n) ws_conn" where
  "trigger_error_and_close E status c = close_impl (call_close_handler_if_necessary E status c)"

subsection \<open>Writing\<close>

definition guard_write_operation :: "('f, 'n) ws_env \<Rightarrow> ('f, 'n) ws_conn \<Rightarrow> ('f, 'n) ws_conn" where
  "guard_write_operation E c = c\<lparr>m_write_operation_timeout_after := clock c + write_timelimit E\<rparr>"

definition handle_trivial_write_operation ::
    "('f, 'n) ws_env \<Rightarrow> bytes list \<Rightarrow> ('f, 'n) ws_conn \<Rightarrow> ('f, 'n) ws_conn" where
  "handle_trivial_write_operation E bufs c =
     (let c = guard_write_operation E c
      in c\<lparr>pending_write := True, sent := (if socket_open c then sent c @ bufs else sent c)\<rparr>)"

text \<open>\<open>ws_outgoing_data_t\<close>: \<open>append\<close> and \<open>pop_ready_buffers\<close>. The flag recorded in \<open>accepted\<close> tells a
  close frame.\<close>

definition outgoing_append :: "bool \<Rightarrow> ('f, 'n) write_group \<Rightarrow> ('f, 'n) ws_conn \<Rightarrow> ('f, 'n) ws_conn" where
  "outgoing_append is_close wg c =
     c\<lparr>m_outgoing_data := m_outgoing_data c @ [wg], accepted := accepted c @ [(is_close, m_items wg)]\<rparr>"

definition outgoing_pop :: "('f, 'n) ws_conn \<Rightarrow> ('f, 'n) write_group option \<times> ('f, 'n) ws_conn" where
  "outgoing_pop c = (case m_outgoing_data c of
     [] \<Rightarrow> (None, c) | wg # wgs \<Rightarrow> (Some wg, c\<lparr>m_outgoing_data := wgs\<rparr>))"

definition run_finish_write_group :: "('f, 'n) ws_env \<Rightarrow> ('f, 'n) ws_conn \<Rightarrow> (exn + unit) \<times> ('f, 'n) ws_conn" where
  "run_finish_write_group E c =
     (case finish_write_group (notificator_throws E) (m_write_output_ctx c, notified c) of
        (r, ctx, log) \<Rightarrow> (r, c\<lparr>m_write_output_ctx := ctx, notified := log\<rparr>))"

text \<open>
  \<open>handle_current_write_ctx\<close>, with \<open>finish_handling_current_write_ctx\<close>, \<open>init_write_if_necessary\<close> and
  \<open>init_write\<close>, which call it again for the next group: each round takes a group from the queue.
  Every exception is caught in the innermost call and ends in \<open>trigger_error_and_close\<close>.
\<close>

function handle_current_write_ctx :: "('f, 'n) ws_env \<Rightarrow> ('f, 'n) ws_conn \<Rightarrow> ('f, 'n) ws_conn" where
  "handle_current_write_ctx E c =
     (case extract_next_write_operation (asio_max_iov_len E) (m_write_output_ctx c) of
        (Inl e, ctx) \<Rightarrow> trigger_error_and_close E unexpected_condition (c\<lparr>m_write_output_ctx := ctx\<rparr>)
      | (Inr (trivial_write_operation bufs n), ctx) \<Rightarrow>
          handle_trivial_write_operation E bufs (c\<lparr>m_write_output_ctx := ctx\<rparr>)
      | (Inr (file_write_operation f), ctx) \<Rightarrow>
          trigger_error_and_close E unexpected_condition (c\<lparr>m_write_output_ctx := ctx\<rparr>)
      | (Inr none_write_operation, ctx) \<Rightarrow>
          (case run_finish_write_group E (c\<lparr>m_write_output_ctx := ctx\<rparr>) of
             (Inl e, c') \<Rightarrow> trigger_error_and_close E unexpected_condition c'
           | (Inr _, c') \<Rightarrow>
               if transmitting (m_write_output_ctx c') then c'
               else (case m_outgoing_data c' of
                   [] \<Rightarrow> c'
                 | wg # wgs \<Rightarrow>
                     handle_current_write_ctx E
                       (c'\<lparr>m_outgoing_data := wgs,
                         m_write_output_ctx := start_next_write_group (Some wg) (m_write_output_ctx c')\<rparr>))))"
  by pat_completeness auto
termination
  by (relation "measure (\<lambda>(E, c). length (m_outgoing_data c))")
    (auto simp: run_finish_write_group_def split: prod.splits)

declare handle_current_write_ctx.simps [simp del]

definition init_write :: "('f, 'n) ws_env \<Rightarrow> ('f, 'n) ws_conn \<Rightarrow> ('f, 'n) ws_conn" where
  "init_write E c = (case outgoing_pop c of
     (None, c) \<Rightarrow> c
   | (Some wg, c) \<Rightarrow>
       handle_current_write_ctx E
         (c\<lparr>m_write_output_ctx := start_next_write_group (Some wg) (m_write_output_ctx c)\<rparr>))"

definition init_write_if_necessary :: "('f, 'n) ws_env \<Rightarrow> ('f, 'n) ws_conn \<Rightarrow> ('f, 'n) ws_conn" where
  "init_write_if_necessary E c = (if \<not> transmitting (m_write_output_ctx c) then init_write E c else c)"

definition guard_close_frame_from_peer_operation :: "('f, 'n) ws_env \<Rightarrow> ('f, 'n) ws_conn \<Rightarrow> ('f, 'n) ws_conn" where
  "guard_close_frame_from_peer_operation E c =
     c\<lparr>m_close_frame_from_peer_timeout_after := Some (clock c + read_timelimit E)\<rparr>"

definition start_waiting_close_frame_only :: "('f, 'n) ws_env \<Rightarrow> ('f, 'n) ws_conn \<Rightarrow> ('f, 'n) ws_conn" where
  "start_waiting_close_frame_only E c =
     guard_close_frame_from_peer_operation E (c\<lparr>m_read_state := read_only_close_frame\<rparr>)"

definition close_frame_group :: "bytes \<Rightarrow> ('f, 'n) write_group" where
  "close_frame_group payload =
     write_group
       [Trivial_item (write_message_details
          (message_details final_frame connection_close_frame (of_nat (length payload)))),
        Trivial_item payload]"

definition send_close_frame_to_peer :: "('f, 'n) ws_env \<Rightarrow> bytes \<Rightarrow> ('f, 'n) ws_conn \<Rightarrow> ('f, 'n) ws_conn" where
  "send_close_frame_to_peer E payload c =
     (let c = outgoing_append True (close_frame_group payload) c;
          c = init_write_if_necessary E c
      in c\<lparr>m_write_state := write_disabled\<rparr>)"

definition send_close_code_to_peer ::
    "('f, 'n) ws_env \<Rightarrow> status_code_t \<Rightarrow> ('f, 'n) ws_conn \<Rightarrow> ('f, 'n) ws_conn" where
  "send_close_code_to_peer E code = send_close_frame_to_peer E (status_code_to_bin code)"

definition graceful_close :: "('f, 'n) ws_env \<Rightarrow> ('f, 'n) ws_conn \<Rightarrow> ('f, 'n) ws_conn" where
  "graceful_close E =
     run_if_first m_close_frame_to_peer m_close_frame_to_peer_update
       (\<lambda>c. start_waiting_close_frame_only E (send_close_code_to_peer E normal_closure c))"

definition write_data_impl ::
    "('f, 'n) ws_env \<Rightarrow> ('f, 'n) write_group \<Rightarrow> bool \<Rightarrow> ('f, 'n) ws_conn \<Rightarrow> ('f, 'n) ws_conn" where
  "write_data_impl E wg is_close_frame c =
     (if socket_open c then
        let c = (if is_close_frame then
                   start_waiting_close_frame_only E
                     (c\<lparr>m_close_frame_to_peer := False, m_close_frame_to_user := False,
                        m_write_state := write_disabled\<rparr>)
                 else c);
            c = outgoing_append is_close_frame wg c
        in init_write_if_necessary E c
      else
        c\<lparr>notified := snd (snd (invoke_after_write_notificator_if_exists (notificator_throws E)
            write_was_not_executed (wg, notified c)))\<rparr>)"

subsection \<open>What the user's handle calls\<close>

definition ws_write_data ::
    "('f, 'n) ws_env \<Rightarrow> ('f, 'n) write_group \<Rightarrow> bool \<Rightarrow> ('f, 'n) ws_conn \<Rightarrow> ('f, 'n) ws_conn" where
  "ws_write_data E wg is_close_frame c =
     (if m_write_state c = write_enabled then write_data_impl E wg is_close_frame c
      else c\<lparr>notified := write_group_destroy wg (notified c)\<rparr>)"

definition ws_shutdown :: "('f, 'n) ws_env \<Rightarrow> ('f, 'n) ws_conn \<Rightarrow> ('f, 'n) ws_conn" where
  "ws_shutdown E c = graceful_close E (c\<lparr>m_close_frame_to_user := False\<rparr>)"

definition ws_kill :: "('f, 'n) ws_conn \<Rightarrow> ('f, 'n) ws_conn" where
  "ws_kill c = close_impl (c\<lparr>m_close_frame_to_user := False, m_close_frame_to_peer := False\<rparr>)"

subsection \<open>Reading\<close>

text \<open>An \<open>async_read_some\<close> issued.\<close>

definition consume_header_from_socket :: "('f, 'n) ws_conn \<Rightarrow> ('f, 'n) ws_conn" where
  "consume_header_from_socket c = c\<lparr>pending_read := Some Read_header\<rparr>"

definition start_read_payload :: "nat \<Rightarrow> nat \<Rightarrow> bool \<Rightarrow> ('f, 'n) ws_conn \<Rightarrow> ('f, 'n) ws_conn" where
  "start_read_payload offset length_remaining do_validate c =
     c\<lparr>pending_read := Some (Read_payload offset length_remaining do_validate)\<rparr>"

definition handle_invalid_payload ::
    "('f, 'n) ws_env \<Rightarrow> validation_state_t \<Rightarrow> ('f, 'n) ws_conn \<Rightarrow> ('f, 'n) ws_conn" where
  "handle_invalid_payload E validation_result c =
     (if invalid_close_code = validation_result then
        if read_any_frame = m_read_state c then
          call_close_handler_if_necessary E protocol_error
            (run_if_first m_close_frame_to_peer m_close_frame_to_peer_update
               (send_close_code_to_peer E protocol_error) c)
        else if read_only_close_frame = m_read_state c then close_impl c
        else c
      else
        if read_any_frame = m_read_state c then
          call_close_handler_if_necessary E invalid_message_data
            (run_if_first m_close_frame_to_peer m_close_frame_to_peer_update
               (\<lambda>c. start_waiting_close_frame_only E (send_close_code_to_peer E invalid_message_data c)) c)
        else c)"

text \<open>
  The functions below call \<open>start_read_header\<close>, which calls them again while the input buffer has
  bytes; \<open>next\<close> stands for that call.
\<close>

definition validate_payload_part ::
    "('f, 'n) ws_env \<Rightarrow> (('f, 'n) ws_conn, unit) comp \<Rightarrow> nat \<Rightarrow> nat \<Rightarrow> nat \<Rightarrow> (('f, 'n) ws_conn, bool) comp" where
  "validate_payload_part E next offset len next_length_remaining =
     bnd (reads m_payload) (\<lambda>payload.
     bnd (on_member m_protocol_validator m_protocol_validator_update
            (process_and_unmask_next_payload_part (take len (drop offset payload)))) (\<lambda>(validation_result, data).
     sq (modify (\<lambda>c. c\<lparr>m_payload := take offset payload @ data @ drop (offset + len) payload\<rparr>))
       (if payload_part_is_valid \<noteq> validation_result then
          sq (modify (handle_invalid_payload E validation_result))
            (if incorrect_utf8_data = validation_result then
               sq (modify (\<lambda>c. c\<lparr>m_protocol_validator := ws_validator_reset (m_protocol_validator c)\<rparr>))
                 (sq (if 0 = next_length_remaining then next
                      else modify (start_read_payload (offset + len) next_length_remaining False))
                    (ret False))
             else ret False)
        else ret True)))"

definition call_handler_on_current_message ::
    "('f, 'n) ws_env \<Rightarrow> (('f, 'n) ws_conn, unit) comp \<Rightarrow> (('f, 'n) ws_conn, unit) comp" where
  "call_handler_on_current_message E next = (\<lambda>c.
     let md = m_current_msg (m_parser c);
         (validation_result, v) = finish_frame (m_protocol_validator c);
         c = c\<lparr>m_protocol_validator := v\<rparr>
     in if frame_is_valid = validation_result then
          if read_any_frame = m_read_state c then
            let c = (if connection_close_frame = m_opcode md then
                       let c = c\<lparr>m_close_frame_to_user := False\<rparr>;
                           c = run_if_first m_close_frame_to_peer m_close_frame_to_peer_update
                                 (\<lambda>c. send_close_frame_to_peer E (m_payload c) c) c
                       in c\<lparr>m_read_state := read_nothing\<rparr>
                     else c);
                msg = \<lparr>msg_final_flag = (if m_final_flag md then final_frame else not_final_frame),
                       msg_opcode = m_opcode md, msg_payload = m_payload c\<rparr>;
                c = call_message_handler E msg (c\<lparr>m_payload := []\<rparr>)
            in if read_nothing \<noteq> m_read_state c then next c else (Inr (), c)
          else if m_read_state c \<noteq> read_only_close_frame then (Inl AssertionFailed, c)
          else if connection_close_frame = m_opcode md then
            (Inr (), close_impl (c\<lparr>m_timer_scheduled := False\<rparr>))
          else next c
        else (Inr (), handle_invalid_payload E validation_result c))"

definition handle_parsed_and_valid_header ::
    "('f, 'n) ws_env \<Rightarrow> (('f, 'n) ws_conn, unit) comp \<Rightarrow> message_details_t \<Rightarrow> (('f, 'n) ws_conn, unit) comp" where
  "handle_parsed_and_valid_header E next md = (\<lambda>c.
     let payload_length = unat (details_payload_len md)
     in if \<not> can_alloc E payload_length then (Inl BadAlloc, c)
        else
          let c = c\<lparr>m_payload := replicate payload_length 0\<rparr>
          in if payload_length = 0 then call_handler_on_current_message E next c
             else
               let payload_part_size = min (buffer_length (m_in_buf c)) payload_length;
                   c = c\<lparr>m_payload := take payload_part_size (buffer_bytes (m_in_buf c))
                           @ drop payload_part_size (m_payload c),
                         m_in_buf := consumed_bytes payload_part_size (m_in_buf c)\<rparr>;
                   length_remaining = payload_length - payload_part_size
               in bnd (validate_payload_part E next 0 payload_part_size length_remaining) (\<lambda>valid.
                    if valid then
                      if 0 = length_remaining then call_handler_on_current_message E next
                      else modify (start_read_payload payload_part_size length_remaining True)
                    else ret ()) c)"

definition handle_parsed_header ::
    "('f, 'n) ws_env \<Rightarrow> (('f, 'n) ws_conn, unit) comp \<Rightarrow> message_details_t \<Rightarrow> (('f, 'n) ws_conn, unit) comp" where
  "handle_parsed_header E next md =
     bnd (on_member m_protocol_validator m_protocol_validator_update (process_new_frame md)) (\<lambda>validation_result.
       if frame_header_is_valid \<noteq> validation_result then
         modify (\<lambda>c.
           if read_any_frame = m_read_state c then
             call_close_handler_if_necessary E protocol_error
               (run_if_first m_close_frame_to_peer m_close_frame_to_peer_update
                  (send_close_code_to_peer E protocol_error) c)
           else if read_only_close_frame = m_read_state c then close_impl c
           else c)
       else handle_parsed_and_valid_header E next md)"

definition consume_header_from_buffer ::
    "('f, 'n) ws_env \<Rightarrow> (('f, 'n) ws_conn, unit) comp \<Rightarrow> bytes \<Rightarrow> (('f, 'n) ws_conn, unit) comp" where
  "consume_header_from_buffer E next data =
     bnd (on_member m_parser m_parser_update (parser_execute data)) (\<lambda>nparsed.
     sq (modify (\<lambda>c. c\<lparr>m_in_buf := consumed_bytes nparsed (m_in_buf c)\<rparr>))
     (bnd (reads m_parser) (\<lambda>parser.
       if header_parsed parser then handle_parsed_header E next (m_current_msg parser)
       else if nparsed \<noteq> length data then raise AssertionFailed
       else modify consume_header_from_socket)))"

text \<open>Each round consumes at least the two bytes of a header from the buffer of 14 bytes.\<close>

definition read_fuel :: nat where
  "read_fuel = 16"

fun start_read_header :: "('f, 'n) ws_env \<Rightarrow> nat \<Rightarrow> (('f, 'n) ws_conn, unit) comp" where
  "start_read_header E 0 = raise Diverged"
| "start_read_header E (Suc n) =
     sq (modify (\<lambda>c. c\<lparr>m_parser := ws_parser_reset (m_parser c), m_payload := []\<rparr>))
       (\<lambda>c. if 0 = buffer_length (m_in_buf c) then (Inr (), consume_header_from_socket c)
            else consume_header_from_buffer E (start_read_header E n) (buffer_bytes (m_in_buf c)) c)"

subsection \<open>Completed operations\<close>

text \<open>What a completion handler throws is caught and closes the connection.\<close>

definition guarded :: "('f, 'n) ws_env \<Rightarrow> (('f, 'n) ws_conn, unit) comp \<Rightarrow> ('f, 'n) ws_conn \<Rightarrow> ('f, 'n) ws_conn" where
  "guarded E m c = (case m c of
     (Inr _, c') \<Rightarrow> c' | (Inl _, c') \<Rightarrow> trigger_error_and_close E unexpected_condition c')"

definition handle_read_error :: "('f, 'n) ws_env \<Rightarrow> ('f, 'n) ws_conn \<Rightarrow> ('f, 'n) ws_conn" where
  "handle_read_error E = trigger_error_and_close E connection_lost"

definition init_read :: "('f, 'n) ws_env \<Rightarrow> ('f, 'n) ws_conn \<Rightarrow> ('f, 'n) ws_conn" where
  "init_read E c =
     guarded E (start_read_header E read_fuel)
       (c\<lparr>m_timer_scheduled := True, m_websocket_weak_handle := True, m_read_state := read_any_frame\<rparr>)"

definition after_read_header :: "('f, 'n) ws_env \<Rightarrow> io_status \<Rightarrow> nat \<Rightarrow> (('f, 'n) ws_conn, unit) comp" where
  "after_read_header E ec len =
     (if ec = no_error then
        sq (modify (\<lambda>c. c\<lparr>m_in_buf := obtained_bytes len (m_in_buf c)\<rparr>))
          (\<lambda>c. consume_header_from_buffer E (start_read_header E read_fuel) (buffer_bytes (m_in_buf c)) c)
      else modify (handle_read_error E))"

definition after_read_payload ::
    "('f, 'n) ws_env \<Rightarrow> nat \<Rightarrow> nat \<Rightarrow> io_status \<Rightarrow> nat \<Rightarrow> bool \<Rightarrow> (('f, 'n) ws_conn, unit) comp" where
  "after_read_payload E offset length_remaining ec len do_validate =
     (if ec = no_error then
        if \<not> len \<le> length_remaining then raise AssertionFailed
        else
          let next_length_remaining = length_remaining - len
          in if do_validate then
               bnd (validate_payload_part E (start_read_header E read_fuel) offset len next_length_remaining)
                 (\<lambda>valid.
                   if valid then
                     if 0 = next_length_remaining
                     then call_handler_on_current_message E (start_read_header E read_fuel)
                     else modify (start_read_payload (offset + len) next_length_remaining do_validate)
                   else ret ())
             else if 0 = next_length_remaining then start_read_header E read_fuel
             else modify (start_read_payload (offset + len) (length_remaining - len) do_validate)
      else modify (handle_read_error E))"

text \<open>The completion of the pending read: the bytes are stored where the read was to put them, and
  the handler runs.\<close>

definition read_completed :: "('f, 'n) ws_env \<Rightarrow> io_status \<Rightarrow> bytes \<Rightarrow> ('f, 'n) ws_conn \<Rightarrow> ('f, 'n) ws_conn" where
  "read_completed E ec data c =
     (case pending_read c of
        None \<Rightarrow> c
      | Some Read_header \<Rightarrow>
          guarded E (after_read_header E ec (length data))
            (c\<lparr>pending_read := None, m_in_buf := store_read data (m_in_buf c)\<rparr>)
      | Some (Read_payload offset length_remaining do_validate) \<Rightarrow>
          guarded E (after_read_payload E offset length_remaining ec (length data) do_validate)
            (c\<lparr>pending_read := None,
               m_payload := take offset (m_payload c) @ data @ drop (offset + length data) (m_payload c)\<rparr>))"

definition after_write :: "('f, 'n) ws_env \<Rightarrow> io_status \<Rightarrow> ('f, 'n) ws_conn \<Rightarrow> ('f, 'n) ws_conn" where
  "after_write E ec c =
     (if ec = no_error then handle_current_write_ctx E c
      else
        let c = trigger_error_and_close E connection_lost c
        in (case fail_write_group (notificator_throws E) ec (m_write_output_ctx c, notified c) of
              (_, ctx, log) \<Rightarrow> c\<lparr>m_write_output_ctx := ctx, notified := log\<rparr>))"

definition write_completed :: "('f, 'n) ws_env \<Rightarrow> io_status \<Rightarrow> ('f, 'n) ws_conn \<Rightarrow> ('f, 'n) ws_conn" where
  "write_completed E ec c = (if pending_write c then after_write E ec (c\<lparr>pending_write := False\<rparr>) else c)"

definition check_timeout :: "('f, 'n) ws_env \<Rightarrow> ('f, 'n) ws_conn \<Rightarrow> ('f, 'n) ws_conn" where
  "check_timeout E c =
     (if transmitting (m_write_output_ctx c) \<and> clock c > m_write_operation_timeout_after c then
        close_impl (call_close_handler_if_necessary E unexpected_condition (c\<lparr>m_close_frame_to_peer := False\<rparr>))
      else if (case m_close_frame_from_peer_timeout_after c of None \<Rightarrow> False | Some t \<Rightarrow> clock c > t) then
        close_impl c
      else c\<lparr>m_timer_scheduled := True\<rparr>)"

subsection \<open>\<open>ws_t\<close>\<close>

text \<open>\<open>activate\<close> calls the connection without asking whether its handle was moved from.\<close>

definition ws_activate :: "('f, 'n) ws_env \<Rightarrow> (('f, 'n) ws_conn, unit) comp" where
  "ws_activate E = (\<lambda>c.
     if m_ws_connection_handle c then (Inr (), init_read E c)
     else (Inl (Undefined ''null m_ws_connection_handle''), c))"

definition ws_t_shutdown :: "('f, 'n) ws_env \<Rightarrow> ('f, 'n) ws_conn \<Rightarrow> ('f, 'n) ws_conn" where
  "ws_t_shutdown E c =
     (if m_ws_connection_handle c then ws_shutdown E (c\<lparr>m_ws_connection_handle := False\<rparr>) else c)"

definition ws_t_kill :: "('f, 'n) ws_conn \<Rightarrow> ('f, 'n) ws_conn" where
  "ws_t_kill c = (if m_ws_connection_handle c then ws_kill (c\<lparr>m_ws_connection_handle := False\<rparr>) else c)"

text \<open>The last owner gives the \<open>ws_t\<close> up: weak pointers no longer lock, and the destructor runs.\<close>

definition ws_t_drop :: "('f, 'n) ws_env \<Rightarrow> ('f, 'n) ws_conn \<Rightarrow> ('f, 'n) ws_conn" where
  "ws_t_drop E c = (if websocket_held c then ws_t_shutdown E (c\<lparr>websocket_held := False\<rparr>) else c)"

definition message_group ::
    "final_frame_flag_t \<Rightarrow> opcode_t \<Rightarrow> bytes \<Rightarrow> 'n option \<Rightarrow> ('f, 'n) write_group" where
  "message_group final_flag opcode payload wscb =
     (let wg = write_group
            [Trivial_item (write_message_details (message_details final_flag opcode (of_nat (length payload)))),
             Trivial_item payload]
      in if wscb \<noteq> None then set_after_write_notificator wscb wg else wg)"

definition ws_t_send_message ::
    "('f, 'n) ws_env \<Rightarrow> final_frame_flag_t \<Rightarrow> opcode_t \<Rightarrow> 'f writable_item \<Rightarrow> 'n option \<Rightarrow>
      (('f, 'n) ws_conn, unit) comp" where
  "ws_t_send_message E final_flag opcode payload wscb = (\<lambda>c.
     if m_ws_connection_handle c then
       (case payload of
          Trivial_item bytes \<Rightarrow>
            let is_close_frame = (connection_close_frame = opcode);
                c = (if is_close_frame then c\<lparr>m_ws_connection_handle := False\<rparr> else c)
            in (Inr (), ws_write_data E (message_group final_flag opcode bytes wscb) is_close_frame c)
        | File_item _ \<Rightarrow> (Inl (RestinioError (''ws doesn'' @ [CHR 0x27] @ ''t support sendfile'')), c))
     else (Inl (RestinioError ''websocket is not available''), c))"

text \<open>The end of \<open>upgrade\<close>: the connection is made, the response is its first write group, and the
  websocket is activated at once if the user wants so.\<close>

definition ws_upgrade ::
    "('f, 'n) ws_env \<Rightarrow> bool \<Rightarrow> bytes \<Rightarrow> bytes \<Rightarrow> int \<Rightarrow> ('f, 'n) ws_conn" where
  "ws_upgrade E immediate response garbage t =
     (let c = ws_write_data E (write_group [Trivial_item response]) False (ws_conn_new garbage t)
      in if immediate then snd (ws_activate E c) else c)"

end
