(* ===== verification/Restinio_Ws_Props.thy ===== *)
theory Restinio_Ws_Props
  imports Restinio_Ws_Connection
begin

text \<open>
  What holds of a WebSocket connection in every reachable state, for every user. The contract on the
  user's handler is the locale \<open>ws_user\<close>; it is interpreted on handlers that react to a message with
  any actions (send, close, shut down, kill, give up the handle), nested calls included.
\<close>

subsection \<open>Writing: what was accepted and what was sent\<close>

definition accepted_items :: "('f, 'n) ws_conn \<Rightarrow> 'f writable_item list" where
  "accepted_items c = concat (map snd (accepted c))"

text \<open>The items still to be written: the rest of the current group and the queue.\<close>

definition group_rest :: "('f, 'n) write_output_ctx \<Rightarrow> 'f writable_item list" where
  "group_rest ctx = (case m_current_wg ctx of None \<Rightarrow> []
     | Some wg \<Rightarrow> drop (m_next_writable_item_index ctx) (m_items wg))"

definition unsent_items :: "('f, 'n) ws_conn \<Rightarrow> 'f writable_item list" where
  "unsent_items c = group_rest (m_write_output_ctx c) @ concat (map m_items (m_outgoing_data c))"

definition sent_prefix :: "('f, 'n) ws_conn \<Rightarrow> bool" where
  "sent_prefix c \<longleftrightarrow> (\<exists>rest. accepted_items c = map Trivial_item (sent c) @ rest)"

definition nothing_lost :: "('f, 'n) ws_conn \<Rightarrow> bool" where
  "nothing_lost c \<longleftrightarrow> accepted_items c = map Trivial_item (sent c) @ unsent_items c"

definition busy :: "('f, 'n) ws_conn \<Rightarrow> bool" where
  "busy c \<longleftrightarrow> transmitting (m_write_output_ctx c)"

definition idle_output :: "('f, 'n) ws_conn \<Rightarrow> bool" where
  "idle_output c \<longleftrightarrow> m_outgoing_data c = [] \<and> m_next_writable_item_index (m_write_output_ctx c) = 0"

text \<open>The state of the output between events, and before \<open>handle_current_write_ctx\<close>.\<close>

definition output_ok :: "('f, 'n) ws_conn \<Rightarrow> bool" where
  "output_ok c \<longleftrightarrow> sent_prefix c \<and> (socket_open c \<and> pending_write c \<longrightarrow> busy c)
     \<and> (socket_open c \<and> (pending_write c \<or> \<not> busy c) \<longrightarrow> nothing_lost c)
     \<and> (socket_open c \<and> \<not> busy c \<longrightarrow> m_next_writable_item_index (m_write_output_ctx c) = 0)
     \<and> (m_close_impl c \<or> \<not> socket_open c)"

definition output_pre :: "('f, 'n) ws_conn \<Rightarrow> bool" where
  "output_pre c \<longleftrightarrow> sent_prefix c \<and> (socket_open c \<longrightarrow> \<not> pending_write c \<and> busy c \<and> nothing_lost c)
     \<and> (m_close_impl c \<or> \<not> socket_open c)"

text \<open>A change of the output side only.\<close>

definition writes_only :: "('f, 'n) ws_conn \<Rightarrow> ('f, 'n) ws_conn \<Rightarrow> bool" where
  "writes_only c c' \<longleftrightarrow> m_parser c' = m_parser c
     \<and> m_in_buf c' = m_in_buf c
     \<and> m_payload c' = m_payload c
     \<and> m_protocol_validator c' = m_protocol_validator c
     \<and> m_write_state c' = m_write_state c
     \<and> m_read_state c' = m_read_state c
     \<and> m_close_frame_to_user c' = m_close_frame_to_user c
     \<and> m_close_frame_to_peer c' = m_close_frame_to_peer c
     \<and> m_close_impl c' = m_close_impl c
     \<and> m_websocket_weak_handle c' = m_websocket_weak_handle c
     \<and> m_ws_connection_handle c' = m_ws_connection_handle c
     \<and> websocket_held c' = websocket_held c
     \<and> socket_open c' = socket_open c
     \<and> pending_read c' = pending_read c
     \<and> accepted c' = accepted c
     \<and> delivered c' = delivered c
     \<and> m_close_frame_from_peer_timeout_after c' = m_close_frame_from_peer_timeout_after c
     \<and> m_timer_scheduled c' = m_timer_scheduled c
     \<and> clock c' = clock c"

lemma writes_only_refl: "writes_only c c"
  by (simp add: writes_only_def)

lemma writes_only_trans: "writes_only a b \<Longrightarrow> writes_only b c \<Longrightarrow> writes_only a c"
  by (simp add: writes_only_def)

lemmas output_defs = output_ok_def output_pre_def sent_prefix_def nothing_lost_def busy_def transmitting_def
  accepted_items_def unsent_items_def group_rest_def

lemma finish_write_group_cases:
  assumes "m_current_wg ctx = Some wg"
  shows "\<exists>r log'. finish_write_group cb (ctx, log) = (r, reset_write_group ctx, log')"
proof -
  have "reset_write_group (ctx\<lparr>m_current_wg := x\<rparr>) = reset_write_group ctx" for x
    by (simp add: reset_write_group_def)
  then show ?thesis
    using assms
    by (auto simp: finish_write_group_def invoke_after_write_notificator_if_necessary_def
        invoke_after_write_notificator_if_exists_def comp_defs Let_def split: option.splits)
qed

text \<open>A gather write started.\<close>

lemma handle_current_trivial:
  assumes "output_pre c" "m_current_wg (m_write_output_ctx c) = Some wg"
    and "extract_next_write_operation (asio_max_iov_len E) (m_write_output_ctx c)
      = (Inr (trivial_write_operation bufs n), ctx')"
    and "m_current_wg ctx' = Some wg"
    and "drop (m_next_writable_item_index (m_write_output_ctx c)) (m_items wg)
        = map Trivial_item bufs @ drop (m_next_writable_item_index ctx') (m_items wg)"
  shows "writes_only c (handle_current_write_ctx E c) \<and> output_ok (handle_current_write_ctx E c)
    \<and> busy (handle_current_write_ctx E c)"
proof -
  let ?c = "handle_trivial_write_operation E bufs (c\<lparr>m_write_output_ctx := ctx'\<rparr>)"
  have "handle_current_write_ctx E c = ?c"
    using assms(3) by (simp add: handle_current_write_ctx.simps [of E c])
  moreover have "writes_only c ?c"
    by (simp add: writes_only_def handle_trivial_write_operation_def guard_write_operation_def Let_def)
  moreover have "output_ok ?c \<and> busy ?c"
    using assms(1,2,4,5)
    by (auto simp: output_defs handle_trivial_write_operation_def guard_write_operation_def Let_def)
  ultimately show ?thesis by simp
qed

lemma handle_current_first:
  assumes pre: "output_pre c" and asio: "0 < asio_max_iov_len E"
    and ctx: "m_current_wg (m_write_output_ctx c) = Some wg" "m_next_writable_item_index (m_write_output_ctx c) = 0"
    and items: "m_items wg = Trivial_item b # items"
  shows "writes_only c (handle_current_write_ctx E c) \<and> output_ok (handle_current_write_ctx E c)
    \<and> busy (handle_current_write_ctx E c)"
proof -
  obtain op ctx' where op: "extract_next_write_operation (asio_max_iov_len E) (m_write_output_ctx c) = (Inr op, ctx')"
    "op \<noteq> none_write_operation" "m_current_wg ctx' = Some wg"
    "m_items wg = operation_items op @ drop (m_next_writable_item_index ctx') (m_items wg)"
    using extract_step [OF ctx(1) asio] ctx(2) items by auto
  show ?thesis
  proof (cases op)
    case (trivial_write_operation bufs n)
    then show ?thesis using handle_current_trivial [OF pre ctx(1) _ op(3), of E bufs n] op(1,4) ctx(2) by simp
  qed (use op(2,4) items in simp_all)
qed

text \<open>A round of writing: the rest of the queue is worked off up to the next operation, or an error
  occurs and the connection is closed.\<close>

lemma handle_current_write_ctx_cases:
  assumes "output_pre c" "0 < asio_max_iov_len E"
  shows "\<exists>b c'. handle_current_write_ctx E c = (if b then trigger_error_and_close E unexpected_condition c' else c')
    \<and> writes_only c c' \<and> output_ok c' \<and> (\<not> b \<longrightarrow> busy c' \<or> idle_output c')"
  using assms
proof (induction E c rule: handle_current_write_ctx.induct)
  case (1 E c)
  note IH = 1(1) and pre = 1(2) [unfolded output_defs]
  let ?ctx = "m_write_output_ctx c"
  show ?case
  proof (cases "m_current_wg ?ctx")
    case None
    then have "handle_current_write_ctx E c = trigger_error_and_close E unexpected_condition c"
      by (simp add: handle_current_write_ctx.simps [of E c] extract_next_write_operation_def)
    moreover have "output_ok c" using pre None by (simp add: output_defs)
    ultimately show ?thesis using writes_only_refl by (intro exI [of _ True] exI [of _ c]) simp
  next
  case wg: (Some wg)
  show ?thesis
  proof (cases "m_next_writable_item_index ?ctx < length (m_items wg)")
    case True
    obtain op ctx' where op: "extract_next_write_operation (asio_max_iov_len E) ?ctx = (Inr op, ctx')"
      "op \<noteq> none_write_operation" "m_current_wg ctx' = Some wg"
      "drop (m_next_writable_item_index ?ctx) (m_items wg)
        = operation_items op @ drop (m_next_writable_item_index ctx') (m_items wg)"
      using extract_step [OF wg 1(3) True] by blast
    show ?thesis
    proof (cases op)
      case (trivial_write_operation bufs n)
      then show ?thesis
        using handle_current_trivial [OF 1(2) wg _ op(3), of E bufs n] op(1,4)
        by (intro exI [of _ False] exI [of _ "handle_current_write_ctx E c"]) simp
    next
      case (file_write_operation f)
      let ?c = "c\<lparr>m_write_output_ctx := ctx'\<rparr>"
      have "handle_current_write_ctx E c = trigger_error_and_close E unexpected_condition ?c"
        using op file_write_operation by (simp add: handle_current_write_ctx.simps [of E c])
      moreover have "writes_only c ?c" by (simp add: writes_only_def)
      moreover have "output_ok ?c" using pre op(3) by (auto simp: output_defs)
      ultimately show ?thesis by (intro exI [of _ True] exI [of _ ?c]) simp
    qed (use op in simp)
  next
    case False
    then have ex: "extract_next_write_operation (asio_max_iov_len E) ?ctx = (Inr none_write_operation, ?ctx)"
      using wg by (simp add: extract_next_write_operation_def)
    obtain r log' where fin: "finish_write_group (notificator_throws E) (?ctx, notified c) = (r, reset_write_group ?ctx, log')"
      using finish_write_group_cases [OF wg] by blast
    define c1 where "c1 = c\<lparr>m_write_output_ctx := reset_write_group ?ctx, notified := log'\<rparr>"
    have run: "run_finish_write_group E (c\<lparr>m_write_output_ctx := ?ctx\<rparr>) = (r, c1)"
      using fin by (simp add: run_finish_write_group_def c1_def)
    have w1: "writes_only c c1" by (simp add: writes_only_def c1_def)
    have ok1: "output_ok c1"
      using pre wg False by (auto simp: output_defs c1_def reset_write_group_def)
    have nb: "\<not> busy c1" "m_next_writable_item_index (m_write_output_ctx c1) = 0"
      "socket_open c1 \<longrightarrow> \<not> pending_write c1"
      using pre by (simp_all add: busy_def transmitting_def c1_def reset_write_group_def)
    show ?thesis
    proof (cases r)
      case (Inl e)
      then have "handle_current_write_ctx E c = trigger_error_and_close E unexpected_condition c1"
        using ex run by (simp add: handle_current_write_ctx.simps [of E c])
      then show ?thesis using w1 ok1 by (intro exI [of _ True] exI [of _ c1]) simp
    next
      case (Inr u)
      show ?thesis
      proof (cases "m_outgoing_data c1")
        case Nil
        then have "handle_current_write_ctx E c = c1"
          using ex run Inr nb(1) by (simp add: handle_current_write_ctx.simps [of E c] busy_def)
        then show ?thesis using w1 ok1 nb Nil by (intro exI [of _ False] exI [of _ c1]) (simp add: idle_output_def)
      next
        case (Cons wg2 wgs)
        define c2 where "c2 = c1\<lparr>m_outgoing_data := wgs,
          m_write_output_ctx := start_next_write_group (Some wg2) (m_write_output_ctx c1)\<rparr>"
        have step: "handle_current_write_ctx E c = handle_current_write_ctx E c2"
          using ex run Inr nb(1) Cons by (simp add: handle_current_write_ctx.simps [of E c] busy_def c2_def)
        have w2: "writes_only c c2" using w1 by (simp add: writes_only_def c2_def)
        have pre2: "output_pre c2"
          using ok1 nb Cons by (auto simp: output_defs c2_def start_next_write_group_def)
        have "\<exists>b c'. handle_current_write_ctx E c2 = (if b then trigger_error_and_close E unexpected_condition c' else c')
          \<and> writes_only c2 c' \<and> output_ok c' \<and> (\<not> b \<longrightarrow> busy c' \<or> idle_output c')"
          using IH [OF ex [symmetric] refl refl run [symmetric] Inr _ Cons] nb(1) pre2 1(3)
          by (simp add: c2_def busy_def)
        then show ?thesis using step w2 writes_only_trans by metis
      qed
    qed
  qed
  qed
qed


subsection \<open>The invariant of the connection\<close>

text \<open>Data frames, and a close frame last exactly if writing is disabled.\<close>

definition one_close_last :: "('f, 'n) ws_conn \<Rightarrow> bool" where
  "one_close_last c \<longleftrightarrow>
     (if m_write_state c = write_enabled then list_all (\<lambda>g. \<not> fst g) (accepted c)
      else accepted c \<noteq> [] \<and> fst (last (accepted c)) \<and> list_all (\<lambda>g. \<not> fst g) (butlast (accepted c)))"

definition conn_pre :: "('f, 'n) ws_conn \<Rightarrow> bool" where
  "conn_pre c \<longleftrightarrow> output_ok c \<and> one_close_last c
     \<and> (m_write_state c = write_disabled \<longrightarrow> \<not> m_close_frame_to_peer c)"

definition conn_ok :: "('f, 'n) ws_conn \<Rightarrow> bool" where
  "conn_ok c \<longleftrightarrow> conn_pre c \<and> (busy c \<or> idle_output c \<or> \<not> m_close_frame_to_user c)"

lemma conn_ok_pre: "conn_ok c \<Longrightarrow> conn_pre c"
  by (simp add: conn_ok_def)

lemmas conn_defs = conn_ok_def conn_pre_def one_close_last_def output_ok_def sent_prefix_def nothing_lost_def
  busy_def accepted_items_def unsent_items_def idle_output_def

lemma conn_ok_irrelevant [simp]:
  fixes c :: "('f, 'n) ws_conn"
  shows "conn_ok (c\<lparr>m_parser := p\<rparr>) = conn_ok c" "conn_ok (c\<lparr>m_in_buf := b\<rparr>) = conn_ok c"
    "conn_ok (c\<lparr>m_payload := d\<rparr>) = conn_ok c" "conn_ok (c\<lparr>m_protocol_validator := v\<rparr>) = conn_ok c"
    "conn_ok (c\<lparr>m_read_state := r\<rparr>) = conn_ok c"
    "conn_ok (c\<lparr>m_websocket_weak_handle := a\<rparr>) = conn_ok c"
    "conn_ok (c\<lparr>m_ws_connection_handle := hh\<rparr>) = conn_ok c" "conn_ok (c\<lparr>websocket_held := hh\<rparr>) = conn_ok c"
    "conn_ok (c\<lparr>m_write_operation_timeout_after := t\<rparr>) = conn_ok c"
    "conn_ok (c\<lparr>m_close_frame_from_peer_timeout_after := t'\<rparr>) = conn_ok c"
    "conn_ok (c\<lparr>m_timer_scheduled := s\<rparr>) = conn_ok c" "conn_ok (c\<lparr>pending_read := q\<rparr>) = conn_ok c"
    "conn_ok (c\<lparr>notified := n\<rparr>) = conn_ok c" "conn_ok (c\<lparr>clock := k\<rparr>) = conn_ok c"
    "conn_ok (c\<lparr>delivered := ms\<rparr>) = conn_ok c"
  unfolding conn_defs by simp_all

lemma conn_ok_flags [intro]:
  "conn_ok c \<Longrightarrow> conn_ok (c\<lparr>m_close_frame_to_user := False\<rparr>)"
  "conn_ok c \<Longrightarrow> conn_ok (c\<lparr>m_close_frame_to_peer := False\<rparr>)"
  "conn_pre c \<Longrightarrow> conn_ok (c\<lparr>m_close_frame_to_user := False\<rparr>)"
  by (auto simp: conn_defs)

lemma close_impl_ok: "conn_ok c \<Longrightarrow> conn_ok (close_impl c)"
  by (auto simp: close_impl_def run_if_first_def conn_defs)

lemma run_if_first_user_ok:
  assumes "conn_pre c" "\<And>c. conn_ok c \<Longrightarrow> conn_ok (action c)" "\<not> m_close_frame_to_user c \<or> conn_ok c \<or> True"
  shows "conn_ok (run_if_first m_close_frame_to_user m_close_frame_to_user_update action c)"
proof (cases "m_close_frame_to_user c")
  case True
  then show ?thesis using assms(1,2) by (auto simp: run_if_first_def)
next
  case False
  then show ?thesis using assms(1) by (simp add: run_if_first_def conn_ok_def)
qed

text \<open>The read side of the connection is the same; what was closed remains closed.\<close>

definition same_reads :: "('f, 'n) ws_conn \<Rightarrow> ('f, 'n) ws_conn \<Rightarrow> bool" where
  "same_reads c c' \<longleftrightarrow> m_parser c' = m_parser c \<and> m_in_buf c' = m_in_buf c \<and> m_payload c' = m_payload c
     \<and> m_protocol_validator c' = m_protocol_validator c \<and> pending_read c' = pending_read c
     \<and> (m_close_frame_to_user c' \<longrightarrow> m_close_frame_to_user c) \<and> (socket_open c' \<longrightarrow> socket_open c)
     \<and> (m_read_state c \<noteq> read_nothing \<longrightarrow> m_read_state c' \<noteq> read_nothing)"

lemma same_reads_refl: "same_reads c c"
  by (simp add: same_reads_def)

lemma same_reads_trans: "same_reads a b \<Longrightarrow> same_reads b c \<Longrightarrow> same_reads a c"
  by (simp add: same_reads_def)

lemma same_reads_writes: "writes_only c c' \<Longrightarrow> same_reads c c'"
  by (simp add: same_reads_def writes_only_def)

lemma same_reads_updates [simp]:
  "same_reads c (c\<lparr>m_close_frame_to_user := False\<rparr>)" "same_reads c (c\<lparr>m_close_frame_to_peer := a\<rparr>)"
  "same_reads c (c\<lparr>notified := n\<rparr>)" "same_reads c (c\<lparr>delivered := ms\<rparr>)"
  "same_reads c (c\<lparr>m_write_state := w\<rparr>)" "same_reads c (c\<lparr>m_ws_connection_handle := hh\<rparr>)"
  "same_reads c (c\<lparr>websocket_held := hh\<rparr>)"
  by (simp_all add: same_reads_def)

lemma same_reads_close_impl: "same_reads c (close_impl c)"
  by (simp add: close_impl_def run_if_first_def same_reads_def)

lemma keepsI: "(\<And>c. conn_ok c \<Longrightarrow> conn_ok (snd (m c))) \<Longrightarrow> keeps conn_ok m"
  by (simp add: keeps_def)

lemma keeps_on_member:
  "keeps conn_ok (on_member m_parser m_parser_update m1)"
  "keeps conn_ok (on_member m_protocol_validator m_protocol_validator_update m2)"
  by (simp_all add: keeps_def on_member_def split: prod.splits)

text \<open>
  The contract on the user's handler: it keeps the invariant and does not touch the read side (a user
  has no access to it); and some buffer can be written at once.
\<close>

locale ws_user =
  fixes E :: "('f, 'n) ws_env"
  assumes asio_writes: "0 < asio_max_iov_len E"
    and handler_ok: "conn_ok c \<Longrightarrow> conn_ok (on_message E m c)"
    and handler_reads: "conn_ok c \<Longrightarrow> same_reads c (on_message E m c)"
begin

lemma call_message_handler_ok: "conn_ok c \<Longrightarrow> conn_ok (call_message_handler E m c)"
  by (simp add: call_message_handler_def handler_ok)

lemma call_message_handler_reads: "conn_ok c \<Longrightarrow> same_reads c (call_message_handler E m c)"
  using handler_reads [of "c\<lparr>delivered := delivered c @ [m]\<rparr>" m]
  by (simp add: call_message_handler_def same_reads_def)

lemma call_close_handler_ok: "conn_pre c \<Longrightarrow> conn_ok (call_close_handler_if_necessary E st c)"
  unfolding call_close_handler_if_necessary_def
  by (rule run_if_first_user_ok) (simp_all add: call_message_handler_ok)

lemma call_close_handler_reads: "conn_pre c \<Longrightarrow> same_reads c (call_close_handler_if_necessary E st c)"
  using call_message_handler_reads [OF conn_ok_flags(3) [of c]]
  by (auto simp: call_close_handler_if_necessary_def run_if_first_def same_reads_def)

lemma trigger_error_ok: "conn_pre c \<Longrightarrow> conn_ok (trigger_error_and_close E st c)"
  by (simp add: trigger_error_and_close_def close_impl_ok call_close_handler_ok)

lemma trigger_error_reads: "conn_pre c \<Longrightarrow> same_reads c (trigger_error_and_close E st c)"
  unfolding trigger_error_and_close_def
  using call_close_handler_reads same_reads_close_impl same_reads_trans by blast

lemma trigger_error_told: "conn_pre c \<Longrightarrow> \<not> m_close_frame_to_user (trigger_error_and_close E st c)"
  using call_message_handler_reads [OF conn_ok_flags(3) [of c]]
  by (auto simp: trigger_error_and_close_def call_close_handler_if_necessary_def run_if_first_def close_impl_def
      same_reads_def)

lemma handle_current_ok:
  assumes "output_pre c" "one_close_last c" "m_write_state c = write_disabled \<longrightarrow> \<not> m_close_frame_to_peer c"
  shows "conn_ok (handle_current_write_ctx E c)" "same_reads c (handle_current_write_ctx E c)"
proof -
  obtain b c' where h: "handle_current_write_ctx E c = (if b then trigger_error_and_close E unexpected_condition c' else c')"
    "writes_only c c'" "output_ok c'" "\<not> b \<longrightarrow> busy c' \<or> idle_output c'"
    using handle_current_write_ctx_cases [OF assms(1) asio_writes] by blast
  have pre': "conn_pre c'" using h(2,3) assms(2,3) by (simp add: conn_pre_def one_close_last_def writes_only_def)
  show "conn_ok (handle_current_write_ctx E c)"
    using h(1,4) trigger_error_ok [OF pre'] pre' by (cases b) (auto simp: conn_ok_def)
  show "same_reads c (handle_current_write_ctx E c)"
    using h(1) same_reads_writes [OF h(2)]
      same_reads_trans [OF same_reads_writes [OF h(2)] trigger_error_reads [OF pre', of unexpected_condition]] by simp
qed

text \<open>Starting to write when something was appended: the first group of the queue is taken.\<close>

lemma started:
  assumes "output_ok c" "\<not> busy c" "m_outgoing_data c = wg # wgs"
  shows "output_pre (c\<lparr>m_outgoing_data := wgs,
    m_write_output_ctx := start_next_write_group (Some wg) (m_write_output_ctx c)\<rparr>)"
  using assms by (auto simp: output_defs start_next_write_group_def)

lemma init_write_ok:
  assumes "conn_pre c" "busy c \<or> m_next_writable_item_index (m_write_output_ctx c) = 0 \<or> \<not> m_close_frame_to_user c"
  shows "conn_ok (init_write_if_necessary E c)" "same_reads c (init_write_if_necessary E c)"
proof -
  consider "busy c" | "\<not> busy c" "m_outgoing_data c = []"
    | wg wgs where "\<not> busy c" "m_outgoing_data c = wg # wgs" by (cases "m_outgoing_data c") auto
  then have "conn_ok (init_write_if_necessary E c) \<and> same_reads c (init_write_if_necessary E c)"
  proof cases
    case 1
    then show ?thesis using assms(1) by (simp add: init_write_if_necessary_def busy_def conn_ok_def same_reads_refl)
  next
    case 2
    then show ?thesis using assms
      by (auto simp: init_write_if_necessary_def init_write_def outgoing_pop_def busy_def conn_ok_def
          idle_output_def same_reads_refl)
  next
    case 3
    let ?c = "c\<lparr>m_outgoing_data := wgs, m_write_output_ctx := start_next_write_group (Some wg) (m_write_output_ctx c)\<rparr>"
    have "output_pre ?c" using started [OF _ 3] assms(1) by (simp add: conn_pre_def)
    from handle_current_ok [OF this] have "conn_ok (handle_current_write_ctx E ?c) \<and> same_reads ?c (handle_current_write_ctx E ?c)"
      using assms(1) by (simp add: conn_pre_def one_close_last_def)
    moreover have "init_write_if_necessary E c = handle_current_write_ctx E ?c"
      using 3 by (simp add: init_write_if_necessary_def init_write_def outgoing_pop_def busy_def)
    ultimately show ?thesis by (simp add: same_reads_def)
  qed
  then show "conn_ok (init_write_if_necessary E c)" "same_reads c (init_write_if_necessary E c)" by simp_all
qed

text \<open>Sending a close frame calls the user for nothing: either the output is busy, or idle and the
  close frame is written at once, or the user has been told of the end already.\<close>

lemma send_close_ok:
  assumes "conn_ok c" "m_write_state c = write_enabled" "\<not> m_close_frame_to_peer c"
  shows "conn_ok (send_close_frame_to_peer E d c)" "same_reads c (send_close_frame_to_peer E d c)"
    "m_read_state (send_close_frame_to_peer E d c) = m_read_state c"
    "m_close_frame_to_user (send_close_frame_to_peer E d c) = m_close_frame_to_user c"
    "delivered (send_close_frame_to_peer E d c) = delivered c"
    "m_write_state (send_close_frame_to_peer E d c) = write_disabled"
proof -
  let ?g = "close_frame_group d :: ('f, 'n) write_group"
  define c1 where "c1 = outgoing_append True ?g c"
  have ok1: "output_ok c1" using assms(1) by (auto simp: c1_def outgoing_append_def conn_defs)
  have c1: "m_close_frame_to_user c1 = m_close_frame_to_user c" "m_read_state c1 = m_read_state c"
    "delivered c1 = delivered c" "same_reads c c1" "m_close_frame_to_peer c1 = m_close_frame_to_peer c"
    "accepted c1 = accepted c @ [(True, m_items ?g)]"
    by (simp_all add: c1_def outgoing_append_def same_reads_def)
  have ex: "\<exists>b c'. init_write_if_necessary E c1 = (if b then close_impl c' else c') \<and> writes_only c1 c' \<and> output_ok c'
    \<and> (busy c' \<or> idle_output c' \<or> \<not> m_close_frame_to_user c)"
  proof (cases "busy c1")
    case True
    then show ?thesis using ok1
      by (intro exI [of _ False] exI [of _ c1]) (simp add: init_write_if_necessary_def busy_def writes_only_refl)
  next
    case False
    obtain wg wgs where q: "m_outgoing_data c1 = wg # wgs"
      by (cases "m_outgoing_data c1") (auto simp: c1_def outgoing_append_def)
    let ?c = "c1\<lparr>m_outgoing_data := wgs, m_write_output_ctx := start_next_write_group (Some wg) (m_write_output_ctx c1)\<rparr>"
    have pre: "output_pre ?c" by (rule started [OF ok1 False q])
    have w: "writes_only c1 ?c" by (simp add: writes_only_def)
    have init: "init_write_if_necessary E c1 = handle_current_write_ctx E ?c"
      using False q by (simp add: init_write_if_necessary_def init_write_def outgoing_pop_def busy_def)
    obtain b c' where h: "handle_current_write_ctx E ?c = (if b then trigger_error_and_close E unexpected_condition c' else c')"
      "writes_only ?c c'" "output_ok c'" "\<not> b \<longrightarrow> busy c' \<or> idle_output c'"
      using handle_current_write_ctx_cases [OF pre asio_writes] by blast
    have w': "writes_only c1 c'" using w h(2) by (rule writes_only_trans)
    show ?thesis
    proof (cases "m_close_frame_to_user c")
      case True
      have "\<not> busy c" using False by (simp add: c1_def outgoing_append_def busy_def)
      then have idle: "m_outgoing_data c = []" "m_next_writable_item_index (m_write_output_ctx c) = 0"
        using assms(1) True by (auto simp: conn_ok_def idle_output_def)
      then have "\<exists>b items. m_items wg = Trivial_item b # items"
        using q by (auto simp: c1_def outgoing_append_def close_frame_group_def write_group_def)
      then obtain b' items where "m_items wg = Trivial_item b' # items" by blast
      from handle_current_first [OF pre asio_writes _ _ this] idle(2)
      have "writes_only ?c (handle_current_write_ctx E ?c) \<and> output_ok (handle_current_write_ctx E ?c)
        \<and> busy (handle_current_write_ctx E ?c)"
        by (simp add: start_next_write_group_def c1_def outgoing_append_def)
      then show ?thesis
        using init writes_only_trans [OF w] by (intro exI [of _ False] exI [of _ "handle_current_write_ctx E ?c"]) simp
    next
      case False
      then have "\<not> m_close_frame_to_user c'" using w' c1(1) by (simp add: writes_only_def)
      then have "trigger_error_and_close E unexpected_condition c' = close_impl c'"
        by (simp add: trigger_error_and_close_def call_close_handler_if_necessary_def run_if_first_def)
      then show ?thesis using init h(1,3) w' False by (intro exI [of _ b] exI [of _ c']) simp
    qed
  qed
  then obtain b c' where c': "init_write_if_necessary E c1 = (if b then close_impl c' else c')" "writes_only c1 c'"
    "output_ok c'" "busy c' \<or> idle_output c' \<or> \<not> m_close_frame_to_user c" by blast
  have sent: "send_close_frame_to_peer E d c = (if b then close_impl c' else c')\<lparr>m_write_state := write_disabled\<rparr>"
    using c'(1) by (simp add: send_close_frame_to_peer_def c1_def)
  have last: "one_close_last (c'\<lparr>m_write_state := write_disabled\<rparr>)"
    using assms(1,2) c'(2) c1(6) by (simp add: one_close_last_def conn_ok_def conn_pre_def writes_only_def)
  have "conn_ok (c'\<lparr>m_write_state := write_disabled\<rparr>)"
    using c'(2-4) c1(1,5) last assms(3) by (simp add: conn_defs writes_only_def)
  moreover have "(close_impl c')\<lparr>m_write_state := write_disabled\<rparr> = close_impl (c'\<lparr>m_write_state := write_disabled\<rparr>)"
    by (simp add: close_impl_def run_if_first_def)
  ultimately show "conn_ok (send_close_frame_to_peer E d c)"
    using sent close_impl_ok by (cases b) simp_all
  have "same_reads c c'" using c1(4) same_reads_writes [OF c'(2)] by (rule same_reads_trans)
  then show "same_reads c (send_close_frame_to_peer E d c)"
    using sent by (cases b) (simp_all add: same_reads_def close_impl_def run_if_first_def)
  show "m_read_state (send_close_frame_to_peer E d c) = m_read_state c"
    "m_close_frame_to_user (send_close_frame_to_peer E d c) = m_close_frame_to_user c"
    "delivered (send_close_frame_to_peer E d c) = delivered c"
    "m_write_state (send_close_frame_to_peer E d c) = write_disabled"
    using sent c'(2) c1(1,2,3) by (simp_all add: close_impl_def run_if_first_def writes_only_def)
qed

text \<open>Sending a close frame unless one was sent.\<close>

lemma first_close_ok:
  assumes "conn_ok c"
  shows "conn_ok (run_if_first m_close_frame_to_peer m_close_frame_to_peer_update (send_close_frame_to_peer E d) c)"
    "same_reads c (run_if_first m_close_frame_to_peer m_close_frame_to_peer_update (send_close_frame_to_peer E d) c)"
proof -
  let ?c = "c\<lparr>m_close_frame_to_peer := False\<rparr>"
  have "m_write_state c = write_enabled" if "m_close_frame_to_peer c"
    using that assms by (cases "m_write_state c") (simp_all add: conn_ok_def conn_pre_def)
  then have "m_close_frame_to_peer c \<Longrightarrow> conn_ok (send_close_frame_to_peer E d ?c)
    \<and> same_reads ?c (send_close_frame_to_peer E d ?c)"
    using send_close_ok [of ?c d] conn_ok_flags(2) [OF assms] by simp
  then show "conn_ok (run_if_first m_close_frame_to_peer m_close_frame_to_peer_update (send_close_frame_to_peer E d) c)"
    "same_reads c (run_if_first m_close_frame_to_peer m_close_frame_to_peer_update (send_close_frame_to_peer E d) c)"
    using assms by (simp_all add: run_if_first_def same_reads_refl) (simp add: same_reads_def)
qed

lemma waiting_ok: "conn_ok c \<Longrightarrow> conn_ok (start_waiting_close_frame_only E c)"
  by (simp add: start_waiting_close_frame_only_def guard_close_frame_from_peer_operation_def)

lemma waiting_reads: "same_reads c (start_waiting_close_frame_only E c)"
  by (simp add: start_waiting_close_frame_only_def guard_close_frame_from_peer_operation_def same_reads_def)

lemma run_if_first_then:
  "run_if_first flag upd (\<lambda>c. g (f c)) c = (if flag c then g (run_if_first flag upd f c) else c)"
  by (simp add: run_if_first_def)

lemma first_close_waiting_ok:
  assumes "conn_ok c"
  shows "conn_ok (run_if_first m_close_frame_to_peer m_close_frame_to_peer_update
      (\<lambda>c. start_waiting_close_frame_only E (send_close_frame_to_peer E d c)) c)"
    "same_reads c (run_if_first m_close_frame_to_peer m_close_frame_to_peer_update
      (\<lambda>c. start_waiting_close_frame_only E (send_close_frame_to_peer E d c)) c)"
  using first_close_ok [OF assms, of d] assms same_reads_trans [OF _ waiting_reads]
  by (auto simp: run_if_first_then waiting_ok same_reads_refl)

text \<open>What the user may do.\<close>

lemma write_data_impl_ok:
  assumes "conn_ok c" "m_write_state c = write_enabled"
  shows "conn_ok (write_data_impl E wg is_close c)" "same_reads c (write_data_impl E wg is_close c)"
proof -
  define c1 where "c1 = (if is_close then start_waiting_close_frame_only E
    (c\<lparr>m_close_frame_to_peer := False, m_close_frame_to_user := False, m_write_state := write_disabled\<rparr>) else c)"
  let ?c = "outgoing_append is_close wg c1"
  have pre: "conn_pre ?c"
    using assms by (auto simp: c1_def outgoing_append_def start_waiting_close_frame_only_def
        guard_close_frame_from_peer_operation_def conn_defs)
  have idx: "busy ?c \<or> m_next_writable_item_index (m_write_output_ctx ?c) = 0 \<or> \<not> m_close_frame_to_user ?c"
    using assms(1) by (auto simp: c1_def outgoing_append_def start_waiting_close_frame_only_def
        guard_close_frame_from_peer_operation_def conn_ok_def busy_def idle_output_def)
  have "same_reads c ?c"
    by (simp add: c1_def outgoing_append_def start_waiting_close_frame_only_def
        guard_close_frame_from_peer_operation_def same_reads_def)
  then have reads: "same_reads c (init_write_if_necessary E ?c)"
    using init_write_ok(2) [OF pre idx] by (rule same_reads_trans)
  have eq: "write_data_impl E wg is_close c = (if socket_open c then init_write_if_necessary E ?c
    else c\<lparr>notified := snd (snd (invoke_after_write_notificator_if_exists (notificator_throws E)
            write_was_not_executed (wg, notified c)))\<rparr>)"
    by (simp add: write_data_impl_def c1_def Let_def)
  show "conn_ok (write_data_impl E wg is_close c)"
    using eq init_write_ok(1) [OF pre idx] assms(1) by simp
  show "same_reads c (write_data_impl E wg is_close c)"
    using eq reads by simp
qed

lemma ws_write_data_ok:
  assumes "conn_ok c"
  shows "conn_ok (ws_write_data E wg is_close c)" "same_reads c (ws_write_data E wg is_close c)"
  using write_data_impl_ok [OF assms, of wg is_close] assms by (simp_all add: ws_write_data_def)

lemma ws_shutdown_ok:
  assumes "conn_ok c"
  shows "conn_ok (ws_shutdown E c)" "same_reads c (ws_shutdown E c)"
proof -
  let ?c = "c\<lparr>m_close_frame_to_user := False\<rparr>"
  note ok = first_close_waiting_ok [OF conn_ok_flags(1) [OF assms], of "status_code_to_bin normal_closure"]
  show "conn_ok (ws_shutdown E c)"
    using ok(1) by (simp add: ws_shutdown_def graceful_close_def send_close_code_to_peer_def)
  have "same_reads ?c (ws_shutdown E c)"
    using ok(2) by (simp add: ws_shutdown_def graceful_close_def send_close_code_to_peer_def)
  then show "same_reads c (ws_shutdown E c)" by (simp add: same_reads_def)
qed

text \<open>The reads and the events.\<close>

lemma handle_invalid_payload_ok:
  assumes "conn_ok c"
  shows "conn_ok (handle_invalid_payload E v c)" "same_reads c (handle_invalid_payload E v c)"
proof -
  let ?close = "\<lambda>st. call_close_handler_if_necessary E st"
  note f = first_close_ok [OF assms] and w = first_close_waiting_ok [OF assms]
  show "conn_ok (handle_invalid_payload E v c)"
    using assms call_close_handler_ok [OF conn_ok_pre [OF f(1)]] call_close_handler_ok [OF conn_ok_pre [OF w(1)]]
    by (simp add: handle_invalid_payload_def send_close_code_to_peer_def close_impl_ok)
  show "same_reads c (handle_invalid_payload E v c)"
    using same_reads_trans [OF f(2) call_close_handler_reads [OF conn_ok_pre [OF f(1)]]]
      same_reads_trans [OF w(2) call_close_handler_reads [OF conn_ok_pre [OF w(1)]]]
    by (simp add: handle_invalid_payload_def send_close_code_to_peer_def same_reads_refl same_reads_close_impl)
qed

lemma keeps_validate:
  assumes "keeps conn_ok m"
  shows "keeps conn_ok (validate_payload_part E m offset len k)"
proof -
  have [simp]: "conn_ok (start_read_payload n k b c) = conn_ok c" for n k b c by (simp add: start_read_payload_def)
  show ?thesis
    unfolding validate_payload_part_def using assms
    by (auto intro!: keeps_intros keeps_on_member handle_invalid_payload_ok split: prod.splits)
qed

lemma keeps_current_message:
  assumes "keeps conn_ok m"
  shows "keeps conn_ok (call_handler_on_current_message E m)"
proof (rule keepsI)
  fix c :: "('f, 'n) ws_conn"
  assume ok: "conn_ok c"
  obtain r v where f: "finish_frame (m_protocol_validator c) = (r, v)" by fastforce
  let ?c = "c\<lparr>m_protocol_validator := v\<rparr>" and ?md = "m_current_msg (m_parser c)"
  define c1 where "c1 = (if connection_close_frame = m_opcode ?md then
      (run_if_first m_close_frame_to_peer m_close_frame_to_peer_update
        (\<lambda>c. send_close_frame_to_peer E (m_payload c) c) (?c\<lparr>m_close_frame_to_user := False\<rparr>))\<lparr>m_read_state := read_nothing\<rparr>
    else ?c)"
  have run: "run_if_first m_close_frame_to_peer m_close_frame_to_peer_update (\<lambda>c. send_close_frame_to_peer E (m_payload c) c) x
    = run_if_first m_close_frame_to_peer m_close_frame_to_peer_update (send_close_frame_to_peer E (m_payload x)) x" for x
    by (simp add: run_if_first_def)
  have "conn_ok ?c" using ok by simp
  then have "conn_ok (?c\<lparr>m_close_frame_to_user := False\<rparr>)" by (rule conn_ok_flags(1))
  then have ok1: "conn_ok c1" using first_close_ok(1) ok unfolding c1_def run by simp
  then have ok2: "conn_ok (call_message_handler E msg (c1\<lparr>m_payload := []\<rparr>))" for msg
    by (simp add: call_message_handler_ok)
  have timer: "conn_ok (close_impl (?c\<lparr>m_timer_scheduled := False\<rparr>))" using ok by (simp add: close_impl_ok)
  show "conn_ok (snd (call_handler_on_current_message E m c))"
    using ok ok2 timer keepsD [OF assms] handle_invalid_payload_ok(1) [of ?c]
    unfolding call_handler_on_current_message_def f Let_def split_conv c1_def [symmetric]
    by (simp cong: if_cong)
qed

lemma keeps_header:
  assumes "keeps conn_ok m"
  shows "keeps conn_ok (handle_parsed_header E m md)"
proof -
  have invalid: "conn_ok (if read_any_frame = m_read_state c then
      call_close_handler_if_necessary E protocol_error
        (run_if_first m_close_frame_to_peer m_close_frame_to_peer_update (send_close_code_to_peer E protocol_error) c)
    else if read_only_close_frame = m_read_state c then close_impl c else c)" if "conn_ok c" for c
    using that call_close_handler_ok [OF conn_ok_pre [OF first_close_ok(1) [OF that]]]
    by (simp add: send_close_code_to_peer_def close_impl_ok)
  have [simp]: "conn_ok (start_read_payload n k b c) = conn_ok c" for n k b c by (simp add: start_read_payload_def)
  have "keeps conn_ok (handle_parsed_and_valid_header E m md)"
  proof (rule keepsI)
    fix c :: "('f, 'n) ws_conn"
    assume ok: "conn_ok c"
    have part: "keeps conn_ok (bnd (validate_payload_part E m 0 k r) (\<lambda>valid.
        if valid then if 0 = r then call_handler_on_current_message E m else modify (start_read_payload k r True)
        else ret ()))" for k r
      using keeps_validate [OF assms] keeps_current_message [OF assms] by (intro keeps_bnd) (auto intro: keeps_intros keeps_on_member)
    show "conn_ok (snd (handle_parsed_and_valid_header E m md c))"
      using ok keepsD [OF part] keepsD [OF keeps_current_message [OF assms]]
      by (simp add: handle_parsed_and_valid_header_def Let_def)
  qed
  then show ?thesis
    unfolding handle_parsed_header_def using invalid by (intro keeps_bnd) (auto intro!: keeps_intros keeps_on_member simp: keeps_on_member)
qed

lemma keeps_from_buffer:
  assumes "keeps conn_ok m"
  shows "keeps conn_ok (consume_header_from_buffer E m data)"
  unfolding consume_header_from_buffer_def
  using keeps_header [OF assms] by (auto intro!: keeps_intros keeps_on_member simp: consume_header_from_socket_def)

lemma keeps_read_header: "keeps conn_ok (start_read_header E n)"
proof (induction n)
  case (Suc n)
  have "keeps conn_ok (\<lambda>c. if 0 = buffer_length (m_in_buf c) then (Inr (), consume_header_from_socket c)
            else consume_header_from_buffer E (start_read_header E n) (buffer_bytes (m_in_buf c)) c)"
    by (rule keepsI) (simp add: consume_header_from_socket_def keepsD [OF keeps_from_buffer [OF Suc]])
  then show ?case unfolding start_read_header.simps by (intro keeps_sq keeps_modify) simp_all
qed (simp add: keeps_basic)

lemma guarded_ok: "keeps conn_ok m \<Longrightarrow> conn_ok c \<Longrightarrow> conn_ok (guarded E m c)"
  using keepsD [of conn_ok m c] trigger_error_ok [OF conn_ok_pre] by (auto simp: guarded_def split: prod.splits sum.splits)

lemma init_read_ok: "conn_ok c \<Longrightarrow> conn_ok (init_read E c)"
  by (simp add: init_read_def guarded_ok keeps_read_header)

lemma keeps_after_read: "keeps conn_ok (after_read_header E ec n)" "keeps conn_ok (after_read_payload E off rem ec n b)"
proof -
  have err: "keeps conn_ok (modify (handle_read_error E))"
    by (simp add: keeps_modify handle_read_error_def trigger_error_ok conn_ok_pre)
  have "keeps conn_ok (\<lambda>c. consume_header_from_buffer E (start_read_header E read_fuel) (buffer_bytes (m_in_buf c)) c)"
    by (rule keepsI) (simp add: keepsD [OF keeps_from_buffer [OF keeps_read_header]])
  then show "keeps conn_ok (after_read_header E ec n)" using err by (auto simp: after_read_header_def intro!: keeps_intros keeps_on_member)
  have [simp]: "conn_ok (start_read_payload n k b c) = conn_ok c" for n k b c by (simp add: start_read_payload_def)
  have "keeps conn_ok (bnd (validate_payload_part E (start_read_header E read_fuel) off n k) (\<lambda>valid.
      if valid then if 0 = k then call_handler_on_current_message E (start_read_header E read_fuel)
        else modify (start_read_payload (off + n) k b) else ret ()))" for k
    using keeps_validate keeps_current_message keeps_read_header by (intro keeps_bnd) (auto intro!: keeps_intros keeps_on_member)
  then show "keeps conn_ok (after_read_payload E off rem ec n b)"
    using err keeps_read_header by (auto simp: after_read_payload_def Let_def intro!: keeps_intros keeps_on_member)
qed

lemma read_completed_ok: "conn_ok c \<Longrightarrow> conn_ok (read_completed E ec data c)"
  by (simp add: read_completed_def guarded_ok keeps_after_read split: option.split pending_read.split)

lemma check_timeout_ok:
  assumes "conn_ok c"
  shows "conn_ok (check_timeout E c)"
  using assms call_close_handler_ok [OF conn_ok_pre [OF conn_ok_flags(2) [OF assms]]]
  by (simp add: check_timeout_def close_impl_ok)

lemma write_completed_ok:
  assumes "conn_ok c"
  shows "conn_ok (write_completed E ec c)"
proof -
  let ?c = "c\<lparr>pending_write := False\<rparr>"
  have pre: "output_pre ?c" "conn_pre ?c" if "pending_write c"
    using assms that by (auto simp: conn_defs output_pre_def)
  have "conn_ok (handle_current_write_ctx E ?c)" if "pending_write c"
    using handle_current_ok(1) [OF pre(1) [OF that]] pre(2) [OF that] by (simp add: conn_pre_def)
  moreover have "conn_ok (c1\<lparr>m_write_output_ctx := ctx, notified := log\<rparr>)" if "pending_write c"
    "c1 = trigger_error_and_close E connection_lost ?c"
    "fail_write_group (notificator_throws E) ec (m_write_output_ctx c1, notified c1) = (r, ctx, log)" for c1 r ctx log
  proof -
    have ok: "conn_ok c1" using trigger_error_ok [OF pre(2)] that(1,2) by simp
    have "m_close_impl x \<or> \<not> socket_open x \<Longrightarrow> \<not> socket_open (close_impl x)" for x :: "('f, 'n) ws_conn"
      by (auto simp: close_impl_def run_if_first_def)
    then have "\<not> socket_open c1"
      using call_close_handler_ok [OF pre(2) [OF that(1)], of connection_lost] that(2)
      by (simp add: trigger_error_and_close_def conn_ok_def conn_pre_def output_ok_def)
    moreover have "\<not> m_close_frame_to_user c1"
      using that(2) trigger_error_told [OF pre(2) [OF that(1)]] by simp
    ultimately show ?thesis using ok by (simp add: conn_defs)
  qed
  ultimately show ?thesis using assms
    by (auto simp: write_completed_def after_write_def Let_def split: prod.split)
qed

end

subsection \<open>Users and events\<close>

text \<open>
  A user reacts to each message with a list of actions, chosen with the whole state in view; the
  actions may end in another message (the close notification), whose reaction is nested. \<open>n\<close> bounds
  the depth of the nesting, and everything is shown for every \<open>n\<close>.
\<close>

datatype ('f, 'n) user_action =
    Send final_frame_flag_t opcode_t "'f writable_item" "'n option"
  | Shutdown
  | Kill
  | Drop

fun perform :: "('f, 'n) ws_env \<Rightarrow> ('f, 'n) user_action \<Rightarrow> ('f, 'n) ws_conn \<Rightarrow> ('f, 'n) ws_conn" where
  "perform E (Send final opcode payload wscb) c = snd (ws_t_send_message E final opcode payload wscb c)"
| "perform E Shutdown c = ws_t_shutdown E c"
| "perform E Kill c = ws_t_kill c"
| "perform E Drop c = ws_t_drop E c"

fun user_env :: "nat \<Rightarrow> (message_t \<Rightarrow> ('f, 'n) ws_conn \<Rightarrow> ('f, 'n) user_action list) \<Rightarrow> ('f, 'n) ws_env \<Rightarrow>
    ('f, 'n) ws_env" where
  "user_env 0 h E = E\<lparr>on_message := \<lambda>m c. c\<rparr>"
| "user_env (Suc n) h E = E\<lparr>on_message := \<lambda>m c. fold (perform (user_env n h E)) (h m c) c\<rparr>"

lemma user_env_settings: "asio_max_iov_len (user_env n h E) = asio_max_iov_len E"
  by (cases n) simp_all

text \<open>The events of a connection: its activation, a call of the user, the completion of an operation,
  the timer, and time.\<close>

datatype ('f, 'n) ws_event =
    Activated
  | User_did "('f, 'n) user_action"
  | Read_done io_status bytes
  | Write_done io_status
  | Timer_fired
  | Time_passed int

fun ws_step :: "('f, 'n) ws_env \<Rightarrow> ('f, 'n) ws_event \<Rightarrow> ('f, 'n) ws_conn \<Rightarrow> ('f, 'n) ws_conn" where
  "ws_step E Activated c = snd (ws_activate E c)"
| "ws_step E (User_did a) c = perform E a c"
| "ws_step E (Read_done ec data) c = read_completed E ec data c"
| "ws_step E (Write_done ec) c = write_completed E ec c"
| "ws_step E Timer_fired c = check_timeout E c"
| "ws_step E (Time_passed t) c = c\<lparr>clock := clock c + t\<rparr>"

lemma ws_conn_new_ok: "conn_ok (ws_conn_new g t)"
  by (simp add: conn_defs ws_conn_new_def write_output_ctx_new_def group_rest_def)

lemma ws_kill_ok: "conn_ok c \<Longrightarrow> conn_ok (ws_kill c)" "same_reads c (ws_kill c)"
  by (auto simp: ws_kill_def close_impl_def run_if_first_def same_reads_def conn_defs)

context ws_user
begin

lemma perform_ok:
  assumes "conn_ok c"
  shows "conn_ok (perform E a c) \<and> same_reads c (perform E a c)"
proof -
  let ?c = "c\<lparr>m_ws_connection_handle := False\<rparr>" and ?d = "c\<lparr>websocket_held := False\<rparr>"
  have handle: "conn_ok ?c" "same_reads c ?c" and dropped: "same_reads c (?d\<lparr>m_ws_connection_handle := False\<rparr>)"
    using assms by (simp_all add: same_reads_def)
  note reads = same_reads_trans [OF handle(2)] same_reads_trans [OF dropped]
  show ?thesis
    using assms by (cases a)
      (auto simp: ws_t_send_message_def Let_def ws_t_shutdown_def ws_t_kill_def ws_t_drop_def ws_write_data_ok
        ws_shutdown_ok ws_kill_ok same_reads_refl reads split: writable_item.split)
qed

lemma performs_ok: "conn_ok c \<Longrightarrow> conn_ok (fold (perform E) as c) \<and> same_reads c (fold (perform E) as c)"
proof (induction as arbitrary: c)
  case (Cons a as)
  then show ?case using perform_ok [of c a] same_reads_trans by fastforce
qed (simp add: same_reads_refl)

lemma ws_step_ok: "conn_ok c \<Longrightarrow> conn_ok (ws_step E ev c)"
  by (cases ev) (simp_all add: perform_ok ws_activate_def init_read_ok read_completed_ok write_completed_ok check_timeout_ok)

lemma ws_upgrade_ok: "conn_ok (ws_upgrade E i r g t)"
proof -
  have "conn_ok (ws_write_data E (write_group [Trivial_item r]) False (ws_conn_new g t))"
    by (rule ws_write_data_ok(1) [OF ws_conn_new_ok])
  then show ?thesis by (simp add: ws_upgrade_def Let_def ws_activate_def init_read_ok)
qed

lemma ws_run_ok: "conn_ok c \<Longrightarrow> conn_ok (fold (ws_step E) evs c)"
  by (induction evs arbitrary: c) (simp_all add: ws_step_ok)

end

lemma user_env_ok: "0 < asio_max_iov_len B \<Longrightarrow> ws_user (user_env n h B)"
proof (induction n)
  case 0
  then show ?case by unfold_locales (simp_all add: same_reads_refl)
next
  case (Suc n)
  note prev = ws_user.performs_ok [OF Suc.IH [OF Suc.prems]]
  show ?case using Suc.prems by unfold_locales (simp_all add: prev)
qed

interpretation ws_users: ws_user "user_env n h (B\<lparr>asio_max_iov_len := Suc k\<rparr>)" for n h B k
  by (rule user_env_ok) simp

text \<open>A connection after the upgrade and a sequence of events.\<close>

definition ws_after :: "('f, 'n) ws_env \<Rightarrow> bool \<Rightarrow> bytes \<Rightarrow> bytes \<Rightarrow> int \<Rightarrow> ('f, 'n) ws_event list \<Rightarrow> ('f, 'n) ws_conn" where
  "ws_after E immediate response g t evs = fold (ws_step E) evs (ws_upgrade E immediate response g t)"

lemma ws_after_ok: "conn_ok (ws_after (user_env n h (B\<lparr>asio_max_iov_len := Suc k\<rparr>)) i r g t evs)"
  unfolding ws_after_def by (rule ws_users.ws_run_ok [OF ws_users.ws_upgrade_ok])

text \<open>
  C19. Whatever the user, the peer, the network and the timers do, in whatever order: what was written to
  the socket is a prefix of what was accepted for sending, item by item and in order.\<close>

theorem ws_sent_in_order:
  "\<exists>rest. accepted_items (ws_after (user_env n h (B\<lparr>asio_max_iov_len := Suc k\<rparr>)) i r g t evs)
    = map Trivial_item (sent (ws_after (user_env n h (B\<lparr>asio_max_iov_len := Suc k\<rparr>)) i r g t evs)) @ rest"
  using ws_after_ok [of n h k B i r g t evs] by (simp add: conn_ok_def conn_pre_def output_ok_def sent_prefix_def)


end
