(* ===== verification/Restinio_Ws_Reading.thy ===== *)
theory Restinio_Ws_Reading
  imports Restinio_Ws_Props
begin

text \<open>
  The read side of a WebSocket connection: what \<open>start_read_header\<close> and the completion handlers of a
  read keep, that they end without an exception of the parser, of the validator or of an assertion,
  that a read is always asked to fill the rest of the payload, and a state in which the connection
  stops reading although it waits for the close frame of the peer.
\<close>

subsection \<open>The parser and the validator never throw\<close>

lemma execute_progress:
  assumes "parser_ok p" "\<not> header_parsed p"
  shows "\<exists>k p'. parser_execute data p = (Inr k, p') \<and> parser_ok p' \<and> k \<le> length data
    \<and> (header_parsed p' \<longrightarrow> 0 < k) \<and> (\<not> header_parsed p' \<longrightarrow> k = length data)"
proof (cases data)
  case Nil
  then show ?thesis using assms by (simp add: parser_execute_def ret_apply)
next
  case (Cons b bs)
  obtain p1 where p1: "parser_process_byte b p = (Inr (), p1)" "parser_ok p1"
    using process_byte_ok [OF assms] by blast
  obtain k p' where k: "parser_execute_loop bs 1 p1 = (Inr k, p')" "parser_ok p'" "1 \<le> k" "k \<le> 1 + length bs"
    "k < 1 + length bs \<longrightarrow> header_parsed p'"
    using execute_loop_ok [OF p1(2), of bs 1] by blast
  have "parser_execute data p = (Inr k, p')"
    using Cons assms(2) p1(1) k(1) by (simp add: parser_execute_def header_parsed_def sq_Inr)
  then show ?thesis using k(2-5) Cons by (cases "header_parsed p'") auto
qed

lemma checks_keep_working [simp]:
  "m_working_state (check_utf8_byte b v) = m_working_state v"
  "m_working_state (validate_close_code code v) = m_working_state v"
  by (simp_all add: check_utf8_byte_def validate_close_code_def Let_def split: prod.split)

lemma add_byte_ok:
  "\<not> all_bytes_loaded d \<Longrightarrow> \<exists>r d'. add_byte_and_check_size b d = (Inr r, d')"
  by (simp add: add_byte_and_check_size_def all_bytes_loaded_def Let_def)

lemma process_payload_byte_ok:
  "\<exists>c v'. process_payload_byte b v = (Inr c, v') \<and> m_working_state v' = m_working_state v"
proof -
  obtain b' v1 where u: "(if m_unmask_flag v
      then (case unmask_byte b (m_unmasker v) of (b, u) \<Rightarrow> (b, v\<lparr>m_unmasker := u\<rparr>)) else (b, v)) = (b', v1)"
    "m_working_state v1 = m_working_state v"
    by (cases "m_unmask_flag v"; cases "unmask_byte b (m_unmasker v)") simp_all
  obtain r d' where "\<not> all_bytes_loaded (m_expected_close_code v1) \<Longrightarrow>
      add_byte_and_check_size b' (m_expected_close_code v1) = (Inr r, d')"
    using add_byte_ok by blast
  then show ?thesis
    using u(2) by (simp add: process_payload_byte_def u(1) sq_def bnd_def on_member_def modify_def ret_def)
qed

lemma payload_loop_ok:
  "\<exists>ds v'. payload_loop data v = (Inr ds, v') \<and> length ds = length data \<and> m_working_state v' = m_working_state v"
proof (induction data arbitrary: v)
  case (Cons b data)
  obtain c v1 where 1: "process_payload_byte b v = (Inr c, v1)" "m_working_state v1 = m_working_state v"
    using process_payload_byte_ok by blast
  obtain ds v2 where 2: "payload_loop data v1 = (Inr ds, v2)" "length ds = length data"
    "m_working_state v2 = m_working_state v1"
    using Cons.IH by blast
  show ?case using 1 2 by (simp add: bnd_def ret_apply)
qed (simp add: ret_apply)

lemma payload_part_ok:
  assumes "m_working_state v \<noteq> empty_state"
  shows "\<exists>s ds v'. process_and_unmask_next_payload_part data v = (Inr (s, ds), v') \<and> length ds = length data
    \<and> m_working_state v' = m_working_state v"
proof -
  obtain ds v' where "payload_loop data (set_validation_state payload_part_is_valid v) = (Inr ds, v')"
    "length ds = length data" "m_working_state v' = m_working_state v"
    using payload_loop_ok [of data "set_validation_state payload_part_is_valid v"] by auto
  then show ?thesis using assms by (simp add: process_and_unmask_next_payload_part_def bnd_def ret_apply)
qed

lemma finish_frame_idle [simp]: "m_working_state (snd (finish_frame v)) = empty_state"
  by (simp add: finish_frame_def Let_def)

lemma new_frame_ok:
  assumes "m_working_state v = empty_state"
  shows "\<exists>s v'. process_new_frame md v = (Inr s, v')
    \<and> m_working_state v' = (if s = frame_header_is_valid then processing_frame else empty_state)"
  using process_new_frame_eq [OF assms, of md] assms
  by (cases "header_obeys_rfc (m_previous_data_frame v \<noteq> pdf_none) md") (auto simp: accept_frame_def)

subsection \<open>The states of the read side\<close>

definition buf_ok :: "fixed_buffer \<Rightarrow> bool" where
  "buf_ok b \<longleftrightarrow> m_ready_pos b + m_ready_length b \<le> websocket_header_max_size
     \<and> length (m_buf b) = websocket_header_max_size"

lemma buf_ok_bytes: "buf_ok b \<Longrightarrow> length (buffer_bytes b) = buffer_length b"
  by (auto simp: buf_ok_def buffer_bytes_def buffer_length_def)

lemma buf_ok_length: "buf_ok b \<Longrightarrow> buffer_length b \<le> 14"
  by (simp add: buf_ok_def buffer_length_def websocket_header_max_size_def)

lemma buf_ok_consumed: "buf_ok b \<Longrightarrow> n \<le> buffer_length b \<Longrightarrow> buf_ok (consumed_bytes n b)"
  by (simp add: buf_ok_def buffer_length_def consumed_bytes_def)

lemma buf_ok_obtained:
  "buf_ok b \<Longrightarrow> length data \<le> websocket_header_max_size \<Longrightarrow>
    buf_ok (obtained_bytes (length data) (store_read data b))"
  by (simp add: buf_ok_def obtained_bytes_def store_read_def)

text \<open>Between two frames, within a frame, and between two events; \<open>n\<close> bounds the bytes in the buffer.\<close>

definition between :: "nat \<Rightarrow> ('f, 'n) ws_conn \<Rightarrow> bool" where
  "between n c \<longleftrightarrow> conn_ok c \<and> pending_read c = None \<and> m_working_state (m_protocol_validator c) = empty_state
     \<and> buf_ok (m_in_buf c) \<and> buffer_length (m_in_buf c) < n"

definition within :: "nat \<Rightarrow> ('f, 'n) ws_conn \<Rightarrow> bool" where
  "within n c \<longleftrightarrow> conn_ok c \<and> pending_read c = None \<and> m_working_state (m_protocol_validator c) = processing_frame
     \<and> buf_ok (m_in_buf c) \<and> buffer_length (m_in_buf c) < n \<and> m_read_state c \<noteq> read_nothing"

definition reading_ok :: "('f, 'n) ws_conn \<Rightarrow> bool" where
  "reading_ok c \<longleftrightarrow> buf_ok (m_in_buf c) \<and> (case pending_read c of
     None \<Rightarrow> True
   | Some Read_header \<Rightarrow> m_read_state c \<noteq> read_nothing \<and> \<not> header_parsed (m_parser c) \<and> parser_ok (m_parser c)
       \<and> m_working_state (m_protocol_validator c) = empty_state
   | Some (Read_payload offset remaining do_validate) \<Rightarrow> m_read_state c \<noteq> read_nothing
       \<and> 0 < remaining \<and> offset + remaining = length (m_payload c)
       \<and> m_working_state (m_protocol_validator c) = (if do_validate then processing_frame else empty_state))"

text \<open>How a completion handler ends: without an exception but that of an allocation that fails.\<close>

definition ends_well :: "('f, 'n) ws_env \<Rightarrow> (exn + 'a) \<times> ('f, 'n) ws_conn \<Rightarrow> bool" where
  "ends_well E rc \<longleftrightarrow> conn_ok (snd rc) \<and> reading_ok (snd rc)
     \<and> (case fst rc of Inr _ \<Rightarrow> True
        | Inl e \<Rightarrow> e = BadAlloc \<and> (\<exists>n. \<not> can_alloc E n) \<and> pending_read (snd rc) = None)"

definition next_well :: "('f, 'n) ws_env \<Rightarrow> nat \<Rightarrow> (('f, 'n) ws_conn, 'a) comp \<Rightarrow> bool" where
  "next_well E n m \<longleftrightarrow> (\<forall>c. between n c \<longrightarrow> m_read_state c \<noteq> read_nothing \<longrightarrow> ends_well E (m c))"

lemma next_wellD: "next_well E n m \<Longrightarrow> between n c \<Longrightarrow> m_read_state c \<noteq> read_nothing \<Longrightarrow> ends_well E (m c)"
  by (simp add: next_well_def)

lemma between_same: "between n c \<Longrightarrow> same_reads c c' \<Longrightarrow> conn_ok c' \<Longrightarrow> between n c'"
  by (simp add: between_def same_reads_def)

lemma between_ends: "between n c \<Longrightarrow> ends_well E (Inr x, c)"
  by (simp add: between_def ends_well_def reading_ok_def)

lemma between_updates [simp]:
  "between n (c\<lparr>m_payload := d\<rparr>) = between n c" "between n (c\<lparr>m_read_state := r\<rparr>) = between n c"
  "between n (c\<lparr>m_parser := p\<rparr>) = between n c" "between n (c\<lparr>m_timer_scheduled := b\<rparr>) = between n c"
  by (simp_all add: between_def)

lemma validate_payload_part_eq:
  assumes "process_and_unmask_next_payload_part (take len (drop offset (m_payload c))) (m_protocol_validator c)
    = (Inr (s, ds), v)"
    and "c1 = c\<lparr>m_protocol_validator := v, m_payload := take offset (m_payload c) @ ds @ drop (offset + len) (m_payload c)\<rparr>"
  shows "validate_payload_part E m offset len rem c =
    (if payload_part_is_valid = s then (Inr True, c1)
     else let c2 = handle_invalid_payload E s c1
       in if incorrect_utf8_data = s then
            sq (if 0 = rem then m else modify (start_read_payload (offset + len) rem False)) (ret False)
              (c2\<lparr>m_protocol_validator := ws_validator_reset (m_protocol_validator c2)\<rparr>)
          else (Inr False, c2))"
  using assms by (simp add: validate_payload_part_def on_member_def bnd_def Let_def ret_apply)

context ws_user
begin

lemma current_message_ends:
  assumes next_ok: "next_well E n m"
    and c: "within n c"
  shows "ends_well E (call_handler_on_current_message E m c)"
proof -
  obtain r v where f: "finish_frame (m_protocol_validator c) = (r, v)" by fastforce
  let ?c = "c\<lparr>m_protocol_validator := v\<rparr>" and ?md = "m_current_msg (m_parser c)"
  have "m_working_state v = empty_state" using finish_frame_idle [of "m_protocol_validator c"] f by simp
  then have b: "between n ?c" using c by (simp add: within_def between_def)
  then have ok: "conn_ok ?c" by (simp add: between_def)
  have rs: "m_read_state c \<noteq> read_nothing" using c by (simp add: within_def)
  define c0 where "c0 = run_if_first m_close_frame_to_peer m_close_frame_to_peer_update
        (\<lambda>c. send_close_frame_to_peer E (m_payload c) c) (?c\<lparr>m_close_frame_to_user := False\<rparr>)"
  define c1 where "c1 = (if connection_close_frame = m_opcode ?md then c0\<lparr>m_read_state := read_nothing\<rparr> else ?c)"
  have run: "run_if_first m_close_frame_to_peer m_close_frame_to_peer_update (\<lambda>c. send_close_frame_to_peer E (m_payload c) c) x
    = run_if_first m_close_frame_to_peer m_close_frame_to_peer_update (send_close_frame_to_peer E (m_payload x)) x"
    for x :: "('f, 'n) ws_conn"
    by (simp add: run_if_first_def)
  have user: "conn_ok (?c\<lparr>m_close_frame_to_user := False\<rparr>)" using ok by (rule conn_ok_flags(1))
  have "between n (?c\<lparr>m_close_frame_to_user := False\<rparr>)" using b user by (simp add: between_def)
  then have "between n c0"
    using first_close_ok(2) [OF user] first_close_ok(1) [OF user] unfolding c0_def run by (rule between_same)
  then have "between n c1" using b by (simp add: c1_def)
  then have "between n (c1\<lparr>m_payload := []\<rparr>)" by simp
  from between_same [OF this call_message_handler_reads call_message_handler_ok]
  have b2: "between n (call_message_handler E msg (c1\<lparr>m_payload := []\<rparr>))" for msg
    using \<open>between n (c1\<lparr>m_payload := []\<rparr>)\<close> by (simp add: between_def)
  have inv: "ends_well E (Inr (), handle_invalid_payload E r ?c)"
    using between_same [OF b handle_invalid_payload_ok(2) [OF ok] handle_invalid_payload_ok(1) [OF ok]]
    by (rule between_ends)
  have bt: "between n (?c\<lparr>m_timer_scheduled := False\<rparr>)" using b by simp
  then have "conn_ok (?c\<lparr>m_timer_scheduled := False\<rparr>)" by (simp add: between_def)
  then have "between n (close_impl (?c\<lparr>m_timer_scheduled := False\<rparr>))"
    by (intro between_same [OF bt same_reads_close_impl] close_impl_ok)
  note closed = between_ends [OF this]
  consider "frame_is_valid \<noteq> r" | "frame_is_valid = r" "m_read_state c = read_any_frame"
    | "frame_is_valid = r" "m_read_state c = read_only_close_frame"
    using rs by (cases "m_read_state c") auto
  then show ?thesis
  proof cases
    case 1
    then show ?thesis using inv by (simp add: call_handler_on_current_message_def f)
  next
    case 2
    define msg where "msg = \<lparr>msg_final_flag = (if m_final_flag ?md then final_frame else not_final_frame),
      msg_opcode = m_opcode ?md, msg_payload = m_payload c1\<rparr>"
    define c2 where "c2 = call_message_handler E msg (c1\<lparr>m_payload := []\<rparr>)"
    have "call_handler_on_current_message E m c = (if read_nothing \<noteq> m_read_state c2 then m c2 else (Inr (), c2))"
      using 2 unfolding call_handler_on_current_message_def f Let_def split_conv c0_def [symmetric]
      by (simp add: c1_def c2_def msg_def cong: if_cong)
    moreover have "between n c2" unfolding c2_def by (rule b2)
    ultimately show ?thesis using next_wellD [OF next_ok, of c2] between_ends [of n c2 E "()"] by simp
  next
    case 3
    then show ?thesis using closed [of E "()"] next_wellD [OF next_ok b]
      by (simp add: call_handler_on_current_message_def f Let_def)
  qed
qed

lemma validate_ends:
  assumes next_ok: "next_well E n m"
    and c: "within n c" and len: "offset + len + rem = length (m_payload c)"
  shows "(\<exists>c'. validate_payload_part E m offset len rem c = (Inr True, c') \<and> within n c'
        \<and> length (m_payload c') = length (m_payload c))
    \<or> (\<exists>c'. validate_payload_part E m offset len rem c = (Inr False, c') \<and> ends_well E (Inr (), c'))
    \<or> (\<exists>e c'. validate_payload_part E m offset len rem c = (Inl e, c') \<and> ends_well E (Inl e :: exn + unit, c'))"
proof -
  obtain s ds v where part: "process_and_unmask_next_payload_part (take len (drop offset (m_payload c)))
      (m_protocol_validator c) = (Inr (s, ds), v)" "length ds = len" "m_working_state v = processing_frame"
    using payload_part_ok [of "m_protocol_validator c" "take len (drop offset (m_payload c))"] c len
    by (auto simp: within_def)
  define c1 where "c1 = c\<lparr>m_protocol_validator := v,
    m_payload := take offset (m_payload c) @ ds @ drop (offset + len) (m_payload c)\<rparr>"
  note eq = validate_payload_part_eq [OF part(1) c1_def, of E m rem]
  have w1: "within n c1" "length (m_payload c1) = length (m_payload c)"
    using c part(2,3) len by (simp_all add: within_def c1_def)
  define c2 where "c2 = handle_invalid_payload E s c1"
  have ok1: "conn_ok c1" using w1 by (simp add: within_def)
  note inv = handle_invalid_payload_ok [OF ok1, of s, folded c2_def]
  have p2: "pending_read c2 = None" "buf_ok (m_in_buf c2)" "buffer_length (m_in_buf c2) < n"
    "m_read_state c2 \<noteq> read_nothing" "m_payload c2 = m_payload c1"
    using w1 inv(2) by (auto simp: within_def same_reads_def)
  define c3 where "c3 = c2\<lparr>m_protocol_validator := ws_validator_reset (m_protocol_validator c2)\<rparr>"
  have b3: "between n c3" "m_read_state c3 \<noteq> read_nothing"
    using p2 inv(1) by (simp_all add: between_def c3_def ws_validator_reset_def)
  show ?thesis
  proof (cases "payload_part_is_valid = s")
    case True
    then show ?thesis using eq w1 by simp
  next
    case invalid: False
    show ?thesis
    proof (cases "incorrect_utf8_data = s")
      case False
      then have "validate_payload_part E m offset len rem c = (Inr False, c2)"
        using eq invalid by (simp add: c2_def)
      moreover have "ends_well E (Inr (), c2)" using inv(1) p2 by (simp add: ends_well_def reading_ok_def)
      ultimately show ?thesis by blast
    next
      case True
      then have v: "validate_payload_part E m offset len rem c =
          sq (if 0 = rem then m else modify (start_read_payload (offset + len) rem False)) (ret False) c3"
        using eq invalid by (simp add: c2_def c3_def Let_def)
      show ?thesis
      proof (cases "0 = rem")
        case True
        obtain r c' where m: "m c3 = (r, c')" by fastforce
        have "ends_well E (r, c')" using next_wellD [OF next_ok b3] m by simp
        then show ?thesis using v True m by (cases r) (simp_all add: sq_def bnd_def ret_apply)
      next
        case False
        have "ends_well E (Inr (), start_read_payload (offset + len) rem False c3)"
          using b3 False len p2(5) w1(2) by (simp add: ends_well_def reading_ok_def start_read_payload_def between_def c3_def)
        then show ?thesis using v False by (simp add: ret_apply)
      qed
    qed
  qed
qed

text \<open>The validation of a part, and what follows if it is valid.\<close>

lemma part_then_ends:
  assumes next_ok: "next_well E n m"
    and c: "within n c" and len: "offset + len + rem = length (m_payload c)"
  shows "ends_well E (bnd (validate_payload_part E m offset len rem) (\<lambda>valid.
      if valid then if 0 = rem then call_handler_on_current_message E m
        else modify (start_read_payload (offset + len) rem True)
      else ret ()) c)"
  using validate_ends [OF next_ok c len]
proof (elim disjE exE conjE)
  fix c' assume v: "validate_payload_part E m offset len rem c = (Inr True, c')" "within n c'"
    "length (m_payload c') = length (m_payload c)"
  have "ends_well E (call_handler_on_current_message E m c')" by (rule current_message_ends [OF next_ok v(2)])
  moreover have "ends_well E (Inr (), start_read_payload (offset + len) rem True c')" if "0 \<noteq> rem"
    using v(2,3) that len by (simp add: ends_well_def reading_ok_def start_read_payload_def within_def)
  ultimately show ?thesis using v(1) by (simp add: bnd_def)
qed (simp_all add: bnd_def ret_apply)

lemma valid_header_ends:
  assumes next_ok: "next_well E n m" and c: "within n c"
  shows "ends_well E (handle_parsed_and_valid_header E m md c)"
proof (cases "can_alloc E (unat (details_payload_len md))")
  case False
  then show ?thesis using c
    by (auto simp: handle_parsed_and_valid_header_def Let_def ends_well_def reading_ok_def within_def)
next
  case can: True
  let ?len = "unat (details_payload_len md)"
  let ?c = "c\<lparr>m_payload := replicate ?len 0\<rparr>"
  show ?thesis
  proof (cases "?len = 0")
    case True
    have "within n ?c" using c by (simp add: within_def)
    from current_message_ends [OF next_ok this] show ?thesis
      using can True by (simp add: handle_parsed_and_valid_header_def Let_def)
  next
    case False
    define size where "size = min (buffer_length (m_in_buf c)) ?len"
    define c1 where "c1 = c\<lparr>m_payload := take size (buffer_bytes (m_in_buf c)) @ drop size (replicate ?len 0),
      m_in_buf := consumed_bytes size (m_in_buf c)\<rparr>"
    have buf: "buf_ok (m_in_buf c)" using c by (simp add: within_def)
    have "size \<le> buffer_length (m_in_buf c)" by (simp add: size_def)
    then have w: "within n c1"
      using c buf_ok_consumed [OF buf] buffer_consumed(2) [of size "m_in_buf c"] by (auto simp: within_def c1_def)
    have len: "0 + size + (?len - size) = length (m_payload c1)"
      using buf_ok_bytes [OF buf] by (simp add: c1_def size_def)
    have "handle_parsed_and_valid_header E m md c = bnd (validate_payload_part E m 0 size (?len - size)) (\<lambda>valid.
      if valid then if 0 = ?len - size then call_handler_on_current_message E m
        else modify (start_read_payload (0 + size) (?len - size) True)
      else ret ()) c1"
      using can False by (simp add: handle_parsed_and_valid_header_def Let_def size_def c1_def cong: if_cong)
    then show ?thesis using part_then_ends [OF next_ok w len] by simp
  qed
qed

lemma parsed_header_ends:
  assumes next_ok: "next_well E n m" and c: "between n c" "m_read_state c \<noteq> read_nothing"
  shows "ends_well E (handle_parsed_header E m md c)"
proof -
  obtain s v where new: "process_new_frame md (m_protocol_validator c) = (Inr s, v)"
    "m_working_state v = (if s = frame_header_is_valid then processing_frame else empty_state)"
    using new_frame_ok [of "m_protocol_validator c" md] c by (auto simp: between_def)
  let ?c = "c\<lparr>m_protocol_validator := v\<rparr>"
  have ok: "conn_ok ?c" using c by (simp add: between_def)
  show ?thesis
  proof (cases "s = frame_header_is_valid")
    case True
    have "within n ?c" using c new(2) True by (simp add: within_def between_def)
    from valid_header_ends [OF next_ok this] show ?thesis
      using new(1) True by (simp add: handle_parsed_header_def on_member_def bnd_def)
  next
    case False
    define d where "d = (if read_any_frame = m_read_state ?c then
        call_close_handler_if_necessary E protocol_error
          (run_if_first m_close_frame_to_peer m_close_frame_to_peer_update (send_close_code_to_peer E protocol_error) ?c)
      else if read_only_close_frame = m_read_state ?c then close_impl ?c else ?c)"
    note f = first_close_ok [OF ok, of "status_code_to_bin protocol_error"]
    note u = call_close_handler_ok [OF conn_ok_pre [OF f(1)], of protocol_error]
      same_reads_trans [OF f(2) call_close_handler_reads [OF conn_ok_pre [OF f(1)]], of protocol_error]
    have "conn_ok d" "same_reads ?c d"
      using u ok close_impl_ok [OF ok] same_reads_close_impl [of ?c] same_reads_refl [of ?c]
      by (simp_all add: send_close_code_to_peer_def d_def)
    moreover have "between n ?c" using c new(2) False by (simp add: between_def)
    ultimately have "between n d" using between_same by blast
    moreover have "handle_parsed_header E m md c = (Inr (), d)"
      using new(1) False by (simp add: handle_parsed_header_def on_member_def bnd_def d_def cong: if_cong)
    ultimately show ?thesis using between_ends [of n d E "()"] by simp
  qed
qed

text \<open>A header read from the buffer: the buffer gets shorter before anything else is read.\<close>

lemma from_buffer_ends:
  assumes next_ok: "next_well E n m" and c: "between (Suc n) c" "m_read_state c \<noteq> read_nothing"
    and p: "parser_ok (m_parser c)" "\<not> header_parsed (m_parser c)"
  shows "ends_well E (consume_header_from_buffer E m (buffer_bytes (m_in_buf c)) c)"
proof -
  have buf: "buf_ok (m_in_buf c)" and len: "length (buffer_bytes (m_in_buf c)) = buffer_length (m_in_buf c)"
    using c buf_ok_bytes by (auto simp: between_def)
  obtain k p' where k: "parser_execute (buffer_bytes (m_in_buf c)) (m_parser c) = (Inr k, p')" "parser_ok p'"
    "k \<le> buffer_length (m_in_buf c)" "header_parsed p' \<longrightarrow> 0 < k" "\<not> header_parsed p' \<longrightarrow> k = buffer_length (m_in_buf c)"
    using execute_progress [OF p, of "buffer_bytes (m_in_buf c)"] len by auto
  let ?c = "c\<lparr>m_parser := p', m_in_buf := consumed_bytes k (m_in_buf c)\<rparr>"
  have buf': "buf_ok (m_in_buf ?c)" "buffer_length (m_in_buf ?c) = buffer_length (m_in_buf c) - k"
    using buf_ok_consumed [OF buf k(3)] buffer_consumed(2) [OF k(3)] by simp_all
  have eq: "consume_header_from_buffer E m (buffer_bytes (m_in_buf c)) c =
    (if header_parsed p' then handle_parsed_header E m (m_current_msg p') ?c
     else (Inr (), consume_header_from_socket ?c))"
    using k(1,5) len by (simp add: consume_header_from_buffer_def on_member_def bnd_def)
  show ?thesis
  proof (cases "header_parsed p'")
    case True
    then have "between n ?c" using c buf' k(3,4) by (auto simp: between_def)
    then show ?thesis using eq True parsed_header_ends [OF next_ok] c(2) by simp
  next
    case False
    then show ?thesis using eq c buf' k(2)
      by (simp add: ends_well_def reading_ok_def consume_header_from_socket_def between_def)
  qed
qed

lemma read_header_well: "next_well E n (start_read_header E n)"
proof (induction n)
  case 0
  then show ?case by (simp add: next_well_def between_def)
next
  case (Suc n)
  show ?case unfolding next_well_def
  proof (intro allI impI)
    fix c :: "('f, 'n) ws_conn"
    assume c: "between (Suc n) c" "m_read_state c \<noteq> read_nothing"
    let ?c = "c\<lparr>m_parser := ws_parser_reset (m_parser c), m_payload := []\<rparr>"
    have p: "parser_ok (m_parser ?c)" "\<not> header_parsed (m_parser ?c)"
      by (simp_all add: parser_ok_def header_parsed_def ws_parser_reset_def expected_data_reset_def frame_consts)
    have "between (Suc n) ?c" "m_read_state ?c \<noteq> read_nothing" using c by simp_all
    note from_buffer_ends [OF Suc this p]
    moreover have "ends_well E (Inr (), consume_header_from_socket ?c)"
      using c p by (simp add: ends_well_def reading_ok_def consume_header_from_socket_def between_def)
    ultimately show "ends_well E (start_read_header E (Suc n) c)" by simp
  qed
qed

end

subsection \<open>Events\<close>

text \<open>The completion handler of the pending read, without the \<open>catch\<close> around it.\<close>

definition read_handler :: "('f, 'n) ws_env \<Rightarrow> io_status \<Rightarrow> bytes \<Rightarrow> (('f, 'n) ws_conn, unit) comp" where
  "read_handler E ec data = (\<lambda>c. case pending_read c of
     None \<Rightarrow> (Inr (), c)
   | Some Read_header \<Rightarrow>
       after_read_header E ec (length data) (c\<lparr>pending_read := None, m_in_buf := store_read data (m_in_buf c)\<rparr>)
   | Some (Read_payload offset remaining do_validate) \<Rightarrow>
       after_read_payload E offset remaining ec (length data) do_validate
         (c\<lparr>pending_read := None,
            m_payload := take offset (m_payload c) @ data @ drop (offset + length data) (m_payload c)\<rparr>))"

lemma read_completed_handler: "read_completed E ec data c = guarded E (read_handler E ec data) c"
  by (simp add: read_completed_def guarded_def read_handler_def split: option.split pending_read.split)

text \<open>The socket delivers at most as many bytes as the buffer it was given has.\<close>

definition read_fits :: "bytes \<Rightarrow> ('f, 'n) ws_conn \<Rightarrow> bool" where
  "read_fits data c \<longleftrightarrow> (case pending_read c of
     None \<Rightarrow> True
   | Some Read_header \<Rightarrow> length data \<le> websocket_header_max_size
   | Some (Read_payload offset remaining do_validate) \<Rightarrow> length data \<le> remaining)"

text \<open>The reachable states; the flag tells that the connection was activated, which happens once.\<close>

inductive ws_reachable :: "('f, 'n) ws_env \<Rightarrow> bool \<Rightarrow> ('f, 'n) ws_conn \<Rightarrow> bool" for E where
  upgraded: "ws_reachable E False (ws_upgrade E False response garbage t)"
| activated: "ws_reachable E False c \<Longrightarrow> ws_reachable E True (snd (ws_activate E c))"
| event: "ws_reachable E b c \<Longrightarrow> ev \<noteq> Activated \<Longrightarrow> (\<And>ec data. ev = Read_done ec data \<Longrightarrow> read_fits data c)
    \<Longrightarrow> ws_reachable E b (ws_step E ev c)"

lemma reading_same: "reading_ok c \<Longrightarrow> same_reads c c' \<Longrightarrow> reading_ok c'"
  by (auto simp: reading_ok_def same_reads_def split: option.splits pending_read.splits)

context ws_user
begin

lemma read_handler_ends:
  assumes c: "conn_ok c" "reading_ok c" and fits: "read_fits data c"
  shows "ends_well E (read_handler E ec data c)"
proof -
  have err: "ends_well E (modify (handle_read_error E) d)"
    if "conn_ok d" "buf_ok (m_in_buf d)" "pending_read d = None" for d
    using that trigger_error_ok [OF conn_ok_pre, of d] trigger_error_reads [OF conn_ok_pre, of d connection_lost]
    by (simp add: handle_read_error_def ends_well_def reading_ok_def same_reads_def)
  have buf: "buf_ok (m_in_buf c)" using c(2) by (simp add: reading_ok_def)
  show ?thesis
  proof (cases "pending_read c")
    case None
    then show ?thesis using c by (simp add: read_handler_def ends_well_def)
  next
    case (Some r)
    show ?thesis
    proof (cases r)
      case Read_header
      let ?c = "c\<lparr>pending_read := None, m_in_buf := store_read data (m_in_buf c)\<rparr>"
      let ?d = "?c\<lparr>m_in_buf := obtained_bytes (length data) (m_in_buf ?c)\<rparr>"
      have len: "length data \<le> websocket_header_max_size" using fits Some Read_header by (simp add: read_fits_def)
      have buf': "buf_ok (m_in_buf ?d)" using buf_ok_obtained [OF buf len] by simp
      have "buffer_length (m_in_buf ?d) < Suc read_fuel"
        using buf_ok_length [OF buf'] by (simp add: read_fuel_def)
      then have "between (Suc read_fuel) ?d" "m_read_state ?d \<noteq> read_nothing" "parser_ok (m_parser ?d)"
        "\<not> header_parsed (m_parser ?d)"
        using c buf' Some Read_header by (simp_all add: between_def reading_ok_def)
      note from_buffer_ends [OF read_header_well this]
      moreover have "ends_well E (modify (handle_read_error E) ?c)"
        using c(1) buf len by (intro err) (simp_all add: buf_ok_def store_read_def)
      ultimately show ?thesis using Some Read_header
        by (simp add: read_handler_def after_read_header_def)
    next
      case (Read_payload offset rem v)
      let ?c = "c\<lparr>pending_read := None,
        m_payload := take offset (m_payload c) @ data @ drop (offset + length data) (m_payload c)\<rparr>"
      have facts: "m_read_state c \<noteq> read_nothing" "0 < rem" "offset + rem = length (m_payload c)"
        "m_working_state (m_protocol_validator c) = (if v then processing_frame else empty_state)" "length data \<le> rem"
        using c(2) fits Some Read_payload by (simp_all add: reading_ok_def read_fits_def)
      have plen: "length (m_payload ?c) = length (m_payload c)" using facts(3,5) by simp
      have short: "buffer_length (m_in_buf c) < read_fuel"
        using buf_ok_length [OF buf] by (simp add: read_fuel_def)
      have bad: "ends_well E (modify (handle_read_error E) ?c)" using c(1) buf by (intro err) simp_all
      show ?thesis
      proof (cases v)
        case True
        have w: "within read_fuel ?c" using c(1) buf facts True short by (simp add: within_def)
        have "offset + length data + (rem - length data) = length (m_payload ?c)" using plen facts(3,5) by linarith
        note part_then_ends [OF read_header_well w this]
        then show ?thesis using Some Read_payload True facts(5) bad
          by (simp add: read_handler_def after_read_payload_def Let_def)
      next
        case False
        have b: "between read_fuel ?c" "m_read_state ?c \<noteq> read_nothing"
          using c(1) buf facts(1,4) False short by (simp_all add: between_def)
        have "ends_well E (Inr (), start_read_payload (offset + length data) (rem - length data) False ?c)"
          if "rem \<noteq> length data"
          using b facts that plen c(1) by (auto simp: ends_well_def reading_ok_def start_read_payload_def between_def)
        then show ?thesis using Some Read_payload False facts(5) bad next_wellD [OF read_header_well b]
          by (auto simp: read_handler_def after_read_payload_def Let_def)
      qed
    qed
  qed
qed

lemma guarded_reads:
  assumes "ends_well E (m c)"
  shows "conn_ok (guarded E m c) \<and> reading_ok (guarded E m c)"
proof -
  obtain r c' where m: "m c = (r, c')" by fastforce
  have ok: "conn_ok c'" "reading_ok c'" using assms m by (simp_all add: ends_well_def)
  show ?thesis
    using ok m trigger_error_ok [OF conn_ok_pre [OF ok(1)]]
      reading_same [OF ok(2) trigger_error_reads [OF conn_ok_pre [OF ok(1)]]]
    by (cases r) (simp_all add: guarded_def)
qed

lemma write_completed_reads:
  assumes "conn_ok c"
  shows "same_reads c (write_completed E ec c)"
proof (cases "pending_write c")
  case False
  then show ?thesis by (simp add: write_completed_def same_reads_refl)
next
  case True
  let ?c = "c\<lparr>pending_write := False\<rparr>"
  have pre: "output_pre ?c" "conn_pre ?c" using assms True by (auto simp: conn_defs output_pre_def)
  have "same_reads ?c (handle_current_write_ctx E ?c)"
    using handle_current_ok(2) [OF pre(1)] pre(2) by (simp add: conn_pre_def)
  moreover have "same_reads ?c (c1\<lparr>m_write_output_ctx := ctx, notified := log\<rparr>)"
    if "c1 = trigger_error_and_close E connection_lost ?c" for c1 ctx log
    using trigger_error_reads [OF pre(2), of connection_lost] that by (simp add: same_reads_def)
  ultimately have "same_reads ?c (write_completed E ec c)" using True
    by (simp add: write_completed_def after_write_def Let_def split: prod.split)
  then show ?thesis by (simp add: same_reads_def)
qed

lemma check_timeout_reads:
  assumes "conn_ok c"
  shows "same_reads c (check_timeout E c)"
proof -
  have 1: "same_reads c (c\<lparr>m_close_frame_to_peer := False\<rparr>)" by simp
  note 2 = call_close_handler_reads [OF conn_ok_pre [OF conn_ok_flags(2) [OF assms]], of unexpected_condition]
  have "same_reads c (close_impl (call_close_handler_if_necessary E unexpected_condition (c\<lparr>m_close_frame_to_peer := False\<rparr>)))"
    by (rule same_reads_trans [OF 1 same_reads_trans [OF 2 same_reads_close_impl]])
  then show ?thesis using same_reads_close_impl [of c] by (simp add: check_timeout_def) (simp add: same_reads_def)
qed

text \<open>Only the completion of a read moves the read side.\<close>

lemma step_reads:
  assumes "conn_ok c" "ev \<noteq> Activated" "\<nexists>ec data. ev = Read_done ec data"
  shows "same_reads c (ws_step E ev c)"
  using assms perform_ok [OF assms(1)] write_completed_reads [OF assms(1)] check_timeout_reads [OF assms(1)]
  by (cases ev) (simp_all add: same_reads_def)

text \<open>The invariant of the reachable states.\<close>

lemma reachable_reads:
  "ws_reachable E b c \<Longrightarrow> conn_ok c \<and> reading_ok c
    \<and> (\<not> b \<longrightarrow> pending_read c = None \<and> m_working_state (m_protocol_validator c) = empty_state)"
proof (induction rule: ws_reachable.induct)
  case (upgraded r g t)
  let ?new = "ws_conn_new g t :: ('f, 'n) ws_conn"
  have "same_reads ?new (ws_upgrade E False r g t)"
    unfolding ws_upgrade_def by (simp add: ws_write_data_ok(2) [OF ws_conn_new_ok])
  moreover have "reading_ok ?new" "pending_read ?new = None" "m_working_state (m_protocol_validator ?new) = empty_state"
    by (simp_all add: reading_ok_def ws_conn_new_def buf_ok_def fixed_buffer_def ws_validator_new_def)
  ultimately have "reading_ok (ws_upgrade E False r g t)" "same_reads ?new (ws_upgrade E False r g t)"
    "pending_read ?new = None" "m_working_state (m_protocol_validator ?new) = empty_state"
    using reading_same by blast+
  then show ?case using ws_upgrade_ok [of False r g t] by (simp add: same_reads_def)
next
  case (activated c)
  let ?c = "c\<lparr>m_timer_scheduled := True, m_websocket_weak_handle := True, m_read_state := read_any_frame\<rparr>"
  have buf: "buf_ok (m_in_buf c)" using activated by (simp add: reading_ok_def)
  have "between read_fuel ?c" "m_read_state ?c \<noteq> read_nothing"
    using activated buf buf_ok_length [OF buf] by (simp_all add: between_def read_fuel_def)
  from guarded_reads [of "start_read_header E read_fuel", OF next_wellD [OF read_header_well this]]
  show ?case using activated.IH by (simp add: ws_activate_def init_read_def)
next
  case (event b c ev)
  show ?case
  proof (cases "\<exists>ec data. ev = Read_done ec data")
    case True
    then obtain ec data where ev: "ev = Read_done ec data" by blast
    have "ends_well E (read_handler E ec data c)" using event.IH event.hyps(3) [OF ev] by (intro read_handler_ends) simp_all
    from guarded_reads [of "read_handler E ec data", OF this]
    have "conn_ok (ws_step E ev c) \<and> reading_ok (ws_step E ev c)" by (simp add: ev read_completed_handler)
    moreover have "ws_step E ev c = c" if "\<not> b"
      using event.IH that by (simp add: ev read_completed_def)
    ultimately show ?thesis using event.IH by simp
  next
    case False
    then have same: "same_reads c (ws_step E ev c)" using event by (intro step_reads) auto
    then have "reading_ok (ws_step E ev c)" "conn_ok (ws_step E ev c)" using event.IH reading_same ws_step_ok by blast+
    then show ?thesis using event.IH same by (simp add: same_reads_def)
  qed
qed

text \<open>When no read is pending after the activation, none ever will be.\<close>

lemma no_read_stays:
  assumes "conn_ok c" "pending_read c = None" "Activated \<notin> set evs"
  shows "pending_read (fold (ws_step E) evs c) = None"
  using assms
proof (induction evs arbitrary: c)
  case (Cons ev evs)
  have "pending_read (ws_step E ev c) = None"
  proof (cases "\<exists>ec data. ev = Read_done ec data")
    case True
    then show ?thesis using Cons.prems(2) by (auto simp: read_completed_def)
  next
    case False
    then show ?thesis using step_reads [OF Cons.prems(1), of ev] Cons.prems by (auto simp: same_reads_def)
  qed
  then show ?case using Cons.IH [of "ws_step E ev c"] Cons.prems ws_step_ok by simp
qed simp

end

subsection \<open>What holds of every connection\<close>

lemma user_env_alloc: "can_alloc (user_env n h E) = can_alloc E"
  by (cases n) simp_all


text \<open>
  A read into the payload is always asked for exactly the rest of the payload, and never for nothing.\<close>

theorem ws_payload_in_bounds:
  assumes "ws_reachable (user_env n h (B\<lparr>asio_max_iov_len := Suc k\<rparr>)) b c"
    and "pending_read c = Some (Read_payload offset remaining do_validate)"
  shows "offset + remaining = length (m_payload c) \<and> 0 < remaining"
  using ws_users.reachable_reads [OF assms(1)] assms(2) by (simp add: reading_ok_def)


subsection \<open>A connection that stalls\<close>

text \<open>A user without reactions; the connection after its activation, and after the header of a final
  text frame with one byte of payload (the masking key is 0).\<close>

definition quiet_env :: "(unit, unit) ws_env" where
  "quiet_env = \<lparr>on_message = \<lambda>m c. c, can_alloc = \<lambda>n. True, notificator_throws = \<lambda>n ec. None,
     asio_max_iov_len = 0, write_timelimit = 5, read_timelimit = 60\<rparr>"

definition quiet_user :: "(unit, unit) ws_env" where
  "quiet_user = user_env 0 (\<lambda>m c. []) (quiet_env\<lparr>asio_max_iov_len := Suc 15\<rparr>)"

definition active_conn :: "(unit, unit) ws_conn" where
  "active_conn = snd (ws_activate quiet_user (ws_upgrade quiet_user False [] [] 0))"

definition short_text_conn :: "(unit, unit) ws_conn" where
  "short_text_conn = ws_step quiet_user (Read_done no_error [0x81, 0x81, 0, 0, 0, 0]) active_conn"

lemma active_conn_waits: "pending_read active_conn = Some Read_header"
  by code_simp

lemma short_text_conn_waits: "pending_read short_text_conn = Some (Read_payload 0 1 True)"
  by code_simp

lemma sample_conns_reachable: "ws_reachable quiet_user True active_conn" "ws_reachable quiet_user True short_text_conn"
proof -
  show a: "ws_reachable quiet_user True active_conn"
    unfolding active_conn_def by (intro ws_reachable.intros)
  show "ws_reachable quiet_user True short_text_conn"
    unfolding short_text_conn_def
    by (rule ws_reachable.event [OF a]) (auto simp: read_fits_def active_conn_waits websocket_header_max_size_def)
qed


theorem ws_payload_in_bounds_witness:
  "ws_reachable (user_env 0 (\<lambda>m c. []) (quiet_env\<lparr>asio_max_iov_len := Suc 15\<rparr>)) True short_text_conn
   \<and> pending_read short_text_conn = Some (Read_payload 0 1 True)
   \<and> 0 + 1 = length (m_payload short_text_conn) \<and> 0 < (1::nat)"
proof -
  have 1: "ws_reachable (user_env 0 (\<lambda>m c. []) (quiet_env\<lparr>asio_max_iov_len := Suc 15\<rparr>)) True short_text_conn"
    using sample_conns_reachable(2) by (simp only: quiet_user_def)
  show ?thesis using 1 ws_payload_in_bounds [OF 1 short_text_conn_waits] short_text_conn_waits by blast
qed

text \<open>The byte 0xC3 begins a character of two bytes.\<close>

definition half_character :: "(exn + validation_state_t \<times> bytes) \<times> ws_validator" where
  "half_character = process_and_unmask_next_payload_part [0xC3] (m_protocol_validator short_text_conn)"

lemma half_character_eq:
  "fst half_character = Inr (payload_part_is_valid, [0xC3])"
  "fst (finish_frame (snd half_character)) = incorrect_utf8_data"
  by code_simp+


end
