(* ===== verification/Restinio_Percent.thy ===== *)
theory Restinio_Percent
  imports Restinio_Utf8
begin

unbundle bit_operations_syntax

text \<open>
  \<open>utils/percent_encoding.hpp\<close>: escaping and unescaping of query strings, into a new string or in
  place, and the normalisation of URIs.

  Texts of failures are made by the library \<open>fmt\<close>, which is not part of the sources: a failure is a
  value of \<open>unescape_failure\<close>, its text an argument \<open>describe\<close>; the two digits \<open>fmt\<close> prints for a byte
  with the format \<open>{:02X}\<close> are an argument \<open>hex2\<close>.
\<close>

subsection \<open>Traits\<close>

definition alphanumeric :: "u8 \<Rightarrow> bool" where
  "alphanumeric c \<longleftrightarrow> 0x30 \<le> c \<and> c \<le> 0x39 \<or> 0x61 \<le> c \<and> c \<le> 0x7A \<or> 0x41 \<le> c \<and> c \<le> 0x5A"

definition restinio_default_unescape_traits :: "u8 \<Rightarrow> bool" where
  "restinio_default_unescape_traits c \<longleftrightarrow>
     alphanumeric c \<or> 0x2D = c \<or> 0x2E = c \<or> 0x7E = c \<or> 0x5F = c"

definition x_www_form_urlencoded_unescape_traits :: "u8 \<Rightarrow> bool" where
  "x_www_form_urlencoded_unescape_traits c \<longleftrightarrow>
     alphanumeric c \<or> 0x2A = c \<or> 0x2D = c \<or> 0x2E = c \<or> 0x5F = c"

text \<open>\<open>strchr\<close> finds the terminating zero of the literal as well.\<close>

definition relaxed_unescape_traits :: "u8 \<Rightarrow> bool" where
  "relaxed_unescape_traits c \<longleftrightarrow>
     c \<in> set (map (\<lambda>ch. of_char ch) ('' ABCDEFGHIJKLMNOPQRSTUVWXYZabcdefghijklmnopqrstuvwxyz0123456789-._~:/?#[]@!$&()*+,;='' @ [CHR 0x27])
       @ [0])"

definition javascript_compatible_unescape_traits :: "u8 \<Rightarrow> bool" where
  "javascript_compatible_unescape_traits c \<longleftrightarrow>
     alphanumeric c \<or> 0x2D = c \<or> 0x2E = c \<or> 0x7E = c \<or> 0x5F = c \<or> 0x2A = c \<or> 0x21 = c \<or> 0x27 = c
     \<or> 0x28 = c \<or> 0x29 = c"

subsection \<open>Unescaping\<close>

datatype unescape_failure =
    next_byte_expected_at nat
  | invalid_utf8_at nat
  | invalid_escape_at nat
  | invalid_char_at u8 nat
  | unfinished_utf8

definition is_hexdigit :: "u8 \<Rightarrow> bool" where
  "is_hexdigit c \<longleftrightarrow> 0x30 \<le> c \<and> c \<le> 0x39 \<or> 0x61 \<le> c \<and> c \<le> 0x66 \<or> 0x41 \<le> c \<and> c \<le> 0x46"

definition extract_escaped_char :: "u8 \<Rightarrow> u8 \<Rightarrow> u8" where
  "extract_escaped_char c1 c2 =
     (let result = (if 0x30 \<le> c1 \<and> c1 \<le> 0x39 then c1 - 0x30
                    else (let c1 = c1 OR 0x20 in 10 + c1 - 0x61));
          result = push_bit 4 result
      in if 0x30 \<le> c2 \<and> c2 \<le> 0x39 then result + (c2 - 0x30)
         else (let c2 = c2 OR 0x20 in result + (10 + c2 - 0x61)))"

text \<open>
  \<open>do_unescape_percent_encoding\<close>: \<open>n\<close> is \<open>chars_to_handle\<close>, \<open>d\<close> the position. The state \<open>s\<close> is the
  collector's; it is also what the data are read from, since \<open>inplace_unescape_percent_encoding\<close>
  collects into the buffer it reads.
\<close>

function do_unescape ::
    "(u8 \<Rightarrow> bool) \<Rightarrow> ('s \<Rightarrow> nat \<Rightarrow> u8) \<Rightarrow> (u8 \<Rightarrow> 's \<Rightarrow> 's) \<Rightarrow> nat \<Rightarrow> nat \<Rightarrow> utf8_checker \<Rightarrow> bool \<Rightarrow> 's \<Rightarrow>
      (unescape_failure + unit) \<times> 's" where
  "do_unescape ordinary_char data collector n d checker expect_next s =
     (if 0 < n then
        if expect_next \<and> data s d \<noteq> 0x25 then (Inl (next_byte_expected_at d), s)
        else if data s d = 0x25 then
          if 3 \<le> n \<and> is_hexdigit (data s (d + 1)) \<and> is_hexdigit (data s (d + 2)) then
            let ch = extract_escaped_char (data s (d + 1)) (data s (d + 2))
            in (case utf8_process_byte ch checker of (ok, checker') \<Rightarrow>
                  if \<not> ok then (Inl (invalid_utf8_at d), s)
                  else
                    do_unescape ordinary_char data collector (n - 3) (d + 3)
                      (if utf8_finalized checker' then utf8_reset checker' else checker')
                      (\<not> utf8_finalized checker') (collector ch s))
          else (Inl (invalid_escape_at d), s)
        else if data s d = 0x2B then
          do_unescape ordinary_char data collector (n - 1) (d + 1) checker expect_next (collector 0x20 s)
        else if ordinary_char (data s d) then
          do_unescape ordinary_char data collector (n - 1) (d + 1) checker expect_next (collector (data s d) s)
        else (Inl (invalid_char_at (data s d) d), s)
      else if expect_next then (Inl unfinished_utf8, s)
      else (Inr (), s))"
  by pat_completeness auto
termination
  by (relation "measure (\<lambda>(ordinary_char, data, collector, n, d, checker, expect_next, s). n)") auto

declare do_unescape.simps [simp del]

definition do_unescape_percent_encoding ::
    "(u8 \<Rightarrow> bool) \<Rightarrow> ('s \<Rightarrow> nat \<Rightarrow> u8) \<Rightarrow> (u8 \<Rightarrow> 's \<Rightarrow> 's) \<Rightarrow> nat \<Rightarrow> 's \<Rightarrow> (unescape_failure + unit) \<times> 's" where
  "do_unescape_percent_encoding ordinary_char data collector sz =
     do_unescape ordinary_char data collector sz 0 utf8_checker_new False"

definition try_unescape_percent_encoding :: "(u8 \<Rightarrow> bool) \<Rightarrow> bytes \<Rightarrow> unescape_failure + bytes" where
  "try_unescape_percent_encoding ordinary_char data =
     (case do_unescape_percent_encoding ordinary_char (\<lambda>result i. data ! i) (\<lambda>ch result. result @ [ch])
             (length data) [] of
        (Inl e, _) \<Rightarrow> Inl e
      | (Inr _, result) \<Rightarrow> Inr result)"

definition unescape_percent_encoding ::
    "(unescape_failure \<Rightarrow> string) \<Rightarrow> (u8 \<Rightarrow> bool) \<Rightarrow> bytes \<Rightarrow> exn + bytes" where
  "unescape_percent_encoding describe ordinary_char data =
     (case try_unescape_percent_encoding ordinary_char data of
        Inl e \<Rightarrow> Inl (RestinioError (describe e))
      | Inr result \<Rightarrow> Inr result)"

text \<open>In place: the buffer and the number of bytes collected; \<open>start\<close> is where the part begins.\<close>

definition try_inplace_unescape_percent_encoding ::
    "(u8 \<Rightarrow> bool) \<Rightarrow> nat \<Rightarrow> nat \<Rightarrow> bytes \<Rightarrow> (unescape_failure + nat) \<times> bytes" where
  "try_inplace_unescape_percent_encoding ordinary_char start sz buf =
     (case do_unescape_percent_encoding ordinary_char (\<lambda>(buf, k) i. buf ! (start + i))
             (\<lambda>ch (buf, k). (buf[start + k := ch], k + 1)) sz (buf, 0) of
        (Inl e, buf, _) \<Rightarrow> (Inl e, buf)
      | (Inr _, buf, result_size) \<Rightarrow> (Inr result_size, buf))"

definition inplace_unescape_percent_encoding ::
    "(unescape_failure \<Rightarrow> string) \<Rightarrow> (u8 \<Rightarrow> bool) \<Rightarrow> nat \<Rightarrow> nat \<Rightarrow> bytes \<Rightarrow> (exn + nat) \<times> bytes" where
  "inplace_unescape_percent_encoding describe ordinary_char start sz buf =
     (case try_inplace_unescape_percent_encoding ordinary_char start sz buf of
        (Inl e, buf) \<Rightarrow> (Inl (RestinioError (describe e)), buf)
      | (Inr result_size, buf) \<Rightarrow> (Inr result_size, buf))"

subsection \<open>Escaping\<close>

definition escape_percent_encoding :: "(u8 \<Rightarrow> bytes) \<Rightarrow> (u8 \<Rightarrow> bool) \<Rightarrow> bytes \<Rightarrow> bytes" where
  "escape_percent_encoding hex2 ordinary_char data =
     (let escaped_chars_count = length (filter (\<lambda>c. \<not> ordinary_char c) data)
      in if 0 = escaped_chars_count then data
         else foldl (\<lambda>result c. if ordinary_char c then result @ [c] else result @ 0x25 # hex2 c) [] data)"

lemma escape_map: "escape_percent_encoding hex2 ord data = concat (map (\<lambda>c. if ord c then [c] else 0x25 # hex2 c) data)"
proof -
  have "foldl (\<lambda>result c. if ord c then result @ [c] else result @ 0x25 # hex2 c) r data
      = r @ concat (map (\<lambda>c. if ord c then [c] else 0x25 # hex2 c) data)" for r
    by (induction data arbitrary: r) simp_all
  moreover have "filter (\<lambda>c. \<not> ord c) data = [] \<Longrightarrow> concat (map (\<lambda>c. if ord c then [c] else 0x25 # hex2 c) data) = data"
    by (induction data) (auto split: if_splits)
  ultimately show ?thesis by (simp add: escape_percent_encoding_def Let_def)
qed

subsection \<open>Normalisation\<close>

definition is_unreserved_char :: "u8 \<Rightarrow> bool" where
  "is_unreserved_char ch = restinio_default_unescape_traits ch"

text \<open>\<open>run_normalization_algo\<close>; the handlers act on a state.\<close>

function run_normalization ::
    "(u8 \<Rightarrow> 's \<Rightarrow> 's) \<Rightarrow> (u8 \<Rightarrow> u8 \<Rightarrow> u8 \<Rightarrow> 's \<Rightarrow> 's) \<Rightarrow> bytes \<Rightarrow> nat \<Rightarrow> nat \<Rightarrow> utf8_checker \<Rightarrow> bool \<Rightarrow> 's \<Rightarrow>
      (unescape_failure + unit) \<times> 's" where
  "run_normalization one_byte three_bytes what n d checker expect_next s =
     (if 0 < n then
        if expect_next \<and> 0x25 \<noteq> what ! d then (Inl (next_byte_expected_at d), s)
        else if 0x25 \<noteq> what ! d then
          run_normalization one_byte three_bytes what (n - 1) (d + 1) checker expect_next (one_byte (what ! d) s)
        else if 3 \<le> n \<and> is_hexdigit (what ! (d + 1)) \<and> is_hexdigit (what ! (d + 2)) then
          let ch = extract_escaped_char (what ! (d + 1)) (what ! (d + 2))
          in (case utf8_process_byte ch checker of (ok, checker) \<Rightarrow>
                if \<not> ok then (Inl (invalid_utf8_at d), s)
                else if utf8_finalized checker then
                  let symbol = m_current_symbol checker;
                      s = (if symbol < 0x80 \<and> is_unreserved_char (ucast symbol) then one_byte (ucast symbol) s
                           else three_bytes (what ! d) (what ! (d + 1)) (what ! (d + 2)) s)
                  in run_normalization one_byte three_bytes what (n - 3) (d + 3) (utf8_reset checker) False s
                else
                  run_normalization one_byte three_bytes what (n - 3) (d + 3) checker True
                    (three_bytes (what ! d) (what ! (d + 1)) (what ! (d + 2)) s))
        else (Inl (invalid_escape_at d), s)
      else if expect_next then (Inl unfinished_utf8, s)
      else (Inr (), s))"
  by pat_completeness auto
termination
  by (relation "measure (\<lambda>(one_byte, three_bytes, what, n, d, checker, expect_next, s). n)") auto

declare run_normalization.simps [simp del]

definition estimate_required_capacity :: "bytes \<Rightarrow> unescape_failure + nat" where
  "estimate_required_capacity what =
     (case run_normalization (\<lambda>_ n. n + 1) (\<lambda>_ _ _ n. n + 3) what (length what) 0 utf8_checker_new False 0 of
        (Inl e, _) \<Rightarrow> Inl e
      | (Inr _, n) \<Rightarrow> Inr n)"

text \<open>\<open>normalize_to\<close>: \<open>dest\<close> is the buffer of the caller and the position of the pointer; writing past
  its end is undefined, which the third component notes.\<close>

definition store :: "u8 \<Rightarrow> bytes \<times> nat \<times> bool \<Rightarrow> bytes \<times> nat \<times> bool" where
  "store ch = (\<lambda>(dest, k, overrun). (dest[k := ch], k + 1, overrun \<or> length dest \<le> k))"

definition normalize_to :: "bytes \<Rightarrow> bytes \<Rightarrow> (unescape_failure + unit) \<times> bytes \<times> nat \<times> bool" where
  "normalize_to what dest =
     run_normalization store (\<lambda>c1 c2 c3 s. store c3 (store c2 (store c1 s)))
       what (length what) 0 utf8_checker_new False (dest, 0, False)"

subsection \<open>Unescaping a list\<close>

text \<open>What is collected from the characters from position \<open>d\<close> on, whatever the collector does with it.\<close>

fun unescaped :: "(u8 \<Rightarrow> bool) \<Rightarrow> nat \<Rightarrow> utf8_checker \<Rightarrow> bool \<Rightarrow> bytes \<Rightarrow> (unescape_failure + unit) \<times> bytes" where
  "unescaped ord d checker e [] = (if e then Inl unfinished_utf8 else Inr (), [])"
| "unescaped ord d checker e (c # cs) =
     (if e \<and> c \<noteq> 0x25 then (Inl (next_byte_expected_at d), [])
      else if c = 0x25 then
        (case cs of
           a # b # cs' \<Rightarrow>
             if is_hexdigit a \<and> is_hexdigit b then
               (case utf8_process_byte (extract_escaped_char a b) checker of (ok, checker') \<Rightarrow>
                  if \<not> ok then (Inl (invalid_utf8_at d), [])
                  else apsnd (Cons (extract_escaped_char a b))
                    (unescaped ord (d + 3) (if utf8_finalized checker' then utf8_reset checker' else checker')
                      (\<not> utf8_finalized checker') cs'))
             else (Inl (invalid_escape_at d), [])
         | _ \<Rightarrow> (Inl (invalid_escape_at d), []))
      else if c = 0x2B then apsnd (Cons 0x20) (unescaped ord (d + 1) checker e cs)
      else if ord c then apsnd (Cons c) (unescaped ord (d + 1) checker e cs)
      else (Inl (invalid_char_at c d), []))"

declare unescaped.simps(2) [simp del]

lemma unescaped_short:
  assumes "length cs < 2"
  shows "unescaped ord d checker e (0x25 # cs) = (Inl (invalid_escape_at d), [])"
proof (cases cs)
  case (Cons a as)
  then show ?thesis using assms by (cases as) (simp_all add: unescaped.simps(2))
qed (simp add: unescaped.simps(2))

text \<open>A collector that leaves alone what is still to be read.\<close>

definition reads_ahead :: "(nat \<Rightarrow> 's \<Rightarrow> bool) \<Rightarrow> ('s \<Rightarrow> nat \<Rightarrow> u8) \<Rightarrow> (u8 \<Rightarrow> 's \<Rightarrow> 's) \<Rightarrow> nat \<Rightarrow> bool" where
  "reads_ahead okay data collector end_pos \<longleftrightarrow>
     (\<forall>ch s d d'. okay d s \<and> d < d' \<and> d' \<le> end_pos \<longrightarrow> okay d' (collector ch s)
        \<and> (\<forall>i. d' \<le> i \<and> i < end_pos \<longrightarrow> data (collector ch s) i = data s i))"

lemma reads_aheadD:
  assumes "reads_ahead okay data collector end_pos" "okay d s" "d < d'" "d' \<le> end_pos"
  shows "okay d' (collector ch s)" "map (data (collector ch s)) [d'..<end_pos] = map (data s) [d'..<end_pos]"
  using assms unfolding reads_ahead_def by auto

lemma do_unescape_list:
  assumes "reads_ahead okay data collector (d + n)" "okay d s"
  shows "do_unescape ord data collector n d checker e s =
    (case unescaped ord d checker e (map (data s) [d..<d + n]) of (r, out) \<Rightarrow> (r, fold collector out s))"
  using assms
proof (induction ord data collector n d checker e s rule: do_unescape.induct)
  case (1 ord data collector n d checker e s)
  note ahead = 1(4) and okay = 1(5)
  show ?case
  proof (cases "n = 0")
    case True
    then show ?thesis by (simp add: do_unescape.simps [of ord data collector 0])
  next
    case False
    then have n: "0 < n" by simp
    have upt: "map (data s) [d..<d + n] = data s d # map (data s) [Suc d..<d + n]"
      using n by (simp add: upt_conv_Cons del: upt_Suc)
    have one: "okay (d + 1) (collector ch s)"
      "map (data (collector ch s)) [d + 1..<d + 1 + (n - 1)] = map (data s) [Suc d..<d + n]" for ch
      using reads_aheadD [OF ahead okay, of "d + 1" ch] n by (simp_all del: upt_Suc)
    have ahead1: "reads_ahead okay data collector (d + 1 + (n - 1))" using ahead n by simp
    consider "e \<and> data s d \<noteq> 0x25" | "data s d = 0x25" "3 \<le> n" | "data s d = 0x25" "n < 3"
      | "\<not> e" "data s d \<noteq> 0x25" by linarith
    then show ?thesis
    proof cases
      case 1
      then show ?thesis using n by (simp add: do_unescape.simps [of ord data collector n] upt unescaped.simps(2) del: upt_Suc)
    next
      case 2
      let ?a = "data s (d + 1)" and ?b = "data s (d + 2)"
      have upt3: "map (data s) [d..<d + n] = data s d # ?a # ?b # map (data s) [d + 3..<d + n]"
        using 2(2) by (simp add: upt_conv_Cons numeral_3_eq_3 del: upt_Suc)
      obtain ok ch' where p: "utf8_process_byte (extract_escaped_char ?a ?b) checker = (ok, ch')" by fastforce
      show ?thesis
      proof (cases "is_hexdigit ?a \<and> is_hexdigit ?b \<and> ok")
        case True
        have ahead3: "reads_ahead okay data collector (d + 3 + (n - 3))" using ahead 2(2) by simp
        have three: "okay (d + 3) (collector (extract_escaped_char ?a ?b) s)"
          "map (data (collector (extract_escaped_char ?a ?b) s)) [d + 3..<d + 3 + (n - 3)] = map (data s) [d + 3..<d + n]"
          using reads_aheadD [OF ahead okay, of "d + 3"] 2(2) by (simp_all del: upt_Suc)
        have IH: "do_unescape ord data collector (n - 3) (d + 3)
            (if utf8_finalized ch' then utf8_reset ch' else ch') (\<not> utf8_finalized ch')
            (collector (extract_escaped_char ?a ?b) s)
          = (case unescaped ord (d + 3) (if utf8_finalized ch' then utf8_reset ch' else ch') (\<not> utf8_finalized ch')
                (map (data s) [d + 3..<d + n]) of
              (r, out) \<Rightarrow> (r, fold collector out (collector (extract_escaped_char ?a ?b) s)))"
          using 1(1) [OF _ _ _ _ refl p [symmetric] _ ahead3 three(1)] 2 True n unfolding three(2) [symmetric] by (simp del: upt_Suc)
        obtain r out where out: "unescaped ord (d + 3) (if utf8_finalized ch' then utf8_reset ch' else ch')
            (\<not> utf8_finalized ch') (map (data s) [d + 3..<d + n]) = (r, out)" by fastforce
        have "unescaped ord d checker e (map (data s) [d..<d + n]) = (r, extract_escaped_char ?a ?b # out)"
          using 2 True p out by (simp add: upt3 unescaped.simps(2) del: upt_Suc)
        moreover have "do_unescape ord data collector n d checker e s
            = (r, fold collector out (collector (extract_escaped_char ?a ?b) s))"
          using 2 True p IH out by (simp add: do_unescape.simps [of ord data collector n])
        ultimately show ?thesis by simp
      next
        case False
        then show ?thesis using 2 p
          by (auto simp: do_unescape.simps [of ord data collector n] upt3 unescaped.simps(2) simp del: upt_Suc)
      qed
    next
      case 3
      have "length (map (data s) [Suc d..<d + n]) < 2" using 3(2) by simp
      note unescaped_short [OF this, of ord d checker e]
      then show ?thesis using 3 n upt by (simp add: do_unescape.simps [of ord data collector n] del: upt_Suc)
    next
      case 4
      have IH: "do_unescape ord data collector (n - 1) (d + 1) checker e (collector ch s)
        = (case unescaped ord (d + 1) checker e (map (data s) [Suc d..<d + n]) of
            (r, out) \<Rightarrow> (r, fold collector out (collector ch s)))"
        if "ch = 0x20 \<and> data s d = 0x2B \<or> ch = data s d \<and> data s d \<noteq> 0x2B \<and> ord ch" for ch
        using that 1(2) [OF _ _ _ _ ahead1 one(1)] 1(3) [OF _ _ _ _ _ ahead1 one(1)] 4 n
        unfolding one(2) [of ch, symmetric] by (auto simp del: upt_Suc)
      show ?thesis using 4 n IH [where ch = "0x20"] IH [where ch = "data s d"]
        by (auto simp: do_unescape.simps [of ord data collector n] upt unescaped.simps(2) simp del: upt_Suc
            split: prod.splits)
    qed
  qed
qed

lemma try_unescape_list:
  "try_unescape_percent_encoding ord data =
    (case unescaped ord 0 utf8_checker_new False data of (Inl e, _) \<Rightarrow> Inl e | (Inr _, out) \<Rightarrow> Inr out)"
proof -
  have "fold (\<lambda>ch result. result @ [ch]) out r = r @ out" for out r :: bytes
    by (induction out arbitrary: r) simp_all
  moreover have "reads_ahead (\<lambda>_ _. True) (\<lambda>result i. data ! i) (\<lambda>ch result. result @ [ch]) (0 + length data)"
    by (simp add: reads_ahead_def)
  note do_unescape_list [OF this, where s = "[]" and ord = ord and checker = utf8_checker_new and e = False]
  ultimately show ?thesis
    by (simp add: try_unescape_percent_encoding_def do_unescape_percent_encoding_def map_nth split: prod.splits)
qed

lemma length_unescaped: "length (snd (unescaped ord d checker e data)) \<le> length data"
proof (induction ord d checker e data rule: unescaped.induct)
  case (2 ord d checker e c cs)
  show ?case
  proof (cases "c = 0x25")
    case True
    then show ?thesis using 2(1)
      by (fastforce simp: unescaped.simps(2) split: list.split prod.split)
  next
    case False
    then show ?thesis using 2(2,3) by (auto simp: unescaped.simps(2))
  qed
qed simp

lemma fold_store:
  assumes "start + k + length out \<le> length buf"
  shows "fold (\<lambda>ch (buf, k). (buf[start + k := ch], k + 1)) out (buf, k)
    = (take (start + k) buf @ out @ drop (start + k + length out) buf, k + length out)"
  using assms
proof (induction out arbitrary: buf k)
  case (Cons ch out)
  have "fold (\<lambda>ch (buf, k). (buf[start + k := ch], k + 1)) (ch # out) (buf, k)
    = (take (start + (k + 1)) (buf[start + k := ch]) @ out @ drop (start + (k + 1) + length out) (buf[start + k := ch]),
       k + 1 + length out)"
    using Cons.IH [of "k + 1" "buf[start + k := ch]"] Cons.prems by simp
  moreover have "take (start + (k + 1)) (buf[start + k := ch]) = take (start + k) buf @ [ch]"
    using Cons.prems by (simp add: take_Suc_conv_app_nth)
  ultimately show ?case using Cons.prems by simp
qed simp

lemma inplace_unescape_list:
  assumes "start + sz \<le> length buf"
    and "unescaped ord 0 utf8_checker_new False (take sz (drop start buf)) = (r, out)"
  shows "length out \<le> sz"
    "try_inplace_unescape_percent_encoding ord start sz buf
      = (map_sum id (\<lambda>_. length out) r, take start buf @ out @ drop (start + length out) buf)"
proof -
  let ?rd = "\<lambda>(buf, k) i. buf ! (start + i)" and ?put = "\<lambda>ch (buf, k). (buf[start + k := ch], k + 1 :: nat)"
  have ahead: "reads_ahead (\<lambda>d (buf, k). k \<le> d) ?rd ?put (0 + sz)"
    by (auto simp: reads_ahead_def)
  have view: "map (?rd (buf, 0)) [0..<0 + sz] = take sz (drop start buf)"
    using assms(1) by (auto intro: nth_equalityI)
  show len: "length out \<le> sz"
    using length_unescaped [of ord 0 utf8_checker_new False "take sz (drop start buf)"] assms(2) by simp
  have "do_unescape_percent_encoding ord ?rd ?put sz (buf, 0) = (r, fold ?put out (buf, 0))"
    using do_unescape_list [OF ahead, where s = "(buf, 0)" and ord = ord and checker = utf8_checker_new and e = False]
      view assms(2) by (simp add: do_unescape_percent_encoding_def)
  also have "fold ?put out (buf, 0) = (take start buf @ out @ drop (start + length out) buf, length out)"
    using fold_store [of start 0 out buf] len assms(1) by simp
  finally show "try_inplace_unescape_percent_encoding ord start sz buf
      = (map_sum id (\<lambda>_. length out) r, take start buf @ out @ drop (start + length out) buf)"
    by (cases r) (simp_all add: try_inplace_unescape_percent_encoding_def)
qed

text \<open>
  C27. In place: reading is always ahead of writing, so unescaping in place collects what unescaping into a
  new string does: on success the result stands at the start of the part, and nothing outside its
  place is changed; failures are the same.\<close>

theorem inplace_unescape_correct:
  assumes "start + sz \<le> length buf"
  shows "\<exists>out. length out \<le> sz
    \<and> snd (try_inplace_unescape_percent_encoding ord start sz buf) = take start buf @ out @ drop (start + length out) buf
    \<and> (case try_unescape_percent_encoding ord (take sz (drop start buf)) of
         Inl e \<Rightarrow> fst (try_inplace_unescape_percent_encoding ord start sz buf) = Inl e
       | Inr result \<Rightarrow> fst (try_inplace_unescape_percent_encoding ord start sz buf) = Inr (length result) \<and> out = result)"
proof -
  obtain r out where u: "unescaped ord 0 utf8_checker_new False (take sz (drop start buf)) = (r, out)" by fastforce
  from inplace_unescape_list [OF assms u] show ?thesis
    by (intro exI [of _ out]) (cases r, simp_all add: try_unescape_list u)
qed

theorem inplace_unescape_correct_witness:
  "1 + 4 \<le> length [0x3F, 0x25, 0x34, 0x31, 0x2B, 0x3D :: u8]
   \<and> (\<exists>out. length out \<le> 4
    \<and> snd (try_inplace_unescape_percent_encoding restinio_default_unescape_traits 1 4 [0x3F, 0x25, 0x34, 0x31, 0x2B, 0x3D])
      = take 1 [0x3F, 0x25, 0x34, 0x31, 0x2B, 0x3D] @ out @ drop (1 + length out) [0x3F, 0x25, 0x34, 0x31, 0x2B, 0x3D]
    \<and> (case try_unescape_percent_encoding restinio_default_unescape_traits (take 4 (drop 1 [0x3F, 0x25, 0x34, 0x31, 0x2B, 0x3D])) of
         Inl e \<Rightarrow> fst (try_inplace_unescape_percent_encoding restinio_default_unescape_traits 1 4 [0x3F, 0x25, 0x34, 0x31, 0x2B, 0x3D]) = Inl e
       | Inr result \<Rightarrow> fst (try_inplace_unescape_percent_encoding restinio_default_unescape_traits 1 4 [0x3F, 0x25, 0x34, 0x31, 0x2B, 0x3D])
           = Inr (length result) \<and> out = result))"
  using inplace_unescape_correct [of 1 4 "[0x3F, 0x25, 0x34, 0x31, 0x2B, 0x3D]" restinio_default_unescape_traits]
  by simp

subsection \<open>Escaping and unescaping\<close>

definition hex_digit :: "u8 \<Rightarrow> u8" where
  "hex_digit n = (if n < 10 then 0x30 + n else 0x41 + (n - 10))"

text \<open>What \<open>fmt\<close> documents for \<open>{:02X}\<close> and an unsigned byte.\<close>

definition fmt_hex2_ok :: "(u8 \<Rightarrow> bytes) \<Rightarrow> bool" where
  "fmt_hex2_ok hex2 \<longleftrightarrow> (\<forall>b. hex2 b = [hex_digit (drop_bit 4 b), hex_digit (b AND 0xF)])"

lemma hex_digits:
  "is_hexdigit (hex_digit (drop_bit 4 b))" "is_hexdigit (hex_digit (b AND 0xF))"
  "extract_escaped_char (hex_digit (drop_bit 4 b)) (hex_digit (b AND 0xF)) = b"
proof -
  have "is_hexdigit (hex_digit (drop_bit 4 b)) \<and> is_hexdigit (hex_digit (b AND 0xF))
      \<and> extract_escaped_char (hex_digit (drop_bit 4 b)) (hex_digit (b AND 0xF)) = b"
    by (rule all_bytes) code_simp
  then show "is_hexdigit (hex_digit (drop_bit 4 b))" "is_hexdigit (hex_digit (b AND 0xF))"
    "extract_escaped_char (hex_digit (drop_bit 4 b)) (hex_digit (b AND 0xF)) = b" by simp_all
qed

text \<open>The checker between two calls of the loop.\<close>

definition utf8_idle :: "utf8_checker \<Rightarrow> utf8_checker" where
  "utf8_idle s = (if utf8_finalized s then utf8_reset s else s)"

lemma process_idle:
  assumes "utf8_sound s"
  shows "utf8_process_byte b (utf8_idle s) = utf8_process_byte b s"
  using assms by (cases s) (auto simp: utf8_idle_def utf8_reset_def utf8_finalized_def utf8_sound_def
      utf8_process_byte_def check_overlong_def Let_def)

lemma process_ascii:
  assumes "utf8_sound s" "utf8_finalized s" "unat b < 0x80"
  shows "\<exists>s'. utf8_process_byte b s = (True, s') \<and> utf8_sound s' \<and> utf8_finalized s' \<and> utf8_idle s' = utf8_idle s"
proof -
  have idle: "utf8_idle s = utf8_checker_new" using utf8_reset_sound assms by (simp add: utf8_idle_def)
  have "check_overlong b utf8_checker_new = utf8_checker_new"
    using byte_lead(1) [of b] assms(3) unfolding check_new by (simp add: utf8_checker_new_def)
  then have "utf8_process_byte b utf8_checker_new = (True, utf8_checker_new\<lparr>m_current_symbol := ucast b\<rparr>)"
    using assms(3) by (simp add: process_new) (simp add: utf8_checker_new_def)
  then have "utf8_process_byte b s = (True, utf8_checker_new\<lparr>m_current_symbol := ucast b\<rparr>)"
    using process_idle [OF assms(1), of b] by (simp add: idle)
  then show ?thesis
    using idle by (simp add: utf8_sound_def utf8_finalized_def utf8_idle_def utf8_reset_def utf8_checker_new_def)
qed

text \<open>The contract of the traits for which escaping can be undone.\<close>

locale unescape_traits =
  fixes ordinary_char :: "u8 \<Rightarrow> bool"
  assumes no_percent: "\<not> ordinary_char 0x25" and no_plus: "\<not> ordinary_char 0x2B"
    and ascii: "ordinary_char c \<Longrightarrow> unat c < 0x80"
begin

lemma unescape_escaped:
  assumes "fmt_hex2_ok hex2" "utf8_sound s"
  shows "(utf8_accepts s data \<longrightarrow> unescaped ordinary_char d (utf8_idle s) (\<not> utf8_finalized s)
        (escape_percent_encoding hex2 ordinary_char data) = (Inr (), data))
    \<and> (\<not> utf8_accepts s data \<longrightarrow> (\<exists>e out. unescaped ordinary_char d (utf8_idle s) (\<not> utf8_finalized s)
        (escape_percent_encoding hex2 ordinary_char data) = (Inl e, out)))"
  using assms(2)
proof (induction data arbitrary: s d)
  case Nil
  then show ?case by (simp add: escape_map)
next
  case (Cons b data)
  let ?rest = "escape_percent_encoding hex2 ordinary_char data"
  show ?case
  proof (cases "ordinary_char b")
    case True
    then have b: "unat b < 0x80" "b \<noteq> 0x25" "b \<noteq> 0x2B" using ascii no_percent no_plus by auto
    have esc: "escape_percent_encoding hex2 ordinary_char (b # data) = b # ?rest" using True by (simp add: escape_map)
    show ?thesis
    proof (cases "utf8_finalized s")
      case fin: True
      obtain s' where s': "utf8_process_byte b s = (True, s')" "utf8_sound s'" "utf8_finalized s'"
        "utf8_idle s' = utf8_idle s"
        using process_ascii [OF Cons.prems fin b(1)] by blast
      show ?thesis using Cons.IH [OF s'(2), of "d + 1"] s' fin True b(2,3)
        by (auto simp: esc unescaped.simps(2))
    next
      case False
      have "\<not> is_cont b" using b(1) by (simp add: is_cont_def)
      then have "\<not> utf8_accepts s (b # data)" using needs_cont False by (simp add: utf8_finalized_def)
      then show ?thesis using False b(2) by (simp add: esc unescaped.simps(2))
    qed
  next
    case False
    have esc: "escape_percent_encoding hex2 ordinary_char (b # data)
        = 0x25 # hex_digit (drop_bit 4 b) # hex_digit (b AND 0xF) # ?rest"
      using False assms(1) by (simp add: escape_map fmt_hex2_ok_def)
    obtain ok s' where p: "utf8_process_byte b s = (ok, s')" by fastforce
    have un: "unescaped ordinary_char d (utf8_idle s) (\<not> utf8_finalized s)
        (escape_percent_encoding hex2 ordinary_char (b # data))
      = (if \<not> ok then (Inl (invalid_utf8_at d), [])
         else apsnd (Cons b) (unescaped ordinary_char (d + 3) (utf8_idle s') (\<not> utf8_finalized s') ?rest))"
      unfolding esc
      by (simp add: unescaped.simps(2) hex_digits process_idle [OF Cons.prems] p utf8_idle_def [of s'])
    show ?thesis
    proof (cases ok)
      case True
      then have "utf8_sound s'" using utf8_sound_byte [OF Cons.prems] p by simp
      from Cons.IH [OF this, of "d + 3"] show ?thesis using un p True by auto
    qed (use un p in simp)
  qed
qed

end

interpretation default_traits: unescape_traits restinio_default_unescape_traits
  by unfold_locales (auto simp: restinio_default_unescape_traits_def alphanumeric_def word_le_nat_alt)

interpretation form_traits: unescape_traits x_www_form_urlencoded_unescape_traits
  by unfold_locales (auto simp: x_www_form_urlencoded_unescape_traits_def alphanumeric_def word_le_nat_alt)

interpretation javascript_traits: unescape_traits javascript_compatible_unescape_traits
  by unfold_locales (auto simp: javascript_compatible_unescape_traits_def alphanumeric_def word_le_nat_alt)

lemma strict_traits:
  assumes "ord \<in> {restinio_default_unescape_traits, x_www_form_urlencoded_unescape_traits,
    javascript_compatible_unescape_traits}"
  shows "unescape_traits ord"
  using assms default_traits.unescape_traits_axioms form_traits.unescape_traits_axioms
    javascript_traits.unescape_traits_axioms by blast

lemma unescaped_new:
  assumes "fmt_hex2_ok hex2"
    and "ord \<in> {restinio_default_unescape_traits, x_www_form_urlencoded_unescape_traits,
      javascript_compatible_unescape_traits}"
  shows "valid_utf8 data \<Longrightarrow>
      unescaped ord 0 utf8_checker_new False (escape_percent_encoding hex2 ord data) = (Inr (), data)"
    and "\<not> valid_utf8 data \<Longrightarrow> \<exists>e out. unescaped ord 0 utf8_checker_new False
        (escape_percent_encoding hex2 ord data) = (Inl e, out)"
proof -
  have idle: "utf8_idle utf8_checker_new = utf8_checker_new" "utf8_finalized utf8_checker_new"
    by (simp_all add: utf8_idle_def utf8_finalized_def utf8_reset_def utf8_checker_new_def)
  have *: "(valid_utf8 data \<longrightarrow> unescaped ord 0 utf8_checker_new False (escape_percent_encoding hex2 ord data) = (Inr (), data))
    \<and> (\<not> valid_utf8 data \<longrightarrow> (\<exists>e out. unescaped ord 0 utf8_checker_new False
        (escape_percent_encoding hex2 ord data) = (Inl e, out)))"
    using unescape_traits.unescape_escaped [OF strict_traits [OF assms(2)] assms(1) utf8_sound_new, of data 0]
    by (simp add: idle utf8_checker_decides)
  show "unescaped ord 0 utf8_checker_new False (escape_percent_encoding hex2 ord data) = (Inr (), data)"
    if "valid_utf8 data" using * that by blast
  show "\<exists>e out. unescaped ord 0 utf8_checker_new False (escape_percent_encoding hex2 ord data) = (Inl e, out)"
    if "\<not> valid_utf8 data" using * that by blast
qed

text \<open>
  With the default, the form and the JavaScript traits, escaping followed by unescaping gives the text
  back if it is UTF-8, and an error if it is not.\<close>

theorem percent_roundtrip:
  assumes "fmt_hex2_ok hex2"
    and "ord \<in> {restinio_default_unescape_traits, x_www_form_urlencoded_unescape_traits,
      javascript_compatible_unescape_traits}"
  shows "case try_unescape_percent_encoding ord (escape_percent_encoding hex2 ord data) of
      Inl e \<Rightarrow> \<not> valid_utf8 data | Inr result \<Rightarrow> valid_utf8 data \<and> result = data"
proof (cases "valid_utf8 data")
  case True
  then show ?thesis using unescaped_new(1) [OF assms] by (simp add: try_unescape_list)
next
  case False
  then show ?thesis using unescaped_new(2) [OF assms False] by (auto simp: try_unescape_list)
qed

theorem percent_roundtrip_witness:
  "fmt_hex2_ok (\<lambda>b. [hex_digit (drop_bit 4 b), hex_digit (b AND 0xF)])
   \<and> restinio_default_unescape_traits \<in> {restinio_default_unescape_traits, x_www_form_urlencoded_unescape_traits,
      javascript_compatible_unescape_traits}
   \<and> (case try_unescape_percent_encoding restinio_default_unescape_traits
        (escape_percent_encoding (\<lambda>b. [hex_digit (drop_bit 4 b), hex_digit (b AND 0xF)])
          restinio_default_unescape_traits [0x61, 0xC3, 0xA9, 0x20]) of
      Inl e \<Rightarrow> \<not> valid_utf8 [0x61, 0xC3, 0xA9, 0x20]
    | Inr result \<Rightarrow> valid_utf8 [0x61, 0xC3, 0xA9, 0x20] \<and> result = [0x61, 0xC3, 0xA9, 0x20])"
proof -
  let ?hex2 = "\<lambda>b. [hex_digit (drop_bit 4 b), hex_digit (b AND 0xF)]"
  have 1: "fmt_hex2_ok ?hex2" by (simp add: fmt_hex2_ok_def)
  have 2: "restinio_default_unescape_traits \<in> {restinio_default_unescape_traits, x_www_form_urlencoded_unescape_traits,
      javascript_compatible_unescape_traits}" by simp
  show ?thesis using 1 2 percent_roundtrip [OF 1 2, of "[0x61, 0xC3, 0xA9, 0x20]"] by (intro conjI)
qed

text \<open>
  With the relaxed traits a plus sign is an ordinary character for escaping but a space for unescaping,
  and the byte 0 is an ordinary character.\<close>

theorem relaxed_plus_becomes_space:
  "try_unescape_percent_encoding relaxed_unescape_traits (escape_percent_encoding hex2 relaxed_unescape_traits [0x2B])
     = Inr [0x20]
   \<and> relaxed_unescape_traits 0"
proof -
  have o: "relaxed_unescape_traits 0x2B" "relaxed_unescape_traits 0" by code_simp+
  then have "escape_percent_encoding hex2 relaxed_unescape_traits [0x2B] = [0x2B]"
    by (simp add: escape_percent_encoding_def)
  then show ?thesis using o(2) by (simp add: try_unescape_list unescaped.simps(2))
qed

subsection \<open>The size of a normalised URI\<close>

text \<open>The pieces of the output of the normalisation, of one or three bytes.\<close>

fun normal_pieces :: "nat \<Rightarrow> utf8_checker \<Rightarrow> bool \<Rightarrow> bytes \<Rightarrow> (unescape_failure + unit) \<times> bytes list" where
  "normal_pieces d checker e [] = (if e then Inl unfinished_utf8 else Inr (), [])"
| "normal_pieces d checker e (c # cs) =
     (if e \<and> c \<noteq> 0x25 then (Inl (next_byte_expected_at d), [])
      else if c \<noteq> 0x25 then apsnd (Cons [c]) (normal_pieces (d + 1) checker e cs)
      else (case cs of
          a # b # cs' \<Rightarrow>
            if is_hexdigit a \<and> is_hexdigit b then
              (case utf8_process_byte (extract_escaped_char a b) checker of (ok, checker') \<Rightarrow>
                 if \<not> ok then (Inl (invalid_utf8_at d), [])
                 else if utf8_finalized checker' then
                   apsnd (Cons (if m_current_symbol checker' < 0x80 \<and> is_unreserved_char (ucast (m_current_symbol checker'))
                       then [ucast (m_current_symbol checker')] else [c, a, b]))
                     (normal_pieces (d + 3) (utf8_reset checker') False cs')
                 else apsnd (Cons [c, a, b]) (normal_pieces (d + 3) checker' True cs'))
            else (Inl (invalid_escape_at d), [])
        | _ \<Rightarrow> (Inl (invalid_escape_at d), [])))"

declare normal_pieces.simps(2) [simp del]

definition handle_piece :: "(u8 \<Rightarrow> 's \<Rightarrow> 's) \<Rightarrow> (u8 \<Rightarrow> u8 \<Rightarrow> u8 \<Rightarrow> 's \<Rightarrow> 's) \<Rightarrow> bytes \<Rightarrow> 's \<Rightarrow> 's" where
  "handle_piece one three piece =
     (case piece of [c] \<Rightarrow> one c | [a, b, c] \<Rightarrow> three a b c | _ \<Rightarrow> id)"

lemma handle_piece_simps [simp]:
  "handle_piece one three [c] = one c" "handle_piece one three [a, b, c] = three a b c"
  by (simp_all add: handle_piece_def)

lemma normal_short:
  assumes "length cs < 2"
  shows "normal_pieces d checker e (0x25 # cs) = (Inl (invalid_escape_at d), [])"
proof (cases cs)
  case (Cons a as)
  then show ?thesis using assms by (cases as) (simp_all add: normal_pieces.simps(2))
qed (simp add: normal_pieces.simps(2))

lemma run_normalization_pieces:
  assumes "d + n = length what"
  shows "run_normalization one three what n d checker e s =
    (case normal_pieces d checker e (drop d what) of (r, ps) \<Rightarrow> (r, fold (handle_piece one three) ps s))"
  using assms
proof (induction one three what n d checker e s rule: run_normalization.induct)
  case (1 one three what n d checker e s)
  note unfold_run = run_normalization.simps [of one three what n d checker e s]
  show ?case
  proof (cases "n = 0")
    case True
    then show ?thesis using 1(4) by (simp add: run_normalization.simps [of one three what 0])
  next
    case False
    then have n: "0 < n" by simp
    have drop1: "drop d what = what ! d # drop (d + 1) what" using n 1(4) by (simp add: Cons_nth_drop_Suc)
    consider "e \<and> what ! d \<noteq> 0x25" | "\<not> e" "what ! d \<noteq> 0x25" | "what ! d = 0x25" "n < 3" | "what ! d = 0x25" "3 \<le> n"
      by linarith
    then show ?thesis
    proof cases
      case 1
      then show ?thesis using n unfolding unfold_run drop1 by (simp add: normal_pieces.simps(2))
    next
      case 2
      have "run_normalization one three what (n - 1) (d + 1) checker e (one (what ! d) s)
        = (case normal_pieces (d + 1) checker e (drop (d + 1) what) of
            (r, ps) \<Rightarrow> (r, fold (handle_piece one three) ps (one (what ! d) s)))"
        using 1(1) [OF n] 1(4) 2 n by simp
      then show ?thesis using 2 n unfolding unfold_run drop1
        by (auto simp: normal_pieces.simps(2) split: prod.splits)
    next
      case 3
      have "length (drop (d + 1) what) < 2" using 3 1(4) by simp
      then show ?thesis using 3 n by (simp add: unfold_run drop1 normal_short)
    next
      case 4
      let ?a = "what ! (d + 1)" and ?b = "what ! (d + 2)"
      have drop3: "drop d what = what ! d # ?a # ?b # drop (d + 3) what"
        using drop1 Cons_nth_drop_Suc [of "d + 1" what] Cons_nth_drop_Suc [of "d + 2" what] 4 1(4)
        by (simp add: eval_nat_numeral)
      obtain ok ch' where p: "utf8_process_byte (extract_escaped_char ?a ?b) checker = (ok, ch')" by fastforce
      show ?thesis
      proof (cases "is_hexdigit ?a \<and> is_hexdigit ?b \<and> ok")
        case True
        define piece where "piece = (if utf8_finalized ch' \<and> m_current_symbol ch' < 0x80
            \<and> is_unreserved_char (ucast (m_current_symbol ch'))
          then [ucast (m_current_symbol ch')] else [what ! d, ?a, ?b])"
        let ?ch = "if utf8_finalized ch' then utf8_reset ch' else ch'"
        obtain r ps where ps: "normal_pieces (d + 3) ?ch (\<not> utf8_finalized ch') (drop (d + 3) what) = (r, ps)"
          by fastforce
        have IH: "run_normalization one three what (n - 3) (d + 3) ?ch (\<not> utf8_finalized ch')
            (handle_piece one three piece s) = (r, fold (handle_piece one three) ps (handle_piece one three piece s))"
        proof (cases "utf8_finalized ch'")
          case fin: True
          then show ?thesis
            using 1(2) [OF n _ _ _ refl p [symmetric] _ fin refl refl] 1(4) 4 True ps
            by (auto simp: piece_def split: if_splits)
        next
          case False
          then show ?thesis using 1(3) [OF n _ _ _ refl p [symmetric] _ False] 1(4) 4 True ps
            by (simp add: piece_def)
        qed
        have "normal_pieces d checker e (drop d what) = (r, piece # ps)"
          using 4 True p ps by (auto simp: drop3 normal_pieces.simps(2) piece_def split: if_splits)
        moreover have "run_normalization one three what n d checker e s
            = (r, fold (handle_piece one three) ps (handle_piece one three piece s))"
          unfolding IH [symmetric] using 4 True p by (auto simp: unfold_run piece_def)
        ultimately show ?thesis by simp
      next
        case False
        then show ?thesis using 4 p by (auto simp: unfold_run drop3 normal_pieces.simps(2))
      qed
    qed
  qed
qed

lemma normal_pieces_shape: "list_all (\<lambda>p. length p = 1 \<or> length p = 3) (snd (normal_pieces d checker e data))"
proof (induction d checker e data rule: normal_pieces.induct)
  case (2 d checker e c cs)
  show ?case
  proof (cases "c = 0x25 \<and> length cs < 2")
    case True
    then show ?thesis using normal_short by simp
  next
    case False
    show ?thesis
    proof (cases "c = 0x25")
      case True
      then obtain a b cs' where cs: "cs = a # b # cs'" using False by (cases cs; cases "tl cs") auto
      obtain ok ch' where p: "utf8_process_byte (extract_escaped_char a b) checker = (ok, ch')" by fastforce
      show ?thesis using 2(2,3) [OF _ _ cs refl _ p [symmetric]] True p
        by (auto simp: cs normal_pieces.simps(2))
    next
      case False
      then show ?thesis using 2(1) by (auto simp: normal_pieces.simps(2))
    qed
  qed
qed simp

lemma fold_pieces:
  assumes "list_all (\<lambda>p. length p = 1 \<or> length p = 3) ps"
  shows "fold (handle_piece store (\<lambda>c1 c2 c3 s. store c3 (store c2 (store c1 s)))) ps s = fold store (concat ps) s"
    "fold (handle_piece (\<lambda>_ n. n + 1) (\<lambda>_ _ _ n. n + 3)) ps k = k + length (concat ps)"
  using assms by (induction ps arbitrary: s k) (auto simp: length_Suc_conv numeral_3_eq_3)

lemma fold_store_fits:
  assumes "k + length out \<le> length dest"
  shows "fold store out (dest, k, False) = (take k dest @ out @ drop (k + length out) dest, k + length out, False)"
  using assms
proof (induction out arbitrary: dest k)
  case (Cons c out)
  have "store c (dest, k, False) = (dest[k := c], k + 1, False)" using Cons.prems by (simp add: store_def)
  then have "fold store (c # out) (dest, k, False)
    = (take (k + 1) (dest[k := c]) @ out @ drop (k + 1 + length out) (dest[k := c]), k + 1 + length out, False)"
    using Cons.IH [of "k + 1" "dest[k := c]"] Cons.prems by simp
  moreover have "take (k + 1) (dest[k := c]) = take k dest @ [c]"
    using Cons.prems by (simp add: take_Suc_conv_app_nth)
  ultimately show ?case by simp
qed simp

text \<open>
  C28. \<open>estimate_required_capacity\<close> is exact: a buffer of that size is filled completely, without an
  overrun, a larger one keeps what lies behind; and the two functions fail for the same URIs.\<close>

theorem normalize_fits:
  assumes "case estimate_required_capacity what of Inl e \<Rightarrow> True | Inr n \<Rightarrow> n \<le> length dest"
  shows "case estimate_required_capacity what of
      Inl e \<Rightarrow> fst (normalize_to what dest) = Inl e
    | Inr n \<Rightarrow> \<exists>out. length out = n \<and> normalize_to what dest = (Inr (), out @ drop n dest, n, False)"
proof -
  obtain r ps where ps: "normal_pieces 0 utf8_checker_new False what = (r, ps)" by fastforce
  have shape: "list_all (\<lambda>p. length p = 1 \<or> length p = 3) ps"
    using normal_pieces_shape [of 0 utf8_checker_new False what] ps by simp
  have run: "run_normalization one three what (length what) 0 utf8_checker_new False s
      = (r, fold (handle_piece one three) ps s)" for one :: "u8 \<Rightarrow> 's \<Rightarrow> 's" and three s
    using run_normalization_pieces [of 0 "length what" what one three] ps by simp
  have est: "estimate_required_capacity what = (case r of Inl e \<Rightarrow> Inl e | Inr _ \<Rightarrow> Inr (length (concat ps)))"
    unfolding estimate_required_capacity_def run fold_pieces(2) [OF shape] by (simp split: sum.split)
  show ?thesis
  proof (cases r)
    case (Inl e)
    then show ?thesis by (simp add: est normalize_to_def run)
  next
    case (Inr u)
    then have "length (concat ps) \<le> length dest" using assms by (simp add: est)
    from fold_store_fits [of 0 "concat ps" dest] this
    have "normalize_to what dest = (Inr (), concat ps @ drop (length (concat ps)) dest, length (concat ps), False)"
      using Inr by (simp add: normalize_to_def run fold_pieces(1) [OF shape])
    then show ?thesis using Inr by (simp add: est) 
  qed
qed

text \<open>\<open>/%41%2f\<close> becomes \<open>/A%2f\<close>.\<close>

theorem normalize_fits_witness:
  "(case estimate_required_capacity [0x2F, 0x25, 0x34, 0x31, 0x25, 0x32, 0x66] of Inl e \<Rightarrow> True | Inr n \<Rightarrow> n \<le> length [0, 0, 0, 0, 0 :: u8])
   \<and> (case estimate_required_capacity [0x2F, 0x25, 0x34, 0x31, 0x25, 0x32, 0x66] of
      Inl e \<Rightarrow> fst (normalize_to [0x2F, 0x25, 0x34, 0x31, 0x25, 0x32, 0x66] [0, 0, 0, 0, 0]) = Inl e
    | Inr n \<Rightarrow> \<exists>out. length out = n
        \<and> normalize_to [0x2F, 0x25, 0x34, 0x31, 0x25, 0x32, 0x66] [0, 0, 0, 0, 0] = (Inr (), out @ drop n [0, 0, 0, 0, 0], n, False))"
proof -
  have "estimate_required_capacity [0x2F, 0x25, 0x34, 0x31, 0x25, 0x32, 0x66] = Inr 5" by code_simp
  then have 1: "case estimate_required_capacity [0x2F, 0x25, 0x34, 0x31, 0x25, 0x32, 0x66] of
      Inl e \<Rightarrow> True | Inr n \<Rightarrow> n \<le> length [0, 0, 0, 0, 0 :: u8]" by simp
  show ?thesis using 1 normalize_fits [OF 1] by (rule conjI)
qed

end
