(* ===== verification/Restinio_Uri.thy ===== *)
theory Restinio_Uri
  imports Restinio_Percent
begin

text \<open>
  \<open>uri_helpers.hpp\<close>: the parser of query strings and its result. The parser copies the query string
  into a buffer, unescapes names and values in place and keeps views into the buffer, here pairs of a
  position and a length. A query string that was written from names and values is parsed back to
  them, although the parser searches a buffer it has already changed.
\<close>

subsection \<open>\<open>query_string_params_t\<close>\<close>

type_synonym view = "nat \<times> nat"

record query_string_params =
  m_data_buffer :: bytes
  m_parameters :: "(view \<times> view) list"
  m_tag :: "view option"

definition view_of :: "bytes \<Rightarrow> view \<Rightarrow> bytes" where
  "view_of buf = (\<lambda>(pos, len). take len (drop pos buf))"

definition query_parameters :: "query_string_params \<Rightarrow> (bytes \<times> bytes) list" where
  "query_parameters q =
     map (\<lambda>(k, v). (view_of (m_data_buffer q) k, view_of (m_data_buffer q) v)) (m_parameters q)"

definition find_parameter :: "bytes \<Rightarrow> query_string_params \<Rightarrow> (bytes \<times> bytes) option" where
  "find_parameter key q = find (\<lambda>p. key = fst p) (query_parameters q)"

definition find_parameter_with_check ::
    "(bytes \<Rightarrow> string) \<Rightarrow> bytes \<Rightarrow> query_string_params \<Rightarrow> exn + bytes \<times> bytes" where
  "find_parameter_with_check describe key q =
     (case find_parameter key q of None \<Rightarrow> Inl (RestinioError (describe key)) | Some p \<Rightarrow> Inr p)"

definition query_at :: "(bytes \<Rightarrow> string) \<Rightarrow> bytes \<Rightarrow> query_string_params \<Rightarrow> exn + bytes" where
  "query_at describe key q = map_sum id snd (find_parameter_with_check describe key q)"

definition query_has :: "bytes \<Rightarrow> query_string_params \<Rightarrow> bool" where
  "query_has key q \<longleftrightarrow> find_parameter key q \<noteq> None"

definition query_get_param :: "bytes \<Rightarrow> query_string_params \<Rightarrow> bytes option" where
  "query_get_param key q = map_option snd (find_parameter key q)"

definition query_size :: "query_string_params \<Rightarrow> nat" where
  "query_size q = length (m_parameters q)"

definition query_empty :: "query_string_params \<Rightarrow> bool" where
  "query_empty q \<longleftrightarrow> m_parameters q = []"

definition query_tag :: "query_string_params \<Rightarrow> bytes option" where
  "query_tag q = map_option (view_of (m_data_buffer q)) (m_tag q)"

subsection \<open>Parsing\<close>

text \<open>\<open>find_first_of\<close> of a string view, from a position.\<close>

definition find_first :: "(u8 \<Rightarrow> bool) \<Rightarrow> bytes \<Rightarrow> nat \<Rightarrow> nat option" where
  "find_first p s start =
     (let k = length (takeWhile (\<lambda>c. \<not> p c) (drop start s))
      in if start + k < length s then Some (start + k) else None)"

definition ampersand_and_semicolon_as_separators :: "u8 \<Rightarrow> bool" where
  "ampersand_and_semicolon_as_separators c \<longleftrightarrow> c = 0x26 \<or> c = 0x3B"

definition ampersand_only_as_separators :: "u8 \<Rightarrow> bool" where
  "ampersand_only_as_separators c \<longleftrightarrow> c = 0x26"

text \<open>The traits: what is an ordinary character, and what separates the pairs.\<close>

record parse_traits =
  ordinary_char :: "u8 \<Rightarrow> bool"
  is_separator :: "u8 \<Rightarrow> bool"

definition restinio_defaults :: parse_traits where
  "restinio_defaults = \<lparr>ordinary_char = restinio_default_unescape_traits,
     is_separator = ampersand_and_semicolon_as_separators\<rparr>"

definition javascript_compatible :: parse_traits where
  "javascript_compatible = \<lparr>ordinary_char = javascript_compatible_unescape_traits,
     is_separator = ampersand_and_semicolon_as_separators\<rparr>"

definition x_www_form_urlencoded :: parse_traits where
  "x_www_form_urlencoded = \<lparr>ordinary_char = x_www_form_urlencoded_unescape_traits,
     is_separator = ampersand_only_as_separators\<rparr>"

definition relaxed :: parse_traits where
  "relaxed = \<lparr>ordinary_char = relaxed_unescape_traits, is_separator = ampersand_only_as_separators\<rparr>"

datatype parse_query_failure =
    no_equals_sign_from nat
  | parse_unescape_failure unescape_failure

lemma find_first_bounds: "find_first p s start = Some k \<Longrightarrow> start \<le> k \<and> k < length s"
  by (auto simp: find_first_def Let_def split: if_splits)

definition find_next_separator :: "parse_traits \<Rightarrow> bytes \<Rightarrow> nat \<Rightarrow> nat" where
  "find_next_separator T s start = (case find_first (is_separator T) s start of None \<Rightarrow> length s | Some p \<Rightarrow> p)"

lemma find_next_separator_ge:
  assumes "find_first p s pos = Some eq_pos"
  shows "pos < find_next_separator T s (eq_pos + 1) + 1"
  using find_first_bounds [OF assms] find_first_bounds [of "is_separator T" s "eq_pos + 1"]
  by (fastforce simp: find_next_separator_def split: option.split)

text \<open>
  The loop of \<open>try_parse_query\<close>. Searching is done in the buffer, in which the names and values already
  found have been unescaped.\<close>

function parse_query_loop ::
    "parse_traits \<Rightarrow> nat \<Rightarrow> nat \<Rightarrow> bytes \<Rightarrow> (view \<times> view) list \<Rightarrow> parse_query_failure + query_string_params" where
  "parse_query_loop T end_pos pos buf parameters =
     (if pos < end_pos then
        (case find_first (\<lambda>c. c = 0x3D) buf pos of
           None \<Rightarrow>
             if pos \<noteq> 0 then Inl (no_equals_sign_from pos)
             else (case try_inplace_unescape_percent_encoding (ordinary_char T) pos (end_pos - pos) buf of
                     (Inl e, _) \<Rightarrow> Inl (parse_unescape_failure e)
                   | (Inr n, buf) \<Rightarrow> Inr \<lparr>m_data_buffer = buf, m_parameters = [], m_tag = Some (pos, n)\<rparr>)
         | Some eq_pos \<Rightarrow>
             (case try_inplace_unescape_percent_encoding (ordinary_char T) pos (eq_pos - pos) buf of
                (Inl e, _) \<Rightarrow> Inl (parse_unescape_failure e)
              | (Inr key_size, buf1) \<Rightarrow>
                  (case try_inplace_unescape_percent_encoding (ordinary_char T) (eq_pos + 1)
                          (find_next_separator T buf (eq_pos + 1) - (eq_pos + 1)) buf1 of
                     (Inl e, _) \<Rightarrow> Inl (parse_unescape_failure e)
                   | (Inr value_size, buf2) \<Rightarrow>
                       parse_query_loop T end_pos (find_next_separator T buf (eq_pos + 1) + 1) buf2
                         (parameters @ [((pos, key_size), (eq_pos + 1, value_size))]))))
      else Inr \<lparr>m_data_buffer = buf, m_parameters = parameters, m_tag = None\<rparr>)"
  by pat_completeness auto
termination
proof (relation "measure (\<lambda>(T, end_pos, pos, buf, parameters). end_pos - pos)", goal_cases)
  case (2 T end_pos pos buf parameters eq_pos)
  then show ?case using find_next_separator_ge [of _ buf pos eq_pos T] by fastforce
qed simp

declare parse_query_loop.simps [simp del]

definition try_parse_query :: "parse_traits \<Rightarrow> bytes \<Rightarrow> parse_query_failure + query_string_params" where
  "try_parse_query T original_query_string =
     (if original_query_string \<noteq> [] then
        parse_query_loop T (length original_query_string) 0 original_query_string []
      else Inr \<lparr>m_data_buffer = [], m_parameters = [], m_tag = None\<rparr>)"

definition parse_query ::
    "(parse_query_failure \<Rightarrow> string) \<Rightarrow> parse_traits \<Rightarrow> bytes \<Rightarrow> exn + query_string_params" where
  "parse_query describe T original_query_string =
     (case try_parse_query T original_query_string of
        Inl e \<Rightarrow> Inl (RestinioError (describe e))
      | Inr r \<Rightarrow> Inr r)"

subsection \<open>Names and values come back\<close>

text \<open>The query string for names and values.\<close>

fun query_text :: "(u8 \<Rightarrow> bytes) \<Rightarrow> (u8 \<Rightarrow> bool) \<Rightarrow> (bytes \<times> bytes) list \<Rightarrow> bytes" where
  "query_text hex2 ord [] = []"
| "query_text hex2 ord ((k, v) # ps) =
     escape_percent_encoding hex2 ord k @ 0x3D # escape_percent_encoding hex2 ord v
       @ (if ps = [] then [] else 0x26 # query_text hex2 ord ps)"

lemma find_first_hit:
  assumes "\<forall>c \<in> set a. \<not> p c" "p x"
  shows "find_first p (pre @ a @ x # rest) (length pre) = Some (length pre + length a)"
proof -
  have "takeWhile (\<lambda>c. \<not> p c) (a @ x # rest) = a"
    using assms by (subst takeWhile_append2) auto
  then show ?thesis by (simp add: find_first_def Let_def)
qed

lemma find_first_miss:
  assumes "\<forall>c \<in> set a. \<not> p c"
  shows "find_first p (pre @ a) (length pre) = None"
proof -
  have "takeWhile (\<lambda>c. \<not> p c) a = a" using assms by (simp add: takeWhile_eq_all_conv)
  then show ?thesis unfolding find_first_def Let_def
    by (simp del: takeWhile_eq_all_conv)
qed

lemma escaped_chars:
  assumes "fmt_hex2_ok hex2" "c \<in> set (escape_percent_encoding hex2 ord data)"
  shows "ord c \<or> c = 0x25 \<or> is_hexdigit c"
  using assms hex_digits by (auto simp: escape_map fmt_hex2_ok_def split: if_splits)

lemma hexdigit_not_equals: "\<not> is_hexdigit 0x3D"
  by (simp add: is_hexdigit_def)

text \<open>The contract of the traits with which a query string can be parsed back.\<close>

locale query_traits =
  fixes T :: parse_traits
  assumes strict: "ordinary_char T \<in> {restinio_default_unescape_traits, x_www_form_urlencoded_unescape_traits,
      javascript_compatible_unescape_traits}"
    and ampersand: "is_separator T 0x26"
    and separates: "ordinary_char T c \<or> c = 0x25 \<or> is_hexdigit c \<Longrightarrow> \<not> is_separator T c"
    and equals: "\<not> ordinary_char T 0x3D"
begin

lemma escaped_plain:
  assumes "fmt_hex2_ok hex2"
  shows "\<forall>c \<in> set (escape_percent_encoding hex2 (ordinary_char T) data). c \<noteq> 0x3D"
    "\<forall>c \<in> set (escape_percent_encoding hex2 (ordinary_char T) data). \<not> is_separator T c"
  using escaped_chars [OF assms] separates equals hexdigit_not_equals by fastforce+

lemma inplace_escaped:
  assumes "fmt_hex2_ok hex2" "valid_utf8 data"
  defines "esc \<equiv> escape_percent_encoding hex2 (ordinary_char T) data"
  shows "\<exists>rest. length data + length rest = length esc
    \<and> try_inplace_unescape_percent_encoding (ordinary_char T) (length pre) (length esc) (pre @ esc @ post)
      = (Inr (length data), pre @ data @ rest @ post)"
proof -
  have "unescaped (ordinary_char T) 0 utf8_checker_new False
      (take (length esc) (drop (length pre) (pre @ esc @ post))) = (Inr (), data)"
    using unescaped_new(1) [OF assms(1) strict assms(2)] by (simp add: esc_def)
  from inplace_unescape_list [OF _ this] have
    "length data \<le> length esc"
    "try_inplace_unescape_percent_encoding (ordinary_char T) (length pre) (length esc) (pre @ esc @ post)
      = (Inr (length data), pre @ data @ drop (length data) esc @ post)"
    by simp_all
  then show ?thesis by (intro exI [of _ "drop (length data) esc"]) simp
qed

lemma parse_pair:
  assumes hex2: "fmt_hex2_ok hex2" and valid: "valid_utf8 k" "valid_utf8 v"
    and tail: "tail = [] \<or> (\<exists>t. tail = 0x26 # t)"
  defines "ek \<equiv> escape_percent_encoding hex2 (ordinary_char T) k"
    and "ev \<equiv> escape_percent_encoding hex2 (ordinary_char T) v"
  assumes n: "length pre < n"
  shows "\<exists>fk fv. length k + length fk = length ek \<and> length v + length fv = length ev
    \<and> parse_query_loop T n (length pre) (pre @ ek @ 0x3D # ev @ tail) ps
      = parse_query_loop T n (length pre + length ek + length ev + 2) (pre @ k @ fk @ 0x3D # v @ fv @ tail)
          (ps @ [((length pre, length k), (length pre + length ek + 1, length v))])"
proof -
  have eq: "find_first (\<lambda>c. c = 0x3D) (pre @ ek @ 0x3D # ev @ tail) (length pre) = Some (length pre + length ek)"
    using find_first_hit [of ek "\<lambda>c. c = 0x3D" "0x3D"] escaped_plain(1) [OF hex2] by (simp add: ek_def)
  have ev: "\<forall>c \<in> set ev. \<not> is_separator T c" using escaped_plain(2) [OF hex2] by (simp add: ev_def)
  have sep: "find_next_separator T (pre @ ek @ 0x3D # ev @ tail) (length pre + length ek + 1)
      = length pre + length ek + 1 + length ev"
    using tail find_first_miss [OF ev, of "pre @ ek @ [0x3D]"]
      find_first_hit [of ev "is_separator T" "0x26" "pre @ ek @ [0x3D]", OF ev ampersand]
    by (auto simp: find_next_separator_def)
  obtain fk where fk: "length k + length fk = length ek"
    "try_inplace_unescape_percent_encoding (ordinary_char T) (length pre) (length ek) (pre @ ek @ 0x3D # ev @ tail)
      = (Inr (length k), pre @ k @ fk @ 0x3D # ev @ tail)"
    using inplace_escaped [OF hex2 valid(1), of pre "0x3D # ev @ tail"] by (auto simp: ek_def)
  obtain fv where fv: "length v + length fv = length ev"
    "try_inplace_unescape_percent_encoding (ordinary_char T) (length pre + length ek + 1) (length ev)
        (pre @ k @ fk @ 0x3D # ev @ tail)
      = (Inr (length v), pre @ k @ fk @ 0x3D # v @ fv @ tail)"
    using inplace_escaped [OF hex2 valid(2), of "pre @ k @ fk @ [0x3D]" tail] fk(1) by (auto simp: ev_def)
  have "parse_query_loop T n (length pre) (pre @ ek @ 0x3D # ev @ tail) ps
      = parse_query_loop T n (length pre + length ek + length ev + 2) (pre @ k @ fk @ 0x3D # v @ fv @ tail)
          (ps @ [((length pre, length k), (length pre + length ek + 1, length v))])"
    using n sep fv(2) parse_query_loop.simps [of T n "length pre" "pre @ ek @ 0x3D # ev @ tail" ps]
    by (simp add: eq fk(2))
  then show ?thesis using fk(1) fv(1) by blast
qed

lemma parse_query_text:
  assumes hex2: "fmt_hex2_ok hex2" and "\<forall>(k, v) \<in> set qs. valid_utf8 k \<and> valid_utf8 v" "qs \<noteq> []"
    and "n = length pre + length (query_text hex2 (ordinary_char T) qs)"
  shows "\<exists>buf views. take (length pre) buf = pre
    \<and> map (\<lambda>(k, v). (view_of buf k, view_of buf v)) views = qs
    \<and> parse_query_loop T n (length pre) (pre @ query_text hex2 (ordinary_char T) qs) ps
      = Inr \<lparr>m_data_buffer = buf, m_parameters = ps @ views, m_tag = None\<rparr>"
  using assms(2-4)
proof (induction qs arbitrary: pre ps)
  case (Cons q qs)
  obtain k v where q: "q = (k, v)" by fastforce
  let ?esc = "escape_percent_encoding hex2 (ordinary_char T)"
  let ?tail = "if qs = [] then [] else 0x26 # query_text hex2 (ordinary_char T) qs"
  have valid: "valid_utf8 k" "valid_utf8 v" using Cons.prems(1) q by auto
  have tail: "?tail = [] \<or> (\<exists>t. ?tail = 0x26 # t)" by simp
  have n: "length pre < n" using Cons.prems(3) q by simp
  obtain fk fv where f: "length k + length fk = length (?esc k)" "length v + length fv = length (?esc v)"
    "parse_query_loop T n (length pre) (pre @ ?esc k @ 0x3D # ?esc v @ ?tail) ps
      = parse_query_loop T n (length pre + length (?esc k) + length (?esc v) + 2) (pre @ k @ fk @ 0x3D # v @ fv @ ?tail)
          (ps @ [((length pre, length k), (length pre + length (?esc k) + 1, length v))])"
    using parse_pair [OF hex2 valid tail n] by blast
  let ?pre = "pre @ k @ fk @ 0x3D # v @ fv"
  let ?view = "((length pre, length k), (length pre + length (?esc k) + 1, length v))"
  have views: "view_of buf (length pre, length k) = k \<and> view_of buf (length pre + length (?esc k) + 1, length v) = v"
    if pre: "take (length ?pre) buf = ?pre" for buf
  proof -
    obtain z where "buf = ?pre @ z" by (rule that [OF append_take_drop_id [of "length ?pre" buf, unfolded pre, symmetric]])
    then show ?thesis using f(1) by (simp add: view_of_def)
  qed
  show ?case
  proof (cases "qs = []")
    case True
    then have "parse_query_loop T n (length pre + length (?esc k) + length (?esc v) + 2) ?pre (ps @ [?view])
        = Inr \<lparr>m_data_buffer = ?pre, m_parameters = ps @ [?view], m_tag = None\<rparr>"
      using Cons.prems(3) q by (simp add: parse_query_loop.simps)
    then show ?thesis using f(3) views [of ?pre] True q
      by (intro exI [of _ ?pre] exI [of _ "[?view]"]) simp
  next
    case False
    let ?text = "query_text hex2 (ordinary_char T) qs"
    have len: "length pre + length (?esc k) + length (?esc v) + 2 = length (?pre @ [0x26])" using f(1,2) by simp
    obtain buf vs where buf: "take (length (?pre @ [0x26])) buf = ?pre @ [0x26]"
      "map (\<lambda>(k, v). (view_of buf k, view_of buf v)) vs = qs"
      "parse_query_loop T n (length (?pre @ [0x26])) ((?pre @ [0x26]) @ ?text) (ps @ [?view])
        = Inr \<lparr>m_data_buffer = buf, m_parameters = (ps @ [?view]) @ vs, m_tag = None\<rparr>"
      using Cons.IH [of "?pre @ [0x26]" "ps @ [?view]"] Cons.prems False q f(1,2) by auto
    have take1: "take (length ?pre) buf = ?pre"
      using arg_cong [OF buf(1), of "take (length ?pre)"] by simp
    have take2: "take (length pre) buf = pre"
      using arg_cong [OF take1, of "take (length pre)"] by (simp add: min_def)
    have "parse_query_loop T n (length pre) (pre @ query_text hex2 (ordinary_char T) (q # qs)) ps
        = parse_query_loop T n (length (?pre @ [0x26])) ((?pre @ [0x26]) @ ?text) (ps @ [?view])"
      using f(3) False q unfolding len by simp
    then show ?thesis using buf(2,3) take2 views [OF take1] q
      by - (rule exI [of _ buf], rule exI [of _ "?view # vs"], simp)
  qed
qed simp

end

interpretation restinio_query: query_traits restinio_defaults
  by unfold_locales (auto simp: restinio_defaults_def ampersand_and_semicolon_as_separators_def
      restinio_default_unescape_traits_def alphanumeric_def is_hexdigit_def)

interpretation javascript_query: query_traits javascript_compatible
  by unfold_locales (auto simp: javascript_compatible_def ampersand_and_semicolon_as_separators_def
      javascript_compatible_unescape_traits_def alphanumeric_def is_hexdigit_def)

interpretation form_query: query_traits x_www_form_urlencoded
  by unfold_locales (auto simp: x_www_form_urlencoded_def ampersand_only_as_separators_def
      x_www_form_urlencoded_unescape_traits_def alphanumeric_def is_hexdigit_def)

lemma strict_query_traits:
  assumes "T \<in> {restinio_defaults, javascript_compatible, x_www_form_urlencoded}"
  shows "query_traits T"
  using assms restinio_query.query_traits_axioms javascript_query.query_traits_axioms
    form_query.query_traits_axioms by blast

lemma find_map_of: "map_option snd (find (\<lambda>p. key = fst p) qs) = map_of qs key"
  by (induction qs) auto



text \<open>
  With the relaxed traits an ampersand is an ordinary character of a name: \<open>a&b=c\<close> is parsed to the one
  name \<open>a&b\<close>, since the separator is only looked for after an equals sign, while the strict traits
  refuse it.\<close>

theorem relaxed_separator_in_name:
  "map_sum id query_parameters (try_parse_query relaxed [0x61, 0x26, 0x62, 0x3D, 0x63]) = Inr [([0x61, 0x26, 0x62], [0x63])]
   \<and> try_parse_query restinio_defaults [0x61, 0x26, 0x62, 0x3D, 0x63] = Inl (parse_unescape_failure (invalid_char_at 0x26 1))"
  by code_simp

end
