(* ===== verification/Restinio_Sha1.thy ===== *)
theory Restinio_Sha1
  imports Restinio_Base64
begin

unbundle bit_operations_syntax

text \<open>
  \<open>utils/sha1.hpp\<close> against the definition of SHA-1 in FIPS 180-4, and the value of the header field
  \<open>Sec-WebSocket-Accept\<close>, which \<open>upgrade\<close> in \<open>websocket.hpp\<close> makes of the digest.
\<close>

subsection \<open>Rounds\<close>

type_synonym int_block = "u32 list"
type_synonym digest_t = "u32 list"

definition rotate_left :: "nat \<Rightarrow> u32 \<Rightarrow> u32" where
  "rotate_left shift x = push_bit shift x OR drop_bit (32 - shift) x"

definition octet_from :: "nat \<Rightarrow> u32 \<Rightarrow> u8" where
  "octet_from shift x = n_bits_from shift 8 x"

definition blk :: "int_block \<Rightarrow> nat \<Rightarrow> u32" where
  "blk block i = rotate_left 1
     (block ! ((i + 13) AND 15) XOR block ! ((i + 8) AND 15) XOR block ! ((i + 2) AND 15) XOR block ! i)"

text \<open>A round returns the block and the values of its two reference parameters \<open>w\<close> and \<open>z\<close>.\<close>

definition R0 :: "int_block \<Rightarrow> u32 \<Rightarrow> u32 \<Rightarrow> u32 \<Rightarrow> u32 \<Rightarrow> u32 \<Rightarrow> nat \<Rightarrow> int_block \<times> u32 \<times> u32" where
  "R0 block v w x y z i =
     (block, rotate_left 30 w, z + (((w AND (x XOR y)) XOR y) + block ! i + 0x5a827999 + rotate_left 5 v))"

definition R1 :: "int_block \<Rightarrow> u32 \<Rightarrow> u32 \<Rightarrow> u32 \<Rightarrow> u32 \<Rightarrow> u32 \<Rightarrow> nat \<Rightarrow> int_block \<times> u32 \<times> u32" where
  "R1 block v w x y z i =
     (let block = block[i := blk block i]
      in (block, rotate_left 30 w, z + (((w AND (x XOR y)) XOR y) + block ! i + 0x5a827999 + rotate_left 5 v)))"

definition R2 :: "int_block \<Rightarrow> u32 \<Rightarrow> u32 \<Rightarrow> u32 \<Rightarrow> u32 \<Rightarrow> u32 \<Rightarrow> nat \<Rightarrow> int_block \<times> u32 \<times> u32" where
  "R2 block v w x y z i =
     (let block = block[i := blk block i]
      in (block, rotate_left 30 w, z + ((w XOR x XOR y) + block ! i + 0x6ed9eba1 + rotate_left 5 v)))"

definition R3 :: "int_block \<Rightarrow> u32 \<Rightarrow> u32 \<Rightarrow> u32 \<Rightarrow> u32 \<Rightarrow> u32 \<Rightarrow> nat \<Rightarrow> int_block \<times> u32 \<times> u32" where
  "R3 block v w x y z i =
     (let block = block[i := blk block i]
      in (block, rotate_left 30 w, z + ((((w OR x) AND y) OR (w AND x)) + block ! i + 0x8f1bbcdc + rotate_left 5 v)))"

definition R4 :: "int_block \<Rightarrow> u32 \<Rightarrow> u32 \<Rightarrow> u32 \<Rightarrow> u32 \<Rightarrow> u32 \<Rightarrow> nat \<Rightarrow> int_block \<times> u32 \<times> u32" where
  "R4 block v w x y z i =
     (let block = block[i := blk block i]
      in (block, rotate_left 30 w, z + ((w XOR x XOR y) + block ! i + 0xca62c1d6 + rotate_left 5 v)))"

text \<open>
  One of the calls of \<open>transform\<close>: \<open>k\<close> is the place of the first of the five variables \<open>a\<close>, \<open>b\<close>, \<open>c\<close>, \<open>d\<close>,
  \<open>e\<close> that is passed, the others follow cyclically: \<open>R0(block, e, a, b, c, d, 1)\<close> is \<open>round_call R0 4 1\<close>.\<close>

definition round_call ::
    "(int_block \<Rightarrow> u32 \<Rightarrow> u32 \<Rightarrow> u32 \<Rightarrow> u32 \<Rightarrow> u32 \<Rightarrow> nat \<Rightarrow> int_block \<times> u32 \<times> u32) \<Rightarrow> nat \<Rightarrow> nat \<Rightarrow>
      int_block \<times> u32 list \<Rightarrow> int_block \<times> u32 list" where
  "round_call R k i = (\<lambda>(block, vars).
     let w = (k + 1) mod 5; z = (k + 4) mod 5
     in (case R block (vars ! k) (vars ! w) (vars ! ((k + 2) mod 5)) (vars ! ((k + 3) mod 5)) (vars ! z) i of
           (block, w', z') \<Rightarrow> (block, vars[w := w', z := z'])))"

definition transform_calls :: "(int_block \<times> u32 list \<Rightarrow> int_block \<times> u32 list) list" where
  "transform_calls =
     [
      round_call R0 0 0, round_call R0 4 1, round_call R0 3 2, round_call R0 2 3, round_call R0 1 4,
      round_call R0 0 5, round_call R0 4 6, round_call R0 3 7, round_call R0 2 8, round_call R0 1 9,
      round_call R0 0 10, round_call R0 4 11, round_call R0 3 12, round_call R0 2 13, round_call R0 1 14,
      round_call R0 0 15, round_call R1 4 0, round_call R1 3 1, round_call R1 2 2, round_call R1 1 3,
      round_call R2 0 4, round_call R2 4 5, round_call R2 3 6, round_call R2 2 7, round_call R2 1 8,
      round_call R2 0 9, round_call R2 4 10, round_call R2 3 11, round_call R2 2 12, round_call R2 1 13,
      round_call R2 0 14, round_call R2 4 15, round_call R2 3 0, round_call R2 2 1, round_call R2 1 2,
      round_call R2 0 3, round_call R2 4 4, round_call R2 3 5, round_call R2 2 6, round_call R2 1 7,
      round_call R3 0 8, round_call R3 4 9, round_call R3 3 10, round_call R3 2 11, round_call R3 1 12,
      round_call R3 0 13, round_call R3 4 14, round_call R3 3 15, round_call R3 2 0, round_call R3 1 1,
      round_call R3 0 2, round_call R3 4 3, round_call R3 3 4, round_call R3 2 5, round_call R3 1 6,
      round_call R3 0 7, round_call R3 4 8, round_call R3 3 9, round_call R3 2 10, round_call R3 1 11,
      round_call R4 0 12, round_call R4 4 13, round_call R4 3 14, round_call R4 2 15, round_call R4 1 0,
      round_call R4 0 1, round_call R4 4 2, round_call R4 3 3, round_call R4 2 4, round_call R4 1 5,
      round_call R4 0 6, round_call R4 4 7, round_call R4 3 8, round_call R4 2 9, round_call R4 1 10,
      round_call R4 0 11, round_call R4 4 12, round_call R4 3 13, round_call R4 2 14, round_call R4 1 15]"

definition transform_block :: "bytes \<Rightarrow> int_block" where
  "transform_block buf = map (\<lambda>i.
     (ucast (buf ! (4 * i + 3) AND 0xff) OR push_bit 8 (ucast (buf ! (4 * i + 2) AND 0xff))
       OR push_bit 16 (ucast (buf ! (4 * i + 1) AND 0xff)) OR push_bit 24 (ucast (buf ! (4 * i + 0) AND 0xff)))) [0..<16]"

definition transform :: "digest_t \<Rightarrow> bytes \<Rightarrow> digest_t" where
  "transform digest buf =
     (case fold (\<lambda>call. call) transform_calls (transform_block buf, digest) of
        (_, vars) \<Rightarrow> map2 (+) digest vars)"

subsection \<open>\<open>builder_t\<close>\<close>

record builder_t =
  m_digest :: digest_t
  m_buffer_len :: nat
  m_transforms_count :: u64
  m_buffer :: bytes

definition builder_reset :: builder_t where
  "builder_reset = \<lparr>m_digest = [0x67452301, 0xEFCDAB89, 0x98BADCFE, 0x10325476, 0xC3D2E1F0],
     m_buffer_len = 0, m_transforms_count = 0, m_buffer = replicate 64 0\<rparr>"

function builder_update :: "builder_t \<Rightarrow> bytes \<Rightarrow> builder_t" where
  "builder_update s what =
     (if m_buffer_len s + min (length what) (64 - m_buffer_len s) \<noteq> 64 then
        s\<lparr>m_buffer := take (m_buffer_len s) (m_buffer s) @ take (min (length what) (64 - m_buffer_len s)) what
            @ drop (m_buffer_len s + min (length what) (64 - m_buffer_len s)) (m_buffer s),
          m_buffer_len := m_buffer_len s + min (length what) (64 - m_buffer_len s)\<rparr>
      else
        let buffer = take (m_buffer_len s) (m_buffer s) @ take (min (length what) (64 - m_buffer_len s)) what
            @ drop (m_buffer_len s + min (length what) (64 - m_buffer_len s)) (m_buffer s)
        in builder_update
             (s\<lparr>m_buffer := buffer, m_digest := transform (m_digest s) buffer,
                m_transforms_count := m_transforms_count s + 1, m_buffer_len := 0\<rparr>)
             (drop (min (length what) (64 - m_buffer_len s)) what))"
  by pat_completeness auto
termination
  by (relation "measure (\<lambda>(s, what). length what + (if m_buffer_len s = 64 then 1 else 0))") auto

declare builder_update.simps [simp del]

definition calculate_total_bits_count :: "builder_t \<Rightarrow> u64" where
  "calculate_total_bits_count s = (m_transforms_count s * 64 + word_of_nat (m_buffer_len s)) * 8"

definition push_uint_to_buffer :: "u64 \<Rightarrow> nat \<Rightarrow> bytes \<Rightarrow> bytes" where
  "push_uint_to_buffer big_value i buffer =
     (let v = ucast big_value :: u32
      in buffer[i := octet_from 24 v, i + 1 := octet_from 16 v, i + 2 := octet_from 8 v, i + 3 := octet_from 0 v])"

definition builder_finish :: "builder_t \<Rightarrow> digest_t \<times> builder_t" where
  "builder_finish s =
     (let total_bits = calculate_total_bits_count s;
          original_buf_len = m_buffer_len s;
          buffer = (m_buffer s)[original_buf_len := 0x80];
          buffer = take (original_buf_len + 1) buffer @ replicate (64 - (original_buf_len + 1)) 0;
          (digest, buffer) = (if original_buf_len > 64 - 8 then (transform (m_digest s) buffer, replicate 64 0)
                              else (m_digest s, buffer));
          buffer = push_uint_to_buffer (drop_bit 32 total_bits) 56 buffer;
          buffer = push_uint_to_buffer (total_bits AND 0xffffffff) 60 buffer;
          digest = transform digest buffer
      in (digest, s\<lparr>m_digest := digest, m_buffer := buffer, m_buffer_len := 64\<rparr>))"

definition make_digest :: "bytes \<Rightarrow> digest_t" where
  "make_digest what = fst (builder_finish (builder_update builder_reset what))"

subsection \<open>Printing a digest\<close>

definition halfbyte :: "nat \<Rightarrow> u32 \<Rightarrow> nat" where
  "halfbyte shift v = unat (n_bits_from shift 4 v :: u32)"

definition digest_byte :: "nat \<Rightarrow> u32 \<Rightarrow> u8" where
  "digest_byte shift v = ucast (n_bits_from shift 8 v :: u32)"

definition to_hex_string :: "digest_t \<Rightarrow> string" where
  "to_hex_string what = foldl (\<lambda>result c. result @
     map (\<lambda>shift. ''0123456789abcdef'' ! halfbyte shift c) [28, 24, 20, 16, 12, 8, 4, 0]) [] what"

definition to_string :: "digest_t \<Rightarrow> bytes" where
  "to_string what = foldl (\<lambda>result c. result @
     [digest_byte 24 c, digest_byte 16 c, digest_byte 8 c, digest_byte 0 c]) [] what"

definition websocket_accept_field_suffix :: bytes where
  "websocket_accept_field_suffix = map of_char ''258EAFA5-E914-47DA-95CA-C5AB0DC85B11''"

definition sec_websocket_accept :: "bytes \<Rightarrow> bytes" where
  "sec_websocket_accept key =
     base64_encode (to_string (make_digest (key @ websocket_accept_field_suffix)))"

subsection \<open>The definition of SHA-1\<close>

type_synonym sha1_state = "u32 \<times> u32 \<times> u32 \<times> u32 \<times> u32"

definition sha1_f :: "nat \<Rightarrow> u32 \<Rightarrow> u32 \<Rightarrow> u32 \<Rightarrow> u32" where
  "sha1_f t x y z =
     (if t < 20 then (x AND y) XOR (NOT x AND z)
      else if 40 \<le> t \<and> t < 60 then (x AND y) XOR (x AND z) XOR (y AND z)
      else x XOR y XOR z)"

definition sha1_K :: "nat \<Rightarrow> u32" where
  "sha1_K t =
     (if t < 20 then 0x5a827999 else if t < 40 then 0x6ed9eba1 else if t < 60 then 0x8f1bbcdc else 0xca62c1d6)"

definition be_word :: "bytes \<Rightarrow> u32" where
  "be_word = foldl (\<lambda>w b. push_bit 8 w OR ucast b) 0"

fun sha1_W :: "bytes \<Rightarrow> nat \<Rightarrow> u32" where
  "sha1_W M t =
     (if t < 16 then be_word (take 4 (drop (4 * t) M))
      else word_rotl 1 (sha1_W M (t - 3) XOR sha1_W M (t - 8) XOR sha1_W M (t - 14) XOR sha1_W M (t - 16)))"

declare sha1_W.simps [simp del]

definition sha1_step :: "bytes \<Rightarrow> nat \<Rightarrow> sha1_state \<Rightarrow> sha1_state" where
  "sha1_step M t = (\<lambda>(a, b, c, d, e).
     (word_rotl 5 a + sha1_f t b c d + e + sha1_K t + sha1_W M t, a, word_rotl 30 b, c, d))"

definition sha1_compress :: "bytes \<Rightarrow> sha1_state \<Rightarrow> sha1_state" where
  "sha1_compress M H = (case H of (h0, h1, h2, h3, h4) \<Rightarrow>
     (case fold (sha1_step M) [0..<80] H of (a, b, c, d, e) \<Rightarrow> (h0 + a, h1 + b, h2 + c, h3 + d, h4 + e)))"

definition be64 :: "nat \<Rightarrow> bytes" where
  "be64 n = map (\<lambda>i. word_of_nat (drop_bit (56 - 8 * i) n)) [0..<8]"

definition sha1_pad :: "bytes \<Rightarrow> bytes" where
  "sha1_pad m = m @ 0x80 # replicate ((119 - length m mod 64) mod 64) 0 @ be64 (8 * length m)"

function sha1_blocks :: "bytes \<Rightarrow> bytes list" where
  "sha1_blocks m = (if m = [] then [] else take 64 m # sha1_blocks (drop 64 m))"
  by pat_completeness auto
termination by (relation "measure length") auto

declare sha1_blocks.simps [simp del]

definition sha1_init :: sha1_state where
  "sha1_init = (0x67452301, 0xEFCDAB89, 0x98BADCFE, 0x10325476, 0xC3D2E1F0)"

definition sha1 :: "bytes \<Rightarrow> sha1_state" where
  "sha1 m = fold sha1_compress (sha1_blocks (sha1_pad m)) sha1_init"

definition digest_list :: "sha1_state \<Rightarrow> digest_t" where
  "digest_list = (\<lambda>(a, b, c, d, e). [a, b, c, d, e])"

subsection \<open>Rounds are steps\<close>

lemma rotate_left_rotl:
  assumes "0 < n" "n < 32"
  shows "rotate_left n x = word_rotl n x"
proof (rule bit_word_eqI)
  fix i assume i: "i < LENGTH(32)"
  have rotl: "bit (word_rotl n x) i \<longleftrightarrow> bit x ((i + (32 - n)) mod 32)"
    using i assms by (simp add: bit_word_rotl_iff)
  have left: "bit (rotate_left n x) i \<longleftrightarrow> n \<le> i \<and> bit x (i - n) \<or> bit x (32 - n + i)"
    using i by (auto simp: rotate_left_def bit_simps)
  show "bit (rotate_left n x) i \<longleftrightarrow> bit (word_rotl n x) i"
  proof (cases "i < n")
    case True
    then have "(i + (32 - n)) mod 32 = 32 - n + i" using assms by simp
    then show ?thesis using True unfolding rotl left by simp
  next
    case False
    then have "(i + (32 - n)) mod 32 = i - n" using assms i by (simp add: mod_if)
    moreover have "\<not> bit x (32 - n + i)" using False assms bit_imp_le_length [of x "32 - n + i"] by auto
    ultimately show ?thesis using False unfolding rotl left by simp
  qed
qed

lemma and_15: "k AND 15 = k mod (16 :: nat)"
  using take_bit_eq_mask [of 4 k] by (simp add: take_bit_eq_mod mask_eq_exp_minus_1)

text \<open>The role of the round function at each step.\<close>

definition round_at :: "nat \<Rightarrow> int_block \<Rightarrow> u32 \<Rightarrow> u32 \<Rightarrow> u32 \<Rightarrow> u32 \<Rightarrow> u32 \<Rightarrow> nat \<Rightarrow> int_block \<times> u32 \<times> u32" where
  "round_at t = (if t < 16 then R0 else if t < 20 then R1 else if t < 40 then R2 else if t < 60 then R3 else R4)"

lemma transform_calls_eq: "transform_calls = map (\<lambda>t. round_call (round_at t) ((80 - t) mod 5) (t mod 16)) [0..<80]"
  by (simp add: transform_calls_def round_at_def upt_conv_Cons numeral_2_eq_2 [symmetric])

lemma f_choose: "(w AND (x XOR y)) XOR y = (w AND x) XOR (NOT w AND y)" for w x y :: u32
  by (rule bit_word_eqI) (auto simp: bit_simps)

lemma f_majority: "((w OR x) AND y) OR (w AND x) = (w AND x) XOR (w AND y) XOR (x AND y)" for w x y :: u32
  by (rule bit_word_eqI) (auto simp: bit_simps)

definition window :: "bytes \<Rightarrow> nat \<Rightarrow> int_block \<Rightarrow> bool" where
  "window M t block \<longleftrightarrow> length block = 16 \<and> (\<forall>s. s < max t 16 \<and> t \<le> s + 16 \<longrightarrow> block ! (s mod 16) = sha1_W M s)"

lemma round_at_step:
  assumes "window M t block" "t < 80"
  shows "\<exists>block'. window M (Suc t) block'
    \<and> round_at t block v w x y z (t mod 16)
      = (block', word_rotl 30 w, word_rotl 5 v + sha1_f t w x y + z + sha1_K t + sha1_W M t)"
proof (cases "t < 16")
  case True
  then have "window M (Suc t) block" using assms(1) by (auto simp: window_def max_def)
  moreover have "block ! t = sha1_W M t" using assms(1) True by (auto simp: window_def)
  ultimately show ?thesis using True
    by (auto simp: round_at_def R0_def sha1_f_def sha1_K_def f_choose rotate_left_rotl)
next
  case False
  define i where "i = t mod 16"
  have len: "length block = 16" using assms(1) by (simp add: window_def)
  have w: "block ! (s mod 16) = sha1_W M s" if "s < t" "t \<le> s + 16" for s
    using assms(1) that False by (simp add: window_def)
  have shift: "(i + j) mod 16 = (t - k) mod 16" if "j + k = 16" for j k
  proof -
    have "(i + j) mod 16 = (t + j) mod 16" by (simp add: i_def mod_add_left_eq)
    moreover have "t + j = t - k + 16" using that False by simp
    ultimately show ?thesis by simp
  qed
  have m: "(i + 13) mod 16 = (t - 3) mod 16" "(i + 8) mod 16 = (t - 8) mod 16" "(i + 2) mod 16 = (t - 14) mod 16"
    by (rule shift; simp)+
  have m4: "(t - 16) mod 16 = i" using shift [of 0 16] by (simp add: i_def)
  have "block ! i = sha1_W M (t - 16)" using w [of "t - 16"] False unfolding m4 by simp
  moreover have "block ! ((t - k) mod 16) = sha1_W M (t - k)" if "0 < k" "k \<le> 16" for k
    using that w [of "t - k"] False by linarith
  ultimately have "blk block i = sha1_W M t"
    unfolding blk_def and_15 m sha1_W.simps [of M t] using False by (simp add: rotate_left_rotl del: mod_less)
  then have nth: "block[i := blk block i] ! i = sha1_W M t" using len by (simp add: i_def)
  have "block[i := blk block i] ! (s mod 16) = sha1_W M s" if s: "s < max (Suc t) 16" "Suc t \<le> s + 16" for s
  proof (cases "s = t")
    case False
    then have "s < t" "t - s < 16" using s \<open>\<not> t < 16\<close> by simp_all
    then have "s mod 16 \<noteq> i" using mod_eq_dvd_iff_nat [of s t 16] dvd_imp_le [of 16 "t - s"] unfolding i_def by fastforce
    then show ?thesis using w [of s] s False \<open>\<not> t < 16\<close> by simp
  qed (use nth in \<open>simp add: i_def\<close>)
  then have block: "window M (Suc t) (block[i := blk block i])" using len by (simp add: window_def)
  have "round_at t block v w x y z i = (block[i := blk block i], word_rotl 30 w,
      z + (sha1_f t w x y + block[i := blk block i] ! i + sha1_K t + word_rotl 5 v))"
    using False by (simp add: round_at_def R1_def R2_def R3_def R4_def Let_def sha1_f_def sha1_K_def
        f_choose f_majority rotate_left_rotl)
  from this [unfolded nth] show ?thesis using block unfolding i_def by (simp add: add.assoc add.commute add.left_commute)
qed

text \<open>The variables, of which \<open>k\<close> is the first one passed, hold the state.\<close>

definition aligned :: "nat \<Rightarrow> u32 list \<Rightarrow> sha1_state \<Rightarrow> bool" where
  "aligned k vars = (\<lambda>(a, b, c, d, e). length vars = 5 \<and> vars ! k = a \<and> vars ! ((k + 1) mod 5) = b
     \<and> vars ! ((k + 2) mod 5) = c \<and> vars ! ((k + 3) mod 5) = d \<and> vars ! ((k + 4) mod 5) = e)"

lemma aligned_step:
  assumes "aligned k vars (a, b, c, d, e)" "k < 5"
  shows "aligned ((k + 4) mod 5) (vars[(k + 1) mod 5 := b', (k + 4) mod 5 := a']) (a', a, b', c, d)"
proof -
  have "k \<in> {0, 1, 2, 3, 4}" using assms(2) by auto
  then show ?thesis using assms(1) by (auto simp: aligned_def numeral_2_eq_2 [symmetric])
qed

lemma aligned_0:
  assumes "aligned 0 vars S"
  shows "vars = digest_list S"
proof (cases S)
  case (fields a b c d e)
  show ?thesis
  proof (rule nth_equalityI)
    fix i assume "i < length vars"
    then have "i \<in> {0, 1, 2, 3, 4}" using assms by (auto simp: fields aligned_def)
    then show "vars ! i = digest_list S ! i" using assms
      by (auto simp: fields aligned_def digest_list_def numeral_2_eq_2 [symmetric])
  qed (use assms in \<open>simp add: fields aligned_def digest_list_def\<close>)
qed

lemma rounds_steps:
  assumes "length buf = 64" "t \<le> 80"
  shows "\<exists>block vars. fold (\<lambda>t. round_call (round_at t) ((80 - t) mod 5) (t mod 16)) [0..<t] (transform_block buf, digest_list H)
      = (block, vars)
    \<and> window buf t block \<and> aligned ((80 - t) mod 5) vars (fold (sha1_step buf) [0..<t] H)"
  using assms(2)
proof (induction t)
  case 0
  have "transform_block buf ! i = sha1_W buf i" if "i < 16" for i
  proof -
    have "take 4 (drop (4 * i) buf) = [buf ! (4 * i), buf ! (4 * i + 1), buf ! (4 * i + 2), buf ! (4 * i + 3)]"
      using that assms(1) by (intro nth_equalityI) (auto simp: nth_Cons less_Suc_eq_0_disj eval_nat_numeral split: nat.splits)
    moreover have "b AND 255 = b" for b :: u8
      by (rule all_bytes) code_simp
    ultimately show ?thesis using that
      by (simp add: transform_block_def sha1_W.simps be_word_def push_bit_or push_bit_push_bit or.assoc or.commute or.left_commute)
  qed
  then have "window buf 0 (transform_block buf)" by (simp add: window_def transform_block_def)
  then show ?case by (cases H) (simp add: aligned_def digest_list_def)
next
  case (Suc t)
  obtain block vars where IH: "fold (\<lambda>t. round_call (round_at t) ((80 - t) mod 5) (t mod 16)) [0..<t]
      (transform_block buf, digest_list H) = (block, vars)" "window buf t block"
    "aligned ((80 - t) mod 5) vars (fold (sha1_step buf) [0..<t] H)"
    using Suc by auto
  obtain a b c d e where S: "fold (sha1_step buf) [0..<t] H = (a, b, c, d, e)" by (cases "fold (sha1_step buf) [0..<t] H")
  let ?k = "(80 - t) mod 5"
  have k: "(80 - Suc t) mod 5 = (?k + 4) mod 5"
  proof -
    have "80 - t + 4 = 80 - Suc t + 5" using Suc.prems by simp
    then show ?thesis by (metis mod_add_left_eq mod_add_self2)
  qed
  note al = IH(3) [unfolded S]
  obtain block' where block': "window buf (Suc t) block'"
    "round_at t block a b c d e (t mod 16)
      = (block', word_rotl 30 b, word_rotl 5 a + sha1_f t b c d + e + sha1_K t + sha1_W buf t)"
    using round_at_step [OF IH(2), of a b c d e] Suc.prems by auto
  have "round_call (round_at t) ?k (t mod 16) (block, vars)
      = (block', vars[(?k + 1) mod 5 := word_rotl 30 b,
          (?k + 4) mod 5 := word_rotl 5 a + sha1_f t b c d + e + sha1_K t + sha1_W buf t])"
    using al block'(2) unfolding round_call_def aligned_def by simp
  moreover have "fold (sha1_step buf) [0..<Suc t] H
      = (word_rotl 5 a + sha1_f t b c d + e + sha1_K t + sha1_W buf t, a, word_rotl 30 b, c, d)"
    using S by (simp add: sha1_step_def [of buf t])
  ultimately show ?case using IH(1) block'(1) aligned_step [OF al] unfolding k by simp
qed

lemma transform_compress:
  assumes "length buf = 64"
  shows "transform (digest_list H) buf = digest_list (sha1_compress buf H)"
proof -
  obtain block vars where r: "fold (\<lambda>t. round_call (round_at t) ((80 - t) mod 5) (t mod 16)) [0..<80]
      (transform_block buf, digest_list H) = (block, vars)" "aligned 0 vars (fold (sha1_step buf) [0..<80] H)"
    using rounds_steps [OF assms, of 80 H] by auto
  have "fold (\<lambda>call. call) transform_calls s
      = fold (\<lambda>t. round_call (round_at t) ((80 - t) mod 5) (t mod 16)) [0..<80] s" for s
    unfolding transform_calls_eq fold_map by (simp add: o_def)
  then show ?thesis using r
    unfolding transform_def aligned_0 [OF r(2)]
    by (cases H; cases "fold (sha1_step buf) [0..<80] H") (simp add: sha1_compress_def digest_list_def)
qed

subsection \<open>The builder absorbs a text\<close>

lemma sha1_blocks_append:
  assumes "length xs mod 64 = 0"
  shows "sha1_blocks (xs @ ys) = sha1_blocks xs @ sha1_blocks ys"
  using assms
proof (induction xs rule: sha1_blocks.induct)
  case (1 xs)
  show ?case
  proof (cases "xs = []")
    case False
    then have "64 \<le> length xs" using 1(2) by (metis length_0_conv mod_less not_le)
    then show ?thesis using 1 False by (simp add: sha1_blocks.simps [of "xs @ ys"] sha1_blocks.simps [of xs] le_mod_geq)
  qed (simp add: sha1_blocks.simps [of "[]"])
qed

lemma sha1_blocks_64: "length b = 64 \<Longrightarrow> sha1_blocks b = [b]"
  by (auto simp: sha1_blocks.simps [of b] sha1_blocks.simps [of "[]"])

text \<open>The builder has absorbed the whole blocks \<open>full\<close>, and \<open>rest\<close> waits in the buffer.\<close>

definition absorbed :: "builder_t \<Rightarrow> bytes \<Rightarrow> bytes \<Rightarrow> bool" where
  "absorbed s full rest \<longleftrightarrow> length full mod 64 = 0 \<and> length rest < 64 \<and> length (m_buffer s) = 64
     \<and> m_buffer_len s = length rest \<and> take (length rest) (m_buffer s) = rest
     \<and> m_transforms_count s = word_of_nat (length full div 64)
     \<and> m_digest s = digest_list (fold sha1_compress (sha1_blocks full) sha1_init)"

lemma absorbed_reset: "absorbed builder_reset [] []"
  by (simp add: absorbed_def builder_reset_def sha1_blocks.simps [of "[]"] sha1_init_def digest_list_def)

lemma absorbed_part:
  assumes "absorbed s full rest" "length rest + length what < 64"
  shows "absorbed (builder_update s what) full (rest @ what)"
  using assms by (auto simp: absorbed_def builder_update.simps [of s])

lemma absorbed_block:
  assumes "absorbed s full rest" "64 \<le> length rest + length what"
  obtains s' part what' where "what = part @ what'" "length what' < length what" "absorbed s' (full @ rest @ part) []"
    "builder_update s what = builder_update s' what'"
proof
  let ?n = "64 - length rest"
  let ?buffer = "rest @ take ?n what"
  let ?s' = "s\<lparr>m_buffer := ?buffer, m_digest := transform (m_digest s) ?buffer,
    m_transforms_count := m_transforms_count s + 1, m_buffer_len := 0\<rparr>"
  have len: "length rest < 64" using assms(1) by (simp add: absorbed_def)
  then have "length ?buffer = 64" using assms(2) by simp
  moreover have "(length full + 64) div 64 = length full div 64 + 1" by simp
  ultimately show "absorbed ?s' (full @ rest @ take ?n what) []"
    using assms(1) transform_compress [of ?buffer]
    by (simp add: absorbed_def sha1_blocks_append sha1_blocks_64)
  show "builder_update s what = builder_update ?s' (drop ?n what)"
    using assms len by (simp add: absorbed_def builder_update.simps [of s what] Let_def)
  show "what = take ?n what @ drop ?n what" by simp
  show "length (drop ?n what) < length what" using assms(2) len by simp
qed

text \<open>However a text is cut, what the builder has absorbed is the text.\<close>

lemma absorbed_update:
  assumes "absorbed s full rest"
  shows "\<exists>full' rest'. absorbed (builder_update s what) full' rest' \<and> full' @ rest' = full @ rest @ what"
  using assms
proof (induction "length what" arbitrary: what s full rest rule: less_induct)
  case less
  show ?case
  proof (cases "length rest + length what < 64")
    case True
    then show ?thesis using absorbed_part [OF less.prems] by blast
  next
    case False
    then obtain s' part what' where "what = part @ what'" "length what' < length what" "absorbed s' (full @ rest @ part) []"
      "builder_update s what = builder_update s' what'"
      using absorbed_block [OF less.prems] by (metis not_le)
    then show ?thesis using less.hyps [of what' s' "full @ rest @ part" "[]"] by auto
  qed
qed

subsection \<open>The digest\<close>

lemma octets:
  assumes "sh \<le> 24"
  shows "octet_from sh (ucast (drop_bit 32 (word_of_nat n :: u64))) = word_of_nat (drop_bit (32 + sh) n)"
    and "octet_from sh (ucast ((word_of_nat n :: u64) AND 0xffffffff)) = word_of_nat (drop_bit sh n)"
proof -
  have mask: "(word_of_nat n :: u64) AND 0xffffffff = take_bit 32 (word_of_nat n)"
    by (simp add: take_bit_eq_mask mask_eq_exp_minus_1)
  show "octet_from sh (ucast (drop_bit 32 (word_of_nat n :: u64))) = word_of_nat (drop_bit (32 + sh) n)"
    using assms by (intro bit_word_eqI) (auto simp: octet_from_def bit_n_bits_from bit_simps add.assoc)
  show "octet_from sh (ucast ((word_of_nat n :: u64) AND 0xffffffff)) = word_of_nat (drop_bit sh n)"
    unfolding mask using assms by (intro bit_word_eqI) (auto simp: octet_from_def bit_n_bits_from bit_simps)
qed

lemma push_total_bits:
  assumes "length buffer = 64"
  shows "push_uint_to_buffer ((word_of_nat n :: u64) AND 0xffffffff) 60
      (push_uint_to_buffer (drop_bit 32 (word_of_nat n)) 56 buffer) = take 56 buffer @ be64 n"
proof -
  have "length (drop 56 buffer) = Suc (Suc (Suc (Suc (Suc (Suc (Suc (Suc 0)))))))" using assms by simp
  then obtain b0 b1 b2 b3 b4 b5 b6 b7 where b: "drop 56 buffer = [b0, b1, b2, b3, b4, b5, b6, b7]"
    unfolding length_Suc_conv length_0_conv by blast
  have "buffer = take 56 buffer @ [b0, b1, b2, b3, b4, b5, b6, b7]"
    using append_take_drop_id [of 56 buffer] unfolding b by simp
  then obtain front where front: "buffer = front @ [b0, b1, b2, b3, b4, b5, b6, b7]" "length front = 56"
    using assms by fastforce
  show ?thesis
    by (simp add: front push_uint_to_buffer_def Let_def octets be64_def upt_conv_Cons list_update_append)
qed

lemma total_bits:
  assumes "absorbed s full rest"
  shows "calculate_total_bits_count s = word_of_nat (8 * length (full @ rest))"
proof -
  have "8 * length (full @ rest) = ((length full div 64) * 64 + length rest) * 8"
    using assms div_mult_mod_eq [of "length full" 64] by (simp add: absorbed_def)
  then show ?thesis using assms unfolding absorbed_def calculate_total_bits_count_def
    by (simp del: length_append add: algebra_simps)
qed

lemma finish_digest:
  assumes "absorbed s full rest"
  shows "fst (builder_finish s) = digest_list
    (if length rest = 56 then fold sha1_compress (sha1_blocks (full @ rest @ be64 (8 * length (full @ rest)))) sha1_init
     else sha1 (full @ rest))"
proof -
  let ?n = "8 * length (full @ rest)"
  let ?H = "fold sha1_compress (sha1_blocks full) sha1_init"
  have a: "length full mod 64 = 0" "length rest < 64" "length (m_buffer s) = 64" "m_buffer_len s = length rest"
    "take (length rest) (m_buffer s) = rest" "m_digest s = digest_list ?H"
    using assms by (simp_all add: absorbed_def)
  have len8: "length (be64 n) = 8" for n by (simp add: be64_def)
  let ?buffer = "rest @ 0x80 # replicate (63 - length rest) 0"
  have buffer: "take (length rest + 1) ((m_buffer s)[length rest := 0x80]) @ replicate (64 - (length rest + 1)) 0 = ?buffer"
    using a(2,3,5) by (simp add: take_Suc_conv_app_nth)
  have lenb: "length ?buffer = 64" using a(2) by simp
  have mod: "length (full @ rest) mod 64 = length rest" using a(1,2) by (simp add: mod_add_eq [symmetric])
  have blocks: "fold sha1_compress (sha1_blocks (full @ x)) sha1_init = fold sha1_compress (sha1_blocks x) ?H" for x
    by (simp add: sha1_blocks_append a(1))
  have finish: "fst (builder_finish s) =
      (if 56 < length rest then transform (transform (digest_list ?H) ?buffer) (take 56 (replicate 64 0) @ be64 ?n)
       else transform (digest_list ?H) (take 56 ?buffer @ be64 ?n))"
    unfolding builder_finish_def Let_def a(4,6) buffer total_bits [OF assms]
    using push_total_bits [OF lenb, of ?n] push_total_bits [of "replicate 64 0" ?n]
    by (simp del: length_append take_append)
  consider "length rest < 56" | "length rest = 56" | "56 < length rest" by linarith
  then show ?thesis
  proof cases
    case 1
    then have t: "take 56 ?buffer @ be64 ?n = rest @ 0x80 # replicate (55 - length rest) 0 @ be64 ?n" by (simp add: min_def take_Cons')
    have "(119 - length rest) mod 64 = 55 - length rest" using 1 by (simp add: mod_if)
    then have "sha1 (full @ rest) = fold sha1_compress (sha1_blocks (rest @ 0x80 # replicate (55 - length rest) 0 @ be64 ?n)) ?H"
      unfolding sha1_def sha1_pad_def mod using blocks by simp
    then show ?thesis unfolding finish t using 1 len8 transform_compress
      by (simp add: sha1_blocks_64)
  next
    case 2
    then have t: "take 56 ?buffer @ be64 ?n = rest @ be64 ?n" by simp
    show ?thesis unfolding finish t blocks using 2 len8 transform_compress by (simp add: sha1_blocks_64)
  next
    case 3
    have "(119 - length rest) mod 64 = (63 - length rest) + 56" using 3 a(2) by simp
    then have "replicate ((119 - length rest) mod 64) 0 = replicate (63 - length rest) 0 @ replicate 56 (0 :: u8)"
      by (simp only: replicate_add)
    then have "sha1 (full @ rest) = fold sha1_compress (sha1_blocks (?buffer @ replicate 56 0 @ be64 ?n)) ?H"
      unfolding sha1_def sha1_pad_def mod using blocks by simp
    moreover have "sha1_blocks (?buffer @ replicate 56 0 @ be64 ?n) = [?buffer, replicate 56 0 @ be64 ?n]"
      using sha1_blocks_append [of ?buffer "replicate 56 0 @ be64 ?n"] lenb len8 by (simp add: sha1_blocks_64 del: append_assoc)
    ultimately show ?thesis unfolding finish using 3 lenb len8 transform_compress
      by simp
  qed
qed

lemma absorbed_parts:
  "\<exists>full rest. absorbed (foldl builder_update builder_reset parts) full rest \<and> full @ rest = concat parts"
proof (induction parts rule: rev_induct)
  case Nil
  show ?case using absorbed_reset by (intro exI [of _ "[]"]) simp
next
  case (snoc p parts)
  then obtain full rest where a: "absorbed (foldl builder_update builder_reset parts) full rest" "full @ rest = concat parts"
    by blast
  from absorbed_update [OF a(1), of p] show ?case by (simp flip: a(2))
qed

lemma finish_parts:
  "fst (builder_finish (foldl builder_update builder_reset parts)) = digest_list
     (if length (concat parts) mod 64 = 56
      then fold sha1_compress (sha1_blocks (concat parts @ be64 (8 * length (concat parts)))) sha1_init
      else sha1 (concat parts))"
proof -
  obtain full rest where a: "absorbed (foldl builder_update builder_reset parts) full rest" "full @ rest = concat parts"
    using absorbed_parts by blast
  have "length (full @ rest) mod 64 = length rest" using a(1) by (simp add: absorbed_def mod_add_eq [symmetric])
  then show ?thesis using finish_digest [OF a(1)] unfolding a(2) [symmetric] by simp
qed

lemma make_digest_sha1: "length m mod 64 \<noteq> 56 \<Longrightarrow> make_digest m = digest_list (sha1 m)"
  using finish_parts [of "[m]"] by (simp add: make_digest_def)

text \<open>
  C31. Whatever pieces a text is passed in, the builder computes SHA-1, except when the last block holds
  exactly 56 bytes: then the mark \<open>0x80\<close> behind the text is overwritten by the length.\<close>

theorem builder_computes_sha1:
  "fst (builder_finish (foldl builder_update builder_reset parts)) = digest_list
     (if length (concat parts) mod 64 = 56
      then fold sha1_compress (sha1_blocks (concat parts @ be64 (8 * length (concat parts)))) sha1_init
      else sha1 (concat parts))"
  by (rule finish_parts)

text \<open>
  A key of the WebSocket handshake has 24 characters, so that with the suffix 60 bytes are hashed and
  the handshake does not meet the error.\<close>

theorem websocket_accept_correct:
  assumes "length key = 24"
  shows "sec_websocket_accept key
    = base64_encode (to_string (digest_list (sha1 (key @ websocket_accept_field_suffix))))"
proof -
  have "length (key @ websocket_accept_field_suffix) mod 64 \<noteq> 56"
    using assms by (simp add: websocket_accept_field_suffix_def)
  from make_digest_sha1 [OF this] show ?thesis by (simp only: sec_websocket_accept_def)
qed

text \<open>The key of the example in RFC 6455.\<close>

theorem websocket_accept_correct_witness:
  "length (map of_char ''dGhlIHNhbXBsZSBub25jZQ=='' :: bytes) = 24
   \<and> sec_websocket_accept (map of_char ''dGhlIHNhbXBsZSBub25jZQ=='')
    = base64_encode (to_string (digest_list (sha1 (map of_char ''dGhlIHNhbXBsZSBub25jZQ=='' @ websocket_accept_field_suffix))))"
proof -
  have 1: "length (map of_char ''dGhlIHNhbXBsZSBub25jZQ=='' :: bytes) = 24" by simp
  show ?thesis by (intro conjI 1 websocket_accept_correct [OF 1])
qed

end
