(* ===== verification/Restinio_Field_Names.thy ===== *)
theory Restinio_Field_Names
  imports Restinio_Bytes
begin

unbundle bit_operations_syntax

text \<open>
  The names of HTTP header fields: \<open>impl/to_lower_lut.hpp\<close>, \<open>impl/string_caseless_compare.hpp\<close>, and
  \<open>http_field_t\<close>, \<open>string_to_field\<close> and \<open>field_to_string\<close> of \<open>http_headers.hpp\<close>. The enumerators of
  \<open>http_field_t\<close> are represented by their names.
\<close>

subsection \<open>Caseless comparison\<close>

definition lit :: "string \<Rightarrow> bytes" where
  "lit s = map of_char s"

definition to_lower_lut :: "u8 list" where
  "to_lower_lut = [
     0x00, 0x01, 0x02, 0x03, 0x04, 0x05, 0x06, 0x07, 0x08, 0x09, 0x0A, 0x0B, 0x0C, 0x0D, 0x0E, 0x0F,
     0x10, 0x11, 0x12, 0x13, 0x14, 0x15, 0x16, 0x17, 0x18, 0x19, 0x1A, 0x1B, 0x1C, 0x1D, 0x1E, 0x1F,
     0x20, 0x21, 0x22, 0x23, 0x24, 0x25, 0x26, 0x27, 0x28, 0x29, 0x2A, 0x2B, 0x2C, 0x2D, 0x2E, 0x2F,
     0x30, 0x31, 0x32, 0x33, 0x34, 0x35, 0x36, 0x37, 0x38, 0x39, 0x3A, 0x3B, 0x3C, 0x3D, 0x3E, 0x3F,
     0x40, 0x61, 0x62, 0x63, 0x64, 0x65, 0x66, 0x67, 0x68, 0x69, 0x6A, 0x6B, 0x6C, 0x6D, 0x6E, 0x6F,
     0x70, 0x71, 0x72, 0x73, 0x74, 0x75, 0x76, 0x77, 0x78, 0x79, 0x7A, 0x5B, 0x5C, 0x5D, 0x5E, 0x5F,
     0x60, 0x61, 0x62, 0x63, 0x64, 0x65, 0x66, 0x67, 0x68, 0x69, 0x6A, 0x6B, 0x6C, 0x6D, 0x6E, 0x6F,
     0x70, 0x71, 0x72, 0x73, 0x74, 0x75, 0x76, 0x77, 0x78, 0x79, 0x7A, 0x7B, 0x7C, 0x7D, 0x7E, 0x7F,
     0x80, 0x81, 0x82, 0x83, 0x84, 0x85, 0x86, 0x87, 0x88, 0x89, 0x8A, 0x8B, 0x8C, 0x8D, 0x8E, 0x8F,
     0x90, 0x91, 0x92, 0x93, 0x94, 0x95, 0x96, 0x97, 0x98, 0x99, 0x9A, 0x9B, 0x9C, 0x9D, 0x9E, 0x9F,
     0xA0, 0xA1, 0xA2, 0xA3, 0xA4, 0xA5, 0xA6, 0xA7, 0xA8, 0xA9, 0xAA, 0xAB, 0xAC, 0xAD, 0xAE, 0xAF,
     0xB0, 0xB1, 0xB2, 0xB3, 0xB4, 0xB5, 0xB6, 0xB7, 0xB8, 0xB9, 0xBA, 0xBB, 0xBC, 0xBD, 0xBE, 0xBF,
     0xC0, 0xC1, 0xC2, 0xC3, 0xC4, 0xC5, 0xC6, 0xC7, 0xC8, 0xC9, 0xCA, 0xCB, 0xCC, 0xCD, 0xCE, 0xCF,
     0xD0, 0xD1, 0xD2, 0xD3, 0xD4, 0xD5, 0xD6, 0xD7, 0xD8, 0xD9, 0xDA, 0xDB, 0xDC, 0xDD, 0xDE, 0xDF,
     0xE0, 0xE1, 0xE2, 0xE3, 0xE4, 0xE5, 0xE6, 0xE7, 0xE8, 0xE9, 0xEA, 0xEB, 0xEC, 0xED, 0xEE, 0xEF,
     0xF0, 0xF1, 0xF2, 0xF3, 0xF4, 0xF5, 0xF6, 0xF7, 0xF8, 0xF9, 0xFA, 0xFB, 0xFC, 0xFD, 0xFE, 0xFF]"

definition to_lower_case :: "u8 \<Rightarrow> u8" where
  "to_lower_case ch = to_lower_lut ! unat ch"

definition is_equal_caseless_n :: "bytes \<Rightarrow> bytes \<Rightarrow> nat \<Rightarrow> bool" where
  "is_equal_caseless_n a b sz = list_all (\<lambda>i. to_lower_lut ! unat (a ! i) = to_lower_lut ! unat (b ! i)) [0..<sz]"

definition is_equal_caseless :: "bytes \<Rightarrow> bytes \<Rightarrow> bool" where
  "is_equal_caseless a b = (if length a = length b then is_equal_caseless_n a b (length a) else False)"

subsection \<open>Names of fields\<close>

type_synonym http_field_t = string

definition field_unspecified :: http_field_t where
  "field_unspecified = ''field_unspecified''"

definition http_fields_map :: "(http_field_t \<times> string) list" where
  "http_fields_map = [
     (''a_im'', ''A-IM''), (''accept'', ''Accept''), (''accept_additions'', ''Accept-Additions''),
     (''accept_charset'', ''Accept-Charset''), (''accept_datetime'', ''Accept-Datetime''),
     (''accept_encoding'', ''Accept-Encoding''), (''accept_features'', ''Accept-Features''),
     (''accept_language'', ''Accept-Language''), (''accept_patch'', ''Accept-Patch''),
     (''accept_post'', ''Accept-Post''), (''accept_ranges'', ''Accept-Ranges''), (''age'', ''Age''),
     (''allow'', ''Allow''), (''alpn'', ''ALPN''), (''alt_svc'', ''Alt-Svc''), (''alt_used'', ''Alt-Used''),
     (''alternates'', ''Alternates''), (''apply_to_redirect_ref'', ''Apply-To-Redirect-Ref''),
     (''authentication_control'', ''Authentication-Control''), (''authentication_info'', ''Authentication-Info''),
     (''authorization'', ''Authorization''), (''c_ext'', ''C-Ext''), (''c_man'', ''C-Man''), (''c_opt'', ''C-Opt''),
     (''c_pep'', ''C-PEP''), (''c_pep_info'', ''C-PEP-Info''), (''cache_control'', ''Cache-Control''),
     (''caldav_timezones'', ''CalDAV-Timezones''), (''close'', ''Close''), (''content_base'', ''Content-Base''),
     (''content_disposition'', ''Content-Disposition''), (''content_encoding'', ''Content-Encoding''),
     (''content_id'', ''Content-ID''), (''content_language'', ''Content-Language''),
     (''content_location'', ''Content-Location''), (''content_md5'', ''Content-MD5''),
     (''content_range'', ''Content-Range''), (''content_script_type'', ''Content-Script-Type''),
     (''content_style_type'', ''Content-Style-Type''), (''content_type'', ''Content-Type''),
     (''content_version'', ''Content-Version''), (''cookie'', ''Cookie''), (''cookie2'', ''Cookie2''),
     (''dasl'', ''DASL''), (''dav'', ''DAV''), (''date'', ''Date''), (''default_style'', ''Default-Style''),
     (''delta_base'', ''Delta-Base''), (''depth'', ''Depth''), (''derived_from'', ''Derived-From''),
     (''destination'', ''Destination''), (''differential_id'', ''Differential-ID''), (''digest'', ''Digest''),
     (''etag'', ''ETag''), (''expect'', ''Expect''), (''expires'', ''Expires''), (''ext'', ''Ext''),
     (''forwarded'', ''Forwarded''), (''from'', ''From''), (''getprofile'', ''GetProfile''),
     (''hobareg'', ''Hobareg''), (''host'', ''Host''), (''http2_settings'', ''HTTP2-Settings''), (''im'', ''IM''),
     (''if_'', ''If''), (''if_match'', ''If-Match''), (''if_modified_since'', ''If-Modified-Since''),
     (''if_none_match'', ''If-None-Match''), (''if_range'', ''If-Range''),
     (''if_schedule_tag_match'', ''If-Schedule-Tag-Match''), (''if_unmodified_since'', ''If-Unmodified-Since''),
     (''keep_alive'', ''Keep-Alive''), (''label'', ''Label''), (''last_modified'', ''Last-Modified''),
     (''link'', ''Link''), (''location'', ''Location''), (''lock_token'', ''Lock-Token''), (''man'', ''Man''),
     (''max_forwards'', ''Max-Forwards''), (''memento_datetime'', ''Memento-Datetime''), (''meter'', ''Meter''),
     (''mime_version'', ''MIME-Version''), (''negotiate'', ''Negotiate''), (''opt'', ''Opt''),
     (''optional_www_authenticate'', ''Optional-WWW-Authenticate''), (''ordering_type'', ''Ordering-Type''),
     (''origin'', ''Origin''), (''overwrite'', ''Overwrite''), (''p3p'', ''P3P''), (''pep'', ''PEP''),
     (''pics_label'', ''PICS-Label''), (''pep_info'', ''Pep-Info''), (''position'', ''Position''),
     (''pragma'', ''Pragma''), (''prefer'', ''Prefer''), (''preference_applied'', ''Preference-Applied''),
     (''profileobject'', ''ProfileObject''), (''protocol'', ''Protocol''), (''protocol_info'', ''Protocol-Info''),
     (''protocol_query'', ''Protocol-Query''), (''protocol_request'', ''Protocol-Request''),
     (''proxy_authenticate'', ''Proxy-Authenticate''),
     (''proxy_authentication_info'', ''Proxy-Authentication-Info''),
     (''proxy_authorization'', ''Proxy-Authorization''), (''proxy_features'', ''Proxy-Features''),
     (''proxy_instruction'', ''Proxy-Instruction''), (''public_'', ''Public''),
     (''public_key_pins'', ''Public-Key-Pins''), (''public_key_pins_report_only'', ''Public-Key-Pins-Report-Only''),
     (''range'', ''Range''), (''redirect_ref'', ''Redirect-Ref''), (''referer'', ''Referer''),
     (''retry_after'', ''Retry-After''), (''safe'', ''Safe''), (''schedule_reply'', ''Schedule-Reply''),
     (''schedule_tag'', ''Schedule-Tag''), (''sec_websocket_accept'', ''Sec-WebSocket-Accept''),
     (''sec_websocket_extensions'', ''Sec-WebSocket-Extensions''), (''sec_websocket_key'', ''Sec-WebSocket-Key''),
     (''sec_websocket_protocol'', ''Sec-WebSocket-Protocol''),
     (''sec_websocket_version'', ''Sec-WebSocket-Version''), (''security_scheme'', ''Security-Scheme''),
     (''server'', ''Server''), (''set_cookie'', ''Set-Cookie''), (''set_cookie2'', ''Set-Cookie2''),
     (''setprofile'', ''SetProfile''), (''slug'', ''SLUG''), (''soapaction'', ''SoapAction''),
     (''status_uri'', ''Status-URI''), (''strict_transport_security'', ''Strict-Transport-Security''),
     (''surrogate_capability'', ''Surrogate-Capability''), (''surrogate_control'', ''Surrogate-Control''),
     (''tcn'', ''TCN''), (''te'', ''TE''), (''timeout'', ''Timeout''), (''topic'', ''Topic''),
     (''trailer'', ''Trailer''), (''transfer_encoding'', ''Transfer-Encoding''), (''ttl'', ''TTL''),
     (''urgency'', ''Urgency''), (''uri'', ''URI''), (''upgrade'', ''Upgrade''), (''user_agent'', ''User-Agent''),
     (''variant_vary'', ''Variant-Vary''), (''vary'', ''Vary''), (''via'', ''Via''),
     (''www_authenticate'', ''WWW-Authenticate''), (''want_digest'', ''Want-Digest''), (''warning'', ''Warning''),
     (''x_frame_options'', ''X-Frame-Options''), (''access_control'', ''Access-Control''),
     (''access_control_allow_credentials'', ''Access-Control-Allow-Credentials''),
     (''access_control_allow_headers'', ''Access-Control-Allow-Headers''),
     (''access_control_allow_methods'', ''Access-Control-Allow-Methods''),
     (''access_control_allow_origin'', ''Access-Control-Allow-Origin''),
     (''access_control_max_age'', ''Access-Control-Max-Age''),
     (''access_control_request_method'', ''Access-Control-Request-Method''),
     (''access_control_request_headers'', ''Access-Control-Request-Headers''), (''compliance'', ''Compliance''),
     (''content_transfer_encoding'', ''Content-Transfer-Encoding''), (''cost'', ''Cost''),
     (''ediint_features'', ''EDIINT-Features''), (''message_id'', ''Message-ID''),
     (''method_check'', ''Method-Check''), (''method_check_expires'', ''Method-Check-Expires''),
     (''non_compliance'', ''Non-Compliance''), (''optional'', ''Optional''), (''referer_root'', ''Referer-Root''),
     (''resolution_hint'', ''Resolution-Hint''), (''resolver_location'', ''Resolver-Location''),
     (''subok'', ''SubOK''), (''subst'', ''Subst''), (''title'', ''Title''), (''ua_color'', ''UA-Color''),
     (''ua_media'', ''UA-Media''), (''ua_pixels'', ''UA-Pixels''), (''ua_resolution'', ''UA-Resolution''),
     (''ua_windowpixels'', ''UA-Windowpixels''), (''version'', ''Version''),
     (''x_device_accept'', ''X-Device-Accept''), (''x_device_accept_charset'', ''X-Device-Accept-Charset''),
     (''x_device_accept_encoding'', ''X-Device-Accept-Encoding''),
     (''x_device_accept_language'', ''X-Device-Accept-Language''), (''x_device_user_agent'', ''X-Device-User-Agent'')]"

text \<open>The cases of the switch in \<open>string_to_field\<close>, by the length of the name.\<close>

definition case_2 :: "(http_field_t \<times> string) list" where
  "case_2 = [
     (''if_'', ''If''), (''im'', ''IM''), (''te'', ''TE'')]"

definition case_3 :: "(http_field_t \<times> string) list" where
  "case_3 = [
     (''age'', ''Age''), (''dav'', ''DAV''), (''ext'', ''Ext''), (''man'', ''Man''), (''opt'', ''Opt''),
     (''p3p'', ''P3P''), (''pep'', ''PEP''), (''tcn'', ''TCN''), (''ttl'', ''TTL''), (''uri'', ''URI''),
     (''via'', ''Via'')]"

definition case_4 :: "(http_field_t \<times> string) list" where
  "case_4 = [
     (''host'', ''Host''), (''a_im'', ''A-IM''), (''alpn'', ''ALPN''), (''dasl'', ''DASL''), (''date'', ''Date''),
     (''etag'', ''ETag''), (''from'', ''From''), (''link'', ''Link''), (''safe'', ''Safe''), (''slug'', ''SLUG''),
     (''vary'', ''Vary''), (''cost'', ''Cost'')]"

definition case_5 :: "(http_field_t \<times> string) list" where
  "case_5 = [
     (''allow'', ''Allow''), (''c_ext'', ''C-Ext''), (''c_man'', ''C-Man''), (''c_opt'', ''C-Opt''),
     (''c_pep'', ''C-PEP''), (''close'', ''Close''), (''depth'', ''Depth''), (''label'', ''Label''),
     (''meter'', ''Meter''), (''range'', ''Range''), (''topic'', ''Topic''), (''subok'', ''SubOK''),
     (''subst'', ''Subst''), (''title'', ''Title'')]"

definition case_6 :: "(http_field_t \<times> string) list" where
  "case_6 = [
     (''accept'', ''Accept''), (''cookie'', ''Cookie''), (''server'', ''Server''), (''digest'', ''Digest''),
     (''expect'', ''Expect''), (''origin'', ''Origin''), (''pragma'', ''Pragma''), (''prefer'', ''Prefer''),
     (''public_'', ''Public'')]"

definition case_7 :: "(http_field_t \<times> string) list" where
  "case_7 = [
     (''alt_svc'', ''Alt-Svc''), (''cookie2'', ''Cookie2''), (''expires'', ''Expires''), (''hobareg'', ''Hobareg''),
     (''referer'', ''Referer''), (''timeout'', ''Timeout''), (''trailer'', ''Trailer''), (''urgency'', ''Urgency''),
     (''upgrade'', ''Upgrade''), (''warning'', ''Warning''), (''version'', ''Version'')]"

definition case_8 :: "(http_field_t \<times> string) list" where
  "case_8 = [
     (''alt_used'', ''Alt-Used''), (''if_match'', ''If-Match''), (''if_range'', ''If-Range''),
     (''location'', ''Location''), (''pep_info'', ''Pep-Info''), (''position'', ''Position''),
     (''protocol'', ''Protocol''), (''optional'', ''Optional''), (''ua_color'', ''UA-Color''),
     (''ua_media'', ''UA-Media'')]"

definition case_9 :: "(http_field_t \<times> string) list" where
  "case_9 = [
     (''forwarded'', ''Forwarded''), (''negotiate'', ''Negotiate''), (''overwrite'', ''Overwrite''),
     (''ua_pixels'', ''UA-Pixels'')]"

definition case_10 :: "(http_field_t \<times> string) list" where
  "case_10 = [
     (''alternates'', ''Alternates''), (''c_pep_info'', ''C-PEP-Info''), (''content_id'', ''Content-ID''),
     (''delta_base'', ''Delta-Base''), (''getprofile'', ''GetProfile''), (''keep_alive'', ''Keep-Alive''),
     (''lock_token'', ''Lock-Token''), (''pics_label'', ''PICS-Label''), (''set_cookie'', ''Set-Cookie''),
     (''setprofile'', ''SetProfile''), (''soapaction'', ''SoapAction''), (''status_uri'', ''Status-URI''),
     (''user_agent'', ''User-Agent''), (''compliance'', ''Compliance''), (''message_id'', ''Message-ID'')]"

definition case_11 :: "(http_field_t \<times> string) list" where
  "case_11 = [
     (''accept_post'', ''Accept-Post''), (''content_md5'', ''Content-MD5''), (''destination'', ''Destination''),
     (''retry_after'', ''Retry-After''), (''set_cookie2'', ''Set-Cookie2''), (''want_digest'', ''Want-Digest'')]"

definition case_12 :: "(http_field_t \<times> string) list" where
  "case_12 = [
     (''content_type'', ''Content-Type''), (''accept_patch'', ''Accept-Patch''),
     (''content_base'', ''Content-Base''), (''derived_from'', ''Derived-From''),
     (''max_forwards'', ''Max-Forwards''), (''mime_version'', ''MIME-Version''),
     (''schedule_tag'', ''Schedule-Tag''), (''redirect_ref'', ''Redirect-Ref''),
     (''variant_vary'', ''Variant-Vary''), (''method_check'', ''Method-Check''), (''referer_root'', ''Referer-Root'')]"

definition case_13 :: "(http_field_t \<times> string) list" where
  "case_13 = [
     (''accept_ranges'', ''Accept-Ranges''), (''authorization'', ''Authorization''),
     (''cache_control'', ''Cache-Control''), (''content_range'', ''Content-Range''),
     (''default_style'', ''Default-Style''), (''if_none_match'', ''If-None-Match''),
     (''last_modified'', ''Last-Modified''), (''ordering_type'', ''Ordering-Type''),
     (''profileobject'', ''ProfileObject''), (''protocol_info'', ''Protocol-Info''),
     (''ua_resolution'', ''UA-Resolution'')]"

definition case_14 :: "(http_field_t \<times> string) list" where
  "case_14 = [
     (''accept_charset'', ''Accept-Charset''), (''http2_settings'', ''HTTP2-Settings''),
     (''protocol_query'', ''Protocol-Query''), (''proxy_features'', ''Proxy-Features''),
     (''schedule_reply'', ''Schedule-Reply''), (''non_compliance'', ''Non-Compliance''),
     (''access_control'', ''Access-Control'')]"

definition case_15 :: "(http_field_t \<times> string) list" where
  "case_15 = [
     (''accept_encoding'', ''Accept-Encoding''), (''accept_features'', ''Accept-Features''),
     (''accept_language'', ''Accept-Language''), (''accept_datetime'', ''Accept-Datetime''),
     (''content_version'', ''Content-Version''), (''differential_id'', ''Differential-ID''),
     (''public_key_pins'', ''Public-Key-Pins''), (''security_scheme'', ''Security-Scheme''),
     (''x_frame_options'', ''X-Frame-Options''), (''x_device_accept'', ''X-Device-Accept''),
     (''resolution_hint'', ''Resolution-Hint''), (''ediint_features'', ''EDIINT-Features''),
     (''ua_windowpixels'', ''UA-Windowpixels'')]"

definition case_16 :: "(http_field_t \<times> string) list" where
  "case_16 = [
     (''accept_additions'', ''Accept-Additions''), (''caldav_timezones'', ''CalDAV-Timezones''),
     (''content_encoding'', ''Content-Encoding''), (''content_language'', ''Content-Language''),
     (''content_location'', ''Content-Location''), (''memento_datetime'', ''Memento-Datetime''),
     (''protocol_request'', ''Protocol-Request''), (''www_authenticate'', ''WWW-Authenticate'')]"

definition case_17 :: "(http_field_t \<times> string) list" where
  "case_17 = [
     (''if_modified_since'', ''If-Modified-Since''), (''proxy_instruction'', ''Proxy-Instruction''),
     (''sec_websocket_key'', ''Sec-WebSocket-Key''), (''surrogate_control'', ''Surrogate-Control''),
     (''transfer_encoding'', ''Transfer-Encoding''), (''resolver_location'', ''Resolver-Location'')]"

definition case_18 :: "(http_field_t \<times> string) list" where
  "case_18 = [
     (''content_style_type'', ''Content-Style-Type''), (''preference_applied'', ''Preference-Applied''),
     (''proxy_authenticate'', ''Proxy-Authenticate'')]"

definition case_19 :: "(http_field_t \<times> string) list" where
  "case_19 = [
     (''authentication_info'', ''Authentication-Info''), (''content_disposition'', ''Content-Disposition''),
     (''content_script_type'', ''Content-Script-Type''), (''if_unmodified_since'', ''If-Unmodified-Since''),
     (''proxy_authorization'', ''Proxy-Authorization''), (''x_device_user_agent'', ''X-Device-User-Agent'')]"

definition case_20 :: "(http_field_t \<times> string) list" where
  "case_20 = [
     (''sec_websocket_accept'', ''Sec-WebSocket-Accept''), (''surrogate_capability'', ''Surrogate-Capability''),
     (''method_check_expires'', ''Method-Check-Expires'')]"

definition case_21 :: "(http_field_t \<times> string) list" where
  "case_21 = [
     (''apply_to_redirect_ref'', ''Apply-To-Redirect-Ref''), (''if_schedule_tag_match'', ''If-Schedule-Tag-Match''),
     (''sec_websocket_version'', ''Sec-WebSocket-Version'')]"

definition case_22 :: "(http_field_t \<times> string) list" where
  "case_22 = [
     (''authentication_control'', ''Authentication-Control''),
     (''sec_websocket_protocol'', ''Sec-WebSocket-Protocol''),
     (''access_control_max_age'', ''Access-Control-Max-Age'')]"

definition case_23 :: "(http_field_t \<times> string) list" where
  "case_23 = [
     (''x_device_accept_charset'', ''X-Device-Accept-Charset'')]"

definition case_24 :: "(http_field_t \<times> string) list" where
  "case_24 = [
     (''sec_websocket_extensions'', ''Sec-WebSocket-Extensions''),
     (''x_device_accept_encoding'', ''X-Device-Accept-Encoding''),
     (''x_device_accept_language'', ''X-Device-Accept-Language'')]"

definition case_25 :: "(http_field_t \<times> string) list" where
  "case_25 = [
     (''optional_www_authenticate'', ''Optional-WWW-Authenticate''),
     (''proxy_authentication_info'', ''Proxy-Authentication-Info''),
     (''strict_transport_security'', ''Strict-Transport-Security''),
     (''content_transfer_encoding'', ''Content-Transfer-Encoding'')]"

definition case_27 :: "(http_field_t \<times> string) list" where
  "case_27 = [
     (''public_key_pins_report_only'', ''Public-Key-Pins-Report-Only''),
     (''access_control_allow_origin'', ''Access-Control-Allow-Origin'')]"

definition case_28 :: "(http_field_t \<times> string) list" where
  "case_28 = [
     (''access_control_allow_headers'', ''Access-Control-Allow-Headers''),
     (''access_control_allow_methods'', ''Access-Control-Allow-Methods'')]"

definition case_29 :: "(http_field_t \<times> string) list" where
  "case_29 = [
     (''access_control_request_method'', ''Access-Control-Request-Method'')]"

definition case_30 :: "(http_field_t \<times> string) list" where
  "case_30 = [
     (''access_control_request_headers'', ''Access-Control-Request-Headers'')]"

definition case_32 :: "(http_field_t \<times> string) list" where
  "case_32 = [
     (''access_control_allow_credentials'', ''Access-Control-Allow-Credentials'')]"

definition field_cases :: "(nat \<times> (http_field_t \<times> string) list) list" where
  "field_cases =
    [(2, case_2), (3, case_3), (4, case_4), (5, case_5), (6, case_6), (7, case_7), (8, case_8), (9, case_9), (10,
     case_10), (11, case_11), (12, case_12), (13, case_13), (14, case_14), (15, case_15), (16, case_16), (17,
     case_17), (18, case_18), (19, case_19), (20, case_20), (21, case_21), (22, case_22), (23, case_23), (24,
     case_24), (25, case_25), (27, case_27), (28, case_28), (29, case_29), (30, case_30), (32, case_32)]"

lemmas case_defs =
  case_2_def case_3_def case_4_def case_5_def case_6_def case_7_def case_8_def case_9_def case_10_def
  case_11_def case_12_def case_13_def case_14_def case_15_def case_16_def case_17_def case_18_def case_19_def
  case_20_def case_21_def case_22_def case_23_def case_24_def case_25_def case_27_def case_28_def case_29_def
  case_30_def case_32_def

definition string_to_field :: "bytes \<Rightarrow> http_field_t" where
  "string_to_field field =
     (case map_of field_cases (length field) of
        None \<Rightarrow> field_unspecified
      | Some candidates \<Rightarrow>
          (case find (\<lambda>(field_id, name). is_equal_caseless_n field (lit name) (length field)) candidates of
             None \<Rightarrow> field_unspecified
           | Some (field_id, _) \<Rightarrow> field_id))"

definition field_to_string :: "http_field_t \<Rightarrow> bytes" where
  "field_to_string f = (case map_of http_fields_map f of None \<Rightarrow> [] | Some name \<Rightarrow> lit name)"

subsection \<open>The names of the fields\<close>

lemma to_lower_table:
  "to_lower_lut = map (\<lambda>n. if 65 \<le> n \<and> n \<le> 90 then word_of_nat n + 32 else word_of_nat n) [0..<256]"
  by (simp add: to_lower_lut_def upt_conv_Cons numeral_2_eq_2 [symmetric])

lemma to_lower_eq: "to_lower_case c = (if 0x41 \<le> c \<and> c \<le> 0x5A then c + 0x20 else c)"
proof -
  have "unat c < 256" using unsigned_less [of c, where ?'a = nat] by simp
  then show ?thesis by (simp add: to_lower_case_def to_lower_table word_le_nat_alt nth_upt del: upt_rec_numeral)
qed

definition lower :: "bytes \<Rightarrow> bytes" where
  "lower s = map to_lower_case s"

lemma length_lower [simp]: "length (lower s) = length s"
  by (simp add: lower_def)

lemma caseless_n: "length a = n \<Longrightarrow> length b = n \<Longrightarrow> is_equal_caseless_n a b n \<longleftrightarrow> lower a = lower b"
  by (auto simp: is_equal_caseless_n_def list_all_iff lower_def to_lower_case_def map_equality_iff)

lemma caseless_iff: "is_equal_caseless a b \<longleftrightarrow> lower a = lower b"
proof (cases "length a = length b")
  case False
  then have "lower a \<noteq> lower b" using length_lower by metis
  then show ?thesis using False by (simp add: is_equal_caseless_def)
qed (simp add: is_equal_caseless_def caseless_n)

text \<open>To evaluate membership and \<open>list_all\<close> without simplifying the rest of the list in each step.\<close>

lemma member_step: "x \<in> set [] \<longleftrightarrow> False" "x \<in> set (a # as) \<longleftrightarrow> (if x = a then True else x \<in> set as)"
  by auto

lemma member_cong: "x = y \<Longrightarrow> (x \<in> set xs) = (y \<in> set xs)"
  by simp

lemma member_eq: "a = b \<Longrightarrow> (x \<in> set a) = (x \<in> set b)"
  by simp

lemmas member_cases = case_defs [THEN member_eq]

lemma all_step: "list_all P [] \<longleftrightarrow> True" "list_all P (x # xs) \<longleftrightarrow> (if P x then list_all P xs else False)"
  by auto

lemma all_cong: "list_all P xs = list_all P xs"
  by simp

lemma cases_complete:
  assumes "(field_id, name) \<in> set http_fields_map"
  shows "\<exists>candidates. map_of field_cases (length name) = Some candidates \<and> (field_id, name) \<in> set candidates"
proof -
  have "list_all (\<lambda>p. case map_of field_cases (length (snd p)) of
      None \<Rightarrow> False | Some candidates \<Rightarrow> p \<in> set candidates) http_fields_map"
    unfolding http_fields_map_def
    by (simp add: field_cases_def member_cases member_step all_step cong: member_cong all_cong del: list.set list.pred_inject(2))
  then show ?thesis using assms by (fastforce simp: list_all_iff split: option.splits)
qed

text \<open>The codes of a name in lower case.\<close>

definition codes :: "string \<Rightarrow> nat list" where
  "codes s = map (\<lambda>c. let n = of_char c in if 65 \<le> n \<and> n \<le> 90 then n + 32 else n) s"

lemma codes_lower: "codes s = map unat (lower (lit s))"
proof -
  have "unat (to_lower_case (of_char c)) = (let n = of_char c in if 65 \<le> n \<and> n \<le> 90 then n + 32 else n)" for c
  proof -
    have "unat (of_char c :: u8) = of_char c" by (cases c) (simp add: of_char_def)
    then show ?thesis by (simp add: to_lower_eq Let_def word_le_nat_alt unat_plus_if')
  qed
  then show ?thesis by (simp add: codes_def lower_def lit_def)
qed

lemma cases_distinct:
  "list_all (\<lambda>(n, candidates). distinct (map (\<lambda>(field_id, name). codes name) candidates)
     \<and> list_all (\<lambda>(field_id, name). length name = n) candidates) field_cases"
  by (simp add: field_cases_def case_defs codes_def)

lemma find_unique:
  assumes "distinct (map g xs)" "y \<in> set xs" "\<And>x. x \<in> set xs \<Longrightarrow> P x \<longleftrightarrow> g x = g y"
  shows "find P xs = Some y"
proof -
  obtain as bs where xs: "xs = as @ y # bs" "y \<notin> set as" using split_list_first [OF assms(2)] by blast
  have "g y \<notin> g ` set as" using assms(1) xs(1) by auto
  then have "\<forall>x \<in> set as. \<not> P x"
    using assms(3) by (metis UnI1 image_eqI set_append xs(1))
  moreover have "P y" using assms(3) [OF assms(2)] by simp
  ultimately show ?thesis unfolding xs(1) by (induction as) auto
qed

lemma name_to_field:
  assumes "(field_id, name) \<in> set http_fields_map" "lower field = lower (lit name)"
  shows "string_to_field field = field_id"
proof -
  have len: "length field = length name" using arg_cong [OF assms(2), of length] by (simp add: lit_def)
  obtain candidates where c: "map_of field_cases (length name) = Some candidates" "(field_id, name) \<in> set candidates"
    using cases_complete [OF assms(1)] by blast
  have d: "distinct (map (\<lambda>(field_id, name). codes name) candidates)"
    "\<forall>(field_id, n) \<in> set candidates. length n = length name"
    using cases_distinct map_of_SomeD [OF c(1)] by (auto simp: list_all_iff)
  have "find (\<lambda>(field_id, n). is_equal_caseless_n field (lit n) (length field)) candidates = Some (field_id, name)"
  proof (rule find_unique [OF d(1) c(2)])
    fix x assume "x \<in> set candidates"
    then show "(case x of (field_id, n) \<Rightarrow> is_equal_caseless_n field (lit n) (length field))
        \<longleftrightarrow> (case x of (field_id, n) \<Rightarrow> codes n) = (case (field_id, name) of (field_id, n) \<Rightarrow> codes n)"
      using d(2) len assms(2) inj_map_eq_map [of unat] by (auto simp: caseless_n lit_def codes_lower)
  qed
  then show ?thesis using c(1) len by (simp add: string_to_field_def)
qed

text \<open>The id of a field is its name with underscores, and one more where that is a keyword of C++.\<close>

definition id_codes :: "http_field_t \<Rightarrow> nat list" where
  "id_codes field_id = (let c = map of_char field_id in if last c = 95 then butlast c else c)"

definition named :: "http_field_t \<times> string \<Rightarrow> bool" where
  "named = (\<lambda>(field_id, name). id_codes field_id = map (\<lambda>c. if c = 45 then 95 else c) (codes name) \<and> 95 \<notin> set (codes name))"

lemma cases_named: "list_all (\<lambda>(n, candidates). list_all named candidates) field_cases"
  by (simp add: field_cases_def case_defs codes_def id_codes_def named_def)

lemma named_unique:
  assumes "named (field_id, a)" "named (field_id, b)"
  shows "lower (lit a) = lower (lit b)"
proof -
  let ?g = "\<lambda>c. if c = 45 then 95 else (c :: nat)"
  have m: "map ?g (codes a) = map ?g (codes b)" using assms by (simp add: named_def)
  have "inj_on ?g (set (codes a) \<union> set (codes b))" using assms by (auto simp: named_def inj_on_def split: if_splits)
  then have "codes a = codes b" by (rule map_inj_on [OF m])
  then show ?thesis using inj_map_eq_map [of unat] by (auto simp: codes_lower)
qed

text \<open>
  Every standard name, in whatever case it is written, is mapped to its field, and the printed name of
  a field is mapped back to it.\<close>

theorem field_names_correct:
  assumes "(field_id, name) \<in> set http_fields_map" "lower field = lower (lit name)"
  shows "string_to_field field = field_id \<and> string_to_field (field_to_string field_id) = field_id"
proof -
  obtain name' where "map_of http_fields_map field_id = Some name'"
    using weak_map_of_SomeI [OF assms(1)] by blast
  then show ?thesis using name_to_field [OF assms] name_to_field [of field_id name' "lit name'"]
    map_of_SomeD [of http_fields_map field_id name'] by (simp add: field_to_string_def)
qed

lemma field_names_correct_witness:
  "string_to_field (lit ''cOnTeNt-TyPe'') = ''content_type'' \<and> string_to_field (field_to_string ''content_type'') = ''content_type''"
proof (rule field_names_correct [of "''content_type''" "''Content-Type''"])
  show "(''content_type'', ''Content-Type'') \<in> set http_fields_map" by (simp add: http_fields_map_def)
  have "map unat (lower (lit ''cOnTeNt-TyPe'')) = map unat (lower (lit ''Content-Type''))"
    by (simp add: codes_lower [symmetric] codes_def)
  then show "lower (lit ''cOnTeNt-TyPe'') = lower (lit ''Content-Type'')" using inj_map_eq_map [of unat] by auto
qed

subsection \<open>Access by the id of a field\<close>

lemma string_to_field_lower:
  assumes "lower a = lower b"
  shows "string_to_field a = string_to_field b"
proof -
  have len: "length a = length b" using arg_cong [OF assms, of length] by simp
  have "to_lower_lut ! unat (a ! i) = to_lower_lut ! unat (b ! i)" if "i < length a" for i
    using arg_cong [OF assms, of "\<lambda>xs. xs ! i"] that len by (simp add: lower_def to_lower_case_def)
  then have *: "is_equal_caseless_n a c (length a) = is_equal_caseless_n b c (length b)" for c
    by (auto simp: is_equal_caseless_n_def list_all_iff len)
  show ?thesis unfolding string_to_field_def * unfolding len ..
qed

text \<open>The enumerators of \<open>http_field_t\<close> that stand for a name.\<close>

definition is_field_id :: "http_field_t \<Rightarrow> bool" where
  "is_field_id field_id \<longleftrightarrow> map_of http_fields_map field_id \<noteq> None"

lemma is_field_id_specified: "is_field_id field_id \<Longrightarrow> field_unspecified \<noteq> field_id"
proof -
  have "map_of http_fields_map field_unspecified = None"
    by (simp add: http_fields_map_def field_unspecified_def)
  then show "is_field_id field_id \<Longrightarrow> field_unspecified \<noteq> field_id" by (auto simp: is_field_id_def)
qed

lemma field_of_name:
  assumes "is_field_id field_id"
  shows "string_to_field n = field_id \<longleftrightarrow> lower n = lower (field_to_string field_id)"
proof -
  obtain name where m: "map_of http_fields_map field_id = Some name" using assms by (auto simp: is_field_id_def)
  have f: "field_to_string field_id = lit name" by (simp add: field_to_string_def m)
  show ?thesis
  proof
    assume s: "string_to_field n = field_id"
    then obtain candidates name' where c: "map_of field_cases (length n) = Some candidates"
      "find (\<lambda>(field_id, name). is_equal_caseless_n n (lit name) (length n)) candidates = Some (field_id, name')"
      using is_field_id_specified [OF assms] by (auto simp: string_to_field_def split: option.splits)
    then have in_c: "(field_id, name') \<in> set candidates" "is_equal_caseless_n n (lit name') (length n)"
      using nth_mem by (fastforce simp: find_Some_iff)+
    have in_cases: "(length n, candidates) \<in> set field_cases" using c(1) by (rule map_of_SomeD)
    have "length name' = length n" using cases_distinct in_cases in_c(1) by (auto simp: list_all_iff)
    then have "lower n = lower (lit name')" using in_c(2) caseless_n [of n "length n" "lit name'"] by (simp add: lit_def)
    moreover have "named (field_id, name')" using cases_named in_cases in_c(1) by (auto simp: list_all_iff)
    moreover have "named (field_id, name)"
    proof -
      obtain cs where "map_of field_cases (length name) = Some cs" "(field_id, name) \<in> set cs"
        using cases_complete [OF map_of_SomeD [OF m]] by blast
      then show ?thesis using cases_named map_of_SomeD [of field_cases "length name" cs] by (auto simp: list_all_iff)
    qed
    ultimately show "lower n = lower (field_to_string field_id)" using named_unique [of field_id name' name] by (simp add: f)
  next
    assume "lower n = lower (field_to_string field_id)"
    then show "string_to_field n = field_id" using name_to_field [OF map_of_SomeD [OF m]] f by simp
  qed
qed

end
