(* ===== verification/Restinio_Headers.thy ===== *)
theory Restinio_Headers
  imports Restinio_Field_Names
begin

unbundle bit_operations_syntax

text \<open>
  \<open>http_headers.hpp\<close>: a header field, the container of fields and the header of a request;
  \<open>impl/parser_callbacks.ipp\<close>: the callbacks that fill them from what the HTTP parser, a third-party
  library, reports.
\<close>

subsection \<open>\<open>http_header_field_t\<close>\<close>

record http_header_field =
  hf_name :: bytes
  hf_value :: bytes
  hf_field_id :: http_field_t

definition header_field :: "bytes \<Rightarrow> bytes \<Rightarrow> http_header_field" where
  "header_field name value = \<lparr>hf_name = name, hf_value = value, hf_field_id = string_to_field name\<rparr>"

definition header_field_by_id :: "http_field_t \<Rightarrow> bytes \<Rightarrow> http_header_field" where
  "header_field_by_id field_id value =
     \<lparr>hf_name = field_to_string field_id, hf_value = value, hf_field_id = field_id\<rparr>"

definition field_set_name :: "bytes \<Rightarrow> http_header_field \<Rightarrow> http_header_field" where
  "field_set_name n f = f\<lparr>hf_name := n, hf_field_id := string_to_field n\<rparr>"

definition field_set_id :: "http_field_t \<Rightarrow> http_header_field \<Rightarrow> http_header_field" where
  "field_set_id field_id f = f\<lparr>hf_field_id := field_id, hf_name := field_to_string field_id\<rparr>"

definition field_append_value :: "bytes \<Rightarrow> http_header_field \<Rightarrow> http_header_field" where
  "field_append_value v f = f\<lparr>hf_value := hf_value f @ v\<rparr>"

subsection \<open>\<open>http_header_fields_t\<close>\<close>

type_synonym fields = "http_header_field list"

text \<open>\<open>find\<close> returns an iterator: here the index, or nothing for the end.\<close>

definition find_index :: "('a \<Rightarrow> bool) \<Rightarrow> 'a list \<Rightarrow> nat option" where
  "find_index p xs = (let k = length (takeWhile (\<lambda>x. \<not> p x) xs) in if k < length xs then Some k else None)"

definition find_by_name :: "bytes \<Rightarrow> fields \<Rightarrow> nat option" where
  "find_by_name field_name = find_index (\<lambda>f. is_equal_caseless (hf_name f) field_name)"

definition find_by_id :: "http_field_t \<Rightarrow> fields \<Rightarrow> nat option" where
  "find_by_id field_id = find_index (\<lambda>f. hf_field_id f = field_id)"

definition has_field :: "bytes \<Rightarrow> fields \<Rightarrow> bool" where
  "has_field field_name fs \<longleftrightarrow> find_by_name field_name fs \<noteq> None"

definition has_field_id :: "http_field_t \<Rightarrow> fields \<Rightarrow> bool" where
  "has_field_id field_id fs \<longleftrightarrow> find_by_id field_id fs \<noteq> None"

definition set_header_field :: "http_header_field \<Rightarrow> fields \<Rightarrow> fields" where
  "set_header_field f fs =
     (case (if field_unspecified \<noteq> hf_field_id f then find_by_id (hf_field_id f) fs
            else find_by_name (hf_name f) fs) of
        Some i \<Rightarrow> fs[i := f]
      | None \<Rightarrow> fs @ [f])"

definition set_field :: "bytes \<Rightarrow> bytes \<Rightarrow> fields \<Rightarrow> fields" where
  "set_field field_name field_value fs =
     (case find_by_name field_name fs of
        Some i \<Rightarrow> fs[i := (field_set_name field_name (fs ! i))\<lparr>hf_value := field_value\<rparr>]
      | None \<Rightarrow> fs @ [header_field field_name field_value])"

definition set_field_id :: "http_field_t \<Rightarrow> bytes \<Rightarrow> fields \<Rightarrow> fields" where
  "set_field_id field_id field_value fs =
     (if field_unspecified \<noteq> field_id then
        (case find_by_id field_id fs of
           Some i \<Rightarrow> fs[i := (fs ! i)\<lparr>hf_value := field_value\<rparr>]
         | None \<Rightarrow> fs @ [header_field_by_id field_id field_value])
      else fs)"

definition append_field :: "bytes \<Rightarrow> bytes \<Rightarrow> fields \<Rightarrow> fields" where
  "append_field field_name field_value fs =
     (case find_by_name field_name fs of
        Some i \<Rightarrow> fs[i := field_append_value field_value (fs ! i)]
      | None \<Rightarrow> fs @ [header_field field_name field_value])"

definition append_field_id :: "http_field_t \<Rightarrow> bytes \<Rightarrow> fields \<Rightarrow> fields" where
  "append_field_id field_id field_value fs =
     (if field_unspecified \<noteq> field_id then
        (case find_by_id field_id fs of
           Some i \<Rightarrow> fs[i := field_append_value field_value (fs ! i)]
         | None \<Rightarrow> fs @ [header_field_by_id field_id field_value])
      else fs)"

definition try_get_field :: "bytes \<Rightarrow> fields \<Rightarrow> bytes option" where
  "try_get_field field_name fs =
     (case find_by_name field_name fs of None \<Rightarrow> None | Some i \<Rightarrow> Some (hf_value (fs ! i)))"

definition try_get_field_id :: "http_field_t \<Rightarrow> fields \<Rightarrow> bytes option" where
  "try_get_field_id field_id fs =
     (if field_unspecified \<noteq> field_id then
        (case find_by_id field_id fs of None \<Rightarrow> None | Some i \<Rightarrow> Some (hf_value (fs ! i)))
      else None)"

text \<open>The texts of the exceptions are made by \<open>fmt\<close>: an argument.\<close>

definition get_field :: "(bytes \<Rightarrow> string) \<Rightarrow> bytes \<Rightarrow> fields \<Rightarrow> exn + bytes" where
  "get_field no_field field_name fs =
     (case find_by_name field_name fs of
        None \<Rightarrow> Inl (RestinioError (no_field field_name))
      | Some i \<Rightarrow> Inr (hf_value (fs ! i)))"

definition get_field_id :: "(bytes \<Rightarrow> string) \<Rightarrow> http_field_t \<Rightarrow> fields \<Rightarrow> exn + bytes" where
  "get_field_id no_field field_id fs =
     (if field_unspecified = field_id then
        Inl (RestinioError ''unspecified fields cannot be searched by id'')
      else (case find_by_id field_id fs of
              None \<Rightarrow> Inl (RestinioError (no_field (field_to_string field_id)))
            | Some i \<Rightarrow> Inr (hf_value (fs ! i))))"

definition get_field_or :: "bytes \<Rightarrow> bytes \<Rightarrow> fields \<Rightarrow> bytes" where
  "get_field_or field_name default_value fs =
     (case find_by_name field_name fs of None \<Rightarrow> default_value | Some i \<Rightarrow> hf_value (fs ! i))"

definition get_field_id_or :: "http_field_t \<Rightarrow> bytes \<Rightarrow> fields \<Rightarrow> bytes" where
  "get_field_id_or field_id default_value fs =
     (if field_unspecified \<noteq> field_id then
        (case find_by_id field_id fs of None \<Rightarrow> default_value | Some i \<Rightarrow> hf_value (fs ! i))
      else default_value)"

definition erase_at :: "nat \<Rightarrow> 'a list \<Rightarrow> 'a list" where
  "erase_at i xs = take i xs @ drop (i + 1) xs"

definition remove_field :: "bytes \<Rightarrow> fields \<Rightarrow> fields" where
  "remove_field field_name fs =
     (case find_by_name field_name fs of None \<Rightarrow> fs | Some i \<Rightarrow> erase_at i fs)"

definition remove_field_id :: "http_field_t \<Rightarrow> fields \<Rightarrow> fields" where
  "remove_field_id field_id fs =
     (if field_unspecified \<noteq> field_id then
        (case find_by_id field_id fs of None \<Rightarrow> fs | Some i \<Rightarrow> erase_at i fs)
      else fs)"

text \<open>\<open>m_fields.back()\<close> of an empty vector is undefined.\<close>

definition append_last_field :: "bytes \<Rightarrow> (fields, unit) comp" where
  "append_last_field field_value = (\<lambda>fs.
     if fs = [] then (Inl (Undefined ''back of an empty vector''), fs)
     else (Inr (), butlast fs @ [field_append_value field_value (last fs)]))"

subsection \<open>\<open>http_request_header_t\<close>\<close>

datatype http_connection_header_t = keep_alive | close_connection | upgrade_connection

text \<open>A method is represented by its \<open>raw_id\<close>.\<close>

record http_request_header =
  m_fields :: fields
  m_http_connection_header_field_value :: http_connection_header_t
  m_method :: int
  m_request_target :: bytes
  m_query_separator_pos :: nat
  m_fragment_separator_pos :: nat

text \<open>\<open>HTTP_GET\<close> is 1.\<close>

definition request_header_new :: http_request_header where
  "request_header_new = \<lparr>m_fields = [], m_http_connection_header_field_value = close_connection, m_method = 1,
     m_request_target = [], m_query_separator_pos = 0, m_fragment_separator_pos = 0\<rparr>"

definition should_keep_alive :: "http_request_header \<Rightarrow> bool" where
  "should_keep_alive h \<longleftrightarrow> keep_alive = m_http_connection_header_field_value h"

definition set_should_keep_alive :: "bool \<Rightarrow> http_request_header \<Rightarrow> http_request_header" where
  "set_should_keep_alive keep h =
     h\<lparr>m_http_connection_header_field_value := (if keep then keep_alive else close_connection)\<rparr>"

definition memchr_helper :: "u8 \<Rightarrow> bytes \<Rightarrow> nat \<Rightarrow> nat" where
  "memchr_helper chr from sz = length (takeWhile (\<lambda>c. c \<noteq> chr) (take sz from))"

definition set_request_target :: "bytes \<Rightarrow> http_request_header \<Rightarrow> http_request_header" where
  "set_request_target t h =
     (let fragment_pos = memchr_helper 0x23 t (length t)
      in h\<lparr>m_request_target := t, m_fragment_separator_pos := fragment_pos,
           m_query_separator_pos := memchr_helper 0x3F t fragment_pos\<rparr>)"

definition request_path :: "http_request_header \<Rightarrow> bytes" where
  "request_path h = take (m_query_separator_pos h) (m_request_target h)"

definition request_query :: "http_request_header \<Rightarrow> bytes" where
  "request_query h =
     (if m_fragment_separator_pos h = m_query_separator_pos h then []
      else take (m_fragment_separator_pos h - m_query_separator_pos h - 1)
             (drop (m_query_separator_pos h + 1) (m_request_target h)))"

definition request_fragment :: "http_request_header \<Rightarrow> bytes" where
  "request_fragment h =
     (if length (m_request_target h) = m_fragment_separator_pos h then []
      else take (length (m_request_target h) - m_fragment_separator_pos h - 1)
             (drop (m_fragment_separator_pos h + 1) (m_request_target h)))"

definition append_request_target :: "bytes \<Rightarrow> http_request_header \<Rightarrow> http_request_header" where
  "append_request_target at h =
     (let h = (if length (m_request_target h) = m_fragment_separator_pos h then
                 let fragment_separator_pos_inc = memchr_helper 0x23 at (length at);
                     h = h\<lparr>m_fragment_separator_pos := m_fragment_separator_pos h + fragment_separator_pos_inc\<rparr>
                 in if length (m_request_target h) = m_query_separator_pos h then
                      h\<lparr>m_query_separator_pos := m_query_separator_pos h
                          + memchr_helper 0x3F at fragment_separator_pos_inc\<rparr>
                    else h
               else h)
      in h\<lparr>m_request_target := m_request_target h @ at\<rparr>)"

subsection \<open>The callbacks of the parser\<close>

record http_parser_ctx =
  m_header :: http_request_header
  m_body :: bytes
  m_current_field_name :: bytes
  m_last_was_value :: bool
  m_message_complete :: bool

definition parser_ctx_new :: http_parser_ctx where
  "parser_ctx_new = \<lparr>m_header = request_header_new, m_body = [], m_current_field_name = [],
     m_last_was_value = True, m_message_complete = False\<rparr>"

definition parser_ctx_reset :: "http_parser_ctx \<Rightarrow> http_parser_ctx" where
  "parser_ctx_reset ctx = ctx\<lparr>m_header := request_header_new, m_body := [], m_current_field_name := [],
     m_last_was_value := True, m_message_complete := False\<rparr>"

text \<open>What the parser reports; for a complete message its method, as \<open>Http_Methods\<close> maps it, whether it asks for an upgrade and
  whether the connection is to be kept.\<close>

datatype parser_callback =
    On_url bytes
  | On_header_field bytes
  | On_header_value bytes
  | On_headers_complete
  | On_body bytes
  | On_message_complete int bool bool

definition restinio_url_cb :: "bytes \<Rightarrow> (http_parser_ctx, unit) comp" where
  "restinio_url_cb at = modify (\<lambda>ctx. ctx\<lparr>m_header := append_request_target at (m_header ctx)\<rparr>)"

definition restinio_header_field_cb :: "bytes \<Rightarrow> (http_parser_ctx, unit) comp" where
  "restinio_header_field_cb at = modify (\<lambda>ctx.
     if m_last_was_value ctx then ctx\<lparr>m_current_field_name := at, m_last_was_value := False\<rparr>
     else ctx\<lparr>m_current_field_name := m_current_field_name ctx @ at\<rparr>)"

definition restinio_header_value_cb :: "bytes \<Rightarrow> (http_parser_ctx, unit) comp" where
  "restinio_header_value_cb at = (\<lambda>ctx.
     if \<not> m_last_was_value ctx then
       (Inr (), ctx\<lparr>m_header := (m_header ctx)\<lparr>m_fields :=
                      set_field (m_current_field_name ctx) at (m_fields (m_header ctx))\<rparr>,
                    m_current_field_name := [], m_last_was_value := True\<rparr>)
     else on_member (\<lambda>ctx. m_fields (m_header ctx))
            (\<lambda>f ctx. ctx\<lparr>m_header := (m_header ctx)\<lparr>m_fields := f (m_fields (m_header ctx))\<rparr>\<rparr>)
            (append_last_field at) ctx)"

definition restinio_body_cb :: "bytes \<Rightarrow> (http_parser_ctx, unit) comp" where
  "restinio_body_cb at = modify (\<lambda>ctx. ctx\<lparr>m_body := m_body ctx @ at\<rparr>)"

definition restinio_message_complete_cb :: "int \<Rightarrow> bool \<Rightarrow> bool \<Rightarrow> (http_parser_ctx, unit) comp" where
  "restinio_message_complete_cb http_method upgrade keep = modify (\<lambda>ctx.
     let h = (m_header ctx)\<lparr>m_method := http_method\<rparr>
     in ctx\<lparr>m_message_complete := True,
            m_header := (if \<not> upgrade then set_should_keep_alive keep h
                         else h\<lparr>m_http_connection_header_field_value := upgrade_connection\<rparr>)\<rparr>)"

text \<open>\<open>restinio_headers_complete_cb\<close> reserves memory for the body.\<close>

fun run_callback :: "parser_callback \<Rightarrow> (http_parser_ctx, unit) comp" where
  "run_callback (On_url at) = restinio_url_cb at"
| "run_callback (On_header_field at) = restinio_header_field_cb at"
| "run_callback (On_header_value at) = restinio_header_value_cb at"
| "run_callback On_headers_complete = ret ()"
| "run_callback (On_body at) = restinio_body_cb at"
| "run_callback (On_message_complete http_method upgrade keep) = restinio_message_complete_cb http_method upgrade keep"

fun run_callbacks :: "parser_callback list \<Rightarrow> (http_parser_ctx, unit) comp" where
  "run_callbacks [] = ret ()"
| "run_callbacks (cb # cbs) = sq (run_callback cb) (run_callbacks cbs)"

subsection \<open>The target of a request\<close>

lemma memchr_append:
  "memchr_helper c (a @ b) (length a + k) = (if c \<in> set a then memchr_helper c a (length a) else length a + memchr_helper c b k)"
proof (cases "c \<in> set a")
  case True
  then show ?thesis by (simp add: memchr_helper_def)
next
  case False
  then have "takeWhile (\<lambda>x. x \<noteq> c) (a @ take k b) = a @ takeWhile (\<lambda>x. x \<noteq> c) (take k b)"
    by (subst takeWhile_append2) auto
  then show ?thesis using False by (simp add: memchr_helper_def)
qed

lemma memchr_less: "memchr_helper c a n < n \<and> n \<le> length a \<longleftrightarrow> n \<le> length a \<and> c \<in> set (take n a)"
proof -
  have "length (takeWhile (\<lambda>x. x \<noteq> c) xs) < length xs \<longleftrightarrow> c \<in> set xs" for xs
    by (induction xs) auto
  from this [of "take n a"] show ?thesis by (auto simp: memchr_helper_def)
qed

lemma memchr_le: "memchr_helper c t n \<le> n"
proof -
  have "memchr_helper c t n \<le> length (take n t)" unfolding memchr_helper_def by (rule length_takeWhile_le)
  then show ?thesis by simp
qed

definition target_ok :: "http_request_header \<Rightarrow> bool" where
  "target_ok h \<longleftrightarrow> m_fragment_separator_pos h = memchr_helper 0x23 (m_request_target h) (length (m_request_target h))
     \<and> m_query_separator_pos h = memchr_helper 0x3F (m_request_target h) (m_fragment_separator_pos h)"

lemma append_target:
  assumes "target_ok h"
  shows "target_ok (append_request_target at h)"
    "append_request_target at h = set_request_target (m_request_target h @ at) h"
proof -
  let ?t = "m_request_target h"
  have full: "memchr_helper c ?t (length ?t) = length ?t \<longleftrightarrow> c \<notin> set ?t" for c
    using memchr_less [of c ?t "length ?t"] length_takeWhile_le [of "\<lambda>x. x \<noteq> c" ?t] by (auto simp: memchr_helper_def)
  have part: "memchr_helper 0x3F (?t @ at) n = memchr_helper 0x3F ?t n" if "n \<le> length ?t" for n
    using that by (simp add: memchr_helper_def)
  have ok: "m_fragment_separator_pos h = memchr_helper 0x23 ?t (length ?t)"
    "m_query_separator_pos h = memchr_helper 0x3F ?t (m_fragment_separator_pos h)"
    using assms by (simp_all add: target_ok_def)
  have eq: "append_request_target at h = set_request_target (?t @ at) h"
    if "m_fragment_separator_pos (append_request_target at h) = memchr_helper 0x23 (?t @ at) (length ?t + length at)"
      "m_query_separator_pos (append_request_target at h)
        = memchr_helper 0x3F (?t @ at) (memchr_helper 0x23 (?t @ at) (length ?t + length at))"
    using that by (cases h) (simp add: append_request_target_def set_request_target_def Let_def split: if_splits)
  show "append_request_target at h = set_request_target (?t @ at) h"
  proof (cases "0x23 \<in> set ?t")
    case True
    then have "m_fragment_separator_pos h \<noteq> length ?t" using ok full by simp
    then have "append_request_target at h = h\<lparr>m_request_target := ?t @ at\<rparr>"
      by (simp add: append_request_target_def)
    moreover have "memchr_helper 0x23 (?t @ at) (length ?t + length at) = m_fragment_separator_pos h"
      using memchr_append [of "0x23" ?t at "length at"] True ok(1) by simp
    moreover have "memchr_helper 0x3F (?t @ at) (m_fragment_separator_pos h) = m_query_separator_pos h"
      using part [of "m_fragment_separator_pos h"] memchr_le ok by metis
    ultimately show ?thesis by (intro eq) simp_all
  next
    case False
    let ?inc = "memchr_helper 0x23 at (length at)"
    have f: "m_fragment_separator_pos h = length ?t" using False ok full by simp
    have q: "m_query_separator_pos h = length ?t \<longleftrightarrow> 0x3F \<notin> set ?t" using ok f full by simp
    have "memchr_helper 0x23 (?t @ at) (length ?t + length at) = length ?t + ?inc"
      using memchr_append [of "0x23" ?t at "length at"] False by simp
    moreover have "memchr_helper 0x3F (?t @ at) (length ?t + ?inc)
        = (if 0x3F \<in> set ?t then m_query_separator_pos h else length ?t + memchr_helper 0x3F at ?inc)"
      using memchr_append [of "0x3F" ?t at ?inc] ok(2) f by simp
    moreover have "append_request_target at h = h\<lparr>m_fragment_separator_pos := length ?t + ?inc,
        m_query_separator_pos := (if 0x3F \<in> set ?t then m_query_separator_pos h else length ?t + memchr_helper 0x3F at ?inc),
        m_request_target := ?t @ at\<rparr>"
      using f q by (cases "0x3F \<in> set ?t") (simp_all add: append_request_target_def Let_def eq_commute [of "length ?t"])
    ultimately show ?thesis by (intro eq) simp_all
  qed
  then show "target_ok (append_request_target at h)"
    by (simp add: target_ok_def set_request_target_def Let_def)
qed

lemma append_targets:
  "target_ok h \<Longrightarrow> foldl (\<lambda>h at. append_request_target at h) h pieces
    = set_request_target (m_request_target h @ concat pieces) h"
proof (induction pieces arbitrary: h)
  case Nil
  then show ?case by (simp add: target_ok_def set_request_target_def Let_def)
next
  case (Cons at pieces)
  have "foldl (\<lambda>h at. append_request_target at h) h (at # pieces)
      = set_request_target (m_request_target (append_request_target at h) @ concat pieces) (append_request_target at h)"
    using Cons.IH [OF append_target(1) [OF Cons.prems], of at] by simp
  also have "\<dots> = set_request_target (m_request_target h @ concat (at # pieces)) h"
    unfolding append_target(2) [OF Cons.prems] by (simp add: set_request_target_def Let_def)
  finally show ?case .
qed

lemma memchr_take:
  assumes "memchr_helper c t n \<le> n"
  shows "takeWhile (\<lambda>x. x \<noteq> c) (take n t) = take (memchr_helper c t n) t"
proof -
  have "takeWhile (\<lambda>x. x \<noteq> c) (take n t) = take (memchr_helper c t n) (take n t)"
    unfolding memchr_helper_def by (rule takeWhile_eq_take)
  then show ?thesis using assms by (simp add: min_def)
qed

lemma memchr_notin: "c \<notin> set (take (memchr_helper c t n) t)"
  unfolding memchr_take [OF memchr_le, symmetric] using set_takeWhileD by fastforce

lemma split_at_memchr:
  assumes "c \<in> set (take n t)" "n \<le> length t"
  shows "take n t = take (memchr_helper c t n) t @ c # take (n - memchr_helper c t n - 1) (drop (memchr_helper c t n + 1) t)"
proof -
  let ?k = "memchr_helper c t n"
  have k: "?k < n" using assms memchr_less by blast
  have "take n t ! ?k = c"
    using k assms(2) nth_length_takeWhile [of "\<lambda>x. x \<noteq> c" "take n t"] by (simp add: memchr_helper_def)
  then have "take n t = take ?k t @ c # drop (Suc ?k) (take n t)"
    using id_take_nth_drop [of ?k "take n t"] k assms(2) by (simp add: min_def)
  then show ?thesis by (simp add: drop_take)
qed

text \<open>
  C25. In whatever pieces the parser reports the target of a request, its parts are those of the whole
  target: the path, the query behind the first question mark and the fragment behind the first hash.\<close>

theorem request_target_pieces:
  "let h = foldl (\<lambda>h at. append_request_target at h) request_header_new pieces; t = concat pieces;
       q = take (m_fragment_separator_pos h) t
   in h = set_request_target t request_header_new
      \<and> t = request_path h @ (if 0x3F \<in> set q then 0x3F # request_query h else [])
              @ (if 0x23 \<in> set t then 0x23 # request_fragment h else [])
      \<and> 0x3F \<notin> set (request_path h) \<and> 0x23 \<notin> set (request_path h) \<and> 0x23 \<notin> set (request_query h)"
proof -
  let ?t = "concat pieces" and ?h = "set_request_target (concat pieces) request_header_new"
  let ?f = "memchr_helper 0x23 ?t (length ?t)"
  let ?q = "memchr_helper 0x3F ?t ?f"
  have folded: "foldl (\<lambda>h at. append_request_target at h) request_header_new pieces = ?h"
    using append_targets [of request_header_new pieces]
    by (simp add: target_ok_def request_header_new_def memchr_helper_def)
  have t: "m_request_target ?h = ?t" "m_fragment_separator_pos ?h = ?f" "m_query_separator_pos ?h = ?q"
    by (simp_all add: set_request_target_def Let_def)
  have f: "?f \<le> length ?t" "?q \<le> ?f" by (rule memchr_le)+
  have hash: "0x23 \<notin> set (take ?f ?t)" by (rule memchr_notin)
  have front: "take ?f ?t = take ?q ?t @ (if 0x3F \<in> set (take ?f ?t) then 0x3F # request_query ?h else [])"
  proof (cases "0x3F \<in> set (take ?f ?t)")
    case True
    then have "?f \<noteq> ?q" using memchr_less [of "0x3F" ?t ?f] f(1) by auto
    then show ?thesis using split_at_memchr [OF True f(1)] True by (simp add: request_query_def t)
  next
    case False
    then have "\<not> ?q < ?f" using memchr_less [of "0x3F" ?t ?f] f(1) by blast
    then show ?thesis using False f(2) by simp
  qed
  have tail: "?t = take ?f ?t @ (if 0x23 \<in> set ?t then 0x23 # request_fragment ?h else [])"
  proof (cases "0x23 \<in> set ?t")
    case True
    then have "length ?t \<noteq> ?f" using memchr_less [of "0x23" ?t "length ?t"] by auto
    then show ?thesis using split_at_memchr [of "0x23" "length ?t" ?t] True by (simp add: request_fragment_def t)
  next
    case False
    then have "\<not> ?f < length ?t" using memchr_less [of "0x23" ?t "length ?t"] by auto
    then show ?thesis using False by simp
  qed
  have path: "0x3F \<notin> set (take ?q ?t)" by (rule memchr_notin)
  have path2: "0x23 \<notin> set (take ?q ?t)" using hash set_take_subset_set_take [OF f(2), of ?t] by blast
  have query: "0x23 \<notin> set (request_query ?h)"
    proof (cases "0x3F \<in> set (take ?f ?t)")
    case True
    then have "set (request_query ?h) \<subseteq> set (take ?f ?t)" using arg_cong [OF front, of set] by auto
    then show ?thesis using hash by blast
  next
    case False
    then have "\<not> ?q < ?f" using memchr_less [of "0x3F" ?t ?f] f(1) by blast
    then show ?thesis using f(2) by (simp add: request_query_def t)
  qed
  have whole: "?t = take ?q ?t @ (if 0x3F \<in> set (take ?f ?t) then 0x3F # request_query ?h else [])
      @ (if 0x23 \<in> set ?t then 0x23 # request_fragment ?h else [])"
    using tail unfolding append_assoc [symmetric] front [symmetric] .
  show ?thesis unfolding Let_def folded request_path_def t
    by (intro conjI refl whole path path2 query)
qed

subsection \<open>The container as a map\<close>

text \<open>The names of a container are different, up to case, and each field has the id of its name.\<close>

definition hf_key :: "http_header_field \<Rightarrow> bytes" where
  "hf_key f = lower (hf_name f)"

definition fields_ok :: "fields \<Rightarrow> bool" where
  "fields_ok fs \<longleftrightarrow> distinct (map hf_key fs) \<and> list_all (\<lambda>f. hf_field_id f = string_to_field (hf_name f)) fs"

definition fields_map :: "fields \<Rightarrow> bytes \<Rightarrow> bytes option" where
  "fields_map fs = map_of (map (\<lambda>f. (hf_key f, hf_value f)) fs)"

lemma find_index_cases:
  obtains "find_index p xs = None" "\<forall>x \<in> set xs. \<not> p x"
  | as x bs where "find_index p xs = Some (length as)" "xs = as @ x # bs" "\<forall>x \<in> set as. \<not> p x" "p x"
proof (cases "\<exists>x \<in> set xs. p x")
  case True
  then obtain as x bs where xs: "xs = as @ x # bs" "p x" "\<forall>x \<in> set as. \<not> p x"
    using split_list_first_prop [of xs p] by blast
  then have "takeWhile (\<lambda>x. \<not> p x) xs = as" by (simp add: takeWhile_tail)
  then show ?thesis using xs by (intro that(2)) (simp_all add: find_index_def)
next
  case False
  then have "length (takeWhile (\<lambda>x. \<not> p x) xs) = length xs" by (simp add: takeWhile_eq_all_conv [THEN iffD2])
  then show ?thesis using False by (intro that(1)) (simp_all add: find_index_def Let_def)
qed

lemma find_by_name_cases:
  assumes "fields_ok fs"
  obtains (missing) "find_by_name n fs = None" "lower n \<notin> hf_key ` set fs"
  | (found) as f bs where "find_by_name n fs = Some (length as)" "fs = as @ f # bs" "hf_key f = lower n"
      "lower n \<notin> hf_key ` set as" "lower n \<notin> hf_key ` set bs"
proof (cases rule: find_index_cases [of "\<lambda>f. is_equal_caseless (hf_name f) n" fs])
  case 1
  then show ?thesis by (intro missing) (auto simp: find_by_name_def caseless_iff hf_key_def)
next
  case (2 as f bs)
  have d: "distinct (map hf_key fs)" using assms by (simp add: fields_ok_def)
  have k: "hf_key f = lower n" using 2(4) by (simp add: caseless_iff hf_key_def)
  have "lower n \<notin> hf_key ` set as" "lower n \<notin> hf_key ` set bs" using d k by (auto simp: 2(2))
  then show ?thesis using 2(1,2) k by (intro found [of as f bs]) (simp_all add: find_by_name_def)
qed

lemma fields_map_Nil [simp]: "fields_map [] = Map.empty"
  by (simp add: fields_map_def)

lemma fields_map_append [simp]: "fields_map (as @ bs) = fields_map bs ++ fields_map as"
  by (simp add: fields_map_def)

lemma fields_map_Cons [simp]: "fields_map (f # fs) = (fields_map fs)(hf_key f \<mapsto> hf_value f)"
  by (simp add: fields_map_def)

lemma fields_map_None: "n \<notin> hf_key ` set fs \<Longrightarrow> fields_map fs n = None"
  by (auto simp: fields_map_def map_of_eq_None_iff image_image)

lemma fields_map_at:
  assumes "k \<notin> hf_key ` set as" "k \<notin> hf_key ` set bs" "hf_key f = k"
  shows "fields_map (as @ f # bs) = (fields_map (as @ bs))(k \<mapsto> hf_value f)"
    "(fields_map (as @ bs)) k = None"
proof -
  have n: "fields_map as k = None" "fields_map bs k = None" using assms by (simp_all add: fields_map_None)
  then show "fields_map (as @ f # bs) = (fields_map (as @ bs))(k \<mapsto> hf_value f)"
    using assms(3) by (auto simp: map_add_def fun_eq_iff split: option.splits)
  show "(fields_map (as @ bs)) k = None" using n by (simp add: map_add_def)
qed

lemma fields_ok_at:
  assumes "fields_ok (as @ f # bs)"
  shows "fields_ok (as @ bs)"
    "hf_key g = hf_key f \<Longrightarrow> hf_field_id g = string_to_field (hf_name g) \<Longrightarrow> fields_ok (as @ g # bs)"
  using assms by (simp_all add: fields_ok_def)

lemma fields_ok_snoc: "fields_ok fs \<Longrightarrow> lower n \<notin> hf_key ` set fs \<Longrightarrow> fields_ok (fs @ [header_field n v])"
  by (simp add: fields_ok_def header_field_def hf_key_def)

text \<open>The laws of a map whose keys are compared by \<open>norm\<close>.\<close>

locale caseless_map =
  fixes ok :: "'c \<Rightarrow> bool" and abs :: "'c \<Rightarrow> 'k \<Rightarrow> 'v option" and norm :: "'k \<Rightarrow> 'k"
    and put :: "'k \<Rightarrow> 'v \<Rightarrow> 'c \<Rightarrow> 'c" and del :: "'k \<Rightarrow> 'c \<Rightarrow> 'c" and get :: "'k \<Rightarrow> 'c \<Rightarrow> 'v option"
  assumes put_ok: "ok c \<Longrightarrow> ok (put k v c)" and del_ok: "ok c \<Longrightarrow> ok (del k c)"
    and put_abs: "ok c \<Longrightarrow> abs (put k v c) = (abs c)(norm k \<mapsto> v)"
    and del_abs: "ok c \<Longrightarrow> abs (del k c) = (abs c)(norm k := None)"
    and get_abs: "ok c \<Longrightarrow> get k c = abs c (norm k)"
begin

lemma get_put: "ok c \<Longrightarrow> get k (put k' v c) = (if norm k = norm k' then Some v else get k c)"
  by (simp add: get_abs put_ok put_abs)

lemma get_del: "ok c \<Longrightarrow> get k (del k' c) = (if norm k = norm k' then None else get k c)"
  by (simp add: get_abs del_ok del_abs)

lemma puts_ok: "ok c \<Longrightarrow> ok (fold (\<lambda>(k, v). put k v) kvs c)"
  by (induction kvs arbitrary: c) (auto intro: put_ok)

lemma get_puts:
  "ok c \<Longrightarrow> get k (fold (\<lambda>(k, v). put k v) kvs c)
    = (case map_of (rev (map (apfst norm) kvs)) (norm k) of None \<Rightarrow> get k c | Some v \<Rightarrow> Some v)"
proof (induction kvs rule: rev_induct)
  case (snoc kv kvs)
  then show ?case using puts_ok [OF snoc.prems, of kvs] by (cases kv) (simp add: get_put)
qed simp

end

lemma set_field_map:
  assumes "fields_ok fs"
  shows "fields_ok (set_field n v fs) \<and> fields_map (set_field n v fs) = (fields_map fs)(lower n \<mapsto> v)"
proof (cases rule: find_by_name_cases [OF assms, of n, case_names missing found])
  case missing
  then have "set_field n v fs = fs @ [header_field n v]" by (simp add: set_field_def)
  then show ?thesis using fields_ok_snoc [OF assms missing(2), of v] fields_map_at(1) [OF missing(2), of "[]" "header_field n v"]
    by (simp add: header_field_def hf_key_def)
next
  case (found as f bs)
  have old: "fields_map fs = (fields_map (as @ bs))(lower n \<mapsto> hf_value f)"
    unfolding found(2) by (rule fields_map_at(1) [OF found(4,5,3)])
  let ?g = "(field_set_name n f)\<lparr>hf_value := v\<rparr>"
  have s: "set_field n v fs = as @ ?g # bs" using found by (simp add: set_field_def)
  have k: "hf_key ?g = lower n" "hf_field_id ?g = string_to_field (hf_name ?g)" "hf_value ?g = v"
    by (simp_all add: field_set_name_def hf_key_def)
  have "fields_ok (as @ ?g # bs)"
    using fields_ok_at(2) [OF assms [unfolded found(2)], of ?g] found(3) k by (simp only: simp_thms)
  moreover have "fields_map (as @ ?g # bs) = (fields_map (as @ bs))(lower n \<mapsto> v)"
    using fields_map_at(1) [OF found(4,5) k(1)] unfolding k(3) .
  ultimately show ?thesis unfolding s old by (simp del: fields_map_append)
qed

lemma append_field_map:
  assumes "fields_ok fs"
  shows "fields_ok (append_field n v fs) \<and> fields_map (append_field n v fs)
    = (fields_map fs)(lower n \<mapsto> (case fields_map fs (lower n) of None \<Rightarrow> v | Some w \<Rightarrow> w @ v))"
proof (cases rule: find_by_name_cases [OF assms, of n, case_names missing found])
  case missing
  then have "append_field n v fs = fs @ [header_field n v]" by (simp add: append_field_def)
  then show ?thesis using fields_ok_snoc [OF assms missing(2), of v] fields_map_at(1) [OF missing(2), of "[]" "header_field n v"]
    by (simp add: header_field_def hf_key_def fields_map_None [OF missing(2)])
next
  case (found as f bs)
  have old: "fields_map fs = (fields_map (as @ bs))(lower n \<mapsto> hf_value f)"
    unfolding found(2) by (rule fields_map_at(1) [OF found(4,5,3)])
  let ?g = "field_append_value v f"
  have s: "append_field n v fs = as @ ?g # bs" using found by (simp add: append_field_def)
  have k: "hf_key ?g = lower n" "hf_value ?g = hf_value f @ v" "hf_name ?g = hf_name f" "hf_field_id ?g = hf_field_id f"
    using found(3) by (simp_all add: field_append_value_def hf_key_def)
  have "hf_field_id f = string_to_field (hf_name f)" using assms by (simp add: fields_ok_def found(2))
  then have "fields_ok (as @ ?g # bs)"
    using fields_ok_at(2) [OF assms [unfolded found(2)], of ?g] found(3) k by (simp only: simp_thms)
  moreover have "fields_map (as @ ?g # bs) = (fields_map (as @ bs))(lower n \<mapsto> hf_value f @ v)"
    using fields_map_at(1) [OF found(4,5) k(1)] unfolding k(2) .
  ultimately show ?thesis unfolding s old by (simp del: fields_map_append)
qed

lemma remove_field_map:
  assumes "fields_ok fs"
  shows "fields_ok (remove_field n fs) \<and> fields_map (remove_field n fs) = (fields_map fs)(lower n := None)"
proof (cases rule: find_by_name_cases [OF assms, of n, case_names missing found])
  case missing
  then show ?thesis using assms fields_map_None [OF missing(2)] by (auto simp: remove_field_def)
next
  case (found as f bs)
  have s: "remove_field n fs = as @ bs" using found by (simp add: remove_field_def erase_at_def)
  have old: "fields_map fs = (fields_map (as @ bs))(lower n \<mapsto> hf_value f)"
    unfolding found(2) by (rule fields_map_at(1) [OF found(4,5,3)])
  have "fields_ok (as @ bs)" using assms unfolding found(2) by (rule fields_ok_at(1))
  then show ?thesis using fields_map_at(2) [OF found(4,5,3)] unfolding s old
    by (auto simp: fun_eq_iff simp del: fields_map_append)
qed

lemma try_get_field_map:
  assumes "fields_ok fs"
  shows "try_get_field n fs = fields_map fs (lower n)"
proof (cases rule: find_by_name_cases [OF assms, of n, case_names missing found])
  case missing
  then show ?thesis by (simp add: try_get_field_def fields_map_None)
next
  case (found as f bs)
  have "try_get_field n fs = Some (hf_value f)" using found(1,2) by (simp add: try_get_field_def)
  then show ?thesis using fields_map_at(1) [OF found(4,5,3)] found(2) by simp
qed

interpretation hf: caseless_map fields_ok fields_map lower set_field remove_field try_get_field
  by unfold_locales (simp_all add: set_field_map remove_field_map try_get_field_map)

subsection \<open>Access by the id of a field\<close>

text \<open>To search by id is to search by the name of the id.\<close>

lemma find_by_id_name:
  assumes "fields_ok fs" "is_field_id field_id"
  shows "find_by_id field_id fs = find_by_name (field_to_string field_id) fs"
proof -
  have "hf_field_id f = field_id \<longleftrightarrow> is_equal_caseless (hf_name f) (field_to_string field_id)" if "f \<in> set fs" for f
    using assms(1) that field_of_name [OF assms(2), of "hf_name f"]
    by (auto simp: fields_ok_def list_all_iff caseless_iff)
  then have "takeWhile (\<lambda>f. hf_field_id f \<noteq> field_id) fs
      = takeWhile (\<lambda>f. \<not> is_equal_caseless (hf_name f) (field_to_string field_id)) fs"
    by (intro takeWhile_cong) auto
  then show ?thesis by (simp add: find_by_id_def find_by_name_def find_index_def)
qed


lemma set_field_id_map:
  assumes "fields_ok fs" "is_field_id field_id"
  shows "fields_ok (set_field_id field_id v fs)
    \<and> fields_map (set_field_id field_id v fs) = (fields_map fs)(lower (field_to_string field_id) \<mapsto> v)"
proof (cases rule: find_by_name_cases [OF assms(1), of "field_to_string field_id", case_names missing found])
  case missing
  have id: "string_to_field (field_to_string field_id) = field_id" using field_of_name [OF assms(2)] by simp
  have "set_field_id field_id v fs = fs @ [header_field (field_to_string field_id) v]"
    using missing(1) is_field_id_specified [OF assms(2)]
    by (simp add: set_field_id_def find_by_id_name [OF assms] header_field_def header_field_by_id_def id)
  also have "\<dots> = set_field (field_to_string field_id) v fs" using missing(1) by (simp add: set_field_def)
  finally show ?thesis using set_field_map [OF assms(1)] by simp
next
  case (found as f bs)
  have old: "fields_map fs = (fields_map (as @ bs))(lower (field_to_string field_id) \<mapsto> hf_value f)"
    unfolding found(2) by (rule fields_map_at(1) [OF found(4,5,3)])
  let ?g = "f\<lparr>hf_value := v\<rparr>"
  have s: "set_field_id field_id v fs = as @ ?g # bs"
    using found(1) is_field_id_specified [OF assms(2)] unfolding set_field_id_def find_by_id_name [OF assms]
    by (simp add: found(2))
  have k: "hf_key ?g = lower (field_to_string field_id)" "hf_value ?g = v" using found(3) by (simp_all add: hf_key_def)
  have "fields_ok (as @ ?g # bs)" using assms(1) unfolding found(2) by (simp add: fields_ok_def hf_key_def)
  moreover have "fields_map (as @ ?g # bs) = (fields_map (as @ bs))(lower (field_to_string field_id) \<mapsto> v)"
    using fields_map_at(1) [OF found(4,5) k(1)] unfolding k(2) .
  ultimately show ?thesis unfolding s old by (simp del: fields_map_append)
qed

lemma by_id_by_name:
  assumes "fields_ok fs" "is_field_id field_id"
  shows "append_field_id field_id v fs = append_field (field_to_string field_id) v fs"
    "remove_field_id field_id fs = remove_field (field_to_string field_id) fs"
    "try_get_field_id field_id fs = try_get_field (field_to_string field_id) fs"
proof -
  have id: "string_to_field (field_to_string field_id) = field_id" using field_of_name [OF assms(2)] by simp
  show "append_field_id field_id v fs = append_field (field_to_string field_id) v fs"
    "remove_field_id field_id fs = remove_field (field_to_string field_id) fs"
    "try_get_field_id field_id fs = try_get_field (field_to_string field_id) fs"
    using is_field_id_specified [OF assms(2)]
    by (simp_all add: append_field_id_def append_field_def remove_field_id_def remove_field_def try_get_field_id_def
        try_get_field_def find_by_id_name [OF assms] header_field_def header_field_by_id_def id split: option.split)
qed

lemma fields_ok_Nil: "fields_ok []"
  by (simp add: fields_ok_def)

text \<open>The operations of a container, and what they do to the map it stands for.\<close>

datatype fields_op =
    Set_field bytes bytes
  | Set_field_id http_field_t bytes
  | Append_field bytes bytes
  | Append_field_id http_field_t bytes
  | Remove_field bytes
  | Remove_field_id http_field_t

fun fields_op_ok :: "fields_op \<Rightarrow> bool" where
  "fields_op_ok (Set_field_id field_id v) = is_field_id field_id"
| "fields_op_ok (Append_field_id field_id v) = is_field_id field_id"
| "fields_op_ok (Remove_field_id field_id) = is_field_id field_id"
| "fields_op_ok _ = True"

fun run_fields_op :: "fields_op \<Rightarrow> fields \<Rightarrow> fields" where
  "run_fields_op (Set_field n v) = set_field n v"
| "run_fields_op (Set_field_id field_id v) = set_field_id field_id v"
| "run_fields_op (Append_field n v) = append_field n v"
| "run_fields_op (Append_field_id field_id v) = append_field_id field_id v"
| "run_fields_op (Remove_field n) = remove_field n"
| "run_fields_op (Remove_field_id field_id) = remove_field_id field_id"

definition map_append :: "bytes \<Rightarrow> bytes \<Rightarrow> (bytes \<Rightarrow> bytes option) \<Rightarrow> bytes \<Rightarrow> bytes option" where
  "map_append k v m = m(k \<mapsto> (case m k of None \<Rightarrow> v | Some w \<Rightarrow> w @ v))"

fun map_fields_op :: "fields_op \<Rightarrow> (bytes \<Rightarrow> bytes option) \<Rightarrow> bytes \<Rightarrow> bytes option" where
  "map_fields_op (Set_field n v) m = m(lower n \<mapsto> v)"
| "map_fields_op (Set_field_id field_id v) m = m(lower (field_to_string field_id) \<mapsto> v)"
| "map_fields_op (Append_field n v) m = map_append (lower n) v m"
| "map_fields_op (Append_field_id field_id v) m = map_append (lower (field_to_string field_id)) v m"
| "map_fields_op (Remove_field n) m = m(lower n := None)"
| "map_fields_op (Remove_field_id field_id) m = m(lower (field_to_string field_id) := None)"

lemma run_fields_op_map:
  assumes "fields_ok fs" "fields_op_ok op"
  shows "fields_ok (run_fields_op op fs) \<and> fields_map (run_fields_op op fs) = map_fields_op op (fields_map fs)"
  using assms
  by (cases op) (simp_all add: set_field_map set_field_id_map append_field_map remove_field_map by_id_by_name map_append_def)

lemma run_fields_ops_map:
  "fields_ok fs \<Longrightarrow> list_all fields_op_ok ops
    \<Longrightarrow> fields_ok (fold run_fields_op ops fs)
      \<and> fields_map (fold run_fields_op ops fs) = fold map_fields_op ops (fields_map fs)"
  by (induction ops arbitrary: fs) (simp_all add: run_fields_op_map)

text \<open>
  C23. The container is a map from names, compared without case, to values: what is read from it by name
  or by id after any operations is what the map holds, whether they were done by name or by id.\<close>

theorem fields_as_map:
  assumes "list_all fields_op_ok ops" "is_field_id field_id"
  shows "let fs = fold run_fields_op ops []; m = fold map_fields_op ops Map.empty
    in try_get_field n fs = m (lower n) \<and> has_field n fs = (m (lower n) \<noteq> None)
      \<and> get_field_or n d fs = (case m (lower n) of None \<Rightarrow> d | Some v \<Rightarrow> v)
      \<and> try_get_field_id field_id fs = m (lower (field_to_string field_id))"
proof -
  let ?fs = "fold run_fields_op ops []"
  have ok: "fields_ok ?fs" "fields_map ?fs = fold map_fields_op ops Map.empty"
    using run_fields_ops_map [OF fields_ok_Nil assms(1)] by simp_all
  have get: "try_get_field n ?fs = fold map_fields_op ops Map.empty (lower n)" for n
    using try_get_field_map [OF ok(1)] ok(2) by simp
  have "has_field n ?fs = (try_get_field n ?fs \<noteq> None)"
    "get_field_or n d ?fs = (case try_get_field n ?fs of None \<Rightarrow> d | Some v \<Rightarrow> v)"
    by (simp_all add: has_field_def try_get_field_def get_field_or_def split: option.splits)
  then show ?thesis by (simp add: Let_def get by_id_by_name(3) [OF ok(1) assms(2)])
qed

lemma fields_as_map_witness:
  "let ops = [Set_field (lit ''cookie'') (lit ''a''), Append_field_id ''cookie'' (lit ''b''), Set_field (lit ''X'') (lit ''1''),
        Remove_field (lit ''x'')];
      fs = fold run_fields_op ops []; m = fold map_fields_op ops Map.empty
    in try_get_field (lit ''Cookie'') fs = m (lower (lit ''Cookie''))
      \<and> has_field (lit ''Cookie'') fs = (m (lower (lit ''Cookie'')) \<noteq> None)
      \<and> get_field_or (lit ''Cookie'') [] fs = (case m (lower (lit ''Cookie'')) of None \<Rightarrow> [] | Some v \<Rightarrow> v)
      \<and> try_get_field_id ''cookie'' fs = m (lower (field_to_string ''cookie''))"
proof -
  have "is_field_id ''cookie''" by (simp add: is_field_id_def http_fields_map_def)
  then show ?thesis
    using fields_as_map [of "[Set_field (lit ''cookie'') (lit ''a''), Append_field_id ''cookie'' (lit ''b''),
        Set_field (lit ''X'') (lit ''1''), Remove_field (lit ''x'')]" "''cookie''" "lit ''Cookie''" "[]"]
    unfolding Let_def by (simp only: fields_op_ok.simps list.pred_inject simp_thms)
qed

subsection \<open>Headers that are reported in pieces\<close>

definition header_callbacks :: "bytes list \<times> bytes list \<Rightarrow> parser_callback list" where
  "header_callbacks h = map On_header_field (fst h) @ map On_header_value (snd h)"

definition set_fields :: "fields \<Rightarrow> http_parser_ctx \<Rightarrow> http_parser_ctx" where
  "set_fields fs ctx = ctx\<lparr>m_header := (m_header ctx)\<lparr>m_fields := fs\<rparr>\<rparr>"

lemma run_callbacks_append:
  "run_callbacks as ctx = (Inr (), ctx') \<Longrightarrow> run_callbacks (as @ bs) ctx = run_callbacks bs ctx'"
  by (induction as arbitrary: ctx) (auto simp: comp_defs split: prod.splits sum.splits)

lemma name_pieces:
  "\<not> m_last_was_value ctx \<Longrightarrow> run_callbacks (map On_header_field ns) ctx
    = (Inr (), ctx\<lparr>m_current_field_name := m_current_field_name ctx @ concat ns\<rparr>)"
  by (induction ns arbitrary: ctx) (simp_all add: comp_defs restinio_header_field_cb_def)

lemma value_pieces:
  "m_last_was_value ctx \<Longrightarrow> m_fields (m_header ctx) = fs @ [f] \<Longrightarrow> run_callbacks (map On_header_value vs) ctx
    = (Inr (), set_fields (fs @ [field_append_value (concat vs) f]) ctx)"
proof (induction vs arbitrary: ctx f)
  case Nil
  then show ?case by (simp add: comp_defs set_fields_def field_append_value_def)
next
  case (Cons v vs)
  have "run_callback (On_header_value v) ctx = (Inr (), set_fields (fs @ [field_append_value v f]) ctx)"
    using Cons.prems by (simp add: restinio_header_value_cb_def comp_defs append_last_field_def set_fields_def)
  moreover have "run_callbacks (map On_header_value vs) (set_fields (fs @ [field_append_value v f]) ctx)
      = (Inr (), set_fields (fs @ [field_append_value (concat vs) (field_append_value v f)])
          (set_fields (fs @ [field_append_value v f]) ctx))"
    using Cons.prems(1) by (intro Cons.IH) (simp_all add: set_fields_def)
  ultimately show ?case by (simp add: comp_defs set_fields_def field_append_value_def)
qed

lemma header_callbacks_run:
  assumes "m_last_was_value ctx" "ns \<noteq> []"
  shows "run_callbacks (header_callbacks (ns, v # vs)) ctx
    = run_callbacks (map On_header_value vs)
        (set_fields (set_field (concat ns) v (m_fields (m_header ctx))) ctx\<lparr>m_current_field_name := []\<rparr>)"
proof -
  obtain n ns' where ns: "ns = n # ns'" using assms(2) by (cases ns) auto
  have "run_callbacks (map On_header_field ns) ctx
      = (Inr (), ctx\<lparr>m_last_was_value := False, m_current_field_name := concat ns\<rparr>)"
    using name_pieces [of "ctx\<lparr>m_current_field_name := n, m_last_was_value := False\<rparr>" ns'] assms(1)
    by (simp add: ns comp_defs restinio_header_field_cb_def)
  from run_callbacks_append [OF this] show ?thesis using assms(1)
    by (cases ctx) (simp add: header_callbacks_def comp_defs restinio_header_value_cb_def set_fields_def)
qed

definition piece_ok :: "bytes list \<times> bytes list \<Rightarrow> bool" where
  "piece_ok h \<longleftrightarrow> fst h \<noteq> [] \<and> snd h \<noteq> []"

definition received :: "bytes list \<times> bytes list \<Rightarrow> http_header_field" where
  "received h = header_field (concat (fst h)) (concat (snd h))"

lemma one_header:
  assumes "m_last_was_value ctx" "piece_ok h" "fields_ok (m_fields (m_header ctx))"
    "hf_key (received h) \<notin> hf_key ` set (m_fields (m_header ctx))"
  shows "run_callbacks (header_callbacks h) ctx
    = (Inr (), set_fields (m_fields (m_header ctx) @ [received h]) ctx\<lparr>m_current_field_name := []\<rparr>)"
proof -
  obtain ns v vs where h: "h = (ns, v # vs)" "ns \<noteq> []" using assms(2) by (cases h; cases "snd h") (auto simp: piece_ok_def)
  let ?fs = "m_fields (m_header ctx)"
  have "lower (concat ns) \<notin> hf_key ` set ?fs" using assms(4) by (simp add: h received_def hf_key_def header_field_def)
  then have "set_field (concat ns) v ?fs = ?fs @ [header_field (concat ns) v]"
    using find_by_name_cases [OF assms(3), of "concat ns"] by (fastforce simp: set_field_def)
  then show ?thesis
    using value_pieces [of "set_fields (?fs @ [header_field (concat ns) v]) ctx\<lparr>m_current_field_name := []\<rparr>" ?fs
        "header_field (concat ns) v" vs] assms(1)
    by (simp add: h(1) header_callbacks_run [OF assms(1) h(2)] set_fields_def field_append_value_def received_def header_field_def)
qed

lemma all_headers:
  assumes "m_last_was_value ctx" "list_all piece_ok hs" "fields_ok (m_fields (m_header ctx))"
    "distinct (map hf_key (m_fields (m_header ctx) @ map received hs))"
  shows "\<exists>ctx'. run_callbacks (concat (map header_callbacks hs)) ctx = (Inr (), ctx')
    \<and> m_fields (m_header ctx') = m_fields (m_header ctx) @ map received hs"
  using assms
proof (induction hs arbitrary: ctx)
  case (Cons h hs)
  let ?ctx = "set_fields (m_fields (m_header ctx) @ [received h]) ctx\<lparr>m_current_field_name := []\<rparr>"
  have one: "run_callbacks (header_callbacks h) ctx = (Inr (), ?ctx)"
    using Cons.prems by (intro one_header) auto
  have "\<exists>ctx'. run_callbacks (concat (map header_callbacks hs)) ?ctx = (Inr (), ctx')
    \<and> m_fields (m_header ctx') = m_fields (m_header ?ctx) @ map received hs"
  proof (rule Cons.IH)
    show "fields_ok (m_fields (m_header ?ctx))" using Cons.prems(3,4)
      by (simp add: set_fields_def fields_ok_def received_def header_field_def)
  qed (use Cons.prems in \<open>simp_all add: set_fields_def\<close>)
  then show ?case using run_callbacks_append [OF one] by (simp add: set_fields_def)
qed (simp add: comp_defs)

text \<open>
  C24. The fields of a request do not depend on the pieces in which the parser reports the names and the
  values, when no name is repeated.\<close>

theorem headers_chunking:
  assumes "list_all piece_ok hs" "distinct (map (\<lambda>h. lower (concat (fst h))) hs)"
  shows "\<exists>ctx. run_callbacks (concat (map header_callbacks hs)) parser_ctx_new = (Inr (), ctx)
    \<and> m_fields (m_header ctx) = map (\<lambda>h. header_field (concat (fst h)) (concat (snd h))) hs"
proof -
  have "map hf_key (map received hs) = map (\<lambda>h. lower (concat (fst h))) hs"
    by (simp add: received_def hf_key_def header_field_def)
  then have d: "distinct (map hf_key (map received hs))" using assms(2) by (simp only:)
  have new: "m_last_was_value parser_ctx_new" "m_fields (m_header parser_ctx_new) = []"
    by (simp_all add: parser_ctx_new_def request_header_new_def)
  show ?thesis using all_headers [OF new(1) assms(1)] d
    unfolding new(2) received_def [abs_def] by (simp only: fields_ok_Nil append_Nil simp_thms)
qed

lemma headers_chunking_witness:
  "\<exists>ctx. run_callbacks (concat (map header_callbacks [([lit ''Ho'', lit ''st''], [lit ''a'', lit ''b'']), ([lit ''X''], [[]])]))
      parser_ctx_new = (Inr (), ctx)
    \<and> m_fields (m_header ctx) = map (\<lambda>h. header_field (concat (fst h)) (concat (snd h)))
        [([lit ''Ho'', lit ''st''], [lit ''a'', lit ''b'']), ([lit ''X''], [[]])]"
proof (rule headers_chunking)
  show "list_all piece_ok [([lit ''Ho'', lit ''st''], [lit ''a'', lit ''b'']), ([lit ''X''], [[]])]" by (simp add: piece_ok_def)
  have "lower (lit ''Host'') \<noteq> lower (lit ''X'')" by (simp add: lit_def lower_def)
  then show "distinct (map (\<lambda>h. lower (concat (fst h))) [([lit ''Ho'', lit ''st''], [lit ''a'', lit ''b'']), ([lit ''X''], [[]])])"
    by (auto simp: lit_def)
qed

text \<open>When every name and every value is reported in one piece the last value of a name is kept.\<close>

lemma whole_headers:
  assumes "m_last_was_value ctx"
  shows "\<exists>ctx'. run_callbacks (concat (map (\<lambda>(n, v). [On_header_field n, On_header_value v]) kvs)) ctx = (Inr (), ctx')
    \<and> m_fields (m_header ctx') = fold (\<lambda>(n, v). set_field n v) kvs (m_fields (m_header ctx))"
  using assms
proof (induction kvs arbitrary: ctx)
  case (Cons kv kvs)
  obtain n v where kv: "kv = (n, v)" by (cases kv)
  let ?ctx = "set_fields (set_field n v (m_fields (m_header ctx))) ctx\<lparr>m_current_field_name := []\<rparr>"
  have "run_callbacks [On_header_field n, On_header_value v] ctx = (Inr (), ?ctx)"
    using header_callbacks_run [OF Cons.prems, of "[n]" v "[]"] by (simp add: header_callbacks_def comp_defs)
  from run_callbacks_append [OF this] show ?case
    using Cons.IH [of ?ctx] Cons.prems by (simp add: kv set_fields_def)
qed (simp add: comp_defs)

lemma last_value_kept:
  "\<exists>ctx. run_callbacks (concat (map (\<lambda>(n, v). [On_header_field n, On_header_value v]) kvs)) parser_ctx_new = (Inr (), ctx)
    \<and> (\<forall>k. try_get_field k (m_fields (m_header ctx)) = map_of (rev (map (apfst lower) kvs)) (lower k))"
proof -
  have "m_last_was_value parser_ctx_new" "m_fields (m_header parser_ctx_new) = []"
    by (simp_all add: parser_ctx_new_def request_header_new_def)
  then show ?thesis
    using whole_headers [of parser_ctx_new kvs] hf.get_puts [OF fields_ok_Nil, of _ kvs] try_get_field_map [OF fields_ok_Nil]
    by (fastforce split: option.splits)
qed

lemma find_by_name_at:
  "lower n \<notin> hf_key ` set as \<Longrightarrow> hf_key f = lower n \<Longrightarrow> find_by_name n (as @ f # bs) = Some (length as)"
  by (subst (asm) image_iff)
    (simp add: find_by_name_def find_index_def caseless_iff hf_key_def eq_commute [of "lower n"] takeWhile_tail)

text \<open>
  A repeated field is different: it replaces the value of the first one in its place, and a second
  piece of its value is appended to the last field of the container, which is another one.\<close>

theorem repeated_header_in_pieces:
  assumes "m_last_was_value ctx" "fields_ok (m_fields (m_header ctx))"
    "m_fields (m_header ctx) = as @ f # bs @ [g]" "lower n = lower (hf_name f)"
  shows "\<exists>ctx'. run_callbacks [On_header_field n, On_header_value v, On_header_value w] ctx = (Inr (), ctx')
    \<and> try_get_field n (m_fields (m_header ctx')) = Some v
    \<and> try_get_field (hf_name g) (m_fields (m_header ctx')) = Some (hf_value g @ w)"
proof -
  let ?fs = "m_fields (m_header ctx)" and ?f = "(field_set_name n f)\<lparr>hf_value := v\<rparr>" and ?g = "field_append_value w g"
  have key: "hf_key f = lower n" using assms(4) by (simp add: hf_key_def)
  have d: "lower n \<notin> hf_key ` set as" "lower n \<notin> hf_key ` set (bs @ [g])" "hf_key g \<notin> hf_key ` set (as @ f # bs)"
    using assms(2) by (auto simp: fields_ok_def assms(3) key [symmetric])
  have "set_field n v ?fs = as @ ?f # bs @ [g]"
    using find_by_name_at [OF d(1) key, of "bs @ [g]"] by (simp add: set_field_def assms(3))
  then have run: "run_callbacks [On_header_field n, On_header_value v, On_header_value w] ctx
      = (Inr (), set_fields (as @ ?f # bs @ [?g]) ctx\<lparr>m_current_field_name := []\<rparr>)"
    using header_callbacks_run [of ctx "[n]" v "[w]"] assms(1)
      value_pieces [of "set_fields (as @ ?f # bs @ [g]) ctx\<lparr>m_current_field_name := []\<rparr>" "as @ ?f # bs" g "[w]"]
    by (simp add: header_callbacks_def set_fields_def)
  have f: "hf_key ?f = lower n" and g: "hf_key ?g = lower (hf_name g)"
    by (simp_all add: hf_key_def field_set_name_def field_append_value_def)
  have "lower (hf_name g) \<notin> hf_key ` set (as @ ?f # bs)"
    using d(3) f key by (auto simp: hf_key_def [of g])
  then have "find_by_name (hf_name g) (as @ ?f # bs @ [?g]) = Some (length (as @ ?f # bs))"
    using find_by_name_at [OF _ g, of "as @ ?f # bs" "[]"] by simp
  then have "try_get_field (hf_name g) (as @ ?f # bs @ [?g]) = Some (hf_value g @ w)"
    by (simp add: try_get_field_def nth_append field_append_value_def)
  moreover have "try_get_field n (as @ ?f # bs @ [?g]) = Some v"
    using find_by_name_at [OF d(1) f, of "bs @ [?g]"] by (simp add: try_get_field_def)
  ultimately show ?thesis using run by (simp add: set_fields_def)
qed

lemma repeated_header_in_pieces_witness:
  "\<exists>ctx'. run_callbacks [On_header_field (lit ''a''), On_header_value (lit ''3''), On_header_value (lit ''4'')]
      (set_fields [header_field (lit ''A'') (lit ''1''), header_field (lit ''Bb'') (lit ''2'')] parser_ctx_new) = (Inr (), ctx')
    \<and> try_get_field (lit ''a'') (m_fields (m_header ctx')) = Some (lit ''3'')
    \<and> try_get_field (hf_name (header_field (lit ''Bb'') (lit ''2''))) (m_fields (m_header ctx'))
        = Some (hf_value (header_field (lit ''Bb'') (lit ''2'')) @ lit ''4'')"
proof (rule repeated_header_in_pieces [where as = "[]" and bs = "[]"])
  let ?ctx = "set_fields [header_field (lit ''A'') (lit ''1''), header_field (lit ''Bb'') (lit ''2'')] parser_ctx_new"
  have "lower (lit ''A'') \<noteq> lower (lit ''Bb'')" by (simp add: lit_def lower_def)
  then show "fields_ok (m_fields (m_header ?ctx))" by (simp add: set_fields_def fields_ok_def header_field_def hf_key_def)
  show "lower (lit ''a'') = lower (hf_name (header_field (lit ''A'') (lit ''1'')))"
    by (simp add: header_field_def lower_def lit_def to_lower_eq)
qed (simp_all add: set_fields_def parser_ctx_new_def)

end
