(* ===== verification/Restinio_Response_Header.thy ===== *)
theory Restinio_Response_Header
  imports Restinio_Headers Std_Strings
begin

text \<open>
  The header of a response: \<open>http_status_code_t\<close>, the statuses, \<open>http_header_common_t\<close> and
  \<open>http_response_header_t\<close> of \<open>http_headers.hpp\<close>; \<open>impl/header_helpers.hpp\<close>: its text, and the size
  that is reserved for it.
\<close>

subsection \<open>Statuses\<close>

type_synonym http_status_code = u16

definition status_code_eq :: "http_status_code \<Rightarrow> http_status_code \<Rightarrow> bool" where
  "status_code_eq this sc \<longleftrightarrow> this = sc"

definition status_code_neq :: "http_status_code \<Rightarrow> http_status_code \<Rightarrow> bool" where
  "status_code_neq this sc \<longleftrightarrow> sc \<noteq> sc"

definition status_code_less :: "http_status_code \<Rightarrow> http_status_code \<Rightarrow> bool" where
  "status_code_less this sc \<longleftrightarrow> sc < sc"

text \<open>The constants of the namespace \<open>status_code\<close>; the functions that give the status lines, each with the
  name of its code and its phrase.\<close>

definition status_codes :: "(string \<times> http_status_code) list" where
  "status_codes = [
    (''continue_'', 100), (''switching_protocols'', 101), (''ok'', 200), (''created'', 201),
     (''accepted'', 202), (''non_authoritative_information'', 203), (''no_content'', 204),
     (''reset_content'', 205), (''partial_content'', 206), (''multiple_choices'', 300),
     (''moved_permanently'', 301), (''found'', 302), (''see_other'', 303), (''not_modified'', 304),
     (''use_proxy'', 305), (''temporary_redirect'', 307), (''bad_request'', 400), (''unauthorized'', 401),
     (''payment_required'', 402), (''forbidden'', 403), (''not_found'', 404),
     (''method_not_allowed'', 405), (''not_acceptable'', 406), (''proxy_authentication_required'', 407),
     (''request_time_out'', 408), (''conflict'', 409), (''gone'', 410), (''length_required'', 411),
     (''precondition_failed'', 412), (''payload_too_large'', 413), (''uri_too_long'', 414),
     (''unsupported_media_type'', 415), (''requested_range_not_satisfiable'', 416),
     (''expectation_failed'', 417), (''internal_server_error'', 500), (''not_implemented'', 501),
     (''bad_gateway'', 502), (''service_unavailable'', 503), (''gateway_time_out'', 504),
     (''http_version_not_supported'', 505), (''permanent_redirect'', 308), (''processing'', 102),
     (''multi_status'', 207), (''unprocessable_entity'', 422), (''locked'', 423),
     (''failed_dependency'', 424), (''insufficient_storage'', 507), (''precondition_required'', 428),
     (''too_many_requests'', 429), (''request_header_fields_too_large'', 431),
     (''network_authentication_required'', 511)]"

definition status_lines :: "(string \<times> string \<times> string) list" where
  "status_lines = [
    (''status_continue'', ''continue_'', ''Continue''),
     (''status_switching_protocols'', ''switching_protocols'', ''Switching Protocols''),
     (''status_ok'', ''ok'', ''OK''), (''status_created'', ''created'', ''Created''),
     (''status_accepted'', ''accepted'', ''Accepted''),
     (''status_non_authoritative_information'', ''non_authoritative_information'', ''Non-Authoritative Information''),
     (''status_no_content'', ''no_content'', ''No Content''),
     (''status_reset_content'', ''reset_content'', ''Reset Content''),
     (''status_partial_content'', ''partial_content'', ''Partial Content''),
     (''status_multiple_choices'', ''multiple_choices'', ''Multiple Choices''),
     (''status_moved_permanently'', ''moved_permanently'', ''Moved Permanently''),
     (''status_found'', ''found'', ''Found''), (''status_see_other'', ''see_other'', ''See Other''),
     (''status_not_modified'', ''not_modified'', ''Not Modified''),
     (''status_use_proxy'', ''use_proxy'', ''Use Proxy''),
     (''status_temporary_redirect'', ''temporary_redirect'', ''Temporary Redirect''),
     (''status_bad_request'', ''bad_request'', ''Bad Request''),
     (''status_unauthorized'', ''unauthorized'', ''Unauthorized''),
     (''status_payment_required'', ''payment_required'', ''Payment Required''),
     (''status_forbidden'', ''forbidden'', ''Forbidden''),
     (''status_not_found'', ''not_found'', ''Not Found''),
     (''status_method_not_allowed'', ''method_not_allowed'', ''Method Not Allowed''),
     (''status_not_acceptable'', ''not_acceptable'', ''Not Acceptable''),
     (''status_proxy_authentication_required'', ''proxy_authentication_required'', ''Proxy Authentication Required''),
     (''status_request_time_out'', ''request_time_out'', ''Request Timeout''),
     (''status_conflict'', ''conflict'', ''Conflict''), (''status_gone'', ''gone'', ''Gone''),
     (''status_length_required'', ''length_required'', ''Length Required''),
     (''status_precondition_failed'', ''precondition_failed'', ''Precondition Failed''),
     (''status_payload_too_large'', ''payload_too_large'', ''Payload Too Large''),
     (''status_uri_too_long'', ''uri_too_long'', ''URI Too Long''),
     (''status_unsupported_media_type'', ''unsupported_media_type'', ''Unsupported Media Type''),
     (''status_requested_range_not_satisfiable'', ''requested_range_not_satisfiable'', ''Requested Range Not Satisfiable''),
     (''status_expectation_failed'', ''expectation_failed'', ''Expectation Failed''),
     (''status_internal_server_error'', ''internal_server_error'', ''Internal Server Error''),
     (''status_not_implemented'', ''not_implemented'', ''Not Implemented''),
     (''status_bad_gateway'', ''bad_gateway'', ''Bad Gateway''),
     (''status_service_unavailable'', ''service_unavailable'', ''Service Unavailable''),
     (''status_gateway_time_out'', ''gateway_time_out'', ''Gateway Timeout''),
     (''status_http_version_not_supported'', ''http_version_not_supported'', ''HTTP Version not supported''),
     (''status_permanent_redirect'', ''permanent_redirect'', ''Permanent Redirect''),
     (''status_processing'', ''processing'', ''Processing''),
     (''status_multi_status'', ''multi_status'', ''Multi-Status''),
     (''status_unprocessable_entity'', ''unprocessable_entity'', ''Unprocessable Entity''),
     (''status_locked'', ''locked'', ''Locked''),
     (''status_failed_dependency'', ''failed_dependency'', ''Failed Dependency''),
     (''status_insufficient_storage'', ''insufficient_storage'', ''Insufficient Storage''),
     (''status_precondition_required'', ''precondition_required'', ''Precondition Required''),
     (''status_too_many_requests'', ''too_many_requests'', ''Too Many Requests''),
     (''status_request_header_fields_too_large'', ''request_header_fields_too_large'', ''Request Header Fields Too Large''),
     (''status_network_authentication_required'', ''network_authentication_required'', ''Network Authentication Required'')]"

definition status_line :: "string \<Rightarrow> (http_status_code \<times> bytes) option" where
  "status_line fn = (case map_of status_lines fn of
      None \<Rightarrow> None
    | Some (name, phrase) \<Rightarrow> (case map_of status_codes name of None \<Rightarrow> None | Some c \<Rightarrow> Some (c, lit phrase)))"

subsection \<open>The header\<close>

record http_response_header =
  rh_fields :: fields
  rh_http_major :: u16
  rh_http_minor :: u16
  rh_content_length :: u64
  rh_connection :: http_connection_header_t
  rh_status_code :: http_status_code
  rh_reason_phrase :: bytes

text \<open>\<open>status_code::ok\<close> is 200.\<close>

definition response_header_new :: http_response_header where
  "response_header_new = \<lparr>rh_fields = [], rh_http_major = 1, rh_http_minor = 1, rh_content_length = 0,
     rh_connection = close_connection, rh_status_code = 200, rh_reason_phrase = []\<rparr>"

definition response_header :: "http_status_code \<times> bytes \<Rightarrow> http_response_header" where
  "response_header line = response_header_new\<lparr>rh_status_code := fst line, rh_reason_phrase := snd line\<rparr>"

datatype content_length_field_presence_t = add_content_length | skip_content_length

definition calculate_approx_buffer_size_for_header :: "http_response_header \<Rightarrow> nat" where
  "calculate_approx_buffer_size_for_header h =
     13 + (length (rh_reason_phrase h) + 2) + 26 + (20 + 18) + 2
     + sum_list (map (\<lambda>f. length (hf_name f) + 2 + length (hf_value f) + 2) (rh_fields h))"

definition crlf :: bytes where
  "crlf = [0x0D, 0x0A]"

text \<open>The character of an \<open>int\<close> is its last byte.\<close>

definition int_char :: "nat \<Rightarrow> u8" where
  "int_char n = word_of_nat (0x30 + n)"

definition connection_string :: "http_connection_header_t \<Rightarrow> bytes" where
  "connection_string c = (case c of
      keep_alive \<Rightarrow> lit ''Connection: keep-alive'' @ crlf
    | close_connection \<Rightarrow> lit ''Connection: close'' @ crlf
    | upgrade_connection \<Rightarrow> lit ''Connection: Upgrade'' @ crlf)"

definition create_header_string :: "http_response_header \<Rightarrow> content_length_field_presence_t \<Rightarrow> bytes" where
  "create_header_string h content_length_field_presence =
     (let sc = unat (rh_status_code h)
      in lit ''HTTP/'' @ [int_char (unat (rh_http_major h))] @ lit ''.'' @ [int_char (unat (rh_http_minor h))] @ lit '' ''
        @ [int_char (sc div 100 mod 10), int_char (sc div 10 mod 10), int_char (sc mod 10)]
        @ lit '' '' @ rh_reason_phrase h @ crlf
        @ connection_string (rh_connection h)
        @ (if content_length_field_presence = add_content_length
           then lit ''Content-Length: '' @ lit (dec_string (uint (rh_content_length h))) @ crlf else [])
        @ concat (map (\<lambda>f. hf_name f @ lit '': '' @ hf_value f @ crlf) (rh_fields h))
        @ crlf)"

definition create_not_implemented_resp :: "bytes list" where
  "create_not_implemented_resp =
     [lit ''HTTP/1.1 501 Not Implemented'' @ crlf @ lit ''Connection: close'' @ crlf @ lit ''Content-Length: 0'' @ crlf @ crlf]"

definition create_timeout_resp :: "bytes list" where
  "create_timeout_resp =
     [lit ''HTTP/1.1 504 Gateway Time-out'' @ crlf @ lit ''Connection: close'' @ crlf @ lit ''Content-Length: 0'' @ crlf @ crlf]"

subsection \<open>The size of the text\<close>

lemma length_lit [simp]: "length (lit s) = length s"
  by (simp add: lit_def)

lemma length_crlf [simp]: "length crlf = 2"
  by (simp add: crlf_def)

lemma dec_string_length:
  assumes "0 \<le> n" "n < 10 ^ Suc k"
  shows "length (dec_string n) \<le> Suc k"
  using assms
proof (induction k arbitrary: n)
  case (Suc k)
  have "n div 10 < 10 ^ Suc k" using Suc.prems(2) by simp
  then show ?case using Suc.IH [of "n div 10"] Suc.prems(1) by (subst dec_string.simps) auto
qed (simp add: dec_string.simps)

lemma fields_length:
  "length (concat (map (\<lambda>f. hf_name f @ lit '': '' @ hf_value f @ crlf) fs))
    = sum_list (map (\<lambda>f. length (hf_name f) + 2 + length (hf_value f) + 2) fs)"
  by (induction fs) simp_all

text \<open>
  The size that is reserved is enough for the text of every header, whatever its fields and its length
  of content.\<close>

theorem header_fits_buffer:
  "length (create_header_string h p) \<le> calculate_approx_buffer_size_for_header h"
proof -
  have "uint (rh_content_length h) < 10 ^ Suc 19" using uint_lt2p [of "rh_content_length h"] by simp
  then have "length (dec_string (uint (rh_content_length h))) \<le> 20"
    using dec_string_length [of "uint (rh_content_length h)" 19] by simp
  moreover have "length (connection_string (rh_connection h)) \<le> 26"
    by (cases "rh_connection h") (simp_all add: connection_string_def)
  ultimately show ?thesis
    by (simp add: create_header_string_def calculate_approx_buffer_size_for_header_def Let_def fields_length)
qed

lemma three_digits:
  assumes "100 \<le> n" "n < 1000"
  shows "dec_string n = [digit_char (n div 100), digit_char (n div 10 mod 10), digit_char (n mod 10)]"
proof -
  have "dec_string (n div 100) = [digit_char (n div 100)]" using assms by (simp add: dec_string.simps)
  moreover have "dec_string (n div 10) = dec_string (n div 100) @ [digit_char (n div 10 mod 10)]"
    using assms by (simp add: dec_string.simps [of "n div 10"] zdiv_zmult2_eq [symmetric])
  ultimately show ?thesis using assms by (simp add: dec_string.simps [of n])
qed

lemma lit_digit:
  assumes "d < 10"
  shows "lit [digit_char (int d)] = [int_char d]"
proof -
  have "list_all (\<lambda>d. lit [digit_char (int d)] = [int_char d]) [0..<10]"
    by (simp add: upt_conv_Cons lit_def digit_char_def int_char_def char_of_def)
  then show ?thesis using assms by (simp add: list_all_iff)
qed

lemma lit_append: "lit (a @ b) = lit a @ lit b"
  by (simp add: lit_def)

text \<open>
  A status code of three digits is written as its decimal digits, after the version and before the
  phrase.\<close>

theorem status_line_correct:
  assumes "100 \<le> unat (rh_status_code h)" "unat (rh_status_code h) < 1000" "rh_http_major h = 1" "rh_http_minor h = 1"
  shows "\<exists>rest. create_header_string h p
    = lit ''HTTP/1.1 '' @ lit (dec_string (uint (rh_status_code h))) @ lit '' '' @ rh_reason_phrase h @ crlf @ rest"
proof -
  obtain sc where sc: "unat (rh_status_code h) = sc" "uint (rh_status_code h) = int sc" by simp
  have lim: "100 \<le> sc" "sc < 1000" using assms(1,2) sc(1) by simp_all
  have "dec_string (int sc)
      = [digit_char (int (sc div 100))] @ [digit_char (int (sc div 10 mod 10))] @ [digit_char (int (sc mod 10))]"
    using three_digits [of "int sc"] lim by (simp add: zdiv_int zmod_int)
  moreover have "sc div 100 < 10" using lim(2) by simp
  ultimately have "lit (dec_string (int sc)) = [int_char (sc div 100), int_char (sc div 10 mod 10), int_char (sc mod 10)]"
    by (simp add: lit_append lit_digit del: append_Cons)
  moreover have "sc div 100 mod 10 = sc div 100" using lim(2) by simp
  moreover have "lit ''HTTP/1.1 '' = lit ''HTTP/'' @ [int_char 1] @ lit ''.'' @ [int_char 1] @ lit '' ''"
    by (simp add: lit_def int_char_def)
  ultimately show ?thesis using assms(3,4) by (simp add: create_header_string_def Let_def sc)
qed

lemma status_line_correct_witness:
  "\<exists>rest. create_header_string (response_header (404, lit ''Not Found'')) add_content_length
    = lit ''HTTP/1.1 '' @ lit (dec_string (uint (rh_status_code (response_header (404, lit ''Not Found'')))))
      @ lit '' '' @ rh_reason_phrase (response_header (404, lit ''Not Found'')) @ crlf @ rest"
  by (rule status_line_correct) (simp_all add: response_header_def response_header_new_def)

text \<open>
  Two status codes are never different for \<open>!=\<close> and never ordered by \<open><\<close>: both compare the argument
  with itself.\<close>

lemma status_codes_never_differ: "\<not> status_code_neq a b \<and> \<not> status_code_less a b"
  by (simp add: status_code_neq_def status_code_less_def)

end
