(* ===== verification/Spec2Isabelle.thy ===== *)
theory Spec2Isabelle
  imports Prelude Std_Strings Float32 Circular_Buffer Camera_Events HSM HSM_Spec HSM_Correct
    String_Conversion GPhoto Camera_Widget Camera_Wrapper Sim_Camera Camera_Resources Logger
    Event_Logger Event_Broker Event_Sniffer Event_Injector Sync_Queue Active_Object
    Camera_Controller Controller_Spec Controller_Props Controller_Events
    Cxxopts_Values Cxxopts_Options Cxxopts_Help Cxxopts_Parse Cxxopts_Correct Cxxopts_Settings
    Read_Options App_Main Library_Policy Camera_Files
    Restinio_Bytes Restinio_Base64 Restinio_Utf8 Restinio_Frames Restinio_Validator
    Restinio_Buffers Restinio_Coordinator Restinio_Ws_Connection Restinio_Ws_Props Restinio_Ws_Reading
    Restinio_Percent Restinio_Uri Restinio_Sha1 Restinio_Response_Header
begin

text \<open>
  A model of the camera controller, the C++ program under \<open>src/src\<close>, and the theorems that
  make it correct.

  \<^bold>\<open>The program.\<close> A digital camera is driven through libgphoto2. \<open>CameraWrapper\<close> and the widget
  classes wrap the C library; \<open>CameraController\<close> is a hierarchical state machine with a
  thread and an event queue that connects, configures, captures and downloads on command; the
  \<open>EventBroker\<close> carries events between the parts, and a sniffer logs them all. \<open>main\<close> wires
  these parts together with a console from which events can be injected, after the header-only
  library \<open>cxxopts\<close>, which is part of the sources, has parsed its command line.

  \<^bold>\<open>How it is modelled.\<close> A member function is a computation of type \<open>('s, 'a) comp\<close> (theory
  \<open>Prelude\<close>): it takes the object and returns a result or an exception, and the object as it
  leaves it, also when it throws. \<open>bnd\<close>, \<open>sq\<close>, \<open>try_catch\<close>, \<open>with_destructor\<close> and \<open>on_member\<close> compose
  computations as the code does. Besides the C++ exceptions the sum type carries a failed
  \<open>assert\<close>, undefined behaviour (a string literal says which) and a loop out of fuel.
  Integers are words where they wrap (signals, topics, identifiers, delays) and \<open>int\<close> with the
  range of the C++ type checked elsewhere; floats are binary32 with rounding.

  libgphoto2 and the file system are the record \<open>'g gphoto\<close> of functions on an unknown state
  \<open>'g\<close>, an argument of every definition that calls them: the theorems hold for every library or
  name what they need of it. Where a witness needs a library, it is \<open>sim_lib\<close>.

  \<^bold>\<open>The theories.\<close>

  \<^item> \<open>Prelude\<close>, \<open>Std_Strings\<close>, \<open>Float32\<close>: computations, the rules \<open>keeps\<close>/\<open>throws\<close> for what they
    preserve and throw, weakest preconditions \<open>wp\<close> and the loop \<open>rounds\<close> with its termination rule; \<open>stoi\<close>, \<open>to_string\<close>, \<open>substr\<close>; \<open>stof\<close>, float arithmetic and printing.

  \<^item> \<open>Circular_Buffer\<close> (\<open>collections/CircularBuffer.h\<close>): the ring with its two pointers and the
    \<open>empty\<close> flag. \<open>contents\<close> abstracts it to a list; the operations refine the list's, through the
    locale \<open>bounded_queue\<close>.

  \<^item> \<open>Camera_Events\<close> (\<open>events/Event.h\<close>, \<open>cameracontroller/Events.h\<close>, \<open>CCEvents.h/.cpp\<close>,
    \<open>CameraData.h\<close>): signals, topics and the event classes as constructors; a
    \<open>static_pointer_cast\<close> to a class the event does not have is undefined.

  \<^item> \<open>HSM\<close> (\<open>events/HSM.h\<close>): \<open>handleEvent\<close> and \<open>init\<close> loop by loop, with the five-element path.
    \<open>HSM_Spec\<close> states the semantics of hierarchical state machines without the path: exit up
    to the least common superstate, enter down, initial transitions; the locale \<open>hsm_tree\<close> is the
    contract of the handlers. \<open>HSM_Correct\<close> proves that the engine refines it. A fuel of
    \<open>HSM_MAX_NEST_DEPTH\<close> suffices for every loop, since each climbs or descends the tree.

  \<^item> \<open>GPhoto\<close>, \<open>Camera_Widget\<close>, \<open>Camera_Wrapper\<close> (\<open>camera/\<close>): the library's interface, the widget
    classes with their destructor, and every member function of \<open>CameraWrapper\<close>.
    \<open>Camera_Resources\<close> runs them over a library that keeps books of open widgets and freed
    handles, and shows that no widget leaks and no freed handle is used, and when one is.
    \<open>String_Conversion\<close>: exposure times, apertures and the nearest option.

  \<^item> \<open>Logger\<close>, \<open>Event_Logger\<close> (\<open>utils/logger.h\<close>, \<open>EventLogger.cpp\<close>): streams and levels, and the
    callback that logs every event.

  \<^item> \<open>Event_Broker\<close>, \<open>Event_Sniffer\<close>, \<open>Event_Injector\<close>: the publish-subscribe hub with its queue of
    delayed events (what it needs of its subscribers is the locale \<open>event_sink\<close>), the sniffer and
    the console.

  \<^item> \<open>Sync_Queue\<close>, \<open>Active_Object\<close> (\<open>collections/SyncQueue.h\<close>, \<open>async/ActiveObject.h\<close>,
    \<open>events/EventHandler.h\<close>): the parts with threads, as step relations over all interleavings.

  \<^item> \<open>Camera_Controller\<close> (\<open>cameracontroller/cameramanager\<close>): the controller's members, actions and
    state handlers, run on the engine. \<open>Controller_Spec\<close> gives the flat machine \<open>react\<close> and shows
    that the controller is it, by interpreting \<open>hsm_tree\<close>. \<open>Controller_Props\<close> and
    \<open>Controller_Events\<close> derive from the flat machine: the next state, the invariant and the
    exceptions of whole runs, deferred commands, resources, answers, and the situations the code
    does not get out of.

  \<^item> \<open>Cxxopts_Values\<close>, \<open>Cxxopts_Options\<close>, \<open>Cxxopts_Help\<close>, \<open>Cxxopts_Parse\<close> (\<open>libs/cxxopts/cxxopts.hpp\<close>): the
    exceptions, the parsers of values and the class \<open>Value\<close>; the table of options and how it is
    filled; the help text; the parser of the argument vector, loop by loop. A \<open>shared_ptr\<close> to the
    details of an option is an index; the regular expressions are written out as matchers,
    whose languages are theorems. The loops of \<open>parse\<close> get one round more than the vector is long,
    which suffices since every round moves \<open>current\<close>. \<open>Cxxopts_Correct\<close> shows what holds of every run:
    it ends, throws only the library's exceptions, keeps the types and the counts and leaves
    the remaining arguments in order; \<open>Cxxopts_Settings\<close> shows what is parsed: settings come back.

  \<^item> \<open>Read_Options\<close>, \<open>App_Main\<close> (\<open>main.cpp\<close>): the program's command line; start, clean-up, and the
    running program as a reachability relation; everything the controller is given is logged,
    and \<open>main\<close> never returns.

  \<^item> \<open>Library_Policy\<close>, \<open>Camera_Files\<close>: the locale \<open>library_policy\<close> is a contract on the library under
    which all camera operations keep a predicate of its state; it is interpreted on a library
    that records the files it is asked to open, which gives what the running program writes.

  \<^item> \<open>Restinio_Bytes\<close>, \<open>Restinio_Base64\<close>, \<open>Restinio_Utf8\<close>, \<open>Restinio_Frames\<close>, \<open>Restinio_Validator\<close>,
    \<open>Restinio_Buffers\<close>, \<open>Restinio_Coordinator\<close> (\<open>libs/restinio\<close>): the parts of the bundled HTTP and WebSocket
    library that compute on bytes and queues: base64 (\<open>utils/base64.hpp\<close>) and the UTF-8 checker
    (\<open>utils/utf8_checker.hpp\<close>) against the definitions of these formats; the parser and writer of
    WebSocket frame headers (\<open>ws_parser.hpp\<close>) and the protocol validator (\<open>ws_protocol_validator.hpp\<close>),
    which are composed to the verdict on a fragmented, masked text message; write groups and
    their output (\<open>buffers.hpp\<close>, \<open>write_group_output_ctx.hpp\<close>) and the coordinator of pipelined responses
    (\<open>response_coordinator.hpp\<close>), a ring that is shown to be a queue and to keep the order of the requests.

  \<^item> \<open>Restinio_Ws_Connection\<close> (\<open>ws_connection.hpp\<close>, \<open>websocket.hpp\<close>): the WebSocket connection that composes these
    parts: asynchronous operations are pending operations of the state, their completions events, and
    the user's handler is a function that may call back into the connection. \<open>Restinio_Ws_Props\<close>: the
    contract of the handler is the locale \<open>ws_user\<close>, interpreted on all users that react with actions
    of the handle \<open>ws_t\<close>; what is sent is a prefix of what was accepted, and nothing follows a close frame. \<open>Restinio_Ws_Reading\<close>
    shows that the completion handlers of reads never throw: \<open>between\<close> and \<open>within\<close> frames the parser and the
    validator are in the states the calls need, and a fuel of 16 rounds suffices, since each takes at
    least a byte of the input buffer of 14; and a situation in which the connection stops reading.

  \<^item> \<open>Restinio_Percent\<close> (\<open>utils/percent_encoding.hpp\<close>) and \<open>Restinio_Uri\<close> (\<open>uri_helpers.hpp\<close>): escaping, unescaping,
    normalisation, and the parser of query strings. \<open>do_unescape\<close> is one loop over a collector, as
    the template is; the lemma \<open>do_unescape_list\<close> says what it collects for every collector that stays behind
    the reader, which covers unescaping in place, where the two share the buffer. The locales
    \<open>unescape_traits\<close> and \<open>query_traits\<close> are the contracts of the traits for which escaping can be undone,
    interpreted on the default, the JavaScript and the form traits; the relaxed ones do not satisfy them.

  \<^item> \<open>Restinio_Field_Names\<close>, \<open>Restinio_Headers\<close> and \<open>Restinio_Response_Header\<close> (\<open>http_headers.hpp\<close>,
    \<open>impl/parser_callbacks.ipp\<close>, \<open>impl/header_helpers.hpp\<close>): the tables of names and the lookup by length, the
    container of fields with the header of a request and the callbacks the HTTP parser, a third-party
    library, makes; status lines and the text of the header of a response. The container refines a map
    whose keys are names in lower case (the locale \<open>caseless_map\<close>), by name and by id; fields and the request
    target do not depend on the pieces in which they arrive, except for the value of a repeated header,
    whose second piece goes to another field, and the last value of a name is kept; the size reserved for a response header is enough.
  \<^item> \<open>Restinio_Sha1\<close> (\<open>utils/sha1.hpp\<close>): the 80 calls of the rounds, in which the variables change places and the
    block is a ring, are shown to be the steps of FIPS 180-4 (\<open>window\<close> and \<open>aligned\<close> relate the two), and
    what the builder has \<open>absorbed\<close> does not depend on how the text was cut.

  \<^bold>\<open>Atomicity.\<close> The broker and the logger lock a mutex in every member function, so each call is one
  step. The controller's state is touched by its own thread only, except for its queue. What can
  go wrong between the steps is modelled where the code relies on it: the monitor of the
  queue, and the shutdown of the handler and of the broker. The unsynchronised flags of
  \<open>ActiveObject\<close> are taken as atomic.

  \<^bold>\<open>Not modelled.\<close> Log output that nothing depends on inside the controller and the wrapper; the
  prompts of the injector; of \<open>cxxopts\<close>, values stored in a variable of the caller (\<open>value(T&)\<close>) and types
  read by a string stream, which the program does not use; the singleton template; the Python script
  that generates \<open>CCEvents\<close>; the rest of \<open>libs/restinio\<close> (which the
  program does not include): the server on asio, settings, routers, parsers of the values of header fields and templates
  over third-party code; \<open>libs/catch2\<close>, which only the tests include, and the tests. \<open>postDelayed\<close> is modelled although the program never calls it.
\<close>

end
